(* ===== verification/Prelude.thy ===== *)
theory Prelude
  imports Main "HOL-Library.Monad_Syntax"
begin

text \<open>
  Shared vocabulary of the development: bounds-checked array access, checked 32-bit signed
  arithmetic, 8-bit truncation, the counting, filling and maximum loops that \<open>game.c\<close> writes as
  \<open>for\<close> loops over players or rounds, and the cyclic seat distance used by the turn-order proofs.

  Conventions.  A C array of fixed size is a list of that length.  An execution that C leaves
  undefined (an index outside an array, a signed overflow) or that a failed \<open>assert\<close> aborts is the
  value \<open>None\<close> of an \<open>option\<close>; a defined execution is \<open>Some\<close> of its result.  Reads whose index is
  bounded by the loop that makes them use \<open>xs ! i\<close> directly; the shape invariants of the component
  theories state that those indices are in range.
\<close>

named_theorems cdefs \<open>definitions of straight-line operations, unfolded by component proofs\<close>
named_theorems shape_simps \<open>facts on the lengths of the arrays of a state\<close>

section \<open>Arrays\<close>

definition rd :: "'a list \<Rightarrow> nat \<Rightarrow> 'a option" where
  "rd xs i = (if i < length xs then Some (xs ! i) else None)"

definition wr :: "'a list \<Rightarrow> nat \<Rightarrow> 'a \<Rightarrow> 'a list option" where
  "wr xs i v = (if i < length xs then Some (xs[i := v]) else None)"

lemma rd_Some_iff: "rd xs i = Some v \<longleftrightarrow> i < length xs \<and> v = xs ! i"
  by (auto simp: rd_def)

lemma wr_Some_iff: "wr xs i v = Some ys \<longleftrightarrow> i < length xs \<and> ys = xs[i := v]"
  by (auto simp: wr_def)

lemma rd_in_range [simp]: "i < length xs \<Longrightarrow> rd xs i = Some (xs ! i)"
  by (simp add: rd_def)

lemma wr_in_range [simp]: "i < length xs \<Longrightarrow> wr xs i v = Some (xs[i := v])"
  by (simp add: wr_def)

lemmas array_iffs = rd_Some_iff wr_Some_iff

text \<open>\<open>for (i = 0; i < n; ++i) xs[i] = f(i);\<close>\<close>

primrec fill :: "(nat \<Rightarrow> 'a) \<Rightarrow> nat \<Rightarrow> 'a list \<Rightarrow> 'a list" where
  "fill f 0 xs = xs"
| "fill f (Suc n) xs = (fill f n xs)[n := f n]"

lemma length_fill [simp]: "length (fill f n xs) = length xs"
  by (induction n) auto

lemma nth_fill: "i < length xs \<Longrightarrow> fill f n xs ! i = (if i < n then f i else xs ! i)"
  by (induction n) (auto simp: nth_list_update less_Suc_eq)

section \<open>Machine integers\<close>

abbreviation INT32_MAX :: int where "INT32_MAX \<equiv> 2147483647"
abbreviation INT32_MIN :: int where "INT32_MIN \<equiv> -2147483648"
abbreviation UINT8_MAX :: nat where "UINT8_MAX \<equiv> 255"

text \<open>The result of a signed 32-bit operation: undefined when it does not fit.\<close>

definition chk32 :: "int \<Rightarrow> int option" where
  "chk32 x = (if INT32_MIN \<le> x \<and> x \<le> INT32_MAX then Some x else None)"

lemma chk32_Some_iff: "chk32 x = Some y \<longleftrightarrow> INT32_MIN \<le> x \<and> x \<le> INT32_MAX \<and> y = x"
  by (auto simp: chk32_def)

lemma chk32_fits [simp]: "INT32_MIN \<le> x \<Longrightarrow> x \<le> INT32_MAX \<Longrightarrow> chk32 x = Some x"
  by (simp add: chk32_def)

text \<open>Conversion of a non-negative value to \<open>uint8_t\<close>.\<close>

definition u8 :: "nat \<Rightarrow> nat" where
  "u8 n = n mod 256"

lemma u8_id [simp]: "n < 256 \<Longrightarrow> u8 n = n"
  by (simp add: u8_def)

lemma u8_less [simp]: "u8 n < 256"
  by (simp add: u8_def)

section \<open>Counting and maximum loops\<close>

text \<open>\<open>uint8_t ret = 0; for (p = 0; p < n; ++p) if (P(p)) ++ret;\<close>\<close>

primrec count8 :: "(nat \<Rightarrow> bool) \<Rightarrow> nat \<Rightarrow> nat" where
  "count8 P 0 = 0"
| "count8 P (Suc n) = (if P n then u8 (count8 P n + 1) else count8 P n)"

lemma card_Collect_Suc:
  "card {p. p < Suc n \<and> P p} = (if P n then Suc (card {p. p < n \<and> P p}) else card {p. p < n \<and> P p})"
proof -
  have "{p. p < Suc n \<and> P p} = (if P n then insert n {p. p < n \<and> P p} else {p. p < n \<and> P p})"
    by (auto simp: less_Suc_eq)
  then show ?thesis by simp
qed

lemma card_Collect_le: "card {p. p < (n::nat) \<and> P p} \<le> n"
proof -
  have "card {p. p < n \<and> P p} \<le> card {..<n}" by (rule card_mono) auto
  then show ?thesis by simp
qed

lemma count8_card: "n < 256 \<Longrightarrow> count8 P n = card {p. p < n \<and> P p}"
proof (induction n)
  case 0
  then show ?case by simp
next
  case (Suc n)
  then have "count8 P n = card {p. p < n \<and> P p}" by simp
  moreover have "card {p. p < n \<and> P p} < 255"
    using card_Collect_le [of n P] Suc.prems by simp
  ultimately show ?case by (simp add: card_Collect_Suc)
qed

text \<open>\<open>for (p = 0; p < n; ++p) if (f(p) > m) m = f(p);\<close>\<close>

primrec max_loop :: "(nat \<Rightarrow> int) \<Rightarrow> nat \<Rightarrow> int \<Rightarrow> int" where
  "max_loop f 0 m = m"
| "max_loop f (Suc n) m = (if f n > max_loop f n m then f n else max_loop f n m)"

lemma max_loop_ge: "m \<le> max_loop f n m"
  by (induction n) auto

lemma max_loop_upper: "p < n \<Longrightarrow> f p \<le> max_loop f n m"
  by (induction n) (auto simp: less_Suc_eq)

lemma max_loop_attained: "max_loop f n m = m \<or> (\<exists>p<n. max_loop f n m = f p)"
  by (induction n) (auto simp: less_Suc_eq)

lemma max_loop_le: "m \<le> b \<Longrightarrow> (\<And>p. p < n \<Longrightarrow> f p \<le> b) \<Longrightarrow> max_loop f n m \<le> b"
  by (induction n) auto

lemma max_loop_idem: "max_loop f n (max_loop f n m) = max_loop f n m"
  using max_loop_attained [of f n "max_loop f n m"] max_loop_ge [of "max_loop f n m" f n]
    max_loop_upper [of _ n f m] by (metis order_antisym)

section \<open>Seats around a table\<close>

text \<open>
  \<open>seat_dist N f x\<close> is how many seats after seat \<open>f\<close> the seat \<open>x\<close> is, going round a table of
  \<open>N\<close> seats.
\<close>

definition seat_dist :: "nat \<Rightarrow> nat \<Rightarrow> nat \<Rightarrow> nat" where
  "seat_dist N f x = (x + N - f) mod N"

lemma seat_dist_less: "0 < N \<Longrightarrow> seat_dist N f x < N"
  by (simp add: seat_dist_def)

lemma seat_dist_self [simp]: "f < N \<Longrightarrow> seat_dist N f f = 0"
  by (simp add: seat_dist_def)

lemma seat_dist_cases:
  "f < N \<Longrightarrow> x < N \<Longrightarrow> seat_dist N f x = (if f \<le> x then x - f else x + N - f)"
  by (auto simp: seat_dist_def mod_if)

lemma seat_dist_inj: "f < N \<Longrightarrow> x < N \<Longrightarrow> y < N \<Longrightarrow> seat_dist N f x = seat_dist N f y \<Longrightarrow> x = y"
  by (auto simp: seat_dist_cases split: if_splits)

lemma seat_dist_add: "f < N \<Longrightarrow> k < N \<Longrightarrow> seat_dist N f ((f + k) mod N) = k"
  by (auto simp: seat_dist_def mod_if)

lemma seat_at_dist: "f < N \<Longrightarrow> x < N \<Longrightarrow> (f + seat_dist N f x) mod N = x"
  by (auto simp: seat_dist_cases mod_if)

end
