(* ===== verification/Game_Types.thy ===== *)
theory Game_Types
  imports Prelude
begin

text \<open>
  The data of \<open>game.h\<close>: the game definition, the actions, the state of a hand, the match state of one
  viewing player, and the sanity predicates on game definitions.  Fields keep their C names, except
  \<open>round\<close> (\<open>round_no\<close>), the fields of \<open>Action\<close> (\<open>act_type\<close>, \<open>act_size\<close>) and \<open>MatchState.state\<close>
  (\<open>ms_state\<close>), whose names are taken in HOL.  \<open>uint8_t\<close> and \<open>uint32_t\<close> fields are \<open>nat\<close>, with the
  truncation written out where an operation can exceed the width; \<open>int32_t\<close> fields are \<open>int\<close>, with
  every addition and subtraction checked by \<open>chk32\<close>; the \<open>uint8_t\<close> flags \<open>finished\<close> and
  \<open>playerFolded\<close> are booleans (the code only writes 0 and 1 and only tests against 0).
\<close>

abbreviation MAX_ROUNDS :: nat where "MAX_ROUNDS \<equiv> 4"
abbreviation MAX_PLAYERS :: nat where "MAX_PLAYERS \<equiv> 10"
abbreviation MAX_BOARD_CARDS :: nat where "MAX_BOARD_CARDS \<equiv> 7"
abbreviation MAX_HOLE_CARDS :: nat where "MAX_HOLE_CARDS \<equiv> 3"
abbreviation MAX_NUM_ACTIONS :: nat where "MAX_NUM_ACTIONS \<equiv> 64"
abbreviation MAX_SUITS :: nat where "MAX_SUITS \<equiv> 4"
abbreviation MAX_RANKS :: nat where "MAX_RANKS \<equiv> 13"

section \<open>Types\<close>

datatype BettingType = limitBetting | noLimitBetting

datatype ActionType = a_fold | a_call | a_raise | a_invalid

record Action =
  act_type :: ActionType
  act_size :: int

record Game =
  stack :: "int list"
  blind :: "int list"
  raiseSize :: "int list"
  bettingType :: BettingType
  numPlayers :: nat
  numRounds :: nat
  firstPlayer :: "nat list"
  maxRaises :: "nat list"
  numSuits :: nat
  numRanks :: nat
  numHoleCards :: nat
  numBoardCards :: "nat list"

record State =
  handId :: nat
  maxSpent :: int
  minNoLimitRaiseTo :: int
  spent :: "int list"
  action :: "Action list list"
  actingPlayer :: "nat list list"
  numActions :: "nat list"
  round_no :: nat
  finished :: bool
  playerFolded :: "bool list"
  boardCards :: "nat list"
  holeCards :: "nat list list"
  roundSpent :: "int list"

record MatchState =
  ms_state :: State
  viewingPlayer :: nat

section \<open>Cards\<close>

definition rankOfCard :: "nat \<Rightarrow> nat" where
  "rankOfCard c = c div MAX_SUITS"

definition suitOfCard :: "nat \<Rightarrow> nat" where
  "suitOfCard c = c mod MAX_SUITS"

definition makeCard :: "nat \<Rightarrow> nat \<Rightarrow> nat" where
  "makeCard rank suit = rank * MAX_SUITS + suit"

lemma rankOfCard_makeCard [simp]: "suit < MAX_SUITS \<Longrightarrow> rankOfCard (makeCard rank suit) = rank"
  by (simp add: rankOfCard_def makeCard_def)

lemma suitOfCard_makeCard [simp]: "suit < MAX_SUITS \<Longrightarrow> suitOfCard (makeCard rank suit) = suit"
  by (simp add: suitOfCard_def makeCard_def)

lemma makeCard_rank_suit [simp]: "makeCard (rankOfCard c) (suitOfCard c) = c"
  by (simp add: rankOfCard_def suitOfCard_def makeCard_def)

lemma suitOfCard_less [simp]: "suitOfCard c < MAX_SUITS"
  by (simp add: suitOfCard_def)

lemma rankOfCard_less: "c < 52 \<Longrightarrow> rankOfCard c < MAX_RANKS"
  by (simp add: rankOfCard_def)

lemma makeCard_inj:
  "s < MAX_SUITS \<Longrightarrow> s' < MAX_SUITS \<Longrightarrow> makeCard r s = makeCard r' s' \<longleftrightarrow> r = r' \<and> s = s'"
  by (metis rankOfCard_makeCard suitOfCard_makeCard)

section \<open>Well-formed games\<close>

text \<open>The array sizes of the struct \<open>Game\<close>.\<close>

definition shape_game :: "Game \<Rightarrow> bool" where
  "shape_game g \<longleftrightarrow> length (stack g) = MAX_PLAYERS \<and> length (blind g) = MAX_PLAYERS \<and>
     length (raiseSize g) = MAX_ROUNDS \<and> length (firstPlayer g) = MAX_ROUNDS \<and>
     length (maxRaises g) = MAX_ROUNDS \<and> length (numBoardCards g) = MAX_ROUNDS"

text \<open>What the sanity checks at the end of \<open>readGame\<close> establish.\<close>

definition game_checked :: "Game \<Rightarrow> bool" where
  "game_checked g \<longleftrightarrow>
     1 \<le> numRounds g \<and> numRounds g \<le> MAX_ROUNDS \<and>
     2 \<le> numPlayers g \<and> numPlayers g \<le> MAX_PLAYERS \<and>
     (\<forall>p<numPlayers g. blind g ! p \<le> stack g ! p) \<and>
     (\<forall>r<numRounds g. firstPlayer g ! r < numPlayers g) \<and>
     1 \<le> numSuits g \<and> numSuits g \<le> MAX_SUITS \<and>
     1 \<le> numRanks g \<and> numRanks g \<le> MAX_RANKS \<and>
     1 \<le> numHoleCards g \<and> numHoleCards g \<le> MAX_HOLE_CARDS \<and>
     numHoleCards g * numPlayers g + sum_list (take (numRounds g) (numBoardCards g))
       \<le> numSuits g * numRanks g"

text \<open>
  What the betting engine needs beyond those checks: blinds that are not negative, and in a limit game
  equal stacks and raise sizes that are not negative.
\<close>

definition money_game :: "Game \<Rightarrow> bool" where
  "money_game g \<longleftrightarrow> (\<forall>p<numPlayers g. 0 \<le> blind g ! p) \<and>
     (bettingType g = limitBetting \<longrightarrow>
        (\<forall>p<numPlayers g. stack g ! p = stack g ! 0) \<and> (\<forall>r<numRounds g. 0 \<le> raiseSize g ! r))"

definition wf_game :: "Game \<Rightarrow> bool" where
  "wf_game g \<longleftrightarrow> shape_game g \<and> game_checked g \<and> money_game g"

lemma wf_gameD:
  assumes "wf_game g"
  shows "2 \<le> numPlayers g" "numPlayers g \<le> 10" "1 \<le> numRounds g" "numRounds g \<le> 4"
    "length (stack g) = 10" "length (blind g) = 10" "length (raiseSize g) = 4"
    "length (firstPlayer g) = 4" "length (maxRaises g) = 4" "length (numBoardCards g) = 4"
  using assms unfolding wf_game_def shape_game_def game_checked_def by simp_all

lemma wf_game_money:
  assumes "wf_game g" "p < numPlayers g"
  shows "0 \<le> blind g ! p" "blind g ! p \<le> stack g ! p"
    "bettingType g = limitBetting \<Longrightarrow> stack g ! p = stack g ! 0"
  using assms unfolding wf_game_def money_game_def game_checked_def by blast+

lemma wf_game_round:
  assumes "wf_game g" "r < numRounds g"
  shows "firstPlayer g ! r < numPlayers g" "bettingType g = limitBetting \<Longrightarrow> 0 \<le> raiseSize g ! r"
  using assms unfolding wf_game_def money_game_def game_checked_def by blast+

section \<open>The arrays of a state\<close>

definition shape_state :: "State \<Rightarrow> bool" where
  "shape_state s \<longleftrightarrow> length (spent s) = MAX_PLAYERS \<and> length (playerFolded s) = MAX_PLAYERS \<and>
     length (action s) = MAX_ROUNDS \<and> length (actingPlayer s) = MAX_ROUNDS \<and>
     (\<forall>r<MAX_ROUNDS. length (action s ! r) = MAX_NUM_ACTIONS) \<and>
     (\<forall>r<MAX_ROUNDS. length (actingPlayer s ! r) = MAX_NUM_ACTIONS) \<and>
     length (numActions s) = MAX_ROUNDS \<and> length (roundSpent s) = MAX_ROUNDS \<and>
     length (boardCards s) = MAX_BOARD_CARDS \<and> length (holeCards s) = MAX_PLAYERS \<and>
     (\<forall>p<MAX_PLAYERS. length (holeCards s ! p) = MAX_HOLE_CARDS)"

lemma shape_stateD:
  assumes "shape_state s"
  shows "length (spent s) = 10" "length (playerFolded s) = 10" "length (action s) = 4"
    "length (actingPlayer s) = 4" "length (numActions s) = 4" "length (roundSpent s) = 4"
    "r < 4 \<Longrightarrow> length (action s ! r) = 64" "r < 4 \<Longrightarrow> length (actingPlayer s ! r) = 64"
    "length (boardCards s) = 7" "length (holeCards s) = 10"
    "p < 10 \<Longrightarrow> length (holeCards s ! p) = 3"
  using assms by (auto simp: shape_state_def)

text \<open>The all-zero memory that \<open>memset\<close> leaves.\<close>

definition zero_action :: Action where
  "zero_action = \<lparr>act_type = a_fold, act_size = 0\<rparr>"

definition zero_state :: State where
  "zero_state = \<lparr>handId = 0, maxSpent = 0, minNoLimitRaiseTo = 0, spent = replicate MAX_PLAYERS 0,
     action = replicate MAX_ROUNDS (replicate MAX_NUM_ACTIONS zero_action),
     actingPlayer = replicate MAX_ROUNDS (replicate MAX_NUM_ACTIONS 0),
     numActions = replicate MAX_ROUNDS 0, round_no = 0, finished = False,
     playerFolded = replicate MAX_PLAYERS False, boardCards = replicate MAX_BOARD_CARDS 0,
     holeCards = replicate MAX_PLAYERS (replicate MAX_HOLE_CARDS 0),
     roundSpent = replicate MAX_ROUNDS 0\<rparr>"

lemma shape_zero_state [simp]: "shape_state zero_state"
  by (simp add: shape_state_def zero_state_def)

end
