(* ===== verification/Text_IO.thy ===== *)
theory Text_IO
  imports Prelude
begin

text \<open>
  Text as the C code reads and writes it: NUL-terminated strings, the character classes, \<open>sscanf\<close> of
  decimal integers and \<open>snprintf\<close> into a buffer of a given size.  A string is the list of its characters
  without the terminator.

  A print function returns \<open>(int \<times> string) option\<close>: the C return value and the text in the buffer; \<open>None\<close> is a
  write outside the buffer of \<open>maxLen\<close> bytes or another undefined behaviour.  A read function returns the C
  return value and what it stored.  After a return value of \<open>-1\<close> the text is of no use to the caller, and the
  model leaves it empty.
\<close>

section \<open>Characters\<close>

abbreviation NUL :: char where "NUL \<equiv> CHR 0x00"

definition char_at :: "string \<Rightarrow> nat \<Rightarrow> char" where
  "char_at s i = (if i < length s then s ! i else NUL)"

definition isspace :: "char \<Rightarrow> bool" where
  "isspace c \<longleftrightarrow> c = CHR '' '' \<or> (9 \<le> (of_char c :: nat) \<and> (of_char c :: nat) \<le> 13)"

definition isdigit :: "char \<Rightarrow> bool" where
  "isdigit c \<longleftrightarrow> 48 \<le> (of_char c :: nat) \<and> (of_char c :: nat) \<le> 57"

definition toupper :: "char \<Rightarrow> char" where
  "toupper c = (let n = (of_char c :: nat) in if 97 \<le> n \<and> n \<le> 122 then char_of (n - 32) else c)"

definition tolower :: "char \<Rightarrow> char" where
  "tolower c = (let n = (of_char c :: nat) in if 65 \<le> n \<and> n \<le> 90 then char_of (n + 32) else c)"

text \<open>\<open>strchr\<close> with a character that is not the terminator: the index of its first occurrence.\<close>

fun strchr :: "string \<Rightarrow> char \<Rightarrow> nat option" where
  "strchr [] c = None"
| "strchr (x # xs) c = (if x = c then Some 0 else map_option Suc (strchr xs c))"

lemma char_at_append: "char_at (xs @ ys) i = (if i < length xs then xs ! i else char_at ys (i - length xs))"
  by (auto simp: char_at_def nth_append)

lemma char_at_Nil [simp]: "char_at [] i = NUL"
  by (simp add: char_at_def)

lemma char_at_Cons_0 [simp]: "char_at (c # s) 0 = c"
  by (simp add: char_at_def)

lemma char_at_Cons_Suc [simp]: "char_at (c # s) (Suc i) = char_at s i"
  by (simp add: char_at_def)

section \<open>Decimal numbers\<close>

definition digit :: "nat \<Rightarrow> char" where
  "digit d = char_of (48 + d)"

definition digit_val :: "char \<Rightarrow> nat" where
  "digit_val c = of_char c - 48"

lemma digit_facts: "d < 10 \<Longrightarrow> isdigit (digit d)" "d < 10 \<Longrightarrow> digit_val (digit d) = d"
  by (auto simp: isdigit_def digit_def digit_val_def)

fun dec :: "nat \<Rightarrow> string" where
  "dec n = (if n < 10 then [digit n] else dec (n div 10) @ [digit (n mod 10)])"

declare dec.simps [simp del]

definition dec_int :: "int \<Rightarrow> string" where
  "dec_int i = (if i < 0 then CHR ''-'' # dec (nat (- i)) else dec (nat i))"

definition digits_val :: "string \<Rightarrow> nat" where
  "digits_val ds = foldl (\<lambda>a c. 10 * a + digit_val c) 0 ds"

lemma dec_not_Nil [simp]: "dec n \<noteq> []"
  by (subst dec.simps) simp

lemma dec_digits: "\<forall>c \<in> set (dec n). isdigit c"
proof (induction n rule: dec.induct)
  case (1 n)
  then show ?case by (subst dec.simps) (auto simp: digit_facts)
qed

lemma digits_val_dec [simp]: "digits_val (dec n) = n"
proof (induction n rule: dec.induct)
  case (1 n)
  then show ?case by (subst dec.simps) (auto simp: digits_val_def digit_facts)
qed

text \<open>
  A conversion of \<open>sscanf\<close>: white space, a sign, digits.  The result is the sign, the magnitude and the number
  of characters consumed (\<open>%n\<close>); \<open>None\<close> when no digit is found.
\<close>

definition scan_number :: "string \<Rightarrow> (bool \<times> nat \<times> nat) option" where
  "scan_number s =
     (let ws = takeWhile isspace s;
          s1 = dropWhile isspace s;
          neg = (char_at s1 0 = CHR ''-'');
          sign = (neg \<or> char_at s1 0 = CHR ''+'');
          s2 = (if sign then drop 1 s1 else s1);
          ds = takeWhile isdigit s2
      in if ds = [] then None
         else Some (neg, digits_val ds, length ws + (if sign then 1 else 0) + length ds))"

text \<open>\<open>%d\<close> into an \<open>int32_t\<close>: \<open>None\<close> for a value that does not fit, \<open>Some None\<close> when nothing matches.\<close>

definition sscanf_d32 :: "string \<Rightarrow> (int \<times> nat) option option" where
  "sscanf_d32 s =
     (case scan_number s of
        None \<Rightarrow> Some None
      | Some (neg, v, n) \<Rightarrow> do { i \<leftarrow> chk32 (if neg then - int v else int v); Some (Some (i, n)) })"

text \<open>\<open>%u\<close> into an unsigned type of \<open>w\<close> bits: a sign negates modulo the width.\<close>

definition sscanf_u :: "nat \<Rightarrow> string \<Rightarrow> (nat \<times> nat) option option" where
  "sscanf_u w s =
     (case scan_number s of
        None \<Rightarrow> Some None
      | Some (neg, v, n) \<Rightarrow>
          if v < 2 ^ w then Some (Some (if neg then (2 ^ w - v) mod 2 ^ w else v, n)) else None)"

text \<open>\<open>snprintf\<close> into \<open>n\<close> bytes: the full length is returned; a negative \<open>n\<close> becomes a huge \<open>size_t\<close>.\<close>

definition snprintf :: "int \<Rightarrow> string \<Rightarrow> int option" where
  "snprintf n txt = (if n < 0 then None else Some (int (length txt)))"

section \<open>Numbers survive the trip\<close>

text \<open>What may follow a number.\<close>

definition ends_number :: "string \<Rightarrow> bool" where
  "ends_number rest \<longleftrightarrow> \<not> isdigit (char_at rest 0)"

lemma takeWhile_digits:
  assumes "\<forall>c \<in> set ds. isdigit c" "ends_number rest"
  shows "takeWhile isdigit (ds @ rest) = ds"
proof -
  have "takeWhile isdigit rest = []" using assms(2) by (cases rest) (auto simp: ends_number_def)
  then show ?thesis using assms(1) by (simp add: takeWhile_append2)
qed

lemma digit_not_space_sign: "isdigit c \<Longrightarrow> \<not> isspace c \<and> c \<noteq> CHR ''-'' \<and> c \<noteq> CHR ''+''"
  by (auto simp: isdigit_def isspace_def)

lemma scan_dec:
  assumes "ends_number rest"
  shows "scan_number (dec n @ rest) = Some (False, n, length (dec n))"
proof -
  obtain c cs where c: "dec n = c # cs" by (cases "dec n") auto
  have d: "isdigit c" using dec_digits [of n] c by simp
  note t = takeWhile_digits [OF dec_digits assms, of n]
  have "takeWhile isspace (dec n @ rest) = []" "dropWhile isspace (dec n @ rest) = dec n @ rest"
    "char_at (dec n @ rest) 0 = c"
    using digit_not_space_sign [OF d] by (simp_all add: c)
  then show ?thesis using digit_not_space_sign [OF d] t by (simp add: scan_number_def Let_def)
qed

lemma scan_minus_dec:
  assumes "ends_number rest"
  shows "scan_number (CHR ''-'' # dec n @ rest) = Some (True, n, Suc (length (dec n)))"
  using takeWhile_digits [OF dec_digits assms, of n] by (simp add: scan_number_def Let_def isspace_def)

lemma sscanf_d32_dec_int:
  assumes "INT32_MIN \<le> i" "i \<le> INT32_MAX" "ends_number rest"
  shows "sscanf_d32 (dec_int i @ rest) = Some (Some (i, length (dec_int i)))"
  using assms by (simp add: dec_int_def sscanf_d32_def scan_dec scan_minus_dec)

lemma sscanf_u_dec:
  assumes "n < 2 ^ w" "ends_number rest"
  shows "sscanf_u w (dec n @ rest) = Some (Some (n, length (dec n)))"
  using assms by (simp add: sscanf_u_def scan_dec)

section \<open>Codecs\<close>

text \<open>
  An encoding that a reader takes back from the front of a text: \<open>encode\<close> writes an item, \<open>decode\<close> returns it
  with the number of characters it used, whatever text that satisfies \<open>follows\<close> comes after it.
\<close>

locale codec =
  fixes encode :: "'a \<Rightarrow> string" and decode :: "string \<Rightarrow> (nat \<times> 'a) option"
    and valid :: "'a \<Rightarrow> bool" and follows :: "string \<Rightarrow> bool"
  assumes decode_encode: "valid x \<Longrightarrow> follows rest \<Longrightarrow> decode (encode x @ rest) = Some (length (encode x), x)"
    and follows_encode: "valid x \<Longrightarrow> follows rest \<Longrightarrow> follows (encode x @ rest)"
begin

lemma encode_inj: "valid x \<Longrightarrow> valid y \<Longrightarrow> follows [] \<Longrightarrow> encode x = encode y \<Longrightarrow> x = y"
  using decode_encode [of x "[]"] decode_encode [of y "[]"] by simp

fun decode_many :: "nat \<Rightarrow> string \<Rightarrow> nat \<times> 'a list" where
  "decode_many 0 s = (0, [])"
| "decode_many (Suc n) s =
     (case decode s of
        None \<Rightarrow> (0, [])
      | Some (r, x) \<Rightarrow> (case decode_many n (drop r s) of (c, xs) \<Rightarrow> (r + c, x # xs)))"

lemma decode_many_encode:
  assumes "\<forall>x \<in> set xs. valid x" "follows rest"
  shows "decode_many (length xs) (concat (map encode xs) @ rest) = (length (concat (map encode xs)), xs)"
  using assms(1)
proof (induction xs)
  case (Cons x xs)
  have f: "follows (concat (map encode xs) @ rest)" if "\<forall>y \<in> set xs. valid y" for xs
    using that by (induction xs) (use assms(2) in \<open>auto intro: follows_encode\<close>)
  have "decode (encode x @ concat (map encode xs) @ rest) = Some (length (encode x), x)"
    using Cons.prems f [of xs] by (intro decode_encode) auto
  then show ?case using Cons by simp
qed simp

end

lemma length_dec: "n < 10 ^ k \<Longrightarrow> 0 < k \<Longrightarrow> length (dec n) \<le> k"
proof (induction k arbitrary: n)
  case (Suc k)
  show ?case
  proof (cases "n < 10")
    case False
    then have "k \<noteq> 0" using Suc.prems by (cases k) auto
    moreover have "n < 10 ^ k * 10" using Suc.prems(1) by simp
    then have "n div 10 < 10 ^ k" by (rule less_mult_imp_div_less)
    ultimately show ?thesis using Suc.IH [of "n div 10"] False by (subst dec.simps) simp
  qed (simp add: dec.simps)
qed simp

lemma length_dec_int: "INT32_MIN \<le> i \<Longrightarrow> i \<le> INT32_MAX \<Longrightarrow> length (dec_int i) \<le> 11"
proof -
  assume i: "INT32_MIN \<le> i" "i \<le> INT32_MAX"
  have "nat i < 10 ^ 10" "nat (- i) < 10 ^ 10" using i by (simp_all add: nat_less_iff)
  then show ?thesis using length_dec [of "nat i" 10] length_dec [of "nat (- i)" 10] by (simp add: dec_int_def)
qed

end
