(* ===== verification/Gamedef_IO.thy ===== *)
theory Gamedef_IO
  imports Game_Types Text_IO
begin

text \<open>
  Game definition files: \<open>consumeSpaces\<close>, \<open>readItems\<close>, \<open>readGame\<close>, \<open>printGame\<close> and \<open>LogGame\<close> of \<open>game.c\<close>.
  A file is the list of its characters.  The outer \<open>option\<close> is \<open>None\<close> for undefined behaviour: a number that
  does not fit its field, or items stored past the end of an array.  \<open>Inl\<close> is the return value \<open>NULL\<close> with
  the message the code prints.
\<close>

section \<open>Items of a line\<close>

definition consumeSpaces :: "string \<Rightarrow> bool \<Rightarrow> nat" where
  "consumeSpaces s consumeEqual =
     length (takeWhile (\<lambda>c. c \<noteq> NUL \<and> (isspace c \<or> (consumeEqual \<and> c = CHR ''=''))) s)"

text \<open>\<open>conv\<close> is the conversion that \<open>itemFormat\<close> names; the result holds the items and the characters consumed.\<close>

type_synonym 'a conversion = "string \<Rightarrow> ('a \<times> nat) option option"

primrec readItems :: "'a conversion \<Rightarrow> nat \<Rightarrow> string \<Rightarrow> bool \<Rightarrow> ('a list \<times> nat) option" where
  "readItems conv 0 s consumeEqual = Some ([], 0)"
| "readItems conv (Suc n) s consumeEqual =
     (let k = consumeSpaces s consumeEqual in
      do {
        x \<leftarrow> conv (drop k s);
        (case x of
           None \<Rightarrow> Some ([], k)
         | Some (v, r) \<Rightarrow> do {
             (vs, c) \<leftarrow> readItems conv n (drop (k + r) s) consumeEqual;
             Some (v # vs, k + r + c)
           })
      })"

text \<open>Items go to the front of an array.\<close>

definition store_items :: "'a list \<Rightarrow> 'a list \<Rightarrow> 'a list option" where
  "store_items vs xs = (if length vs \<le> length xs then Some (vs @ drop (length vs) xs) else None)"

definition store_item :: "nat list \<Rightarrow> nat \<Rightarrow> nat" where
  "store_item vs x = (case vs of [] \<Rightarrow> x | v # _ \<Rightarrow> v)"

section \<open>Reading a game\<close>

abbreviation MAX_LINE_LEN :: nat where "MAX_LINE_LEN \<equiv> 4096"

text \<open>\<open>fgets\<close> takes a line, or as much of it as fits.\<close>

definition fgets :: "nat \<Rightarrow> string \<Rightarrow> (string \<times> string) option" where
  "fgets n inp =
     (if inp = [] then None
      else let l = takeWhile (\<lambda>c. c \<noteq> CHR 0x0A) inp;
               k = min (n - 1) (if length l < length inp then length l + 1 else length l)
           in Some (take k inp, drop k inp))"

definition strncasecmp_eq :: "string \<Rightarrow> string \<Rightarrow> bool" where
  "strncasecmp_eq line kw \<longleftrightarrow> map tolower (take (length kw) line) = map tolower kw"

record reader =
  rd_game :: Game
  stackRead :: nat
  blindRead :: nat
  raiseSizeRead :: nat
  boardCardsRead :: nat

definition reader_init :: reader where
  "reader_init = \<lparr>rd_game = \<lparr>stack = replicate 4 INT32_MAX @ replicate 6 0, blind = replicate 10 0,
       raiseSize = replicate 4 0, bettingType = limitBetting, numPlayers = 0, numRounds = 0,
       firstPlayer = replicate 4 1, maxRaises = replicate 4 255, numSuits = 0, numRanks = 0,
       numHoleCards = 0, numBoardCards = replicate 4 0\<rparr>,
     stackRead = 4, blindRead = 0, raiseSizeRead = 0, boardCardsRead = 0\<rparr>"

abbreviation items32 :: "nat \<Rightarrow> string \<Rightarrow> (int list \<times> nat) option" where
  "items32 n s \<equiv> readItems sscanf_d32 n s True"

abbreviation items8 :: "nat \<Rightarrow> string \<Rightarrow> (nat list \<times> nat) option" where
  "items8 n s \<equiv> readItems (sscanf_u 8) n s True"

text \<open>One line of the file after the tests for comments and \<open>end gamedef\<close>.\<close>

definition read_line :: "string \<Rightarrow> reader \<Rightarrow> reader option" where
  "read_line line x =
     (let g = rd_game x in
      if strncasecmp_eq line ''gamedef'' then Some x
      else if strncasecmp_eq line ''stack'' then
        do { (vs, c) \<leftarrow> items32 MAX_PLAYERS (drop 5 line); st \<leftarrow> store_items vs (stack g);
             Some (x\<lparr>rd_game := g\<lparr>stack := st\<rparr>, stackRead := length vs\<rparr>) }
      else if strncasecmp_eq line ''blind'' then
        do { (vs, c) \<leftarrow> items32 MAX_PLAYERS (drop 5 line); bl \<leftarrow> store_items vs (blind g);
             Some (x\<lparr>rd_game := g\<lparr>blind := bl\<rparr>, blindRead := length vs\<rparr>) }
      else if strncasecmp_eq line ''raisesize'' then
        do { (vs, c) \<leftarrow> items32 MAX_PLAYERS (drop 9 line); rs \<leftarrow> store_items vs (raiseSize g);
             Some (x\<lparr>rd_game := g\<lparr>raiseSize := rs\<rparr>, raiseSizeRead := length vs\<rparr>) }
      else if strncasecmp_eq line ''limit'' then Some (x\<lparr>rd_game := g\<lparr>bettingType := limitBetting\<rparr>\<rparr>)
      else if strncasecmp_eq line ''nolimit'' then Some (x\<lparr>rd_game := g\<lparr>bettingType := noLimitBetting\<rparr>\<rparr>)
      else if strncasecmp_eq line ''numplayers'' then
        do { (vs, c) \<leftarrow> items8 1 (drop 10 line); Some (x\<lparr>rd_game := g\<lparr>numPlayers := store_item vs (numPlayers g)\<rparr>\<rparr>) }
      else if strncasecmp_eq line ''numrounds'' then
        do { (vs, c) \<leftarrow> items8 1 (drop 9 line); Some (x\<lparr>rd_game := g\<lparr>numRounds := store_item vs (numRounds g)\<rparr>\<rparr>) }
      else if strncasecmp_eq line ''firstplayer'' then
        do { (vs, c) \<leftarrow> items8 MAX_ROUNDS (drop 11 line); fp \<leftarrow> store_items vs (firstPlayer g);
             Some (x\<lparr>rd_game := g\<lparr>firstPlayer := fp\<rparr>\<rparr>) }
      else if strncasecmp_eq line ''maxraises'' then
        do { (vs, c) \<leftarrow> items8 MAX_ROUNDS (drop 9 line); mr \<leftarrow> store_items vs (maxRaises g);
             Some (x\<lparr>rd_game := g\<lparr>maxRaises := mr\<rparr>\<rparr>) }
      else if strncasecmp_eq line ''numsuits'' then
        do { (vs, c) \<leftarrow> items8 1 (drop 8 line); Some (x\<lparr>rd_game := g\<lparr>numSuits := store_item vs (numSuits g)\<rparr>\<rparr>) }
      else if strncasecmp_eq line ''numranks'' then
        do { (vs, c) \<leftarrow> items8 1 (drop 8 line); Some (x\<lparr>rd_game := g\<lparr>numRanks := store_item vs (numRanks g)\<rparr>\<rparr>) }
      else if strncasecmp_eq line ''numholecards'' then
        do { (vs, c) \<leftarrow> items8 1 (drop 12 line);
             Some (x\<lparr>rd_game := g\<lparr>numHoleCards := store_item vs (numHoleCards g)\<rparr>\<rparr>) }
      else if strncasecmp_eq line ''numboardcards'' then
        do { (vs, c) \<leftarrow> items8 MAX_ROUNDS (drop 13 line); nb \<leftarrow> store_items vs (numBoardCards g);
             Some (x\<lparr>rd_game := g\<lparr>numBoardCards := nb\<rparr>, boardCardsRead := length vs\<rparr>) }
      else Some x)"

lemma fgets_shorter:
  assumes "fgets n inp = Some (line, rest)" "2 \<le> n"
  shows "length rest < length inp"
proof -
  obtain c cs where fl: "inp = c # cs" using assms(1) by (cases inp) (auto simp: fgets_def)
  define l where "l = takeWhile (\<lambda>c. c \<noteq> CHR 0x0A) inp"
  have k: "0 < (if length l < length inp then length l + 1 else length l)" using fl by (auto split: if_splits)
  have "rest = drop (min (n - 1) (if length l < length inp then length l + 1 else length l)) inp"
    using assms(1) fl unfolding fgets_def l_def Let_def by simp
  then show ?thesis using k assms(2) fl by (simp only: length_drop) (simp add: min_def)
qed

function read_lines :: "string \<Rightarrow> reader \<Rightarrow> reader option" where
  "read_lines inp x =
     (case fgets MAX_LINE_LEN inp of
        None \<Rightarrow> Some x
      | Some (line, rest) \<Rightarrow>
          if char_at line 0 = CHR ''#'' \<or> char_at line 0 = CHR 0x0A then read_lines rest x
          else if strncasecmp_eq line ''end gamedef'' then Some x
          else case read_line line x of None \<Rightarrow> None | Some y \<Rightarrow> read_lines rest y)"
  by pat_completeness auto
termination
  by (relation "measure (\<lambda>(inp, x). length inp)") (auto dest!: fgets_shorter)

declare read_lines.simps [simp del]

datatype gd_error =
    invalid_rounds nat | invalid_players nat | few_stacks nat nat | few_blinds nat nat | blind_above_stack nat
  | few_raise_sizes nat nat | invalid_first_player nat nat | invalid_suits nat | invalid_ranks nat
  | invalid_hole_cards nat | few_board_cards nat nat | too_many_cards

text \<open>The loops of the checks: the first player whose blind exceeds the stack; the first players, decremented.\<close>

definition blind_check :: "Game \<Rightarrow> nat option" where
  "blind_check g = find (\<lambda>c. blind g ! c > stack g ! c) [0..<numPlayers g]"

fun first_players :: "nat list \<Rightarrow> Game \<Rightarrow> gd_error + Game" where
  "first_players [] g = Inr g"
| "first_players (c # cs) g =
     (if firstPlayer g ! c = 0 \<or> firstPlayer g ! c > numPlayers g
      then Inl (invalid_first_player (firstPlayer g ! c) (c + 1))
      else first_players cs (g\<lparr>firstPlayer := (firstPlayer g)[c := firstPlayer g ! c - 1]\<rparr>))"

definition check_cards :: "nat \<Rightarrow> Game \<Rightarrow> gd_error + Game" where
  "check_cards boards g =
     (if numSuits g = 0 \<or> numSuits g > MAX_SUITS then Inl (invalid_suits (numSuits g))
      else if numRanks g = 0 \<or> numRanks g > MAX_RANKS then Inl (invalid_ranks (numRanks g))
      else if numHoleCards g = 0 \<or> numHoleCards g > MAX_HOLE_CARDS then Inl (invalid_hole_cards (numHoleCards g))
      else if boards < numRounds g then Inl (few_board_cards boards (numRounds g))
      else if numHoleCards g * numPlayers g + sum_list (map (\<lambda>c. numBoardCards g ! c) [0..<numRounds g])
              > numSuits g * numRanks g then Inl too_many_cards
      else Inr g)"

definition check_game :: "reader \<Rightarrow> gd_error + Game" where
  "check_game x =
     (let g = rd_game x in
      if numRounds g = 0 \<or> numRounds g > MAX_ROUNDS then Inl (invalid_rounds (numRounds g))
      else if numPlayers g < 2 \<or> numPlayers g > MAX_PLAYERS then Inl (invalid_players (numPlayers g))
      else if stackRead x < numPlayers g then Inl (few_stacks (stackRead x) (numPlayers g))
      else if blindRead x < numPlayers g then Inl (few_blinds (blindRead x) (numPlayers g))
      else case blind_check g of
        Some c \<Rightarrow> Inl (blind_above_stack (c + 1))
      | None \<Rightarrow>
          if bettingType g = limitBetting \<and> raiseSizeRead x < numRounds g
          then Inl (few_raise_sizes (raiseSizeRead x) (numRounds g))
          else case first_players [0..<numRounds g] g of
            Inl e \<Rightarrow> Inl e
          | Inr g' \<Rightarrow> check_cards (boardCardsRead x) g')"

definition readGame :: "string \<Rightarrow> (gd_error + Game) option" where
  "readGame inp = do { x \<leftarrow> read_lines inp reader_init; Some (check_game x) }"

section \<open>Printing a game\<close>

definition item_line :: "string \<Rightarrow> string list \<Rightarrow> string" where
  "item_line kw xs = kw @ '' ='' @ concat (map (\<lambda>x. CHR '' '' # x) xs) @ [CHR 0x0A]"

definition printGame :: "Game \<Rightarrow> string" where
  "printGame g =
     ''GAMEDEF'' @ [CHR 0x0A] @
     (if bettingType g = noLimitBetting then ''nolimit'' else ''limit'') @ [CHR 0x0A] @
     item_line ''numPlayers'' [dec (numPlayers g)] @
     item_line ''numRounds'' [dec (numRounds g)] @
     (if \<exists>i \<in> set [0..<numPlayers g]. stack g ! i < INT32_MAX
      then item_line ''stack'' (map (\<lambda>i. dec_int (stack g ! i)) [0..<numPlayers g]) else []) @
     item_line ''blind'' (map (\<lambda>i. dec_int (blind g ! i)) [0..<numPlayers g]) @
     (if bettingType g = limitBetting
      then item_line ''raiseSize'' (map (\<lambda>i. dec_int (raiseSize g ! i)) [0..<numRounds g]) else []) @
     (if \<exists>i \<in> set [0..<numRounds g]. firstPlayer g ! i \<noteq> 0
      then item_line ''firstPlayer'' (map (\<lambda>i. dec (firstPlayer g ! i + 1)) [0..<numRounds g]) else []) @
     (if \<exists>i \<in> set [0..<numRounds g]. maxRaises g ! i \<noteq> 255
      then item_line ''maxRaises'' (map (\<lambda>i. dec (maxRaises g ! i)) [0..<numRounds g]) else []) @
     item_line ''numSuits'' [dec (numSuits g)] @
     item_line ''numRanks'' [dec (numRanks g)] @
     item_line ''numHoleCards'' [dec (numHoleCards g)] @
     item_line ''numBoardCards'' (map (\<lambda>i. dec (numBoardCards g ! i)) [0..<numRounds g]) @
     ''END GAMEDEF'' @ [CHR 0x0A]"

text \<open>\<open>LogGame\<close>: each list goes through a buffer of 64 bytes, of which one is never used; \<open>snprintf\<close> with size
  \<open>n\<close> leaves \<open>n - 1\<close> characters.\<close>

definition log_list :: "string list \<Rightarrow> string" where
  "log_list xs = foldl (\<lambda>buf x. buf @ take (63 - length buf - 1) (x @ '' '')) [] xs"

text \<open>\<open>Some None\<close> leaves the buffer of the caller as it is; \<open>len < 1\<close> is passed on as a huge size.\<close>

definition LogGame :: "Game \<Rightarrow> int \<Rightarrow> string option option" where
  "LogGame g len =
     (let players = (\<lambda>f. log_list (map (\<lambda>i. dec_int (f i)) [0..<numPlayers g]));
          rounds = (\<lambda>f. log_list (map (\<lambda>i. dec_int (f i)) [0..<numRounds g]));
          txt = ''bettingType='' @ (if bettingType g = limitBetting then ''0'' else ''1'') @
            ''| numPlayers='' @ dec (numPlayers g) @ ''| stack='' @ players (\<lambda>i. stack g ! i) @
            ''| blind='' @ players (\<lambda>i. blind g ! i) @ ''| numRounds='' @ dec (numRounds g) @
            ''| numSuits='' @ dec (numSuits g) @ ''| numRanks='' @ dec (numRanks g) @
            ''| numHoleCards='' @ dec (numHoleCards g) @ ''| raiseSize='' @ rounds (\<lambda>i. raiseSize g ! i) @
            ''| firstPlayer='' @ rounds (\<lambda>i. int (firstPlayer g ! i)) @
            ''| maxRaise='' @ rounds (\<lambda>i. int (maxRaises g ! i)) @
            ''| numBoardCards='' @ rounds (\<lambda>i. int (numBoardCards g ! i))
      in if len < 1 then None else if len = 1 then Some None else Some (Some (take (nat (len - 2)) txt)))"

section \<open>What a game that is read satisfies\<close>

lemma readItems_length: "readItems conv n s eq = Some (vs, c) \<Longrightarrow> length vs \<le> n"
  by (induction n arbitrary: s vs c) (auto simp: Let_def bind_eq_Some_conv split: option.splits)

lemma store_items_length: "store_items vs xs = Some ys \<Longrightarrow> length ys = length xs"
  by (auto simp: store_items_def split: if_splits)

lemma read_line_shape: "read_line line x = Some y \<Longrightarrow> shape_game (rd_game x) \<Longrightarrow> shape_game (rd_game y)"
  unfolding read_line_def Let_def
  by (auto simp: bind_eq_Some_conv shape_game_def dest!: store_items_length split: if_splits)

lemma read_lines_shape: "read_lines inp x = Some y \<Longrightarrow> shape_game (rd_game x) \<Longrightarrow> shape_game (rd_game y)"
proof (induction inp x rule: read_lines.induct)
  case (1 inp x)
  show ?case
  proof (cases "fgets MAX_LINE_LEN inp")
    case None
    then show ?thesis using "1.prems" by (simp add: read_lines.simps [of inp])
  next
    case (Some lr)
    then obtain line rest where lr: "fgets MAX_LINE_LEN inp = Some (line, rest)" by (cases lr) auto
    note IH = "1.IH" [OF lr refl]
    show ?thesis
      using "1.prems" lr IH(1) IH(2)
      by (subst (asm) read_lines.simps) (auto split: if_splits option.splits dest: read_line_shape)
  qed
qed

lemma first_players_Inr:
  assumes "first_players cs g = Inr g'" "distinct cs" "\<forall>c \<in> set cs. c < length (firstPlayer g)"
  shows "\<exists>fp. g' = g\<lparr>firstPlayer := fp\<rparr> \<and> length fp = length (firstPlayer g) \<and>
    (\<forall>c. fp ! c = (if c \<in> set cs then firstPlayer g ! c - 1 else firstPlayer g ! c)) \<and>
    (\<forall>c \<in> set cs. 0 < firstPlayer g ! c \<and> firstPlayer g ! c \<le> numPlayers g)"
  using assms
proof (induction cs arbitrary: g)
  case Nil
  then show ?case by (intro exI [of _ "firstPlayer g"]) simp
next
  case (Cons c cs)
  let ?g = "g\<lparr>firstPlayer := (firstPlayer g)[c := firstPlayer g ! c - 1]\<rparr>"
  have c: "0 < firstPlayer g ! c" "firstPlayer g ! c \<le> numPlayers g" "first_players cs ?g = Inr g'"
    using Cons.prems(1) by (auto split: if_splits)
  obtain fp where fp: "g' = ?g\<lparr>firstPlayer := fp\<rparr>" "length fp = length (firstPlayer g)"
    "\<forall>d. fp ! d = (if d \<in> set cs then firstPlayer ?g ! d - 1 else firstPlayer ?g ! d)"
    "\<forall>d \<in> set cs. 0 < firstPlayer ?g ! d \<and> firstPlayer ?g ! d \<le> numPlayers g"
    using Cons.IH [OF c(3)] Cons.prems(2,3) by auto
  moreover have "firstPlayer ?g ! d = firstPlayer g ! d" if "d \<in> set cs" for d
    using that Cons.prems(2) by (cases "c = d") auto
  ultimately show ?case using c Cons.prems(2,3)
    by (intro exI [of _ fp]) auto
qed

lemma sum_take_map:
  "n \<le> length xs \<Longrightarrow> sum_list (map (\<lambda>c. xs ! c) [0..<n]) = sum_list (take n xs)"
  by (metis add_0 map_nth take_map take_upt)

lemma check_game_checked:
  assumes "check_game x = Inr g" "shape_game (rd_game x)"
  shows "shape_game g \<and> game_checked g"
proof -
  let ?g = "rd_game x"
  have N: "1 \<le> numRounds ?g" "numRounds ?g \<le> 4" "2 \<le> numPlayers ?g" "numPlayers ?g \<le> 10" "blind_check ?g = None"
    using assms(1) by (auto simp: check_game_def Let_def split: if_splits option.splits)
  obtain g' where g': "first_players [0..<numRounds ?g] ?g = Inr g'" "check_cards (boardCardsRead x) g' = Inr g"
    using assms(1) by (auto simp: check_game_def Let_def split: if_splits option.splits sum.splits)
  obtain fp where fp0: "g' = ?g\<lparr>firstPlayer := fp\<rparr>" "length fp = length (firstPlayer ?g)"
    "\<forall>c. fp ! c = (if c \<in> set [0..<numRounds ?g] then firstPlayer ?g ! c - 1 else firstPlayer ?g ! c)"
    "\<forall>c \<in> set [0..<numRounds ?g]. 0 < firstPlayer ?g ! c \<and> firstPlayer ?g ! c \<le> numPlayers ?g"
    using first_players_Inr [OF g'(1)] assms(2) N(2) by (auto simp: shape_game_def)
  have fp: "g' = ?g\<lparr>firstPlayer := fp\<rparr>" "length fp = 4" "\<forall>c<numRounds ?g. fp ! c < numPlayers ?g"
    using fp0 assms(2) by (auto simp: shape_game_def intro: less_le_trans [OF diff_less])
  have g: "g = g'" "1 \<le> numSuits g" "numSuits g \<le> 4" "1 \<le> numRanks g" "numRanks g \<le> 13" "1 \<le> numHoleCards g" "numHoleCards g \<le> 3"
    "numHoleCards g * numPlayers g + sum_list (map (\<lambda>c. numBoardCards g ! c) [0..<numRounds g]) \<le> numSuits g * numRanks g"
    using g'(2) by (auto simp: check_cards_def split: if_splits)
  have "\<forall>p<numPlayers ?g. blind ?g ! p \<le> stack ?g ! p"
    using N(5) by (auto simp: blind_check_def find_None_iff)
  moreover have "sum_list (map (\<lambda>c. numBoardCards g ! c) [0..<numRounds g]) = sum_list (take (numRounds g) (numBoardCards g))"
    using assms(2) N(2) unfolding g(1) fp(1) by (intro sum_take_map) (simp add: shape_game_def)
  ultimately show ?thesis
    using g N fp assms(2) unfolding game_checked_def shape_game_def by simp
qed

lemma readGame_ok:
  assumes "readGame inp = Some (Inr g)"
  shows "shape_game g \<and> game_checked g"
proof -
  obtain x where x: "read_lines inp reader_init = Some x" "check_game x = Inr g"
    using assms by (auto simp: readGame_def bind_eq_Some_conv)
  have "shape_game (rd_game reader_init)" by (simp add: reader_init_def shape_game_def)
  then show ?thesis using check_game_checked [OF x(2)] read_lines_shape [OF x(1)] by blast
qed

end
