(* ===== verification/Game_Manager.thy ===== *)
theory Game_Manager
  imports Gamedef_IO
begin

text \<open>
  \<open>CGameManager\<close> of \<open>game_manager.cpp\<close>: the three game definitions of the server, read at start-up.  The file system
  is a function from names to contents; \<open>None\<close> is undefined behaviour of \<open>readGame\<close>.
\<close>

definition g_szFileName :: "(nat \<times> string) list" where
  "g_szFileName = [(0, ''../data/leduc.game''), (1, ''../data/holdem.limit.2p.reverse_blinds.game''),
     (2, ''../data/holdem.nolimit.2p.reverse_blinds.game'')]"

fun load_games :: "(string \<Rightarrow> string option) \<Rightarrow> (nat \<times> string) list \<Rightarrow> (nat \<rightharpoonup> Game) \<Rightarrow> (bool \<times> (nat \<rightharpoonup> Game)) option" where
  "load_games files [] m = Some (True, m)"
| "load_games files ((ty, name) # rest) m =
     (case files name of
        None \<Rightarrow> Some (False, m)
      | Some inp \<Rightarrow> do {
          r \<leftarrow> readGame inp;
          (case r of
             Inl e \<Rightarrow> Some (False, m)
           | Inr g \<Rightarrow> load_games files rest (m(ty \<mapsto> g)))
        })"

definition LoadConfig :: "(string \<Rightarrow> string option) \<Rightarrow> (nat \<rightharpoonup> Game) \<Rightarrow> (bool \<times> (nat \<rightharpoonup> Game)) option" where
  "LoadConfig files m_mapGame = load_games files g_szFileName m_mapGame"

definition GetGame :: "(nat \<rightharpoonup> Game) \<Rightarrow> nat \<Rightarrow> Game option" where
  "GetGame m_mapGame nGameType = m_mapGame nGameType"

text \<open>Every game that the server uses has passed the checks of \<open>readGame\<close>.\<close>

lemma load_games_checked:
  assumes "load_games files xs m = Some (ok, m')" "\<forall>ty g. m ty = Some g \<longrightarrow> shape_game g \<and> game_checked g"
  shows "(\<forall>ty g. m' ty = Some g \<longrightarrow> shape_game g \<and> game_checked g) \<and> (ok \<longrightarrow> fst ` set xs \<subseteq> dom m' \<and> dom m \<subseteq> dom m')"
  using assms
proof (induction files xs m rule: load_games.induct)
  case (2 files ty name rest m)
  show ?case
  proof (cases "files name")
    case (Some inp)
    then obtain r where r: "readGame inp = Some r" using "2.prems"(1) by (auto split: bind_splits)
    show ?thesis
    proof (cases r)
      case (Inr g)
      have m: "\<forall>ty' g'. (m(ty \<mapsto> g)) ty' = Some g' \<longrightarrow> shape_game g' \<and> game_checked g'"
        using "2.prems"(2) readGame_ok r Inr by auto
      have l: "load_games files rest (m(ty \<mapsto> g)) = Some (ok, m')" using "2.prems"(1) Some r Inr by simp
      have "(\<forall>ty g. m' ty = Some g \<longrightarrow> shape_game g \<and> game_checked g) \<and>
          (ok \<longrightarrow> fst ` set rest \<subseteq> dom m' \<and> dom (m(ty \<mapsto> g)) \<subseteq> dom m')"
        by (rule "2.IH" [OF Some r Inr l m])
      then show ?thesis by (simp add: dom_fun_upd)
    qed (use "2.prems" Some r in auto)
  qed (use "2.prems" in auto)
qed auto

lemma LoadConfig_checked:
  assumes "LoadConfig files Map.empty = Some (True, m)"
  shows "\<exists>g. GetGame m 2 = Some g \<and> shape_game g \<and> game_checked g"
proof -
  have "2 \<in> dom m" using load_games_checked [OF assms [unfolded LoadConfig_def]] by (simp add: g_szFileName_def)
  then obtain g where "m 2 = Some g" by blast
  then show ?thesis using load_games_checked [OF assms [unfolded LoadConfig_def]] by (simp add: GetGame_def)
qed

end
