(* ===== verification/Gamedef_Lines.thy ===== *)
theory Gamedef_Lines
  imports Gamedef_IO
begin

text \<open>
  What a game that \<open>readGame\<close> accepts owes to its file: the lines that count, the last line of each keyword, and the numbers on it.  The
  checks of \<open>readGame\<close> on how many stacks, blinds, raise sizes and board cards were read are stated here on the file itself.
\<close>

section \<open>The lines of a file\<close>

text \<open>The lines up to \<open>end gamedef\<close> that are neither empty nor comments.\<close>

function gd_lines :: "string \<Rightarrow> string list" where
  "gd_lines inp =
     (case fgets MAX_LINE_LEN inp of
        None \<Rightarrow> []
      | Some (line, rest) \<Rightarrow>
          if char_at line 0 = CHR ''#'' \<or> char_at line 0 = CHR 0x0A then gd_lines rest
          else if strncasecmp_eq line ''end gamedef'' then []
          else line # gd_lines rest)"
  by pat_completeness auto
termination
  by (relation "measure length") (auto dest!: fgets_shorter)

declare gd_lines.simps [simp del]

primrec read_all :: "string list \<Rightarrow> reader \<Rightarrow> reader option" where
  "read_all [] x = Some x"
| "read_all (l # ls) x = do { y \<leftarrow> read_line l x; read_all ls y }"

lemma read_lines_all: "read_lines inp x = read_all (gd_lines inp) x"
proof (induction inp x rule: read_lines.induct)
  case (1 inp x)
  show ?case
  proof (cases "fgets MAX_LINE_LEN inp")
    case None
    then show ?thesis by (simp add: read_lines.simps [of inp] gd_lines.simps [of inp])
  next
    case (Some lr)
    then obtain line rest where lr: "fgets MAX_LINE_LEN inp = Some (line, rest)" by (cases lr) auto
    show ?thesis using lr "1.IH" [OF lr refl]
      by (subst read_lines.simps, subst gd_lines.simps) (auto split: option.split bind_splits)
  qed
qed

lemma read_all_append: "read_all (ls @ ks) x = do { y \<leftarrow> read_all ls x; read_all ks y }"
  by (induction ls arbitrary: x) (auto split: bind_splits)

text \<open>The numbers on the last line with a keyword.\<close>

definition last_items :: "string \<Rightarrow> (string \<Rightarrow> ('a list \<times> nat) option) \<Rightarrow> string list \<Rightarrow> 'a list option" where
  "last_items kw items ls =
     (let ks = filter (\<lambda>l. strncasecmp_eq l kw) ls in
      if ks = [] then None else map_option fst (items (drop (length kw) (last ks))))"

lemma last_items_snoc:
  "last_items kw items (ls @ [l]) =
     (if strncasecmp_eq l kw then map_option fst (items (drop (length kw) l)) else last_items kw items ls)"
  by (simp add: last_items_def)

section \<open>Keywords\<close>

lemma tolower_low: "97 \<le> (of_char c :: nat) \<Longrightarrow> tolower c = c"
  by (simp add: tolower_def Let_def)

lemma keyword_unique:
  assumes "strncasecmp_eq l a" "strncasecmp_eq l b" "length a \<le> length b"
  shows "map tolower (take (length a) b) = map tolower a"
proof -
  have "map tolower (take (length a) l) = take (length a) (map tolower (take (length b) l))" using assms(3) by (simp add: take_map min_absorb1)
  also have "\<dots> = map tolower (take (length a) b)" using assms(2) by (simp add: strncasecmp_eq_def take_map)
  finally show ?thesis using assms(1) by (simp add: strncasecmp_eq_def)
qed

lemma keyword_differs:
  assumes "strncasecmp_eq l a" "map tolower (take (length b) a) \<noteq> map tolower (take (length a) b)"
  shows "\<not> strncasecmp_eq l b"
  using keyword_unique [OF assms(1), of b] keyword_unique [OF _ assms(1), of b] assms(2) by (cases "length a \<le> length b") auto

text \<open>The tests of \<open>read_line\<close> that come before the one for the keyword.\<close>

lemma only_stack:
  assumes "strncasecmp_eq l ''stack''"
  shows "\<not> strncasecmp_eq l ''gamedef''"
  by (rule keyword_differs [OF assms]; simp add: tolower_low)+

lemma only_blind:
  assumes "strncasecmp_eq l ''blind''"
  shows "\<not> strncasecmp_eq l ''gamedef''"
    "\<not> strncasecmp_eq l ''stack''"
  by (rule keyword_differs [OF assms]; simp add: tolower_low)+

lemma only_raisesize:
  assumes "strncasecmp_eq l ''raisesize''"
  shows "\<not> strncasecmp_eq l ''gamedef''"
    "\<not> strncasecmp_eq l ''stack''"
    "\<not> strncasecmp_eq l ''blind''"
  by (rule keyword_differs [OF assms]; simp add: tolower_low)+

lemma only_boardcards:
  assumes "strncasecmp_eq l ''numboardcards''"
  shows "\<not> strncasecmp_eq l ''gamedef''"
    "\<not> strncasecmp_eq l ''stack''"
    "\<not> strncasecmp_eq l ''blind''"
    "\<not> strncasecmp_eq l ''raisesize''"
    "\<not> strncasecmp_eq l ''limit''"
    "\<not> strncasecmp_eq l ''nolimit''"
    "\<not> strncasecmp_eq l ''numplayers''"
    "\<not> strncasecmp_eq l ''numrounds''"
    "\<not> strncasecmp_eq l ''firstplayer''"
    "\<not> strncasecmp_eq l ''maxraises''"
    "\<not> strncasecmp_eq l ''numsuits''"
    "\<not> strncasecmp_eq l ''numranks''"
    "\<not> strncasecmp_eq l ''numholecards''"
  by (rule keyword_differs [OF assms]; simp add: tolower_low)+

section \<open>What the reader has seen\<close>

text \<open>The counters and the front of the arrays after a list of lines.\<close>

definition items_seen :: "'a list option \<Rightarrow> nat \<Rightarrow> 'a list \<Rightarrow> nat \<Rightarrow> 'a list \<Rightarrow> bool" where
  "items_seen seen dflt xs0 n xs \<longleftrightarrow> (case seen of None \<Rightarrow> n = dflt \<and> xs = xs0 | Some vs \<Rightarrow> n = length vs \<and> take n xs = vs)"

definition seen_all :: "string list \<Rightarrow> reader \<Rightarrow> bool" where
  "seen_all ls x \<longleftrightarrow> (let g = rd_game x; g0 = rd_game reader_init in
     items_seen (last_items ''stack'' (items32 MAX_PLAYERS) ls) 4 (stack g0) (stackRead x) (stack g) \<and>
     items_seen (last_items ''blind'' (items32 MAX_PLAYERS) ls) 0 (blind g0) (blindRead x) (blind g) \<and>
     items_seen (last_items ''raisesize'' (items32 MAX_PLAYERS) ls) 0 (raiseSize g0) (raiseSizeRead x) (raiseSize g) \<and>
     items_seen (last_items ''numboardcards'' (items8 MAX_ROUNDS) ls) 0 (numBoardCards g0) (boardCardsRead x) (numBoardCards g))"

lemma store_seen: "store_items vs xs = Some ys \<Longrightarrow> items_seen (Some vs) d xs0 (length vs) ys"
  by (auto simp: store_items_def items_seen_def split: if_splits)

lemma read_line_fields:
  assumes "read_line l x = Some y"
  shows "\<not> strncasecmp_eq l ''stack'' \<Longrightarrow> stackRead y = stackRead x \<and> stack (rd_game y) = stack (rd_game x)"
    "\<not> strncasecmp_eq l ''blind'' \<Longrightarrow> blindRead y = blindRead x \<and> blind (rd_game y) = blind (rd_game x)"
    "\<not> strncasecmp_eq l ''raisesize'' \<Longrightarrow> raiseSizeRead y = raiseSizeRead x \<and> raiseSize (rd_game y) = raiseSize (rd_game x)"
    "\<not> strncasecmp_eq l ''numboardcards'' \<Longrightarrow> boardCardsRead y = boardCardsRead x \<and> numBoardCards (rd_game y) = numBoardCards (rd_game x)"
  using assms unfolding read_line_def Let_def by (auto split: if_splits bind_splits)

lemma read_line_items:
  assumes "read_line l x = Some y"
  shows "strncasecmp_eq l ''stack'' \<Longrightarrow> \<exists>vs c. items32 MAX_PLAYERS (drop 5 l) = Some (vs, c) \<and>
      store_items vs (stack (rd_game x)) = Some (stack (rd_game y)) \<and> stackRead y = length vs"
    "strncasecmp_eq l ''blind'' \<Longrightarrow> \<exists>vs c. items32 MAX_PLAYERS (drop 5 l) = Some (vs, c) \<and>
      store_items vs (blind (rd_game x)) = Some (blind (rd_game y)) \<and> blindRead y = length vs"
    "strncasecmp_eq l ''raisesize'' \<Longrightarrow> \<exists>vs c. items32 MAX_PLAYERS (drop 9 l) = Some (vs, c) \<and>
      store_items vs (raiseSize (rd_game x)) = Some (raiseSize (rd_game y)) \<and> raiseSizeRead y = length vs"
    "strncasecmp_eq l ''numboardcards'' \<Longrightarrow> \<exists>vs c. items8 MAX_ROUNDS (drop 13 l) = Some (vs, c) \<and>
      store_items vs (numBoardCards (rd_game x)) = Some (numBoardCards (rd_game y)) \<and> boardCardsRead y = length vs"
proof -
  note r = assms [unfolded read_line_def Let_def]
  show "strncasecmp_eq l ''stack'' \<Longrightarrow> \<exists>vs c. items32 MAX_PLAYERS (drop 5 l) = Some (vs, c) \<and>
      store_items vs (stack (rd_game x)) = Some (stack (rd_game y)) \<and> stackRead y = length vs"
    using r by (auto simp: only_stack simp del: readItems.simps split: bind_splits)
  show "strncasecmp_eq l ''blind'' \<Longrightarrow> \<exists>vs c. items32 MAX_PLAYERS (drop 5 l) = Some (vs, c) \<and>
      store_items vs (blind (rd_game x)) = Some (blind (rd_game y)) \<and> blindRead y = length vs"
    using r by (auto simp: only_blind simp del: readItems.simps split: bind_splits)
  show "strncasecmp_eq l ''raisesize'' \<Longrightarrow> \<exists>vs c. items32 MAX_PLAYERS (drop 9 l) = Some (vs, c) \<and>
      store_items vs (raiseSize (rd_game x)) = Some (raiseSize (rd_game y)) \<and> raiseSizeRead y = length vs"
    using r by (auto simp: only_raisesize simp del: readItems.simps split: bind_splits)
  show "strncasecmp_eq l ''numboardcards'' \<Longrightarrow> \<exists>vs c. items8 MAX_ROUNDS (drop 13 l) = Some (vs, c) \<and>
      store_items vs (numBoardCards (rd_game x)) = Some (numBoardCards (rd_game y)) \<and> boardCardsRead y = length vs"
    using r by (auto simp: only_boardcards simp del: readItems.simps split: bind_splits)
qed

lemma seen_step:
  assumes "items_seen (last_items kw items ls) d xs0 n xs" "\<not> strncasecmp_eq l kw \<Longrightarrow> n' = n \<and> xs' = xs"
    "strncasecmp_eq l kw \<Longrightarrow> \<exists>vs c. items (drop k l) = Some (vs, c) \<and> store_items vs xs = Some xs' \<and> n' = length vs" "k = length kw"
  shows "items_seen (last_items kw items (ls @ [l])) d xs0 n' xs'"
proof (cases "strncasecmp_eq l kw")
  case True
  then obtain vs c where "items (drop (length kw) l) = Some (vs, c)" "store_items vs xs = Some xs'" "n' = length vs" using assms(3,4) by blast
  then show ?thesis using True by (simp add: last_items_snoc store_seen)
next
  case False
  then show ?thesis using assms(1,2) by (simp add: last_items_snoc)
qed

lemma read_all_seen: "read_all ls reader_init = Some x \<Longrightarrow> seen_all ls x"
proof (induction ls arbitrary: x rule: rev_induct)
  case Nil
  then have "x = reader_init" by simp
  then show ?case by (simp add: seen_all_def items_seen_def last_items_def reader_init_def)
next
  case (snoc l ls)
  obtain y where y: "read_all ls reader_init = Some y" "read_line l y = Some x"
    using snoc.prems by (auto simp: read_all_append split: bind_splits)
  note IH = snoc.IH [OF y(1)]
  note fs = read_line_fields [OF y(2)] and its = read_line_items [OF y(2)]
  note st = seen_step [where kw = "''stack''" and items = "items32 MAX_PLAYERS", OF _ fs(1) its(1)]
    seen_step [where kw = "''blind''" and items = "items32 MAX_PLAYERS", OF _ fs(2) its(2)]
    seen_step [where kw = "''raisesize''" and items = "items32 MAX_PLAYERS", OF _ fs(3) its(3)]
    seen_step [where kw = "''numboardcards''" and items = "items8 MAX_ROUNDS", OF _ fs(4) its(4)]
  show ?case using IH unfolding seen_all_def Let_def by (intro conjI; elim conjE) (rule st; simp)+
qed

section \<open>Files that are accepted\<close>

lemma check_game_counts:
  assumes "check_game x = Inr g"
  shows "numPlayers g \<le> stackRead x" "numPlayers g \<le> blindRead x" "bettingType g = limitBetting \<Longrightarrow> numRounds g \<le> raiseSizeRead x"
    "numRounds g \<le> boardCardsRead x"
    "\<exists>fp. g = (rd_game x)\<lparr>firstPlayer := fp\<rparr>"
proof -
  obtain g' where g': "first_players [0..<numRounds (rd_game x)] (rd_game x) = Inr g'" "check_cards (boardCardsRead x) g' = Inr g"
    and n: "numPlayers (rd_game x) \<le> stackRead x" "numPlayers (rd_game x) \<le> blindRead x"
      "bettingType (rd_game x) = limitBetting \<Longrightarrow> numRounds (rd_game x) \<le> raiseSizeRead x"
    using assms by (auto simp: check_game_def Let_def split: if_splits option.splits sum.splits)
  have g: "g = g'" "numRounds g \<le> boardCardsRead x" using g'(2) by (auto simp: check_cards_def split: if_splits)
  have "\<exists>fp. h' = h\<lparr>firstPlayer := fp\<rparr>" if "first_players cs h = Inr h'" for cs and h h' :: Game
    using that
  proof (induction cs arbitrary: h)
    case Nil
    then show ?case by (intro exI [of _ "firstPlayer h"]) simp
  next
    case (Cons c cs)
    then show ?case by (fastforce split: if_splits)
  qed
  then show ex: "\<exists>fp. g = (rd_game x)\<lparr>firstPlayer := fp\<rparr>" using g'(1) g(1) by blast
  then show "numPlayers g \<le> stackRead x" "numPlayers g \<le> blindRead x" "bettingType g = limitBetting \<Longrightarrow> numRounds g \<le> raiseSizeRead x"
    "numRounds g \<le> boardCardsRead x" using n g(2) by auto
qed

lemma seen_front:
  assumes "items_seen seen d xs0 n xs" "k \<le> n"
  shows "case seen of None \<Rightarrow> k \<le> d \<and> take k xs = take k xs0 | Some vs \<Rightarrow> k \<le> length vs \<and> take k xs = take k vs"
proof (cases seen)
  case (Some vs)
  have v: "n = length vs" "take n xs = vs" using assms(1) unfolding Some items_seen_def option.case by blast+
  have "take k xs = take k (take n xs)" using assms(2) by (simp add: min_absorb1)
  then have "take k xs = take k vs" unfolding v(2) .
  then show ?thesis using assms(2) v(1) unfolding Some option.case by simp
qed (use assms in \<open>auto simp: items_seen_def\<close>)

lemma accepted_file:
  assumes "readGame inp = Some (Inr g)"
  shows "case last_items ''stack'' (items32 MAX_PLAYERS) (gd_lines inp) of
      None \<Rightarrow> numPlayers g \<le> 4 \<and> (\<forall>p<numPlayers g. stack g ! p = INT32_MAX)
    | Some vs \<Rightarrow> numPlayers g \<le> length vs \<and> take (numPlayers g) (stack g) = take (numPlayers g) vs"
    "\<exists>vs. last_items ''blind'' (items32 MAX_PLAYERS) (gd_lines inp) = Some vs \<and> numPlayers g \<le> length vs \<and>
      take (numPlayers g) (blind g) = take (numPlayers g) vs"
    "bettingType g = limitBetting \<Longrightarrow> \<exists>vs. last_items ''raisesize'' (items32 MAX_PLAYERS) (gd_lines inp) = Some vs \<and> numRounds g \<le> length vs \<and>
      take (numRounds g) (raiseSize g) = take (numRounds g) vs"
    "\<exists>vs. last_items ''numboardcards'' (items8 MAX_ROUNDS) (gd_lines inp) = Some vs \<and> numRounds g \<le> length vs \<and>
      take (numRounds g) (numBoardCards g) = take (numRounds g) vs"
proof -
  obtain x where x: "read_all (gd_lines inp) reader_init = Some x" "check_game x = Inr g"
    using assms by (auto simp: readGame_def bind_eq_Some_conv read_lines_all)
  have N: "2 \<le> numPlayers g" "1 \<le> numRounds g" using readGame_ok [OF assms] by (auto simp: game_checked_def)
  note k = check_game_counts [OF x(2)] and sn = read_all_seen [OF x(1), unfolded seen_all_def Let_def]
  obtain fp where fp: "g = (rd_game x)\<lparr>firstPlayer := fp\<rparr>" using k(5) by blast
  have f: "stack (rd_game x) = stack g" "blind (rd_game x) = blind g" "raiseSize (rd_game x) = raiseSize g" "numBoardCards (rd_game x) = numBoardCards g"
    by (simp_all add: fp)
  note sn = sn [unfolded f]
  show "case last_items ''stack'' (items32 MAX_PLAYERS) (gd_lines inp) of
      None \<Rightarrow> numPlayers g \<le> 4 \<and> (\<forall>p<numPlayers g. stack g ! p = INT32_MAX)
    | Some vs \<Rightarrow> numPlayers g \<le> length vs \<and> take (numPlayers g) (stack g) = take (numPlayers g) vs"
  proof (cases "last_items ''stack'' (items32 MAX_PLAYERS) (gd_lines inp)")
    case None
    then have d: "numPlayers g \<le> 4" "stack g = replicate 4 INT32_MAX @ replicate 6 0" using sn k(1) by (auto simp: items_seen_def reader_init_def)
    then show ?thesis using None by (simp add: nth_append)
  next
    case (Some vs)
    then show ?thesis using seen_front [OF sn [THEN conjunct1] k(1)] by simp
  qed
  show "\<exists>vs. last_items ''blind'' (items32 MAX_PLAYERS) (gd_lines inp) = Some vs \<and> numPlayers g \<le> length vs \<and>
      take (numPlayers g) (blind g) = take (numPlayers g) vs"
    using seen_front [OF _ k(2)] sn N by (fastforce split: option.splits)
  show "bettingType g = limitBetting \<Longrightarrow> \<exists>vs. last_items ''raisesize'' (items32 MAX_PLAYERS) (gd_lines inp) = Some vs \<and> numRounds g \<le> length vs \<and>
      take (numRounds g) (raiseSize g) = take (numRounds g) vs"
    using seen_front [OF _ k(3)] sn N by (fastforce split: option.splits)
  show "\<exists>vs. last_items ''numboardcards'' (items8 MAX_ROUNDS) (gd_lines inp) = Some vs \<and> numRounds g \<le> length vs \<and>
      take (numRounds g) (numBoardCards g) = take (numRounds g) vs"
    using seen_front [OF _ k(4)] sn N by (fastforce split: option.splits)
qed

end
