(* ===== verification/Betting.thy ===== *)
theory Betting
  imports Game_Types
begin

text \<open>
  The betting engine of \<open>game.c\<close>: the counters over a state, whose turn it is, the start of a hand,
  which actions are valid and what an action does to the state.
\<close>

section \<open>Sums over rounds and players\<close>

primrec bcStart_loop :: "Game \<Rightarrow> nat \<Rightarrow> nat" where
  "bcStart_loop g 0 = 0"
| "bcStart_loop g (Suc r) = u8 (bcStart_loop g r + numBoardCards g ! r)"

definition bcStart :: "Game \<Rightarrow> nat \<Rightarrow> nat" where
  "bcStart g r = bcStart_loop g r"

definition sumBoardCards :: "Game \<Rightarrow> nat \<Rightarrow> nat" where
  "sumBoardCards g r = bcStart_loop g (Suc r)"

primrec sumActions_loop :: "State \<Rightarrow> nat \<Rightarrow> nat" where
  "sumActions_loop s 0 = 0"
| "sumActions_loop s (Suc r) = (sumActions_loop s r + numActions s ! r) mod 2 ^ 16"

definition sumActions :: "Game \<Rightarrow> State \<Rightarrow> nat" where
  "sumActions g s = sumActions_loop s (numRounds g)"

primrec sumSpent_loop :: "State \<Rightarrow> nat \<Rightarrow> int" where
  "sumSpent_loop s 0 = 0"
| "sumSpent_loop s (Suc p) = (sumSpent_loop s p + spent s ! p) mod 2 ^ 32"

definition sumSpent :: "Game \<Rightarrow> State \<Rightarrow> int" where
  "sumSpent g s = sumSpent_loop s (numPlayers g)"

section \<open>Whose turn it is\<close>

text \<open>
  \<open>nextPlayer\<close> walks round the table from \<open>curPlayer\<close> to the next seat that has neither folded nor put
  its whole stack in, and gives up with \<open>(uint8_t)(-1)\<close> after \<open>numPlayers + 4\<close> seats.
\<close>

function nextPlayer_loop :: "Game \<Rightarrow> State \<Rightarrow> nat \<Rightarrow> nat \<Rightarrow> nat" where
  "nextPlayer_loop g s n cnt =
     (let n' = (n + 1) mod numPlayers g in
      if cnt > numPlayers g + 2 then 255
      else if playerFolded s ! n' \<or> spent s ! n' \<ge> stack g ! n'
      then nextPlayer_loop g s n' (cnt + 1)
      else n')"
  by pat_completeness auto
termination
  by (relation "measure (\<lambda>(g, s, n, cnt). numPlayers g + 3 - cnt)") auto

declare nextPlayer_loop.simps [simp del]

definition nextPlayer :: "Game \<Rightarrow> State \<Rightarrow> nat \<Rightarrow> nat" where
  "nextPlayer g s curPlayer = nextPlayer_loop g s curPlayer 0"

definition currentPlayer :: "Game \<Rightarrow> State \<Rightarrow> nat" where
  "currentPlayer g s =
     (let r = round_no s in
      if numActions s ! r \<noteq> 0
      then nextPlayer g s (actingPlayer s ! r ! (numActions s ! r - 1))
      else nextPlayer g s (u8 (firstPlayer g ! r + numPlayers g - 1)))"

section \<open>Counters\<close>

definition numRaises :: "State \<Rightarrow> nat" where
  "numRaises s = count8 (\<lambda>i. act_type (action s ! round_no s ! i) = a_raise) (numActions s ! round_no s)"

definition numFolded :: "Game \<Rightarrow> State \<Rightarrow> nat" where
  "numFolded g s = count8 (\<lambda>p. playerFolded s ! p) (numPlayers g)"

primrec numCalled_loop :: "Game \<Rightarrow> State \<Rightarrow> nat \<Rightarrow> nat \<Rightarrow> nat" where
  "numCalled_loop g s 0 ret = ret"
| "numCalled_loop g s (Suc i) ret =
     (let p = actingPlayer s ! round_no s ! i;
          t = act_type (action s ! round_no s ! i)
      in if t = a_raise then (if spent s ! p < stack g ! p then u8 (ret + 1) else ret)
         else if t = a_call
         then numCalled_loop g s i (if spent s ! p < stack g ! p then u8 (ret + 1) else ret)
         else numCalled_loop g s i ret)"

definition numCalled :: "Game \<Rightarrow> State \<Rightarrow> nat" where
  "numCalled g s = numCalled_loop g s (numActions s ! round_no s) 0"

definition numAllIn :: "Game \<Rightarrow> State \<Rightarrow> nat" where
  "numAllIn g s = count8 (\<lambda>p. spent s ! p \<ge> stack g ! p) (numPlayers g)"

definition numActingPlayers :: "Game \<Rightarrow> State \<Rightarrow> nat" where
  "numActingPlayers g s =
     count8 (\<lambda>p. \<not> playerFolded s ! p \<and> spent s ! p < stack g ! p) (numPlayers g)"

section \<open>The start of a hand\<close>

text \<open>\<open>initState\<close> leaves the action arrays, the cards and \<open>roundSpent\<close> of the memory it is given.\<close>

definition initState :: "Game \<Rightarrow> nat \<Rightarrow> State \<Rightarrow> State option" where
  "initState g hid s =
     (let m0 = max_loop (\<lambda>p. blind g ! p) (numPlayers g) 0 in
      do {
        raiseTo \<leftarrow>
          (if bettingType g = noLimitBetting
           then (if m0 \<noteq> 0 then chk32 (m0 * 2) else Some 1)
           else Some 0);
        let m1 = max_loop (\<lambda>p. blind g ! p) (numPlayers g) m0;
        Some (s\<lparr>handId := hid, maxSpent := m1, minNoLimitRaiseTo := raiseTo,
                spent := fill (\<lambda>p. blind g ! p) (numPlayers g)
                           (fill (\<lambda>p. blind g ! p) (numPlayers g) (spent s)),
                playerFolded := fill (\<lambda>_. False) (numPlayers g) (playerFolded s),
                numActions := fill (\<lambda>_. 0) (numRounds g) (numActions s),
                round_no := 0, finished := False\<rparr>)
      })"

section \<open>Equality of states\<close>

definition statesEqualCommon :: "Game \<Rightarrow> State \<Rightarrow> State \<Rightarrow> bool" where
  "statesEqualCommon g a b \<longleftrightarrow>
     handId a = handId b \<and> round_no a = round_no b \<and>
     (\<forall>r \<in> {0..<round_no a + 1}.
        numActions a ! r = numActions b ! r \<and>
        (\<forall>i \<in> {0..<numActions a ! r}.
           act_type (action a ! r ! i) = act_type (action b ! r ! i) \<and>
           act_size (action a ! r ! i) = act_size (action b ! r ! i))) \<and>
     (\<forall>i \<in> {0..<sumBoardCards g (round_no a)}. boardCards a ! i = boardCards b ! i)"

definition statesEqual :: "Game \<Rightarrow> State \<Rightarrow> State \<Rightarrow> bool" where
  "statesEqual g a b \<longleftrightarrow> statesEqualCommon g a b \<and>
     (\<forall>p \<in> {0..<numPlayers g}. \<forall>i \<in> {0..<numHoleCards g}. holeCards a ! p ! i = holeCards b ! p ! i)"

definition matchStatesEqual :: "Game \<Rightarrow> MatchState \<Rightarrow> MatchState \<Rightarrow> bool" where
  "matchStatesEqual g a b \<longleftrightarrow> viewingPlayer a = viewingPlayer b \<and>
     statesEqualCommon g (ms_state a) (ms_state b) \<and>
     (\<forall>i \<in> {0..<numHoleCards g}. holeCards (ms_state a) ! viewingPlayer a ! i
                               = holeCards (ms_state b) ! viewingPlayer a ! i)"

section \<open>Valid actions\<close>

text \<open>
  \<open>raiseIsValid\<close>: \<open>Some None\<close> is the return value 0, \<open>Some (Some (min, max))\<close> the return value 1 with
  the two sizes stored through the pointers, \<open>None\<close> a read of \<open>stack\<close> outside the array.
\<close>

definition raiseIsValid :: "Game \<Rightarrow> State \<Rightarrow> (int \<times> int) option option" where
  "raiseIsValid g s =
     (if numRaises s \<ge> maxRaises g ! round_no s then Some None
      else if numActions s ! round_no s + numPlayers g > MAX_NUM_ACTIONS then Some None
      else if numActingPlayers g s \<le> 1 then Some None
      else if bettingType g \<noteq> noLimitBetting then Some (Some (0, 0))
      else do {
        st \<leftarrow> rd (stack g) (currentPlayer g s);
        if minNoLimitRaiseTo s > st
        then (if maxSpent s \<ge> st then Some None else Some (Some (st, st)))
        else Some (Some (minNoLimitRaiseTo s, st))
      })"

definition isCanFold :: "Game \<Rightarrow> State \<Rightarrow> bool option" where
  "isCanFold g s =
     (if finished s then Some False
      else do {
        sp \<leftarrow> rd (spent s) (currentPlayer g s);
        st \<leftarrow> rd (stack g) (currentPlayer g s);
        Some (\<not> (sp = maxSpent s \<or> sp = st))
      })"

text \<open>\<open>isValidAction\<close> returns the flag and the action, which \<open>tryFixing\<close> may have changed.\<close>

definition isValidAction :: "Game \<Rightarrow> State \<Rightarrow> bool \<Rightarrow> Action \<Rightarrow> (bool \<times> Action) option" where
  "isValidAction g s tryFixing a =
     (if finished s \<or> act_type a = a_invalid then Some (False, a)
      else if act_type a = a_raise then
        do {
          v \<leftarrow> raiseIsValid g s;
          (case v of
             None \<Rightarrow> Some (False, a)
           | Some (mn, mx) \<Rightarrow>
               if bettingType g = noLimitBetting then
                 if act_size a < mn then
                   (if \<not> tryFixing then Some (False, a) else Some (True, a\<lparr>act_size := mn\<rparr>))
                 else if act_size a > mx then
                   (if \<not> tryFixing then Some (False, a) else Some (True, a\<lparr>act_size := mx\<rparr>))
                 else Some (True, a)
               else Some (True, a))
        }
      else if act_type a = a_fold then
        do {
          sp \<leftarrow> rd (spent s) (currentPlayer g s);
          st \<leftarrow> rd (stack g) (currentPlayer g s);
          if sp = st then Some (False, a) else Some (True, a\<lparr>act_size := 0\<rparr>)
        }
      else Some (True, a\<lparr>act_size := 0\<rparr>))"

section \<open>Doing an action\<close>

text \<open>The five stages of \<open>doAction\<close>: record the action, apply it, book the round's bet, end the round.\<close>

definition doAction_record :: "Action \<Rightarrow> nat \<Rightarrow> State \<Rightarrow> State option" where
  "doAction_record a p s =
     (let r = round_no s; k = numActions s ! r in
      if k < MAX_NUM_ACTIONS
      then Some (s\<lparr>action := (action s)[r := (action s ! r)[k := a]],
                   actingPlayer := (actingPlayer s)[r := (actingPlayer s ! r)[k := u8 p]],
                   numActions := (numActions s)[r := u8 (k + 1)]\<rparr>)
      else None)"

definition doAction_fold :: "nat \<Rightarrow> State \<Rightarrow> State option" where
  "doAction_fold p s = do { f \<leftarrow> wr (playerFolded s) p True; Some (s\<lparr>playerFolded := f\<rparr>) }"

definition doAction_call :: "Game \<Rightarrow> nat \<Rightarrow> State \<Rightarrow> State option" where
  "doAction_call g p s =
     do {
       st \<leftarrow> rd (stack g) p;
       let amount = (if maxSpent s > st then st else maxSpent s);
       sp \<leftarrow> wr (spent s) p amount;
       let r = round_no s;
       let k = numActions s ! r - 1;
       Some (s\<lparr>spent := sp,
               action := (action s)[r := (action s ! r)[k := (action s ! r ! k)\<lparr>act_size := amount\<rparr>]]\<rparr>)
     }"

definition doAction_raise :: "Game \<Rightarrow> Action \<Rightarrow> nat \<Rightarrow> State \<Rightarrow> State option" where
  "doAction_raise g a p s =
     do {
       st \<leftarrow> rd (stack g) p;
       s' \<leftarrow>
         (if bettingType g = noLimitBetting
          then (if act_size a > maxSpent s \<and> act_size a \<le> st
                then do {
                  d \<leftarrow> chk32 (act_size a + act_size a);
                  t \<leftarrow> chk32 (d - maxSpent s);
                  Some (s\<lparr>minNoLimitRaiseTo :=
                            (if t > minNoLimitRaiseTo s then t else minNoLimitRaiseTo s),
                          maxSpent := act_size a\<rparr>)
                }
                else None)
          else do {
            t \<leftarrow> chk32 (maxSpent s + raiseSize g ! round_no s);
            Some (s\<lparr>maxSpent := (if t > st then st else t)\<rparr>)
          });
       sp \<leftarrow> wr (spent s') p (maxSpent s');
       Some (s'\<lparr>spent := sp\<rparr>)
     }"

definition doAction_apply :: "Game \<Rightarrow> Action \<Rightarrow> nat \<Rightarrow> State \<Rightarrow> State option" where
  "doAction_apply g a p s =
     (case act_type a of
        a_fold \<Rightarrow> doAction_fold p s
      | a_call \<Rightarrow> doAction_call g p s
      | a_raise \<Rightarrow> doAction_raise g a p s
      | a_invalid \<Rightarrow> None)"

text \<open>\<open>roundSpent[round] = maxSpent; for (i < round) roundSpent[round] -= roundSpent[i];\<close>\<close>

primrec roundSpent_loop :: "State \<Rightarrow> nat \<Rightarrow> int option" where
  "roundSpent_loop s 0 = Some (maxSpent s)"
| "roundSpent_loop s (Suc i) = do { v \<leftarrow> roundSpent_loop s i; chk32 (v - roundSpent s ! i) }"

definition doAction_roundSpent :: "Action \<Rightarrow> State \<Rightarrow> State option" where
  "doAction_roundSpent a s =
     (if round_no s = 0 then Some (s\<lparr>roundSpent := (roundSpent s)[0 := maxSpent s]\<rparr>)
      else if act_type a = a_raise
      then do {
        v \<leftarrow> roundSpent_loop s (round_no s);
        Some (s\<lparr>roundSpent := (roundSpent s)[round_no s := v]\<rparr>)
      }
      else Some s)"

definition doAction_end :: "Game \<Rightarrow> State \<Rightarrow> (State \<times> bool) option" where
  "doAction_end g s =
     (if numFolded g s + 1 \<ge> numPlayers g then Some (s\<lparr>finished := True\<rparr>, True)
      else if numCalled g s \<ge> numActingPlayers g s then
        (if numActingPlayers g s > 1 then
           (if round_no s + 1 < numRounds g then
              do {
                raiseTo \<leftarrow> chk32 (max_loop (\<lambda>p. blind g ! p) (numPlayers g) 1 + maxSpent s);
                Some (s\<lparr>round_no := round_no s + 1, minNoLimitRaiseTo := raiseTo\<rparr>, True)
              }
            else Some (s\<lparr>finished := True\<rparr>, True))
         else Some (s\<lparr>finished := True, round_no := numRounds g - 1\<rparr>, True))
      else Some (s, False))"

definition doAction :: "Game \<Rightarrow> Action \<Rightarrow> State \<Rightarrow> (State \<times> bool) option" where
  "doAction g a s =
     (let p = currentPlayer g s in
      do {
        s1 \<leftarrow> doAction_record a p s;
        s2 \<leftarrow> doAction_apply g a p s1;
        s3 \<leftarrow> doAction_roundSpent a s2;
        doAction_end g s3
      })"

end
