(* ===== verification/Turn_Order.thy ===== *)
theory Turn_Order
  imports Betting
begin

text \<open>
  The order of play.  \<open>nextPlayer\<close> is characterised as the first seat after the given one that can
  still act.  The history of the current round since the last raise is a list of seats that have
  answered that raise; \<open>turn_ok\<close> says they are distinct, lie on one arc of the table that starts at the
  raiser (or at the round's first player) and cover every seat of that arc that can still act.
\<close>

section \<open>The next seat that can act\<close>

definition can_act :: "Game \<Rightarrow> State \<Rightarrow> nat \<Rightarrow> bool" where
  "can_act g s p \<longleftrightarrow> \<not> playerFolded s ! p \<and> spent s ! p < stack g ! p"

lemma mod_Suc_add: "((n + 1) mod N + 1 + k) mod N = (n + 1 + (k + 1)) mod (N::nat)"
  by (metis add.assoc add.commute mod_add_left_eq)

lemma nextPlayer_loop_first:
  assumes "can_act g s ((n + 1 + k) mod numPlayers g)"
    and "\<And>j. j < k \<Longrightarrow> \<not> can_act g s ((n + 1 + j) mod numPlayers g)"
    and "cnt + k \<le> numPlayers g + 2"
  shows "nextPlayer_loop g s n cnt = (n + 1 + k) mod numPlayers g"
  using assms
proof (induction k arbitrary: n cnt)
  case 0
  then show ?case by (subst nextPlayer_loop.simps) (auto simp: can_act_def Let_def)
next
  case (Suc k)
  let ?n' = "(n + 1) mod numPlayers g"
  have "\<not> can_act g s ?n'" using Suc.prems(2) [of 0] by simp
  then have "nextPlayer_loop g s n cnt = nextPlayer_loop g s ?n' (cnt + 1)"
    using Suc.prems(3) by (subst nextPlayer_loop.simps) (auto simp: can_act_def Let_def)
  also have "\<dots> = (?n' + 1 + k) mod numPlayers g"
  proof (rule Suc.IH)
    show "can_act g s ((?n' + 1 + k) mod numPlayers g)"
      using Suc.prems(1) by (simp only: mod_Suc_add Suc_eq_plus1)
    show "\<not> can_act g s ((?n' + 1 + j) mod numPlayers g)" if "j < k" for j
      using Suc.prems(2) [of "j + 1"] that mod_Suc_add [of n "numPlayers g" j] by simp
    show "cnt + 1 + k \<le> numPlayers g + 2" using Suc.prems(3) by simp
  qed
  finally show ?case by (simp only: mod_Suc_add Suc_eq_plus1)
qed

lemma nextPlayer_first:
  assumes "x < numPlayers g" "can_act g s x"
  obtains k where "k < numPlayers g" "nextPlayer g s c = (c + 1 + k) mod numPlayers g"
    "can_act g s ((c + 1 + k) mod numPlayers g)"
    "\<And>j. j < k \<Longrightarrow> \<not> can_act g s ((c + 1 + j) mod numPlayers g)"
proof -
  let ?N = "numPlayers g"
  let ?Q = "\<lambda>k. can_act g s ((c + 1 + k) mod ?N)"
  have N: "0 < ?N" using assms(1) by simp
  define d where "d = seat_dist ?N ((c + 1) mod ?N) x"
  have "((c + 1) mod ?N + d) mod ?N = x"
    unfolding d_def using N assms(1) by (simp add: seat_at_dist)
  then have Qd: "?Q d" using assms(2) by (simp add: mod_simps)
  have "d < ?N" unfolding d_def using N by (rule seat_dist_less)
  define k where "k = (LEAST k. ?Q k)"
  have "?Q k" unfolding k_def by (rule LeastI) (rule Qd)
  moreover have "k \<le> d" unfolding k_def by (rule Least_le) (rule Qd)
  moreover have "\<not> ?Q j" if "j < k" for j using that unfolding k_def by (rule not_less_Least)
  moreover have "nextPlayer g s c = (c + 1 + k) mod ?N"
    unfolding nextPlayer_def
    using calculation \<open>d < ?N\<close> by (intro nextPlayer_loop_first) auto
  ultimately show thesis using that [of k] \<open>d < ?N\<close> by auto
qed

lemma nextPlayer_loop_none:
  assumes "0 < numPlayers g" "\<And>x. x < numPlayers g \<Longrightarrow> \<not> can_act g s x"
  shows "nextPlayer_loop g s n cnt = 255"
proof (induction "numPlayers g + 3 - cnt" arbitrary: n cnt)
  case 0
  then show ?case by (subst nextPlayer_loop.simps) (simp add: Let_def)
next
  case (Suc d)
  have "\<not> can_act g s ((n + 1) mod numPlayers g)" using assms by simp
  with Suc show ?case by (subst nextPlayer_loop.simps) (simp add: Let_def can_act_def not_less)
qed

lemma seat_dist_step:
  assumes "f < N" "q < N" "seat_dist N f q + 1 + j < N"
  shows "seat_dist N f ((q + 1 + j) mod N) = seat_dist N f q + 1 + j"
proof -
  have "(q + 1 + j) mod N = ((f + seat_dist N f q) mod N + 1 + j) mod N"
    using assms by (simp add: seat_at_dist)
  also have "\<dots> = (f + (seat_dist N f q + 1 + j)) mod N"
    by (metis add.assoc mod_add_left_eq)
  finally show ?thesis using assms by (simp only: seat_dist_add)
qed

section \<open>The arc of seats that have answered the last raise\<close>

definition turn_ok ::
  "nat \<Rightarrow> (nat \<Rightarrow> bool) \<Rightarrow> (nat \<Rightarrow> bool) \<Rightarrow> nat \<Rightarrow> (nat \<times> ActionType) list \<Rightarrow> bool" where
  "turn_ok N folded act f seg \<longleftrightarrow>
     f < N \<and> distinct (map fst seg) \<and>
     (\<forall>(p, t) \<in> set seg. p < N \<and> t \<noteq> a_invalid \<and> (t = a_fold \<longleftrightarrow> folded p) \<and>
        seat_dist N f p \<le> seat_dist N f (fst (hd seg))) \<and>
     (\<forall>x<N. act x \<and> seg \<noteq> [] \<and> seat_dist N f x \<le> seat_dist N f (fst (hd seg))
        \<longrightarrow> x \<in> fst ` set seg)"

definition turn_pick ::
  "nat \<Rightarrow> (nat \<Rightarrow> bool) \<Rightarrow> nat \<Rightarrow> (nat \<times> ActionType) list \<Rightarrow> nat \<Rightarrow> bool" where
  "turn_pick N act f seg p \<longleftrightarrow>
     p < N \<and> act p \<and> p \<notin> fst ` set seg \<and>
     (\<forall>q \<in> fst ` set seg. seat_dist N f q < seat_dist N f p) \<and>
     (\<forall>x<N. act x \<and> seat_dist N f x < seat_dist N f p \<longrightarrow> x \<in> fst ` set seg)"

lemma turn_ok_Nil: "f < N \<Longrightarrow> turn_ok N folded act f []"
  by (simp add: turn_ok_def)

text \<open>Answering extends the arc by one seat.\<close>

lemma turn_ok_answer:
  assumes ok: "turn_ok N folded act f seg" and pick: "turn_pick N act f seg p"
    and t: "t \<noteq> a_invalid" "t = a_fold \<longleftrightarrow> folded' p"
    and frame: "\<And>x. x \<noteq> p \<Longrightarrow> folded' x = folded x" "\<And>x. act' x \<Longrightarrow> act x"
  shows "turn_ok N folded' act' f ((p, t) # seg)"
proof -
  have p: "p < N" "p \<notin> fst ` set seg" and near: "\<forall>q \<in> fst ` set seg. seat_dist N f q < seat_dist N f p"
    and cover: "\<forall>x<N. act x \<and> seat_dist N f x < seat_dist N f p \<longrightarrow> x \<in> fst ` set seg"
    using pick by (auto simp: turn_pick_def)
  have f: "f < N" using ok by (simp add: turn_ok_def)
  have old: "q < N \<and> u \<noteq> a_invalid \<and> (u = a_fold \<longleftrightarrow> folded' q) \<and> seat_dist N f q \<le> seat_dist N f p"
    if "(q, u) \<in> set seg" for q u
  proof -
    have mem: "q \<in> fst ` set seg" using that by force
    then have "q \<noteq> p" using p(2) by auto
    then have "folded' q = folded q" by (rule frame(1))
    moreover have "seat_dist N f q \<le> seat_dist N f p" using near mem by (auto intro: less_imp_le)
    ultimately show ?thesis using ok that by (auto simp: turn_ok_def)
  qed
  have all: "\<forall>x<N. act' x \<and> seat_dist N f x \<le> seat_dist N f p \<longrightarrow> x \<in> insert p (fst ` set seg)"
    using cover frame(2) seat_dist_inj [OF f _ p(1)] by (metis insertCI le_neq_implies_less)
  have "distinct (map fst ((p, t) # seg))" using ok p(2) by (simp add: turn_ok_def)
  then show ?thesis unfolding turn_ok_def using f t p(1) old all by auto
qed

text \<open>A raise starts a new arc at the raiser.\<close>

lemma turn_ok_raise:
  assumes "p < N" "\<not> folded' p"
  shows "turn_ok N folded' act' p [(p, a_raise)]"
  using assms seat_dist_inj [of p N _ p] by (auto simp: turn_ok_def)

text \<open>The seat after the last one that answered, when some seat that can act has not answered.\<close>

lemma turn_pick_next:
  assumes ok: "turn_ok N folded act f seg" and ne: "seg \<noteq> []"
    and open_seat: "x0 < N" "act x0" "x0 \<notin> fst ` set seg"
    and k: "act ((fst (hd seg) + 1 + k) mod N)"
      "\<And>j. j < k \<Longrightarrow> \<not> act ((fst (hd seg) + 1 + j) mod N)"
  shows "turn_pick N act f seg ((fst (hd seg) + 1 + k) mod N)"
proof -
  let ?q = "fst (hd seg)" let ?d = "seat_dist N f"
  let ?p = "(?q + 1 + k) mod N"
  obtain u where "(?q, u) \<in> set seg" using hd_in_set [OF ne] by (metis prod.collapse)
  then have f: "f < N" and q: "?q < N" and N: "0 < N"
    and arc: "\<forall>y \<in> fst ` set seg. ?d y \<le> ?d ?q"
    and cover: "\<forall>x<N. act x \<and> ?d x \<le> ?d ?q \<longrightarrow> x \<in> fst ` set seg"
    using ok ne by (auto simp: turn_ok_def)
  have far: "?d x = ?d ?q + 1 + (?d x - ?d ?q - 1)" "x = (?q + 1 + (?d x - ?d ?q - 1)) mod N"
    if "x < N" "?d ?q < ?d x" for x
  proof -
    have lt: "?d x < N" using N by (rule seat_dist_less)
    show 1: "?d x = ?d ?q + 1 + (?d x - ?d ?q - 1)" using that by simp
    have "?d ((?q + 1 + (?d x - ?d ?q - 1)) mod N) = ?d x"
      using 1 lt by (subst seat_dist_step [OF f q]) auto
    then show "x = (?q + 1 + (?d x - ?d ?q - 1)) mod N"
      using seat_dist_inj [OF f \<open>x < N\<close>] N by (metis mod_less_divisor)
  qed
  have close: "k \<le> ?d x - ?d ?q - 1" if "x < N" "act x" "?d ?q < ?d x" for x
    using far(2) [OF that(1,3)] that(2) k(2) not_less by metis
  have x0: "?d ?q < ?d x0" using cover open_seat not_less by blast
  have "?d ?q + 1 + k < N"
    using close [OF open_seat(1,2) x0] far(1) [OF open_seat(1) x0] seat_dist_less [OF N, of f x0] by simp
  then have dp: "?d ?p = ?d ?q + 1 + k" by (rule seat_dist_step [OF f q])
  have "x \<in> fst ` set seg" if "x < N" "act x" "?d x < ?d ?p" for x
  proof (rule ccontr)
    assume "x \<notin> fst ` set seg"
    then have "?d ?q < ?d x" using cover that(1,2) not_less by blast
    then show False using close [OF that(1,2)] that(3) dp by simp
  qed
  moreover have "?d y < ?d ?p" if "y \<in> fst ` set seg" for y using arc that dp by fastforce
  moreover have "?p \<notin> fst ` set seg" using arc dp by fastforce
  ultimately show ?thesis using k(1) N by (auto simp: turn_pick_def)
qed

lemma turn_pick_first:
  assumes "f < N" "k < N" "act ((f + k) mod N)" "\<And>j. j < k \<Longrightarrow> \<not> act ((f + j) mod N)"
  shows "turn_pick N act f [] ((f + k) mod N)"
proof -
  have "seat_dist N f x \<ge> k" if "x < N" "act x" for x
    using assms(4) [of "seat_dist N f x"] seat_at_dist [OF assms(1) that(1)] that(2) not_less by metis
  then show ?thesis using assms(1-3) by (auto simp: turn_pick_def seat_dist_add not_less)
qed

end
