(* ===== verification/Betting_Inv.thy ===== *)
theory Betting_Inv
  imports Turn_Order
begin

text \<open>
  The invariant of the betting engine and its preservation: the array shapes, the money invariant
  (nobody has put in more than the current bet or than the own stack, somebody has put in the current
  bet, in no-limit games the next raise goes above it), the turn invariant of the current round, and
  the bookkeeping of \<open>roundSpent\<close>.
\<close>

section \<open>The history of the current round\<close>

definition hist :: "State \<Rightarrow> (nat \<times> ActionType) list" where
  "hist s = map (\<lambda>i. (actingPlayer s ! round_no s ! i, act_type (action s ! round_no s ! i)))
              (rev [0..<numActions s ! round_no s])"

fun since_raise :: "(nat \<times> ActionType) list \<Rightarrow> (nat \<times> ActionType) list" where
  "since_raise [] = []"
| "since_raise ((p, t) # h) = (p, t) # (if t = a_raise then [] else since_raise h)"

lemma since_raise_Nil_iff [simp]: "since_raise h = [] \<longleftrightarrow> h = []"
  by (cases h) auto

lemma fst_hd_since_raise: "h \<noteq> [] \<Longrightarrow> fst (hd (since_raise h)) = fst (hd h)"
  by (cases h) auto

lemma hist_Nil_iff: "hist s = [] \<longleftrightarrow> numActions s ! round_no s = 0"
  by (simp add: hist_def)

lemma length_hist: "length (hist s) = numActions s ! round_no s"
  by (simp add: hist_def)

lemma hist_hd:
  "numActions s ! round_no s \<noteq> 0 \<Longrightarrow>
     fst (hd (hist s)) = actingPlayer s ! round_no s ! (numActions s ! round_no s - 1)"
  by (cases "numActions s ! round_no s") (auto simp: hist_def)

definition answered :: "State \<Rightarrow> nat set" where
  "answered s = fst ` set (since_raise (hist s))"

definition undecided :: "Game \<Rightarrow> State \<Rightarrow> nat" where
  "undecided g s = card {x. x < numPlayers g \<and> can_act g s x \<and> x \<notin> answered s}"

section \<open>Counters as cardinalities\<close>

lemma numActing_card:
  "wf_game g \<Longrightarrow> numActingPlayers g s = card {x. x < numPlayers g \<and> can_act g s x}"
  using wf_gameD(2) [of g] by (simp add: numActingPlayers_def count8_card can_act_def)

lemma numFolded_card:
  "wf_game g \<Longrightarrow> numFolded g s = card {x. x < numPlayers g \<and> playerFolded s ! x}"
  using wf_gameD(2) [of g] by (simp add: numFolded_def count8_card)

definition counts_called :: "Game \<Rightarrow> State \<Rightarrow> nat \<times> ActionType \<Rightarrow> bool" where
  "counts_called g s = (\<lambda>(p, t). (t = a_raise \<or> t = a_call) \<and> spent s ! p < stack g ! p)"

lemma numCalled_loop_eq:
  "ret + n < 256 \<Longrightarrow> numCalled_loop g s n ret = ret + length (filter (counts_called g s) (since_raise
     (map (\<lambda>i. (actingPlayer s ! round_no s ! i, act_type (action s ! round_no s ! i))) (rev [0..<n]))))"
  by (induction n arbitrary: ret) (auto simp: Let_def counts_called_def)

lemma numCalled_eq:
  "numActions s ! round_no s < 256 \<Longrightarrow>
     numCalled g s = length (filter (counts_called g s) (since_raise (hist s)))"
  using numCalled_loop_eq [of 0 "numActions s ! round_no s" g s] by (simp add: numCalled_def hist_def)

lemma length_filter_card:
  assumes "distinct (map fst xs)"
  shows "length (filter P xs) = card (fst ` set (filter P xs))"
proof -
  have "card (set (map fst (filter P xs))) = length (map fst (filter P xs))"
    by (rule distinct_card) (rule distinct_map_filter [OF assms])
  then show ?thesis by (simp only: set_map length_map)
qed

section \<open>The turn invariant\<close>

definition seg_inv :: "Game \<Rightarrow> State \<Rightarrow> nat \<Rightarrow> bool" where
  "seg_inv g s f \<longleftrightarrow>
     turn_ok (numPlayers g) (\<lambda>x. playerFolded s ! x) (can_act g s) f (since_raise (hist s)) \<and>
     (hist s = [] \<longrightarrow> f = firstPlayer g ! round_no s) \<and>
     (\<forall>(p, t) \<in> set (since_raise (hist s)).
        t \<noteq> a_fold \<longrightarrow> spent s ! p = maxSpent s \<or> spent s ! p = stack g ! p) \<and>
     numActions s ! round_no s + undecided g s \<le> MAX_NUM_ACTIONS"

definition turn_inv :: "Game \<Rightarrow> State \<Rightarrow> bool" where
  "turn_inv g s \<longleftrightarrow> (\<exists>f. seg_inv g s f) \<and> 0 < undecided g s \<and> numFolded g s + 1 < numPlayers g"

lemma numCalled_undecided:
  assumes wf: "wf_game g" and seg: "seg_inv g s f"
  shows "numCalled g s + undecided g s = numActingPlayers g s"
proof -
  let ?seg = "since_raise (hist s)" let ?N = "numPlayers g"
  let ?A = "{x. x < ?N \<and> can_act g s x}"
  have ok: "turn_ok ?N (\<lambda>x. playerFolded s ! x) (can_act g s) f ?seg"
    and le: "numActions s ! round_no s \<le> 64" using seg by (auto simp: seg_inv_def)
  have "fst ` set (filter (counts_called g s) ?seg) = ?A \<inter> answered s"
  proof (intro equalityI subsetI)
    fix x assume "x \<in> fst ` set (filter (counts_called g s) ?seg)"
    then obtain t where x: "(x, t) \<in> set ?seg" "counts_called g s (x, t)" by auto
    then have "x < ?N" "t = a_fold \<longleftrightarrow> playerFolded s ! x" using ok by (auto simp: turn_ok_def)
    moreover have "x \<in> answered s" using x(1) by (force simp: answered_def)
    ultimately show "x \<in> ?A \<inter> answered s" using x(2) by (auto simp: counts_called_def can_act_def)
  next
    fix x assume "x \<in> ?A \<inter> answered s"
    then obtain t where x: "(x, t) \<in> set ?seg" "x < ?N" "can_act g s x"
      by (auto simp: answered_def)
    moreover have "t \<noteq> a_invalid" "t \<noteq> a_fold" using ok x by (auto simp: turn_ok_def can_act_def)
    ultimately have "counts_called g s (x, t)"
      by (cases t) (auto simp: counts_called_def can_act_def)
    then show "x \<in> fst ` set (filter (counts_called g s) ?seg)" using x(1) by force
  qed
  moreover have "distinct (map fst ?seg)" using ok by (simp add: turn_ok_def)
  ultimately have "numCalled g s = card (?A \<inter> answered s)"
    using le by (simp add: numCalled_eq length_filter_card)
  moreover have "undecided g s = card (?A - answered s)"
    unfolding undecided_def by (rule arg_cong [where f = card]) auto
  moreover have "card (?A \<inter> answered s) + card (?A - answered s) = card ?A"
    using card_Int_Diff [of ?A "answered s"] by simp
  ultimately show ?thesis using numActing_card [OF wf, of s] by simp
qed

lemma currentPlayer_pick:
  assumes wf: "wf_game g" and seg: "seg_inv g s f" and und: "0 < undecided g s"
  shows "turn_pick (numPlayers g) (can_act g s) f (since_raise (hist s)) (currentPlayer g s)"
proof -
  let ?N = "numPlayers g"
  have ok: "turn_ok ?N (\<lambda>x. playerFolded s ! x) (can_act g s) f (since_raise (hist s))"
    and start: "hist s = [] \<longrightarrow> f = firstPlayer g ! round_no s" using seg by (auto simp: seg_inv_def)
  have f: "f < ?N" using ok by (simp add: turn_ok_def)
  have "{x. x < ?N \<and> can_act g s x \<and> x \<notin> answered s} \<noteq> {}"
    using und by (auto simp: undecided_def card_gt_0_iff)
  then obtain x0 where x0: "x0 < ?N" "can_act g s x0" "x0 \<notin> answered s" by blast
  show ?thesis
  proof (cases "hist s = []")
    case True
    then have cur: "currentPlayer g s = nextPlayer g s (f + ?N - 1)"
      using start f wf_gameD(2) [OF wf] by (simp add: currentPlayer_def hist_Nil_iff Let_def)
    have shift: "(f + ?N - 1 + 1 + j) mod ?N = (f + j) mod ?N" for j
    proof -
      have "f + ?N - 1 + 1 + j = f + j + ?N" using wf_gameD(1) [OF wf] by simp
      then show ?thesis by (simp only: mod_add_self2)
    qed
    obtain k where k: "k < ?N" "nextPlayer g s (f + ?N - 1) = (f + ?N - 1 + 1 + k) mod ?N"
      "can_act g s ((f + ?N - 1 + 1 + k) mod ?N)"
      "\<And>j. j < k \<Longrightarrow> \<not> can_act g s ((f + ?N - 1 + 1 + j) mod ?N)"
      using nextPlayer_first [OF x0(1,2)] by metis
    have "turn_pick ?N (can_act g s) f [] ((f + k) mod ?N)"
      by (rule turn_pick_first) (use f k shift in auto)
    then show ?thesis using True cur k(2) shift by simp
  next
    case False
    let ?q = "fst (hd (since_raise (hist s)))"
    have cur: "currentPlayer g s = nextPlayer g s ?q"
      using False hist_hd [of s] by (simp add: currentPlayer_def hist_Nil_iff Let_def fst_hd_since_raise)
    obtain k where k: "nextPlayer g s ?q = (?q + 1 + k) mod ?N"
      "can_act g s ((?q + 1 + k) mod ?N)" "\<And>j. j < k \<Longrightarrow> \<not> can_act g s ((?q + 1 + j) mod ?N)"
      using nextPlayer_first [OF x0(1,2)] by metis
    have "turn_pick ?N (can_act g s) f (since_raise (hist s)) ((?q + 1 + k) mod ?N)"
      by (rule turn_pick_next [OF ok _ x0(1,2)]) (use False x0 k in \<open>auto simp: answered_def\<close>)
    then show ?thesis using cur k(1) by simp
  qed
qed

text \<open>The effect of one move on the turn invariant, stated on the fields a move may change.\<close>

definition moved :: "Game \<Rightarrow> State \<Rightarrow> nat \<Rightarrow> ActionType \<Rightarrow> State \<Rightarrow> bool" where
  "moved g s p t s' \<longleftrightarrow>
     t \<noteq> a_invalid \<and> round_no s' = round_no s \<and> hist s' = (p, t) # hist s \<and>
     numActions s' ! round_no s = Suc (numActions s ! round_no s) \<and>
     (\<forall>x. x \<noteq> p \<longrightarrow> playerFolded s' ! x = playerFolded s ! x \<and> spent s' ! x = spent s ! x) \<and>
     (playerFolded s' ! p \<longleftrightarrow> t = a_fold) \<and>
     (t \<noteq> a_raise \<longrightarrow> maxSpent s' = maxSpent s) \<and>
     (t = a_raise \<longrightarrow> spent s' ! p = maxSpent s') \<and>
     (t = a_call \<longrightarrow> spent s' ! p = maxSpent s' \<or> spent s' ! p = stack g ! p)"

lemma moved_can_act: "moved g s p t s' \<Longrightarrow> can_act g s p \<Longrightarrow> can_act g s' x \<Longrightarrow> can_act g s x"
  by (cases "x = p") (auto simp: moved_def can_act_def)

lemma moved_seg:
  assumes wf: "wf_game g" and seg: "seg_inv g s f" and mv: "moved g s p t s'"
    and pick: "turn_pick (numPlayers g) (can_act g s) f (since_raise (hist s)) p"
    and room: "t = a_raise \<Longrightarrow> numActions s ! round_no s + numPlayers g \<le> MAX_NUM_ACTIONS"
  shows "\<exists>f'. seg_inv g s' f'"
proof -
  let ?N = "numPlayers g" let ?k = "numActions s ! round_no s"
  have p: "p < ?N" "can_act g s p" "p \<notin> answered s" using pick by (auto simp: turn_pick_def answered_def)
  have ok: "turn_ok ?N (\<lambda>x. playerFolded s ! x) (can_act g s) f (since_raise (hist s))"
    using seg by (simp add: seg_inv_def)
  have h: "hist s' = (p, t) # hist s" and r: "round_no s' = round_no s"
    and k: "numActions s' ! round_no s' = Suc ?k" and t: "t \<noteq> a_invalid" "t = a_fold \<longleftrightarrow> playerFolded s' ! p"
    using mv by (auto simp: moved_def)
  note act = moved_can_act [OF mv p(2)]
  let ?U = "{x. x < ?N \<and> can_act g s x \<and> x \<notin> answered s}"
  let ?U' = "{x. x < ?N \<and> can_act g s' x \<and> x \<notin> answered s'}"
  show ?thesis
  proof (cases "t = a_raise")
    case True
    have "?U' \<subseteq> {..<?N} - {p}" using True h by (auto simp: answered_def)
    then have "card ?U' \<le> card ({..<?N} - {p})" by (rule card_mono [rotated]) simp
    then have "undecided g s' < ?N" using p(1) by (simp add: undecided_def)
    then have "seg_inv g s' p"
      using True h k t room mv p(1) by (auto simp: seg_inv_def turn_ok_raise moved_def)
    then show ?thesis by blast
  next
    case False
    have seg': "since_raise (hist s') = (p, t) # since_raise (hist s)" using False h by simp
    have "turn_ok ?N (\<lambda>x. playerFolded s' ! x) (can_act g s') f ((p, t) # since_raise (hist s))"
      using mv act by (intro turn_ok_answer [OF ok pick t(1)]) (auto simp: moved_def)
    moreover have "\<forall>(q, u) \<in> set (since_raise (hist s')).
        u \<noteq> a_fold \<longrightarrow> spent s' ! q = maxSpent s' \<or> spent s' ! q = stack g ! q"
    proof -
      have "spent s' ! q = maxSpent s' \<or> spent s' ! q = stack g ! q"
        if qu: "(q, u) \<in> set (since_raise (hist s))" "u \<noteq> a_fold" for q u
      proof -
        have "q \<noteq> p" using qu(1) p(3) by (force simp: answered_def)
        then show ?thesis using qu seg mv False by (fastforce simp: seg_inv_def moved_def)
      qed
      moreover have "t \<noteq> a_fold \<Longrightarrow> t = a_call" using t(1) False by (cases t) auto
      ultimately show ?thesis unfolding seg' using mv by (auto simp: moved_def)
    qed
    moreover have "undecided g s' < undecided g s"
    proof -
      have "?U' \<subseteq> ?U - {p}" using act seg' by (auto simp: answered_def)
      moreover have "p \<in> ?U" using p by simp
      ultimately have "?U' \<subset> ?U" by blast
      then show ?thesis unfolding undecided_def by (rule psubset_card_mono [rotated]) simp
    qed
    moreover have "?k + undecided g s \<le> 64" using seg by (simp add: seg_inv_def)
    ultimately have "seg_inv g s' f" using h k seg' by (simp add: seg_inv_def)
    then show ?thesis by blast
  qed
qed


section \<open>The stages of an action\<close>

lemma hist_cong:
  assumes "round_no s' = round_no s" "numActions s' ! round_no s = numActions s ! round_no s"
    and "actingPlayer s' = actingPlayer s"
    and "\<And>i. act_type (action s' ! round_no s ! i) = act_type (action s ! round_no s ! i)"
  shows "hist s' = hist s"
  using assms by (simp add: hist_def)

lemma shape_action_update:
  "shape_state s \<Longrightarrow> r < 4 \<Longrightarrow> shape_state (s\<lparr>action := (action s)[r := (action s ! r)[k := a]]\<rparr>)"
  by (auto simp: shape_state_def nth_list_update)

lemma record_stage:
  assumes sh: "shape_state s" and r: "round_no s < 4" and p: "p < 256"
    and rec: "doAction_record a p s = Some s1"
  shows "shape_state s1" "hist s1 = (p, act_type a) # hist s"
    "numActions s1 = (numActions s)[round_no s := Suc (numActions s ! round_no s)]"
    "spent s1 = spent s" "playerFolded s1 = playerFolded s" "maxSpent s1 = maxSpent s"
    "minNoLimitRaiseTo s1 = minNoLimitRaiseTo s" "round_no s1 = round_no s"
    "finished s1 = finished s" "roundSpent s1 = roundSpent s"
    "numActions s ! round_no s < MAX_NUM_ACTIONS"
proof -
  let ?r = "round_no s" let ?k = "numActions s ! round_no s"
  have k: "?k < 64" and s1: "s1 = s\<lparr>action := (action s)[?r := (action s ! ?r)[?k := a]],
      actingPlayer := (actingPlayer s)[?r := (actingPlayer s ! ?r)[?k := p]],
      numActions := (numActions s)[?r := Suc ?k]\<rparr>"
    using rec p by (auto simp: doAction_record_def Let_def split: if_splits)
  show "shape_state s1" using sh r unfolding s1 by (auto simp: shape_state_def nth_list_update)
  show "hist s1 = (p, act_type a) # hist s"
    using shape_stateD [OF sh] r k unfolding s1 hist_def by (simp add: nth_list_update)
qed (use rec p in \<open>auto simp: doAction_record_def Let_def split: if_splits\<close>)

lemma fold_stage:
  assumes "shape_state s1" "p < 10" "doAction_fold p s1 = Some s2"
  shows "s2 = s1\<lparr>playerFolded := (playerFolded s1)[p := True]\<rparr>"
  using assms by (simp add: doAction_fold_def shape_stateD)

lemma call_stage:
  assumes "shape_state s1" "wf_game g" "p < 10" "doAction_call g p s1 = Some s2"
  shows "\<exists>acts. s2 = s1\<lparr>spent := (spent s1)[p := min (maxSpent s1) (stack g ! p)], action := acts\<rparr> \<and>
     (\<forall>i. act_type (acts ! round_no s1 ! i) = act_type (action s1 ! round_no s1 ! i)) \<and>
     (round_no s1 < 4 \<longrightarrow> shape_state s2)"
proof -
  let ?r = "round_no s1" let ?k = "numActions s1 ! ?r - 1"
  let ?amount = "min (maxSpent s1) (stack g ! p)"
  let ?acts = "(action s1)[?r := (action s1 ! ?r)[?k := (action s1 ! ?r ! ?k)\<lparr>act_size := ?amount\<rparr>]]"
  have s2: "s2 = s1\<lparr>spent := (spent s1)[p := ?amount], action := ?acts\<rparr>"
    using assms(3,4) shape_stateD(1) [OF assms(1)] wf_gameD(5) [OF assms(2)]
    by (auto simp: doAction_call_def Let_def min_def split: if_splits)
  moreover have "act_type (?acts ! ?r ! i) = act_type (action s1 ! ?r ! i)" for i
    by (cases "?r < length (action s1)"; cases "?k < length (action s1 ! ?r)")
      (auto simp: nth_list_update list_update_beyond)
  moreover have "?r < 4 \<longrightarrow> shape_state s2"
    using assms(1) unfolding s2 by (auto simp: shape_state_def nth_list_update)
  ultimately show ?thesis by blast
qed

definition raised :: "Game \<Rightarrow> Action \<Rightarrow> nat \<Rightarrow> State \<Rightarrow> State \<Rightarrow> bool" where
  "raised g a p s s' \<longleftrightarrow>
     (if bettingType g = noLimitBetting
      then maxSpent s < act_size a \<and> act_size a \<le> stack g ! p \<and>
        s' = s\<lparr>minNoLimitRaiseTo := max (2 * act_size a - maxSpent s) (minNoLimitRaiseTo s),
               maxSpent := act_size a, spent := (spent s)[p := act_size a]\<rparr>
      else let m = min (maxSpent s + raiseSize g ! round_no s) (stack g ! p)
           in s' = s\<lparr>maxSpent := m, spent := (spent s)[p := m]\<rparr>)"

lemma raise_stage:
  assumes "shape_state s1" "wf_game g" "p < 10" "doAction_raise g a p s1 = Some s2"
  shows "raised g a p s1 s2"
  using assms(3,4) shape_stateD(1) [OF assms(1)] wf_gameD(5) [OF assms(2)]
  by (auto simp: doAction_raise_def raised_def Let_def chk32_Some_iff bind_eq_Some_conv max_def min_def
      split: if_splits)

lemma roundSpent_stage:
  assumes "doAction_roundSpent a s2 = Some s3"
  shows "\<exists>v. s3 = s2\<lparr>roundSpent := v\<rparr> \<and> length v = length (roundSpent s2)"
proof (cases "round_no s2 = 0 \<or> act_type a = a_raise")
  case True
  then show ?thesis using assms by (auto simp: doAction_roundSpent_def bind_eq_Some_conv split: if_splits)
next
  case False
  then have "s3 = s2\<lparr>roundSpent := roundSpent s2\<rparr>" using assms by (simp add: doAction_roundSpent_def)
  then show ?thesis by blast
qed


definition doAction_body :: "Game \<Rightarrow> Action \<Rightarrow> nat \<Rightarrow> State \<Rightarrow> State option" where
  "doAction_body g a p s =
     do { s1 \<leftarrow> doAction_record a p s; s2 \<leftarrow> doAction_apply g a p s1; doAction_roundSpent a s2 }"

lemma doAction_via_body:
  "doAction g a s = do { s3 \<leftarrow> doAction_body g a (currentPlayer g s) s; doAction_end g s3 }"
  by (simp add: doAction_def doAction_body_def Let_def)

lemma body_stages:
  assumes "doAction_body g a p s = Some s3"
  obtains s1 s2 v where "doAction_record a p s = Some s1" "doAction_apply g a p s1 = Some s2"
    "doAction_roundSpent a s2 = Some s3" "s3 = s2\<lparr>roundSpent := v\<rparr>"
    "length v = length (roundSpent s2)"
proof -
  obtain s1 s2 where st: "doAction_record a p s = Some s1" "doAction_apply g a p s1 = Some s2"
    "doAction_roundSpent a s2 = Some s3"
    using assms by (auto simp: doAction_body_def bind_eq_Some_conv)
  then show thesis using that roundSpent_stage [OF st(3)] by blast
qed

definition money_inv :: "Game \<Rightarrow> State \<Rightarrow> bool" where
  "money_inv g s \<longleftrightarrow>
     (\<forall>x<numPlayers g. 0 \<le> spent s ! x \<and> spent s ! x \<le> stack g ! x \<and> spent s ! x \<le> maxSpent s) \<and>
     (\<exists>x<numPlayers g. spent s ! x = maxSpent s) \<and>
     (bettingType g = noLimitBetting \<longrightarrow> maxSpent s < minNoLimitRaiseTo s)"

lemma moved_cong:
  "hist s2 = hist s1 \<Longrightarrow> hist s1 = (p, t) # hist s \<Longrightarrow> moved g s p t (s2\<lparr>roundSpent := v\<rparr>) \<longleftrightarrow>
     t \<noteq> a_invalid \<and> round_no s2 = round_no s \<and>
     numActions s2 ! round_no s = Suc (numActions s ! round_no s) \<and>
     (\<forall>x. x \<noteq> p \<longrightarrow> playerFolded s2 ! x = playerFolded s ! x \<and> spent s2 ! x = spent s ! x) \<and>
     (playerFolded s2 ! p \<longleftrightarrow> t = a_fold) \<and>
     (t \<noteq> a_raise \<longrightarrow> maxSpent s2 = maxSpent s) \<and>
     (t = a_raise \<longrightarrow> spent s2 ! p = maxSpent s2) \<and>
     (t = a_call \<longrightarrow> spent s2 ! p = maxSpent s2 \<or> spent s2 ! p = stack g ! p)"
  by (simp add: moved_def hist_def)

lemma body_moved:
  assumes wf: "wf_game g" and sh: "shape_state s" and r: "round_no s < numRounds g"
    and p: "p < numPlayers g" and act: "can_act g s p" and body: "doAction_body g a p s = Some s3"
  shows "moved g s p (act_type a) s3" "shape_state s3" "finished s3 = finished s"
    "numActions s3 = (numActions s)[round_no s := Suc (numActions s ! round_no s)]"
proof -
  obtain s1 s2 v where st: "doAction_record a p s = Some s1" "doAction_apply g a p s1 = Some s2"
    and s3: "s3 = s2\<lparr>roundSpent := v\<rparr>" "length v = length (roundSpent s2)"
    using body_stages [OF body] by metis
  have p10: "p < 10" "p < 256" and r4: "round_no s < 4" using p r wf_gameD [OF wf] by auto
  note rec = record_stage [OF sh r4 p10(2) st(1)]
  have len: "length (spent s) = 10" "length (playerFolded s) = 10" "length (numActions s) = 4"
    using shape_stateD [OF sh] by auto
  have nf: "\<not> playerFolded s ! p" using act by (simp add: can_act_def)
  have "moved g s p (act_type a) s3 \<and> shape_state s3 \<and> finished s3 = finished s \<and>
    numActions s3 = (numActions s)[round_no s := Suc (numActions s ! round_no s)]"
  proof (cases "act_type a")
    case a_fold
    then have s2: "s2 = s1\<lparr>playerFolded := (playerFolded s1)[p := True]\<rparr>"
      using st(2) fold_stage [OF rec(1) p10(1)] by (simp add: doAction_apply_def)
    have "hist s2 = hist s1" unfolding s2 by (simp add: hist_def)
    moreover have "shape_state s3" using rec(1) s3(2) unfolding s3(1) s2 by (simp add: shape_state_def)
    ultimately show ?thesis using a_fold rec len p10 r4 s2 s3(1) moved_cong [OF _ rec(2)]
      by (simp add: nth_list_update)
  next
    case a_call
    then have ap: "doAction_call g p s1 = Some s2" using st(2) by (simp add: doAction_apply_def)
    obtain acts where s2: "s2 = s1\<lparr>spent := (spent s1)[p := min (maxSpent s1) (stack g ! p)], action := acts\<rparr>"
      and ty: "\<And>i. act_type (acts ! round_no s1 ! i) = act_type (action s1 ! round_no s1 ! i)"
      and "shape_state s2"
      using call_stage [OF rec(1) wf p10(1) ap] rec(8) r4 by metis
    have h: "hist s2 = hist s1" by (rule hist_cong) (simp_all add: s2 ty)
    have "shape_state s3" using \<open>shape_state s2\<close> s3(2) unfolding s3(1) by (simp add: shape_state_def)
    then show ?thesis
      using a_call rec len p10 r4 s2 s3(1) moved_cong [OF h rec(2)] nf by (auto simp: nth_list_update)
  next
    case a_raise
    then have ra: "raised g a p s1 s2"
      using st(2) raise_stage [OF rec(1) wf p10(1)] by (simp add: doAction_apply_def)
    have h: "hist s2 = hist s1"
      using ra by (auto simp: raised_def hist_def Let_def split: if_splits)
    have "shape_state s3" using ra rec(1) s3(2) unfolding s3(1)
      by (auto simp: raised_def shape_state_def Let_def split: if_splits)
    then show ?thesis using a_raise ra rec len p10 r4 s3(1) moved_cong [OF h rec(2)] nf
      by (auto simp: raised_def Let_def nth_list_update split: if_splits)
  next
    case a_invalid
    then show ?thesis using st(2) by (simp add: doAction_apply_def)
  qed
  then show "moved g s p (act_type a) s3" "shape_state s3" "finished s3 = finished s"
    "numActions s3 = (numActions s)[round_no s := Suc (numActions s ! round_no s)]" by blast+
qed

lemma money_inv_spent_update:
  assumes inv: "money_inv g s" and p: "p < numPlayers g" "p < length (spent s)"
    and v: "0 \<le> v" "v \<le> stack g ! p" "v \<le> m" and m: "maxSpent s \<le> m"
    and top: "v = m \<or> (m = maxSpent s \<and> spent s ! p \<noteq> maxSpent s)"
    and sp: "spent s' = (spent s)[p := v]" "maxSpent s' = m"
    and mn: "bettingType g = noLimitBetting \<Longrightarrow> m < minNoLimitRaiseTo s'"
  shows "money_inv g s'"
proof -
  obtain x where x: "x < numPlayers g" "spent s ! x = maxSpent s" using inv by (auto simp: money_inv_def)
  have "\<exists>y<numPlayers g. spent s' ! y = m"
  proof (cases "v = m")
    case True
    then show ?thesis using p sp by (intro exI [of _ p]) simp
  next
    case False
    then show ?thesis using top x sp by (intro exI [of _ x]) (cases "x = p"; auto)
  qed
  moreover have "\<forall>y<numPlayers g. 0 \<le> spent s' ! y \<and> spent s' ! y \<le> stack g ! y \<and> spent s' ! y \<le> m"
    using inv p v m unfolding sp by (fastforce simp: money_inv_def nth_list_update)
  ultimately show ?thesis using mn by (simp add: money_inv_def sp)
qed

lemma body_money:
  assumes wf: "wf_game g" and sh: "shape_state s" and r: "round_no s < numRounds g"
    and p: "p < numPlayers g" and act: "can_act g s p" and inv: "money_inv g s"
    and body: "doAction_body g a p s = Some s3"
  shows "money_inv g s3 \<and> maxSpent s \<le> maxSpent s3 \<and> spent s ! p \<le> spent s3 ! p"
proof -
  obtain s1 s2 v where st: "doAction_record a p s = Some s1" "doAction_apply g a p s1 = Some s2"
    and s3: "s3 = s2\<lparr>roundSpent := v\<rparr>"
    using body_stages [OF body] by metis
  have p10: "p < 10" "p < 256" and r4: "round_no s < 4" using p r wf_gameD [OF wf] by auto
  note rec = record_stage [OF sh r4 p10(2) st(1)]
  have len: "p < length (spent s)" using shape_stateD [OF sh] p10 by auto
  obtain x where x: "x < numPlayers g" "spent s ! x = maxSpent s" using inv by (auto simp: money_inv_def)
  have sp: "0 \<le> spent s ! p" "spent s ! p \<le> maxSpent s" "spent s ! p < stack g ! p"
    "maxSpent s \<le> stack g ! x" "0 \<le> maxSpent s"
    "bettingType g = noLimitBetting \<Longrightarrow> maxSpent s < minNoLimitRaiseTo s"
    using inv p x act by (auto simp: money_inv_def can_act_def)
  show ?thesis
  proof (cases "act_type a")
    case a_fold
    then have s2: "s2 = s1\<lparr>playerFolded := (playerFolded s1)[p := True]\<rparr>"
      using st(2) fold_stage [OF rec(1) p10(1)] by (simp add: doAction_apply_def)
    then show ?thesis using inv rec s3 by (simp add: money_inv_def)
  next
    case a_call
    then have ap: "doAction_call g p s1 = Some s2" using st(2) by (simp add: doAction_apply_def)
    obtain acts where s2: "s2 = s1\<lparr>spent := (spent s1)[p := min (maxSpent s1) (stack g ! p)], action := acts\<rparr>"
      using call_stage [OF rec(1) wf p10(1) ap] by metis
    have "money_inv g s3"
      by (rule money_inv_spent_update [OF inv p len, of "min (maxSpent s) (stack g ! p)" "maxSpent s"])
        (use s2 s3 rec sp in auto)
    then show ?thesis using s2 s3 rec sp len by simp
  next
    case a_raise
    then have ra: "raised g a p s1 s2"
      using st(2) raise_stage [OF rec(1) wf p10(1)] by (simp add: doAction_apply_def)
    show ?thesis
    proof (cases "bettingType g")
      case noLimitBetting
      have "money_inv g s3"
        by (rule money_inv_spent_update [OF inv p len, of "act_size a" "act_size a"])
          (use ra s3 rec sp noLimitBetting in \<open>auto simp: raised_def\<close>)
      then show ?thesis using ra s3 rec sp len noLimitBetting by (simp add: raised_def)
    next
      case limitBetting
      define m where "m = min (maxSpent s + raiseSize g ! round_no s) (stack g ! p)"
      have "stack g ! x = stack g ! p" using wf_game_money(3) [OF wf] x p limitBetting by metis
      then have m: "maxSpent s \<le> m" "m \<le> stack g ! p"
        using wf_game_round(2) [OF wf r limitBetting] sp(4) by (auto simp: m_def)
      have s2: "s2 = s1\<lparr>maxSpent := m, spent := (spent s)[p := m]\<rparr>"
        using ra rec limitBetting by (simp add: raised_def m_def Let_def)
      have "money_inv g s3"
        by (rule money_inv_spent_update [OF inv p len, of m m])
          (use m s2 s3 rec sp limitBetting in auto)
      then show ?thesis using m s2 s3 rec sp len by simp
    qed
  next
    case a_invalid
    then show ?thesis using st(2) by (simp add: doAction_apply_def)
  qed
qed

end
