(* ===== verification/Betting_Safety.thy ===== *)
theory Betting_Safety
  imports Betting_Inv
begin

text \<open>
  The invariant \<open>binv\<close> of the betting engine: \<open>initState\<close> establishes it, \<open>doAction\<close> keeps it, and where it
  holds no valid action runs into an assertion, an index outside an array or a signed overflow.
\<close>

section \<open>The betting invariant\<close>

definition binv :: "Game \<Rightarrow> State \<Rightarrow> bool" where
  "binv g s \<longleftrightarrow> shape_state s \<and> round_no s < numRounds g \<and>
     (\<forall>r<numRounds g. numActions s ! r \<le> MAX_NUM_ACTIONS) \<and>
     (\<forall>r<numRounds g. round_no s < r \<longrightarrow> numActions s ! r = 0) \<and>
     money_inv g s \<and> (\<not> finished s \<longrightarrow> turn_inv g s)"

lemma binvD:
  assumes "binv g s"
  shows "shape_state s" "round_no s < numRounds g" "money_inv g s"
    "r < numRounds g \<Longrightarrow> numActions s ! r \<le> MAX_NUM_ACTIONS"
    "r < numRounds g \<Longrightarrow> round_no s < r \<Longrightarrow> numActions s ! r = 0"
    "\<not> finished s \<Longrightarrow> turn_inv g s"
  using assms by (auto simp: binv_def)

text \<open>A fresh betting round: nobody has acted, so everybody who can act is undecided.\<close>

lemma fresh_round_turn:
  assumes wf: "wf_game g" and r: "round_no s < numRounds g" and k: "numActions s ! round_no s = 0"
    and act: "x < numPlayers g" "can_act g s x" and folds: "numFolded g s + 1 < numPlayers g"
  shows "turn_inv g s"
proof -
  let ?f = "firstPlayer g ! round_no s"
  have h: "hist s = []" using k by (simp add: hist_Nil_iff)
  have u: "undecided g s = card {x. x < numPlayers g \<and> can_act g s x}"
    using h by (simp add: undecided_def answered_def)
  have "seg_inv g s ?f"
    using wf_game_round(1) [OF wf r] h k u card_Collect_le [of "numPlayers g" "can_act g s"] wf_gameD(2) [OF wf]
    by (simp add: seg_inv_def turn_ok_Nil)
  moreover have "0 < undecided g s" unfolding u using act by (auto simp: card_gt_0_iff)
  ultimately show ?thesis using folds by (auto simp: turn_inv_def)
qed

text \<open>Somebody can act in a fresh hand: a game in which every blind is a whole stack has no first player.\<close>

definition somebody_can_act :: "Game \<Rightarrow> bool" where
  "somebody_can_act g \<longleftrightarrow> (\<exists>p<numPlayers g. blind g ! p < stack g ! p)"

lemma initState_fields:
  assumes "initState g hid s = Some s'" "wf_game g" "shape_state s"
  shows "shape_state s'" "round_no s' = 0" "\<not> finished s'" "handId s' = hid"
    "p < numPlayers g \<Longrightarrow> spent s' ! p = blind g ! p"
    "p < numPlayers g \<Longrightarrow> \<not> playerFolded s' ! p"
    "r < numRounds g \<Longrightarrow> numActions s' ! r = 0"
    "maxSpent s' = max_loop (\<lambda>p. blind g ! p) (numPlayers g) 0"
    "roundSpent s' = roundSpent s" "boardCards s' = boardCards s" "holeCards s' = holeCards s"
    "bettingType g = noLimitBetting \<Longrightarrow>
       minNoLimitRaiseTo s' = (if maxSpent s' = 0 then 1 else 2 * maxSpent s')"
    "bettingType g \<noteq> noLimitBetting \<Longrightarrow> minNoLimitRaiseTo s' = 0"
  using assms(1) wf_gameD [OF assms(2)] assms(3) shape_stateD [OF assms(3)]
  by (auto simp: initState_def Let_def bind_eq_Some_conv max_loop_idem nth_fill shape_state_def
      chk32_Some_iff split: if_splits)

lemma initState_money:
  assumes init: "initState g hid s = Some s'" and wf: "wf_game g" and sh: "shape_state s"
  shows "money_inv g s'"
proof -
  note f = initState_fields [OF init wf sh]
  let ?m = "max_loop (\<lambda>p. blind g ! p) (numPlayers g) 0"
  have ge: "0 \<le> ?m" by (rule max_loop_ge)
  have N: "0 < numPlayers g" using wf_gameD(1) [OF wf] by simp
  have "\<exists>x<numPlayers g. blind g ! x = ?m"
    using max_loop_attained [of "\<lambda>p. blind g ! p" "numPlayers g" 0] wf_game_money(1) [OF wf N]
      max_loop_upper [of 0 "numPlayers g" "\<lambda>p. blind g ! p" 0] N
    by (metis order_antisym)
  then have "\<exists>x<numPlayers g. spent s' ! x = maxSpent s'" using f(5,8) by auto
  moreover have "\<forall>x<numPlayers g. 0 \<le> spent s' ! x \<and> spent s' ! x \<le> stack g ! x \<and> spent s' ! x \<le> maxSpent s'"
    using f(5,8) wf_game_money(1,2) [OF wf] max_loop_upper [of _ "numPlayers g" "\<lambda>p. blind g ! p" 0] by simp
  moreover have "bettingType g = noLimitBetting \<longrightarrow> maxSpent s' < minNoLimitRaiseTo s'"
    using f(8,12) ge by auto
  ultimately show ?thesis by (simp add: money_inv_def)
qed

lemma initState_binv:
  assumes init: "initState g hid s = Some s'" and wf: "wf_game g" and sh: "shape_state s"
    and can: "somebody_can_act g"
  shows "binv g s'"
proof -
  note f = initState_fields [OF init wf sh]
  have r: "round_no s' < numRounds g" using f(2) wf_gameD(3) [OF wf] by simp
  obtain x where x: "x < numPlayers g" "blind g ! x < stack g ! x" using can by (auto simp: somebody_can_act_def)
  then have "can_act g s' x" using f(5,6) by (simp add: can_act_def)
  moreover have "numFolded g s' = 0" using f(6) by (simp add: numFolded_card [OF wf])
  ultimately have "turn_inv g s'"
    using fresh_round_turn [OF wf r] f(7) [OF r] x(1) wf_gameD(1) [OF wf] by simp
  then show ?thesis using f(1,7) r initState_money [OF init wf sh] by (auto simp: binv_def)
qed

section \<open>Actions keep the invariant\<close>

lemma end_stage:
  assumes "doAction_end g s3 = Some (s', e)"
  shows "(s' = s3\<lparr>finished := True\<rparr> \<and> e) \<or>
    (numActingPlayers g s3 > 1 \<and> numCalled g s3 \<ge> numActingPlayers g s3 \<and> numFolded g s3 + 1 < numPlayers g \<and>
       round_no s3 + 1 < numRounds g \<and> e \<and>
       s' = s3\<lparr>round_no := round_no s3 + 1,
               minNoLimitRaiseTo := max_loop (\<lambda>p. blind g ! p) (numPlayers g) 1 + maxSpent s3\<rparr>) \<or>
    (s' = s3\<lparr>finished := True, round_no := numRounds g - 1\<rparr> \<and> e) \<or>
    (numCalled g s3 < numActingPlayers g s3 \<and> numFolded g s3 + 1 < numPlayers g \<and> s' = s3 \<and> \<not> e)"
  using assms
  by (auto simp: doAction_end_def bind_eq_Some_conv chk32_Some_iff not_le not_less split: if_splits)

lemma money_inv_frame:
  "spent s' = spent s \<Longrightarrow> maxSpent s' = maxSpent s \<Longrightarrow>
     (bettingType g = noLimitBetting \<Longrightarrow> maxSpent s < minNoLimitRaiseTo s') \<Longrightarrow>
     money_inv g s \<Longrightarrow> money_inv g s'"
  by (simp add: money_inv_def)

lemma turn_inv_current:
  assumes "wf_game g" "turn_inv g s"
  shows "currentPlayer g s < numPlayers g" "can_act g s (currentPlayer g s)"
    "currentPlayer g s \<notin> answered s"
  using assms currentPlayer_pick [of g s] by (auto simp: turn_inv_def turn_pick_def answered_def)

lemma doAction_stages:
  assumes wf: "wf_game g" and inv: "binv g s" and nf: "\<not> finished s"
    and act: "doAction g a s = Some (s', e)"
    and room: "act_type a = a_raise \<Longrightarrow> numActions s ! round_no s + numPlayers g \<le> MAX_NUM_ACTIONS"
  obtains s3 f where "doAction_body g a (currentPlayer g s) s = Some s3"
    "doAction_end g s3 = Some (s', e)" "moved g s (currentPlayer g s) (act_type a) s3"
    "shape_state s3" "\<not> finished s3"
    "numActions s3 = (numActions s)[round_no s := Suc (numActions s ! round_no s)]"
    "money_inv g s3" "maxSpent s \<le> maxSpent s3"
    "spent s ! currentPlayer g s \<le> spent s3 ! currentPlayer g s" "seg_inv g s3 f"
proof -
  have turn: "turn_inv g s" using inv nf by (rule binvD(6))
  then obtain f where seg: "seg_inv g s f" and und: "0 < undecided g s" by (auto simp: turn_inv_def)
  note cur = turn_inv_current(1,2) [OF wf turn]
  obtain s3 where body: "doAction_body g a (currentPlayer g s) s = Some s3"
    and en: "doAction_end g s3 = Some (s', e)"
    using act by (auto simp: doAction_via_body bind_eq_Some_conv)
  note mv = body_moved [OF wf binvD(1,2) [OF inv] cur body]
  note mo = body_money [OF wf binvD(1,2) [OF inv] cur binvD(3) [OF inv] body]
  obtain f' where "seg_inv g s3 f'"
    using moved_seg [OF wf seg mv(1) currentPlayer_pick [OF wf seg und] room] by blast
  then show thesis using that [OF body en mv(1,2) _ mv(4)] mv(3) mo nf by simp
qed

theorem doAction_binv:
  assumes wf: "wf_game g" and inv: "binv g s" and nf: "\<not> finished s"
    and act: "doAction g a s = Some (s', e)"
    and room: "act_type a = a_raise \<Longrightarrow> numActions s ! round_no s + numPlayers g \<le> MAX_NUM_ACTIONS"
  shows "binv g s'"
proof -
  let ?r = "round_no s"
  obtain s3 f where en: "doAction_end g s3 = Some (s', e)"
    and mv: "moved g s (currentPlayer g s) (act_type a) s3" and sh: "shape_state s3"
    and nf3: "\<not> finished s3" and na: "numActions s3 = (numActions s)[?r := Suc (numActions s ! ?r)]"
    and mo: "money_inv g s3" and seg: "seg_inv g s3 f"
    using doAction_stages [OF wf inv nf act room] by metis
  have r3: "round_no s3 = ?r" using mv by (simp add: moved_def)
  have r: "?r < numRounds g" by (rule binvD(2) [OF inv])
  have "numActions s3 ! ?r \<le> 64" using seg r3 by (simp add: seg_inv_def)
  then have le: "\<forall>q<numRounds g. numActions s3 ! q \<le> 64"
    using binvD(4) [OF inv] unfolding na by (metis nth_list_update_neq)
  have zero: "\<forall>q<numRounds g. ?r < q \<longrightarrow> numActions s3 ! q = 0"
    using binvD(5) [OF inv] unfolding na by simp
  have turn3: "turn_inv g s3" if "numCalled g s3 < numActingPlayers g s3" "numFolded g s3 + 1 < numPlayers g"
    using that numCalled_undecided [OF wf seg] seg by (auto simp: turn_inv_def)
  have next_round: "binv g s'"
    if acting: "numActingPlayers g s3 > 1" "numFolded g s3 + 1 < numPlayers g" "?r + 1 < numRounds g"
      and s': "s' = s3\<lparr>round_no := ?r + 1,
        minNoLimitRaiseTo := max_loop (\<lambda>p. blind g ! p) (numPlayers g) 1 + maxSpent s3\<rparr>"
  proof -
    have "card {x. x < numPlayers g \<and> can_act g s3 x} > 0" using acting(1) numActing_card [OF wf, of s3] by simp
    then obtain x where "x < numPlayers g" "can_act g s3 x" by (auto simp: card_gt_0_iff)
    then have "x < numPlayers g" "can_act g s' x" by (simp_all add: s' can_act_def)
    moreover have "numFolded g s' = numFolded g s3" by (simp add: s' numFolded_def)
    ultimately have "turn_inv g s'"
      using fresh_round_turn [OF wf, of s' x] acting zero by (simp add: s')
    moreover have "money_inv g s'"
      by (rule money_inv_frame [OF _ _ _ mo]) (use max_loop_ge [of 1 "\<lambda>p. blind g ! p" "numPlayers g"] in \<open>auto simp: s'\<close>)
    ultimately show ?thesis
      using sh le zero acting(3) nf3 by (simp add: binv_def s' shape_state_def)
  qed
  have fin: "binv g (s3\<lparr>finished := True, round_no := q\<rparr>)" if "q < numRounds g" "?r \<le> q" for q
    using sh le zero that money_inv_frame [OF _ _ _ mo, of "s3\<lparr>finished := True, round_no := q\<rparr>"] mo
    by (simp add: binv_def shape_state_def money_inv_def)
  have fin0: "s3\<lparr>finished := True\<rparr> = s3\<lparr>finished := True, round_no := ?r\<rparr>" using r3 by simp
  have last: "numRounds g - 1 < numRounds g" "?r \<le> numRounds g - 1" using r by auto
  have same: "binv g s3" if "turn_inv g s3"
    using that sh le zero r r3 mo by (simp add: binv_def)
  from end_stage [OF en] show ?thesis
  proof (elim disjE conjE)
    assume "s' = s3\<lparr>finished := True\<rparr>"
    then show ?thesis using fin [OF r] fin0 by simp
  next
    assume "s' = s3\<lparr>finished := True, round_no := numRounds g - 1\<rparr>"
    then show ?thesis using fin [OF last] by simp
  next
    assume "numCalled g s3 < numActingPlayers g s3" "numFolded g s3 + 1 < numPlayers g" "s' = s3"
    then show ?thesis using same turn3 by simp
  qed (use next_round r3 in simp)
qed

section \<open>What a valid action satisfies\<close>

definition size_fixed :: "Game \<Rightarrow> int \<Rightarrow> int \<Rightarrow> Action \<Rightarrow> Action \<Rightarrow> bool" where
  "size_fixed g mn mx a a' \<longleftrightarrow>
     (if bettingType g = noLimitBetting
      then a' = a\<lparr>act_size := (if act_size a < mn then mn else if act_size a > mx then mx else act_size a)\<rparr>
      else a' = a)"

lemma isValidAction_raise:
  assumes "act_type a = a_raise" "isValidAction g s fx a = Some (True, a')"
  obtains mn mx where "\<not> finished s" "raiseIsValid g s = Some (Some (mn, mx))" "size_fixed g mn mx a a'"
proof -
  have nf: "\<not> finished s" using assms by (auto simp: isValidAction_def)
  then obtain v where v: "raiseIsValid g s = Some v"
    using assms by (cases "raiseIsValid g s") (auto simp: isValidAction_def)
  then obtain mn mx where "v = Some (mn, mx)"
    using assms nf by (cases v) (auto simp: isValidAction_def)
  then show thesis using that [OF nf] v assms nf
    by (auto simp: isValidAction_def size_fixed_def split: if_splits)
qed

lemma raiseIsValid_limits:
  assumes "raiseIsValid g s = Some (Some (mn, mx))"
  shows "numActions s ! round_no s + numPlayers g \<le> MAX_NUM_ACTIONS \<and> 1 < numActingPlayers g s \<and>
    numRaises s < maxRaises g ! round_no s"
  using assms unfolding raiseIsValid_def by (simp split: if_splits)

lemma raiseIsValid_sizes:
  assumes "raiseIsValid g s = Some (Some (mn, mx))" "bettingType g = noLimitBetting"
    and "maxSpent s < minNoLimitRaiseTo s"
  shows "maxSpent s < mn \<and> mn \<le> mx \<and> mx = stack g ! currentPlayer g s"
  using assms unfolding raiseIsValid_def
  by (simp add: bind_eq_Some_conv rd_Some_iff split: if_splits)

lemma isValidAction_type:
  assumes "isValidAction g s fx a = Some (True, a')"
  shows "\<not> finished s" "act_type a' = act_type a" "act_type a' \<noteq> a_invalid"
proof -
  have "\<not> finished s \<and> act_type a' = act_type a \<and> act_type a' \<noteq> a_invalid"
  proof (cases "act_type a")
    case a_raise
    obtain mn mx where "\<not> finished s" "size_fixed g mn mx a a'"
      using isValidAction_raise [OF a_raise assms] by metis
    then show ?thesis using a_raise by (auto simp: size_fixed_def split: if_splits)
  qed (use assms in \<open>auto simp: isValidAction_def bind_eq_Some_conv split: if_splits\<close>)
  then show "\<not> finished s" "act_type a' = act_type a" "act_type a' \<noteq> a_invalid" by auto
qed

lemma isValidAction_True:
  assumes inv: "binv g s" and v: "isValidAction g s fx a = Some (True, a')" and r: "act_type a' = a_raise"
  shows "numActions s ! round_no s + numPlayers g \<le> MAX_NUM_ACTIONS"
    "1 < numActingPlayers g s" "numRaises s < maxRaises g ! round_no s"
    "bettingType g = noLimitBetting \<Longrightarrow>
       maxSpent s < act_size a' \<and> act_size a' \<le> stack g ! currentPlayer g s"
proof -
  have ar: "act_type a = a_raise" using r isValidAction_type(2) [OF v] by simp
  obtain mn mx where rv: "raiseIsValid g s = Some (Some (mn, mx))" and fx: "size_fixed g mn mx a a'"
    using isValidAction_raise [OF ar v] by metis
  show "numActions s ! round_no s + numPlayers g \<le> MAX_NUM_ACTIONS"
    "1 < numActingPlayers g s" "numRaises s < maxRaises g ! round_no s"
    using raiseIsValid_limits [OF rv] by auto
  assume nl: "bettingType g = noLimitBetting"
  have "maxSpent s < minNoLimitRaiseTo s" using binvD(3) [OF inv] nl by (simp add: money_inv_def)
  note c = raiseIsValid_sizes [OF rv nl this]
  have "mn \<le> act_size a' \<and> act_size a' \<le> mx" using fx nl c by (auto simp: size_fixed_def)
  then show "maxSpent s < act_size a' \<and> act_size a' \<le> stack g ! currentPlayer g s" using c by linarith
qed

lemma isValidAction_defined:
  assumes wf: "wf_game g" and inv: "binv g s"
  shows "\<exists>ok a'. isValidAction g s fx a = Some (ok, a')"
proof (cases "finished s")
  case True
  then show ?thesis by (auto simp: isValidAction_def)
next
  case False
  note cur = turn_inv_current(1) [OF wf binvD(6) [OF inv False]]
  have "currentPlayer g s < length (stack g)" "currentPlayer g s < length (spent s)"
    using cur wf_gameD [OF wf] shape_stateD [OF binvD(1) [OF inv]] by auto
  moreover obtain v where "raiseIsValid g s = Some v"
    using calculation by (cases "raiseIsValid g s") (simp_all add: raiseIsValid_def split: if_splits)
  ultimately show ?thesis using False
    by (cases v; cases "act_type a") (auto simp: isValidAction_def)
qed

section \<open>Bookkeeping of the rounds, and bounds on the bets\<close>

definition max_blind :: "Game \<Rightarrow> int" where
  "max_blind g = max_loop (\<lambda>p. blind g ! p) (numPlayers g) 0"

definition max_raise :: "Game \<Rightarrow> int" where
  "max_raise g = max_loop (\<lambda>r. raiseSize g ! r) (numRounds g) 0"

text \<open>
  The sizes for which no addition of the engine overflows: in no-limit games stacks below \<open>2^30\<close>, in
  limit games (whose stacks default to \<open>INT32_MAX\<close>) blinds and raise sizes that leave room for the 256
  actions a hand can hold.
\<close>

definition fits_game :: "Game \<Rightarrow> bool" where
  "fits_game g \<longleftrightarrow>
     (if bettingType g = noLimitBetting then \<forall>p<numPlayers g. stack g ! p < 2 ^ 30
      else 2 * max_blind g + 1 + 257 * max_raise g \<le> INT32_MAX)"

definition all_actions :: "Game \<Rightarrow> State \<Rightarrow> nat" where
  "all_actions g s = (\<Sum>r<numRounds g. numActions s ! r)"

definition all_roundSpent :: "Game \<Rightarrow> State \<Rightarrow> int" where
  "all_roundSpent g s = (\<Sum>r<numRounds g. roundSpent s ! r)"

definition book_inv :: "Game \<Rightarrow> State \<Rightarrow> bool" where
  "book_inv g s \<longleftrightarrow>
     (\<forall>r<numRounds g. 0 \<le> roundSpent s ! r) \<and>
     (\<forall>r<numRounds g. round_no s < r \<longrightarrow> roundSpent s ! r = 0) \<and>
     (if numActions s ! 0 = 0 then round_no s = 0 else all_roundSpent g s = maxSpent s) \<and>
     (bettingType g = limitBetting \<longrightarrow> maxSpent s \<le> max_blind g + max_raise g * int (all_actions g s))"

lemma sum_list_update_nat:
  "i < n \<Longrightarrow> i < length xs \<Longrightarrow> (\<Sum>r<n. xs[i := v] ! r) + xs ! i = (\<Sum>r<n. xs ! r) + (v :: 'a :: comm_monoid_add)"
proof -
  assume i: "i < n" "i < length xs"
  have split: "{..<n} = insert i ({..<n} - {i})" using i by auto
  have "(\<Sum>r<n. xs[i := v] ! r) = v + (\<Sum>r \<in> {..<n} - {i}. xs[i := v] ! r)"
    using i by (subst split, subst sum.insert) auto
  also have "(\<Sum>r \<in> {..<n} - {i}. xs[i := v] ! r) = (\<Sum>r \<in> {..<n} - {i}. xs ! r)"
    by (rule sum.cong) auto
  finally have 1: "(\<Sum>r<n. xs[i := v] ! r) = v + (\<Sum>r \<in> {..<n} - {i}. xs ! r)" .
  have "(\<Sum>r<n. xs ! r) = xs ! i + (\<Sum>r \<in> {..<n} - {i}. xs ! r)"
    using i by (subst split, subst sum.insert) auto
  with 1 show ?thesis by (simp add: ac_simps)
qed

lemma all_actions_le:
  assumes wf: "wf_game g" and inv: "binv g s"
  shows "all_actions g s \<le> 256"
proof -
  have "all_actions g s \<le> (\<Sum>r<numRounds g. 64)"
    unfolding all_actions_def by (rule sum_mono) (simp add: binvD(4) [OF inv])
  also have "\<dots> \<le> 256" using wf_gameD(4) [OF wf] by simp
  finally show ?thesis .
qed

lemma max_raise_ge: "0 \<le> max_raise g" by (simp add: max_raise_def max_loop_ge)

lemma max_blind_ge: "0 \<le> max_blind g" by (simp add: max_blind_def max_loop_ge)

lemma maxSpent_fits:
  assumes wf: "wf_game g" and fits: "fits_game g" and inv: "binv g s" and bk: "book_inv g s"
  shows "0 \<le> maxSpent s" "maxSpent s + max_raise g + max_blind g + 1 \<le> INT32_MAX \<or> bettingType g = noLimitBetting"
    "bettingType g = noLimitBetting \<Longrightarrow> maxSpent s < 2 ^ 30"
proof -
  obtain x where x: "x < numPlayers g" "spent s ! x = maxSpent s" "0 \<le> spent s ! x" "spent s ! x \<le> stack g ! x"
    using binvD(3) [OF inv] by (auto simp: money_inv_def)
  then show "0 \<le> maxSpent s" by simp
  show "bettingType g = noLimitBetting \<Longrightarrow> maxSpent s < 2 ^ 30" using x fits by (fastforce simp: fits_game_def)
  have "max_raise g * int (all_actions g s) \<le> max_raise g * 256"
    using all_actions_le [OF wf inv] max_raise_ge [of g] by (intro mult_left_mono) auto
  then show "maxSpent s + max_raise g + max_blind g + 1 \<le> INT32_MAX \<or> bettingType g = noLimitBetting"
    using bk fits by (cases "bettingType g") (auto simp: book_inv_def fits_game_def)
qed


lemma roundSpent_loop_eq:
  assumes "\<And>j. j \<le> i \<Longrightarrow> INT32_MIN \<le> maxSpent s - (\<Sum>r<j. roundSpent s ! r) \<and>
      maxSpent s - (\<Sum>r<j. roundSpent s ! r) \<le> INT32_MAX"
  shows "roundSpent_loop s i = Some (maxSpent s - (\<Sum>r<i. roundSpent s ! r))"
  using assms
proof (induction i)
  case 0
  then show ?case by simp
next
  case (Suc i)
  have "roundSpent_loop s i = Some (maxSpent s - (\<Sum>r<i. roundSpent s ! r))"
    by (rule Suc.IH) (use Suc.prems in simp)
  then show ?case using Suc.prems [of "Suc i"] by (simp add: diff_diff_eq)
qed

lemma roundSpent_loop_Some:
  "roundSpent_loop s i = Some v \<Longrightarrow> v = maxSpent s - (\<Sum>r<i. roundSpent s ! r)"
  by (induction i arbitrary: v) (auto simp: bind_eq_Some_conv chk32_Some_iff)

lemma sum_upto_tail_zero:
  fixes f :: "nat \<Rightarrow> int"
  assumes "\<And>r. r < n \<Longrightarrow> k < r \<Longrightarrow> f r = 0" "k < n"
  shows "(\<Sum>r<n. f r) = (\<Sum>r<k. f r) + f k"
proof -
  have "(\<Sum>r<n. f r) = (\<Sum>r<Suc k. f r)"
    by (rule sum.mono_neutral_right) (use assms in auto)
  then show ?thesis by simp
qed

text \<open>How a move changes the amount of the bet.\<close>

lemma body_maxSpent:
  assumes wf: "wf_game g" and sh: "shape_state s" and r: "round_no s < numRounds g"
    and p: "p < numPlayers g" and act: "can_act g s p"
    and body: "doAction_body g a p s = Some s3" and lim: "bettingType g = limitBetting"
  shows "maxSpent s3 \<le> maxSpent s + max_raise g"
proof -
  obtain s1 s2 v where st: "doAction_record a p s = Some s1" "doAction_apply g a p s1 = Some s2"
    and s3: "s3 = s2\<lparr>roundSpent := v\<rparr>"
    using body_stages [OF body] by metis
  have p10: "p < 10" "p < 256" and r4: "round_no s < 4" using p r wf_gameD [OF wf] by auto
  note rec = record_stage [OF sh r4 p10(2) st(1)]
  show ?thesis
  proof (cases "act_type a = a_raise")
    case True
    then have "raised g a p s1 s2"
      using st(2) raise_stage [OF rec(1) wf p10(1)] by (simp add: doAction_apply_def)
    then have "maxSpent s3 \<le> maxSpent s + raiseSize g ! round_no s"
      using lim rec s3 by (simp add: raised_def Let_def)
    then show ?thesis using max_loop_upper [OF r, of "\<lambda>r. raiseSize g ! r" 0] by (simp add: max_raise_def)
  next
    case False
    then show ?thesis
      using body_moved(1) [OF wf sh r p act body] max_raise_ge [of g] by (simp add: moved_def)
  qed
qed

lemma body_roundSpent:
  assumes body: "doAction_body g a p s = Some s3" and wf: "wf_game g" and sh: "shape_state s"
    and r: "round_no s < numRounds g" and p: "p < numPlayers g" and act: "can_act g s p"
  shows "roundSpent s3 =
    (if round_no s = 0 then (roundSpent s)[0 := maxSpent s3]
     else if act_type a = a_raise
     then (roundSpent s)[round_no s := maxSpent s3 - (\<Sum>i<round_no s. roundSpent s ! i)]
     else roundSpent s)"
proof -
  obtain s1 s2 v where st: "doAction_record a p s = Some s1" "doAction_apply g a p s1 = Some s2"
    and rs: "doAction_roundSpent a s2 = Some s3" and s3: "s3 = s2\<lparr>roundSpent := v\<rparr>"
    using body_stages [OF body] by metis
  have p10: "p < 10" "p < 256" and r4: "round_no s < 4" using p r wf_gameD [OF wf] by auto
  note rec = record_stage [OF sh r4 p10(2) st(1)]
  have "roundSpent s2 = roundSpent s1 \<and> round_no s2 = round_no s1"
  proof (cases "act_type a")
    case a_fold
    then show ?thesis using st(2) fold_stage [OF rec(1) p10(1)] by (simp add: doAction_apply_def)
  next
    case a_call
    then have "doAction_call g p s1 = Some s2" using st(2) by (simp add: doAction_apply_def)
    from call_stage [OF rec(1) wf p10(1) this] show ?thesis by auto
  next
    case a_raise
    then have "raised g a p s1 s2"
      using st(2) raise_stage [OF rec(1) wf p10(1)] by (simp add: doAction_apply_def)
    then show ?thesis by (auto simp: raised_def Let_def split: if_splits)
  next
    case a_invalid
    then show ?thesis using st(2) by (simp add: doAction_apply_def)
  qed
  then show ?thesis using rs rec(8,10)
    by (auto simp: doAction_roundSpent_def bind_eq_Some_conv split: if_splits dest: roundSpent_loop_Some)
qed

lemma body_book:
  assumes wf: "wf_game g" and inv: "binv g s" and nf: "\<not> finished s" and bk: "book_inv g s"
    and body: "doAction_body g a (currentPlayer g s) s = Some s3"
  shows "book_inv g s3"
proof -
  let ?r = "round_no s" let ?p = "currentPlayer g s"
  note cur = turn_inv_current(1,2) [OF wf binvD(6) [OF inv nf]]
  note sh = binvD(1) [OF inv] and r = binvD(2) [OF inv]
  note mv = body_moved [OF wf sh r cur body]
  note mo = body_money [OF wf sh r cur binvD(3) [OF inv] body]
  note rs = body_roundSpent [OF body wf sh r cur]
  have len: "length (roundSpent s) = 4" "length (numActions s) = 4" using shape_stateD [OF sh] by auto
  have r4: "?r < 4" using r wf_gameD(4) [OF wf] by simp
  have r3: "round_no s3 = ?r" using mv(1) by (simp add: moved_def)
  have ge: "0 \<le> maxSpent s3" using mo by (auto simp: money_inv_def)
  have pos: "\<forall>i<numRounds g. 0 \<le> roundSpent s ! i" and tail: "\<forall>i<numRounds g. ?r < i \<longrightarrow> roundSpent s ! i = 0"
    using bk by (auto simp: book_inv_def)
  have sum: "all_roundSpent g s = (\<Sum>i<?r. roundSpent s ! i) + roundSpent s ! ?r"
    unfolding all_roundSpent_def using tail r by (intro sum_upto_tail_zero) auto
  have sum3: "all_roundSpent g s3 = (\<Sum>i<?r. roundSpent s3 ! i) + roundSpent s3 ! ?r"
    unfolding all_roundSpent_def
    by (rule sum_upto_tail_zero) (use rs tail r len r4 in \<open>auto simp: nth_list_update\<close>)
  have old: "(\<Sum>i<?r. roundSpent s3 ! i) = (\<Sum>i<?r. roundSpent s ! i)"
    by (rule sum.cong) (use rs in auto)
  have bal: "?r \<noteq> 0 \<Longrightarrow> all_roundSpent g s = maxSpent s" using bk by (auto simp: book_inv_def split: if_splits)
  have "act_type a \<noteq> a_raise \<Longrightarrow> maxSpent s3 = maxSpent s" using mv(1) by (simp add: moved_def)
  then have all3: "all_roundSpent g s3 = maxSpent s3"
    using sum3 old rs bal sum len r4 by (auto split: if_splits)
  have "\<forall>i<numRounds g. 0 \<le> roundSpent s3 ! i"
    using rs pos ge sum bal mo len r4 r by (auto simp: nth_list_update split: if_splits)
  moreover have "\<forall>i<numRounds g. ?r < i \<longrightarrow> roundSpent s3 ! i = 0" using rs tail by (auto split: if_splits)
  moreover have "numActions s3 ! 0 \<noteq> 0"
    using mv(4) bk len r4 by (cases "?r = 0") (auto simp: book_inv_def split: if_splits)
  moreover have "all_actions g s3 = Suc (all_actions g s)"
    using sum_list_update_nat [of ?r "numRounds g" "numActions s" "Suc (numActions s ! ?r)"] mv(4) r len r4
    by (simp add: all_actions_def)
  then have "bettingType g = limitBetting \<longrightarrow> maxSpent s3 \<le> max_blind g + max_raise g * int (all_actions g s3)"
    using bk body_maxSpent [OF wf sh r cur body] by (fastforce simp: book_inv_def algebra_simps)
  ultimately show ?thesis using all3 r3 by (simp add: book_inv_def)
qed

lemma doAction_book:
  assumes wf: "wf_game g" and inv: "binv g s" and nf: "\<not> finished s" and bk: "book_inv g s"
    and act: "doAction g a s = Some (s', e)"
  shows "book_inv g s'"
proof -
  obtain s3 where body: "doAction_body g a (currentPlayer g s) s = Some s3"
    and en: "doAction_end g s3 = Some (s', e)"
    using act by (auto simp: doAction_via_body bind_eq_Some_conv)
  have b3: "book_inv g s3" using body_book [OF wf inv nf bk body] .
  note cur = turn_inv_current(1,2) [OF wf binvD(6) [OF inv nf]]
  note mv = body_moved [OF wf binvD(1,2) [OF inv] cur body]
  have "numActions s3 ! 0 \<noteq> 0"
    using mv(1,4) bk shape_stateD(5) [OF binvD(1) [OF inv]]
    by (cases "round_no s = 0") (auto simp: book_inv_def split: if_splits)
  moreover have "round_no s3 \<le> round_no s' \<and> numActions s' = numActions s3 \<and> roundSpent s' = roundSpent s3 \<and>
    maxSpent s' = maxSpent s3"
    using end_stage [OF en] mv(1) binvD(2) [OF inv] by (auto simp: moved_def)
  ultimately show ?thesis using b3
    by (auto simp: book_inv_def all_roundSpent_def all_actions_def split: if_splits)
qed

lemma initState_book:
  assumes init: "initState g hid s = Some s'" and wf: "wf_game g" and sh: "shape_state s"
    and zero: "\<forall>r<numRounds g. roundSpent s ! r = 0"
  shows "book_inv g s'"
  using initState_fields [OF init wf sh] zero wf_gameD(3) [OF wf]
  by (auto simp: book_inv_def all_roundSpent_def all_actions_def max_blind_def)


section \<open>No valid action runs into undefined behaviour\<close>

lemma end_defined:
  assumes "INT32_MIN \<le> max_loop (\<lambda>p. blind g ! p) (numPlayers g) 1 + maxSpent s3"
    "max_loop (\<lambda>p. blind g ! p) (numPlayers g) 1 + maxSpent s3 \<le> INT32_MAX"
  shows "\<exists>s' e. doAction_end g s3 = Some (s', e)"
  using assms by (auto simp: doAction_end_def)

lemma max_blind_1: "max_loop (\<lambda>p. blind g ! p) (numPlayers g) 1 \<le> max_blind g + 1"
  using max_loop_attained [of "\<lambda>p. blind g ! p" "numPlayers g" 1]
    max_loop_upper [of _ "numPlayers g" "\<lambda>p. blind g ! p" 0] max_blind_ge [of g]
  by (fastforce simp: max_blind_def)

lemma max_blind_stack:
  assumes "wf_game g"
  shows "\<exists>p<numPlayers g. max_blind g \<le> stack g ! p"
  using max_loop_attained [of "\<lambda>p. blind g ! p" "numPlayers g" 0] wf_game_money [OF assms]
    wf_gameD(1) [OF assms] unfolding max_blind_def by (metis order_trans zero_less_numeral le_less_trans not_le)

lemma apply_defined:
  assumes wf: "wf_game g" and inv: "binv g s" and nf: "\<not> finished s" and fits: "fits_game g"
    and bk: "book_inv g s" and valid: "isValidAction g s fx a = Some (True, a')"
    and rec: "doAction_record a' (currentPlayer g s) s = Some s1"
  shows "\<exists>s2. doAction_apply g a' (currentPlayer g s) s1 = Some s2"
proof -
  let ?p = "currentPlayer g s"
  note cur = turn_inv_current(1) [OF wf binvD(6) [OF inv nf]]
  have p10: "?p < 10" "?p < 256" and r4: "round_no s < 4"
    using cur binvD(2) [OF inv] wf_gameD [OF wf] by auto
  note r1 = record_stage [OF binvD(1) [OF inv] r4 p10(2) rec]
  have len: "?p < length (spent s1)" "?p < length (playerFolded s1)" "?p < length (stack g)"
    using shape_stateD [OF r1(1)] wf_gameD(5) [OF wf] p10 by auto
  note mx = maxSpent_fits [OF wf fits inv bk]
  show ?thesis
  proof (cases "act_type a'")
    case a_raise
    note v = isValidAction_True [OF inv valid a_raise]
    show ?thesis
    proof (cases "bettingType g")
      case noLimitBetting
      have "stack g ! ?p < 2 ^ 30" using fits cur noLimitBetting by (simp add: fits_game_def)
      then show ?thesis using v(4) [OF noLimitBetting] mx(1) len a_raise noLimitBetting r1(4,6)
        by (simp add: doAction_apply_def doAction_raise_def)
    next
      case limitBetting
      have "raiseSize g ! round_no s \<le> max_raise g" "0 \<le> raiseSize g ! round_no s"
        using max_loop_upper [OF binvD(2) [OF inv], of "\<lambda>r. raiseSize g ! r" 0]
          wf_game_round(2) [OF wf binvD(2) [OF inv] limitBetting] by (auto simp: max_raise_def)
      then have "chk32 (maxSpent s1 + raiseSize g ! round_no s1) = Some (maxSpent s + raiseSize g ! round_no s)"
        using mx(1,2) max_blind_ge [of g] limitBetting r1(6,8) by simp
      then show ?thesis using len a_raise limitBetting
        by (simp add: doAction_apply_def doAction_raise_def)
    qed
  next
    case a_invalid
    then show ?thesis using isValidAction_type(3) [OF valid] by simp
  qed (use len in \<open>simp_all add: doAction_apply_def doAction_fold_def doAction_call_def Let_def\<close>)
qed

lemma roundSpent_defined:
  assumes wf: "wf_game g" and inv: "binv g s" and nf: "\<not> finished s" and bk: "book_inv g s"
    and s2: "roundSpent s2 = roundSpent s" "round_no s2 = round_no s" "maxSpent s \<le> maxSpent s2"
    "maxSpent s2 \<le> INT32_MAX"
  shows "\<exists>s3. doAction_roundSpent a s2 = Some s3"
proof (cases "round_no s = 0")
  case True
  then show ?thesis using s2 by (simp add: doAction_roundSpent_def)
next
  case False
  have nn: "\<forall>i<numRounds g. 0 \<le> roundSpent s ! i" and tot: "all_roundSpent g s = maxSpent s"
    using bk False by (auto simp: book_inv_def split: if_splits)
  have part: "0 \<le> (\<Sum>i<j. roundSpent s ! i) \<and> (\<Sum>i<j. roundSpent s ! i) \<le> maxSpent s"
    if "j \<le> round_no s" for j
  proof -
    have j: "j \<le> numRounds g" using that binvD(2) [OF inv] by simp
    have "(\<Sum>i<j. roundSpent s ! i) \<le> (\<Sum>i<numRounds g. roundSpent s ! i)"
      by (rule sum_mono2) (use nn j in auto)
    moreover have "0 \<le> (\<Sum>i<j. roundSpent s ! i)" by (rule sum_nonneg) (use nn j in auto)
    ultimately show ?thesis using tot by (simp add: all_roundSpent_def)
  qed
  have "roundSpent_loop s2 (round_no s) = Some (maxSpent s2 - (\<Sum>r<round_no s. roundSpent s2 ! r))"
    by (rule roundSpent_loop_eq) (use part s2 in fastforce)
  then show ?thesis using s2 by (simp add: doAction_roundSpent_def)
qed


lemma limit_stack_covers:
  assumes wf: "wf_game g" and inv: "money_inv g s" and lim: "bettingType g = limitBetting"
    and p: "p < numPlayers g"
  shows "maxSpent s \<le> stack g ! p"
proof -
  obtain x where "x < numPlayers g" "spent s ! x = maxSpent s" "spent s ! x \<le> stack g ! x"
    using inv by (auto simp: money_inv_def)
  then show ?thesis using wf_game_money(3) [OF wf _ lim] p by metis
qed

lemma apply_amounts:
  assumes wf: "wf_game g" and inv: "binv g s" and nf: "\<not> finished s" and fits: "fits_game g"
    and bk: "book_inv g s" and valid: "isValidAction g s fx a = Some (True, a')"
    and rec: "doAction_record a' (currentPlayer g s) s = Some s1"
    and ap: "doAction_apply g a' (currentPlayer g s) s1 = Some s2"
  shows "roundSpent s2 = roundSpent s" "round_no s2 = round_no s"
    "maxSpent s \<le> maxSpent s2" "maxSpent s2 + max_blind g + 1 \<le> INT32_MAX"
proof -
  let ?p = "currentPlayer g s"
  note cur = turn_inv_current(1) [OF wf binvD(6) [OF inv nf]]
  have p10: "?p < 10" "?p < 256" and r4: "round_no s < 4"
    using cur binvD(2) [OF inv] wf_gameD [OF wf] by auto
  note r1 = record_stage [OF binvD(1) [OF inv] r4 p10(2) rec]
  note mx = maxSpent_fits [OF wf fits inv bk]
  obtain q where q: "q < numPlayers g" "max_blind g \<le> stack g ! q" using max_blind_stack [OF wf] by blast
  have now: "maxSpent s + max_blind g + 1 \<le> INT32_MAX"
    using mx max_raise_ge [of g] q fits by (cases "bettingType g") (auto simp: fits_game_def)
  have "roundSpent s2 = roundSpent s \<and> round_no s2 = round_no s \<and> maxSpent s \<le> maxSpent s2 \<and>
    maxSpent s2 + max_blind g + 1 \<le> INT32_MAX"
  proof (cases "act_type a'")
    case a_fold
    then show ?thesis using ap fold_stage [OF r1(1) p10(1)] r1 now by (simp add: doAction_apply_def)
  next
    case a_call
    then have "doAction_call g ?p s1 = Some s2" using ap by (simp add: doAction_apply_def)
    from call_stage [OF r1(1) wf p10(1) this] show ?thesis using r1 now by auto
  next
    case a_raise
    then have ra: "raised g a' ?p s1 s2"
      using ap raise_stage [OF r1(1) wf p10(1)] by (simp add: doAction_apply_def)
    show ?thesis
    proof (cases "bettingType g")
      case noLimitBetting
      have "stack g ! ?p < 2 ^ 30" "stack g ! q < 2 ^ 30"
        using fits cur q noLimitBetting by (auto simp: fits_game_def)
      then show ?thesis using ra r1 q(2) noLimitBetting by (simp add: raised_def)
    next
      case limitBetting
      have rs: "raiseSize g ! round_no s \<le> max_raise g" "0 \<le> raiseSize g ! round_no s"
        using max_loop_upper [OF binvD(2) [OF inv], of "\<lambda>r. raiseSize g ! r" 0]
          wf_game_round(2) [OF wf binvD(2) [OF inv] limitBetting] by (auto simp: max_raise_def)
      then show ?thesis
        using ra r1 limitBetting mx(2) limit_stack_covers [OF wf binvD(3) [OF inv] limitBetting cur]
        by (auto simp: raised_def Let_def)
    qed
  next
    case a_invalid
    then show ?thesis using isValidAction_type(3) [OF valid] by simp
  qed
  then show "roundSpent s2 = roundSpent s" "round_no s2 = round_no s"
    "maxSpent s \<le> maxSpent s2" "maxSpent s2 + max_blind g + 1 \<le> INT32_MAX" by auto
qed

lemma doAction_defined:
  assumes wf: "wf_game g" and inv: "binv g s" and fits: "fits_game g"
    and bk: "book_inv g s" and valid: "isValidAction g s fx a = Some (True, a')"
  shows "\<exists>s' e. doAction g a' s = Some (s', e)"
proof -
  let ?p = "currentPlayer g s"
  have nf: "\<not> finished s" by (rule isValidAction_type(1) [OF valid])
  obtain f where "seg_inv g s f" "0 < undecided g s" using binvD(6) [OF inv nf] by (auto simp: turn_inv_def)
  then have "numActions s ! round_no s < 64" by (simp add: seg_inv_def)
  then obtain s1 where rec: "doAction_record a' ?p s = Some s1" by (auto simp: doAction_record_def Let_def)
  obtain s2 where ap: "doAction_apply g a' ?p s1 = Some s2"
    using apply_defined [OF wf inv nf fits bk valid rec] by blast
  note am = apply_amounts [OF wf inv nf fits bk valid rec ap]
  have hi: "maxSpent s2 \<le> INT32_MAX" using am(4) max_blind_ge [of g] by simp
  obtain s3 where rs: "doAction_roundSpent a' s2 = Some s3"
    using roundSpent_defined [OF wf inv nf bk am(1-3) hi] by blast
  have m3: "maxSpent s3 = maxSpent s2" using roundSpent_stage [OF rs] by auto
  have "0 \<le> maxSpent s" by (rule maxSpent_fits(1) [OF wf fits inv bk])
  then have "\<exists>s' e. doAction_end g s3 = Some (s', e)"
    using am(3,4) m3 max_blind_1 [of g] max_loop_ge [of 1 "\<lambda>p. blind g ! p" "numPlayers g"]
    by (intro end_defined) auto
  then show ?thesis using rec ap rs by (auto simp: doAction_def Let_def)
qed


end
