(* ===== verification/Betting_Machine.thy ===== *)
theory Betting_Machine
  imports Betting_Safety
begin

text \<open>
  A hand as a state machine.  \<open>bet_step\<close> is one action that \<open>isValidAction\<close> accepts, carried out by
  \<open>doAction\<close>; \<open>reachable\<close> are the states of a hand.  The locales state once what an invariant, a bounded
  amount of work and progress give for runs; the interpretation \<open>hand\<close> discharges their laws for the
  betting engine.
\<close>

section \<open>Machines with an invariant, a work bound and progress\<close>

locale inv_machine =
  fixes start :: "'s \<Rightarrow> bool" and step :: "'s \<Rightarrow> 's \<Rightarrow> bool" and inv :: "'s \<Rightarrow> bool"
  assumes start_inv: "start s \<Longrightarrow> inv s"
    and step_inv: "inv s \<Longrightarrow> step s t \<Longrightarrow> inv t"
begin

lemma run_inv: "inv s \<Longrightarrow> (step ^^ n) s t \<Longrightarrow> inv t"
  by (induction n arbitrary: t) (auto intro: step_inv)

end

locale bounded_machine = inv_machine +
  fixes work :: "'s \<Rightarrow> nat" and bound :: nat
  assumes step_work: "inv s \<Longrightarrow> step s t \<Longrightarrow> work t = Suc (work s)"
    and work_bound: "inv s \<Longrightarrow> work s \<le> bound"
begin

lemma run_work: "inv s \<Longrightarrow> (step ^^ n) s t \<Longrightarrow> work t = work s + n"
  by (induction n arbitrary: t) (auto simp: step_work dest: run_inv)

lemma run_bounded: "inv s \<Longrightarrow> (step ^^ n) s t \<Longrightarrow> n \<le> bound"
  using run_work work_bound run_inv by fastforce

end

locale live_machine = bounded_machine +
  fixes final :: "'s \<Rightarrow> bool"
  assumes progress: "inv s \<Longrightarrow> \<not> final s \<Longrightarrow> \<exists>t. step s t"
begin

lemma reaches_final: "inv s \<Longrightarrow> \<exists>n t. (step ^^ n) s t \<and> final t"
proof (induction "bound - work s" arbitrary: s rule: less_induct)
  case less
  show ?case
  proof (cases "final s")
    case True
    then show ?thesis by (intro exI [of _ 0]) auto
  next
    case False
    then obtain t where t: "step s t" using progress [OF less.prems] by blast
    have it: "inv t" by (rule step_inv [OF less.prems t])
    have "bound - work t < bound - work s"
      using step_work [OF less.prems t] work_bound [OF it] by simp
    then obtain n u where "(step ^^ n) t u" "final u" using less.hyps it by blast
    then have "(step ^^ Suc n) s u" using t by (metis relpowp_Suc_I2)
    then show ?thesis using \<open>final u\<close> by blast
  qed
qed

end

section \<open>Hands\<close>

inductive bet_step :: "Game \<Rightarrow> State \<Rightarrow> State \<Rightarrow> bool" for g :: Game where
  act: "isValidAction g s tryFixing a = Some (True, a') \<Longrightarrow> doAction g a' s = Some (s', roundEnd) \<Longrightarrow>
        bet_step g s s'"

inductive_cases bet_stepE: "bet_step g s s'"

definition hand_start :: "Game \<Rightarrow> State \<Rightarrow> bool" where
  "hand_start g s \<longleftrightarrow> (\<exists>hid s0. shape_state s0 \<and> (\<forall>r<numRounds g. roundSpent s0 ! r = 0) \<and>
     initState g hid s0 = Some s)"

inductive reachable :: "Game \<Rightarrow> State \<Rightarrow> bool" for g :: Game where
  start: "hand_start g s \<Longrightarrow> reachable g s"
| step: "reachable g s \<Longrightarrow> bet_step g s s' \<Longrightarrow> reachable g s'"

text \<open>The games for which the engine is shown to be safe.\<close>

definition playable :: "Game \<Rightarrow> bool" where
  "playable g \<longleftrightarrow> wf_game g \<and> somebody_can_act g \<and> fits_game g"

definition hand_inv :: "Game \<times> State \<Rightarrow> bool" where
  "hand_inv = (\<lambda>(g, s). playable g \<and> binv g s \<and> book_inv g s)"

definition table_start :: "Game \<times> State \<Rightarrow> bool" where
  "table_start = (\<lambda>(g, s). playable g \<and> hand_start g s)"

definition table_step :: "Game \<times> State \<Rightarrow> Game \<times> State \<Rightarrow> bool" where
  "table_step = (\<lambda>(g, s) (g', s'). g' = g \<and> bet_step g s s')"

definition table_work :: "Game \<times> State \<Rightarrow> nat" where
  "table_work = (\<lambda>(g, s). all_actions g s)"

definition table_final :: "Game \<times> State \<Rightarrow> bool" where
  "table_final = (\<lambda>(g, s). finished s)"

lemma bet_step_inv:
  assumes "playable g" "binv g s" "book_inv g s" "bet_step g s s'"
  shows "binv g s' \<and> book_inv g s' \<and> all_actions g s' = Suc (all_actions g s)"
proof -
  obtain fx a a' e where 1: "isValidAction g s fx a = Some (True, a')" "doAction g a' s = Some (s', e)"
    using assms(4) by (rule bet_stepE)
  have wf: "wf_game g" using assms(1) by (simp add: playable_def)
  note nf = isValidAction_type(1) [OF 1(1)]
  have room: "act_type a' = a_raise \<Longrightarrow> numActions s ! round_no s + numPlayers g \<le> MAX_NUM_ACTIONS"
    using isValidAction_True(1) [OF assms(2) 1(1)] .
  obtain s3 where s3: "numActions s3 = (numActions s)[round_no s := Suc (numActions s ! round_no s)]"
    "doAction_end g s3 = Some (s', e)"
    using doAction_stages [OF wf assms(2) nf 1(2) room] by metis
  have len: "round_no s < length (numActions s)"
    using shape_stateD(5) [OF binvD(1) [OF assms(2)]] binvD(2) [OF assms(2)] wf_gameD(4) [OF wf] by simp
  have "all_actions g s3 = Suc (all_actions g s)"
    using sum_list_update_nat [OF binvD(2) [OF assms(2)] len, of "Suc (numActions s ! round_no s)"] s3(1)
    by (simp add: all_actions_def)
  moreover have "numActions s' = numActions s3" using end_stage [OF s3(2)] by auto
  ultimately show ?thesis
    using doAction_binv [OF wf assms(2) nf 1(2) room] doAction_book [OF wf assms(2) nf assms(3) 1(2)]
    by (simp add: all_actions_def)
qed

lemma call_always_valid:
  "\<not> finished s \<Longrightarrow> isValidAction g s False \<lparr>act_type = a_call, act_size = 0\<rparr> =
     Some (True, \<lparr>act_type = a_call, act_size = 0\<rparr>)"
  by (simp add: isValidAction_def)

interpretation hand: live_machine table_start table_step hand_inv table_work 256 table_final
proof
  fix ts :: "Game \<times> State" assume "table_start ts"
  then show "hand_inv ts"
    by (auto simp: table_start_def hand_inv_def hand_start_def playable_def
        intro: initState_binv initState_book)
next
  fix ts ts' :: "Game \<times> State" assume "hand_inv ts" "table_step ts ts'"
  then show "hand_inv ts'" and "table_work ts' = Suc (table_work ts)"
    using bet_step_inv by (auto simp: hand_inv_def table_step_def table_work_def)
next
  fix ts :: "Game \<times> State" assume "hand_inv ts"
  then show "table_work ts \<le> 256"
    using all_actions_le by (auto simp: hand_inv_def table_work_def playable_def)
next
  fix ts :: "Game \<times> State" assume inv: "hand_inv ts" and nf: "\<not> table_final ts"
  obtain g s where ts: "ts = (g, s)" by (cases ts)
  have "\<not> finished s" and p: "wf_game g" "binv g s" "fits_game g" "book_inv g s"
    using inv nf by (auto simp: ts hand_inv_def table_final_def playable_def)
  note v = call_always_valid [OF this(1), of g]
  obtain s' e where "doAction g \<lparr>act_type = a_call, act_size = 0\<rparr> s = Some (s', e)"
    using doAction_defined [OF p v] by blast
  then show "\<exists>ts'. table_step ts ts'" using bet_step.act [OF v] by (auto simp: ts table_step_def)
qed

lemma reachable_inv:
  assumes "reachable g s" "playable g"
  shows "hand_inv (g, s)"
  using assms
proof (induction rule: reachable.induct)
  case (start s)
  then show ?case using hand.start_inv [of "(g, s)"] by (simp add: table_start_def)
next
  case (step s s')
  then show ?case using hand.step_inv [of "(g, s)" "(g, s')"] by (simp add: table_step_def)
qed

lemma reachable_facts:
  assumes "reachable g s" "playable g"
  shows "wf_game g" "binv g s" "book_inv g s" "fits_game g"
  using reachable_inv [OF assms] by (auto simp: hand_inv_def playable_def)

end
