(* ===== verification/Betting_Props.thy ===== *)
theory Betting_Props
  imports Betting_Machine
begin

text \<open>
  The properties of the betting engine over the states of a hand, with witnesses on a two-player
  no-limit game and on the two-player limit game of the program's title.
\<close>

section \<open>Two concrete games\<close>

text \<open>Heads-up no-limit with blinds 100/50 and stacks of 20000 (the reverse-blinds game of the server).\<close>

definition nolimit_2p :: Game where
  "nolimit_2p = \<lparr>stack = [20000, 20000, 0, 0, 0, 0, 0, 0, 0, 0], blind = [100, 50, 0, 0, 0, 0, 0, 0, 0, 0],
     raiseSize = [0, 0, 0, 0], bettingType = noLimitBetting, numPlayers = 2, numRounds = 4,
     firstPlayer = [1, 0, 0, 0], maxRaises = [255, 255, 255, 255], numSuits = 4, numRanks = 13,
     numHoleCards = 2, numBoardCards = [0, 3, 1, 1]\<rparr>"

text \<open>Heads-up limit with blinds 10/5, raises of 10 and 20, stacks that default to \<open>INT32_MAX\<close>.\<close>

definition limit_2p :: Game where
  "limit_2p = \<lparr>stack = [INT32_MAX, INT32_MAX, INT32_MAX, INT32_MAX, 0, 0, 0, 0, 0, 0],
     blind = [10, 5, 0, 0, 0, 0, 0, 0, 0, 0],
     raiseSize = [10, 10, 20, 20], bettingType = limitBetting, numPlayers = 2, numRounds = 4,
     firstPlayer = [1, 0, 0, 0], maxRaises = [3, 4, 4, 4], numSuits = 4, numRanks = 13,
     numHoleCards = 2, numBoardCards = [0, 3, 1, 1]\<rparr>"

lemma playable_nolimit_2p: "playable nolimit_2p"
  by code_simp

lemma playable_limit_2p: "playable limit_2p"
  by code_simp

definition nolimit_start :: State where
  "nolimit_start = the (initState nolimit_2p 7 zero_state)"

lemma nolimit_start_init: "initState nolimit_2p 7 zero_state = Some nolimit_start"
  unfolding nolimit_start_def by code_simp

lemma nolimit_hand_start: "hand_start nolimit_2p nolimit_start"
  unfolding hand_start_def
  by (rule exI [of _ 7], rule exI [of _ zero_state])
    (simp add: nolimit_start_init, simp add: zero_state_def nolimit_2p_def nth_Cons')

lemma reachable_nolimit_start: "reachable nolimit_2p nolimit_start"
  by (rule reachable.start) (rule nolimit_hand_start)

lemma nolimit_start_running: "\<not> finished nolimit_start"
  unfolding nolimit_start_def by code_simp


section \<open>Money\<close>

text \<open>C2: in every state of a hand, each player has put in between nothing and the whole stack and never
  more than the current bet, somebody has put in exactly the current bet, and in no-limit games the
  smallest raise is above the current bet.
  The game is playable (\<open>playable\<close>: it passes the checks, its blinds are not negative, its sizes cannot overflow, the stacks of a limit game
  are equal, and somebody can act after the blinds).\<close>

theorem reachable_money:
  assumes "playable g" "reachable g s"
  shows "(\<forall>p<numPlayers g. 0 \<le> spent s ! p \<and> spent s ! p \<le> stack g ! p \<and> spent s ! p \<le> maxSpent s) \<and>
    (\<exists>p<numPlayers g. spent s ! p = maxSpent s) \<and>
    (bettingType g = noLimitBetting \<longrightarrow> maxSpent s < minNoLimitRaiseTo s)"
  using binvD(3) [OF reachable_facts(2) [OF assms(2,1)]] unfolding money_inv_def .

theorem reachable_money_witness:
  "playable nolimit_2p \<and> reachable nolimit_2p nolimit_start \<and>
   maxSpent nolimit_start < minNoLimitRaiseTo nolimit_start"
  using reachable_money [OF playable_nolimit_2p reachable_nolimit_start]
    playable_nolimit_2p reachable_nolimit_start by (simp add: nolimit_2p_def)

section \<open>No undefined behaviour\<close>

text \<open>C1: in every state of a hand the validity check is defined for every action, and an action it
  accepts is carried out without a failed assertion, an index outside an array or a signed overflow;
  the result is again a state of the hand.
  The game is playable.\<close>

theorem valid_action_defined:
  assumes "playable g" "reachable g s"
  shows "\<exists>ok a'. isValidAction g s tryFixing a = Some (ok, a') \<and>
    (ok \<longrightarrow> (\<exists>s' roundEnd. doAction g a' s = Some (s', roundEnd) \<and> reachable g s'))"
proof -
  note f = reachable_facts [OF assms(2,1)]
  obtain ok a' where v: "isValidAction g s tryFixing a = Some (ok, a')"
    using isValidAction_defined [OF f(1,2)] by blast
  have "\<exists>s' e. doAction g a' s = Some (s', e) \<and> reachable g s'" if "ok"
  proof -
    have v': "isValidAction g s tryFixing a = Some (True, a')" using v that by simp
    obtain s' e where d: "doAction g a' s = Some (s', e)"
      using doAction_defined [OF f(1,2,4,3) v'] by blast
    then show ?thesis using reachable.step [OF assms(2) bet_step.act [OF v' d]] by blast
  qed
  then show ?thesis using v by blast
qed

theorem valid_action_defined_witness:
  "\<exists>s' roundEnd. doAction nolimit_2p \<lparr>act_type = a_raise, act_size = 300\<rparr> nolimit_start = Some (s', roundEnd)
     \<and> reachable nolimit_2p s'"
proof -
  have "isValidAction nolimit_2p nolimit_start False \<lparr>act_type = a_raise, act_size = 300\<rparr> =
      Some (True, \<lparr>act_type = a_raise, act_size = 300\<rparr>)"
    unfolding nolimit_start_def by code_simp
  then show ?thesis
    using valid_action_defined [OF playable_nolimit_2p reachable_nolimit_start,
        of False "\<lparr>act_type = a_raise, act_size = 300\<rparr>"] by simp blast
qed

section \<open>Turn order\<close>

text \<open>The seat from which the next player is looked for.\<close>

definition turn_from :: "Game \<Rightarrow> State \<Rightarrow> nat" where
  "turn_from g s = (if numActions s ! round_no s \<noteq> 0
     then actingPlayer s ! round_no s ! (numActions s ! round_no s - 1) + 1
     else firstPlayer g ! round_no s)"

lemma mod_plus_self_mid: "(t + n + j) mod n = (t + j) mod (n :: nat)"
  by (metis add.assoc add.commute mod_add_self1)

lemma currentPlayer_first:
  assumes wf: "wf_game g" and r: "round_no s < numRounds g" and x: "x < numPlayers g" "can_act g s x"
  shows "\<exists>k. currentPlayer g s = (turn_from g s + k) mod numPlayers g \<and>
    (\<forall>j<k. \<not> can_act g s ((turn_from g s + j) mod numPlayers g))"
proof -
  let ?N = "numPlayers g"
  let ?c = "if numActions s ! round_no s \<noteq> 0 then actingPlayer s ! round_no s ! (numActions s ! round_no s - 1)
    else firstPlayer g ! round_no s + ?N - 1"
  have "firstPlayer g ! round_no s < ?N" using wf_game_round(1) [OF wf r] .
  then have cur: "currentPlayer g s = nextPlayer g s ?c"
    using wf_gameD(2) [OF wf] by (simp add: currentPlayer_def Let_def)
  have "?c + 1 = (if numActions s ! round_no s \<noteq> 0 then turn_from g s else turn_from g s + ?N)"
    using x(1) by (simp add: turn_from_def)
  then have shift: "(?c + 1 + j) mod ?N = (turn_from g s + j) mod ?N" for j
    by (cases "numActions s ! round_no s \<noteq> 0") (simp_all add: mod_plus_self_mid)
  obtain k where "nextPlayer g s ?c = (?c + 1 + k) mod ?N"
    "\<And>j. j < k \<Longrightarrow> \<not> can_act g s ((?c + 1 + j) mod ?N)"
    using nextPlayer_first [OF x] by metis
  then show ?thesis using cur shift by auto
qed

text \<open>C3: while a hand runs, the current player exists, has neither folded nor put the whole stack in,
  has not yet answered the last raise of the round, and is the first seat after the last one that acted
  (or from the round's first player on) that can act.
  The game is playable.\<close>

theorem current_player_turn:
  assumes "playable g" "reachable g s" "\<not> finished s"
  shows "currentPlayer g s < numPlayers g \<and> can_act g s (currentPlayer g s) \<and>
    currentPlayer g s \<notin> answered s \<and>
    (\<exists>k. currentPlayer g s = (turn_from g s + k) mod numPlayers g \<and>
         (\<forall>j<k. \<not> can_act g s ((turn_from g s + j) mod numPlayers g)))"
proof -
  note f = reachable_facts [OF assms(2,1)]
  note cur = turn_inv_current [OF f(1) binvD(6) [OF f(2) assms(3)]]
  show ?thesis using cur currentPlayer_first [OF f(1) binvD(2) [OF f(2)] cur(1,2)] by blast
qed

theorem current_player_turn_witness:
  "playable nolimit_2p \<and> reachable nolimit_2p nolimit_start \<and> \<not> finished nolimit_start \<and>
   currentPlayer nolimit_2p nolimit_start < numPlayers nolimit_2p"
  using current_player_turn [OF playable_nolimit_2p reachable_nolimit_start nolimit_start_running]
    playable_nolimit_2p reachable_nolimit_start nolimit_start_running by simp

text \<open>C14: when nobody can act, \<open>currentPlayer\<close> is the out-of-range seat 255, and the code that indexes
  with it is undefined: a hand whose blinds put everybody all-in cannot be played.\<close>

theorem no_player_can_act:
  assumes "wf_game g" "initState g hid s0 = Some s" "shape_state s0" "\<not> somebody_can_act g"
  shows "currentPlayer g s = 255 \<and> doAction g \<lparr>act_type = a_call, act_size = 0\<rparr> s = None"
proof -
  note f = initState_fields [OF assms(2,1,3)]
  have no: "\<not> can_act g s x" if "x < numPlayers g" for x
    using that assms(4) f(5) by (auto simp: can_act_def somebody_can_act_def)
  have "nextPlayer g s c = 255" for c
    unfolding nextPlayer_def by (rule nextPlayer_loop_none) (use no wf_gameD(1) [OF assms(1)] in auto)
  then have cur: "currentPlayer g s = 255" by (simp add: currentPlayer_def Let_def)
  have r: "round_no s < 4" using f(2) by simp
  have "doAction_call g 255 s1 = None" for s1
    using wf_gameD(5) [OF assms(1)] by (simp add: doAction_call_def rd_def)
  then show ?thesis using cur by (auto simp: doAction_def doAction_apply_def Let_def bind_eq_None_conv)
qed

definition allin_2p :: Game where
  "allin_2p = nolimit_2p\<lparr>stack := [100, 50, 0, 0, 0, 0, 0, 0, 0, 0]\<rparr>"

theorem no_player_can_act_witness:
  "wf_game allin_2p \<and> \<not> somebody_can_act allin_2p \<and>
   (\<exists>s. initState allin_2p 7 zero_state = Some s \<and> currentPlayer allin_2p s = 255)"
proof -
  have w: "wf_game allin_2p" and n: "\<not> somebody_can_act allin_2p" by code_simp+
  obtain s where "initState allin_2p 7 zero_state = Some s"
    by (cases "initState allin_2p 7 zero_state") (auto simp: initState_def allin_2p_def nolimit_2p_def Let_def eval_nat_numeral)
  then show ?thesis using no_player_can_act [OF w _ shape_zero_state n] w n by blast
qed


text \<open>Why stacks are bounded in \<open>fits_game\<close>: with the stacks that \<open>readGame\<close> sets when the file names none, a no-limit raise to \<open>2^30\<close> chips is
  accepted and overflows in \<open>doAction\<close>.\<close>

lemma deep_raise_undefined:
  assumes "bettingType g = noLimitBetting" "act_type a = a_raise" "2 ^ 30 \<le> act_size a"
  shows "doAction g a s = None"
proof -
  have "chk32 (act_size a + act_size a) = None" using assms(3) by (simp add: chk32_def)
  then have "doAction_raise g a p s1 = None" for p s1 using assms(1) by (auto simp: doAction_raise_def bind_eq_None_conv)
  then show ?thesis using assms(2) by (auto simp: doAction_def doAction_apply_def Let_def bind_eq_None_conv)
qed

definition deep_2p :: Game where
  "deep_2p = nolimit_2p\<lparr>stack := replicate 4 INT32_MAX @ replicate 6 0\<rparr>"

lemma deep_raise_accepted:
  "wf_game deep_2p \<and> (\<exists>s. initState deep_2p 7 zero_state = Some s \<and>
     isValidAction deep_2p s False \<lparr>act_type = a_raise, act_size = 2 ^ 30\<rparr> = Some (True, \<lparr>act_type = a_raise, act_size = 2 ^ 30\<rparr>) \<and>
     doAction deep_2p \<lparr>act_type = a_raise, act_size = 2 ^ 30\<rparr> s = None)"
proof -
  let ?a = "\<lparr>act_type = a_raise, act_size = 2 ^ 30\<rparr>"
  have w: "wf_game deep_2p" by code_simp
  have "initState deep_2p 7 zero_state \<bind> (\<lambda>s. isValidAction deep_2p s False ?a) = Some (True, ?a)" by code_simp
  then obtain s where "initState deep_2p 7 zero_state = Some s" "isValidAction deep_2p s False ?a = Some (True, ?a)" by (auto split: bind_splits)
  moreover have "doAction deep_2p ?a s = None" by (rule deep_raise_undefined) (simp_all add: deep_2p_def nolimit_2p_def)
  ultimately show ?thesis using w by blast
qed

section \<open>How long a hand lasts\<close>

lemma table_run: "(table_step ^^ n) (g, s) gt \<longleftrightarrow> fst gt = g \<and> (bet_step g ^^ n) s (snd gt)"
proof (induction n arbitrary: gt)
  case (Suc n)
  have "(table_step ^^ Suc n) (g, s) gt \<longleftrightarrow> (\<exists>u. (table_step ^^ n) (g, s) u \<and> table_step u gt)"
    by auto
  also have "\<dots> \<longleftrightarrow> (\<exists>v. (bet_step g ^^ n) s v \<and> table_step (g, v) gt)"
    by (metis Suc.IH fst_conv prod.collapse snd_conv)
  also have "\<dots> \<longleftrightarrow> fst gt = g \<and> (bet_step g ^^ Suc n) s (snd gt)"
    by (cases gt) (auto simp: table_step_def)
  finally show ?case .
qed (auto simp: prod_eq_iff)

lemma finished_stuck: "finished s \<Longrightarrow> \<not> bet_step g s t"
  by (auto elim!: bet_stepE dest: isValidAction_type(1))

text \<open>C4: a hand lasts at most 256 actions, and it stops exactly when it is finished: as long as it is
  not, there is a valid action, and afterwards there is none.
  The game is playable.\<close>

theorem hand_ends:
  assumes "playable g" "hand_start g s" "(bet_step g ^^ n) s t"
  shows "n \<le> 256 \<and> ((\<nexists>u. bet_step g t u) \<longleftrightarrow> finished t)"
proof -
  have run: "(table_step ^^ n) (g, s) (g, t)" using assms(3) by (simp add: table_run)
  have inv: "hand_inv (g, s)" using hand.start_inv [of "(g, s)"] assms by (simp add: table_start_def)
  have "\<exists>u. bet_step g t u" if "\<not> finished t"
    using hand.progress [OF hand.run_inv [OF inv run]] that by (auto simp: table_final_def table_step_def)
  then show ?thesis using hand.run_bounded [OF inv run] finished_stuck by blast
qed

theorem hand_ends_witness:
  "playable nolimit_2p \<and> hand_start nolimit_2p nolimit_start \<and> (\<exists>u. bet_step nolimit_2p nolimit_start u)"
  using hand_ends [OF playable_nolimit_2p nolimit_hand_start, of 0 nolimit_start]
    playable_nolimit_2p nolimit_hand_start nolimit_start_running by simp

text \<open>C5: from every state of a hand a finished state can be reached.
  The game is playable.\<close>

theorem hand_can_finish:
  assumes "playable g" "reachable g s"
  shows "\<exists>t. (bet_step g)\<^sup>*\<^sup>* s t \<and> finished t"
proof -
  obtain n gt where "(table_step ^^ n) (g, s) gt" "table_final gt"
    using hand.reaches_final [OF reachable_inv [OF assms(2,1)]] by blast
  then have "(bet_step g ^^ n) s (snd gt)" "finished (snd gt)"
    by (auto simp: table_run table_final_def split: prod.splits)
  then show ?thesis by (blast intro: relpowp_imp_rtranclp)
qed

theorem hand_can_finish_witness: "\<exists>t. (bet_step nolimit_2p)\<^sup>*\<^sup>* nolimit_start t \<and> finished t"
  by (rule hand_can_finish [OF playable_nolimit_2p reachable_nolimit_start])

section \<open>What one action does\<close>

lemma body_effect:
  assumes wf: "wf_game g" and sh: "shape_state s" and r: "round_no s < numRounds g"
    and p: "p < numPlayers g" and act: "can_act g s p" and body: "doAction_body g a p s = Some s3"
  shows "spent s3 = (case act_type a of a_fold \<Rightarrow> spent s
      | a_call \<Rightarrow> (spent s)[p := min (maxSpent s) (stack g ! p)] | _ \<Rightarrow> (spent s)[p := maxSpent s3])"
    "act_type a = a_raise \<Longrightarrow> maxSpent s3 = (if bettingType g = noLimitBetting then act_size a
       else min (maxSpent s + raiseSize g ! round_no s) (stack g ! p))"
proof -
  obtain s1 s2 v where st: "doAction_record a p s = Some s1" "doAction_apply g a p s1 = Some s2"
    "s3 = s2\<lparr>roundSpent := v\<rparr>" using body_stages [OF body] by metis
  have "round_no s < 4" "p < 256" "p < 10" using r p wf_gameD(2,4) [OF wf] by auto
  note rec = record_stage [OF sh this(1,2) st(1)]
  have "(case act_type a of
      a_fold \<Rightarrow> spent s2 = spent s
    | a_call \<Rightarrow> spent s2 = (spent s)[p := min (maxSpent s) (stack g ! p)]
    | _ \<Rightarrow> spent s2 = (spent s)[p := maxSpent s2] \<and>
        maxSpent s2 = (if bettingType g = noLimitBetting then act_size a
          else min (maxSpent s + raiseSize g ! round_no s) (stack g ! p)))"
  proof (cases "act_type a")
    case a_fold
    then have "doAction_fold p s1 = Some s2" using st(2) by (simp add: doAction_apply_def)
    from fold_stage [OF rec(1) \<open>p < 10\<close> this] show ?thesis using a_fold rec(4) by simp
  next
    case a_call
    then have "doAction_call g p s1 = Some s2" using st(2) by (simp add: doAction_apply_def)
    from call_stage [OF rec(1) wf \<open>p < 10\<close> this] show ?thesis using a_call rec(4,6) by auto
  next
    case a_raise
    then have "doAction_raise g a p s1 = Some s2" using st(2) by (simp add: doAction_apply_def)
    from raise_stage [OF rec(1) wf \<open>p < 10\<close> this] show ?thesis
      using a_raise rec(4,6,8) unfolding raised_def Let_def by (simp split: if_splits)
  next
    case a_invalid
    then show ?thesis using st(2) by (simp add: doAction_apply_def)
  qed
  then show "spent s3 = (case act_type a of a_fold \<Rightarrow> spent s
      | a_call \<Rightarrow> (spent s)[p := min (maxSpent s) (stack g ! p)] | _ \<Rightarrow> (spent s)[p := maxSpent s3])"
    "act_type a = a_raise \<Longrightarrow> maxSpent s3 = (if bettingType g = noLimitBetting then act_size a
       else min (maxSpent s + raiseSize g ! round_no s) (stack g ! p))"
    unfolding st(3) by (simp_all split: ActionType.splits)
qed

text \<open>Everything that holds before the round is closed; the properties below read it off.\<close>

lemma step_stages:
  assumes "playable g" "reachable g s" "isValidAction g s fx a = Some (True, a')"
    "doAction g a' s = Some (s', e)"
  obtains s3 f where "doAction_body g a' (currentPlayer g s) s = Some s3"
    "doAction_end g s3 = Some (s', e)" "moved g s (currentPlayer g s) (act_type a') s3"
    "money_inv g s3" "maxSpent s \<le> maxSpent s3"
    "spent s ! currentPlayer g s \<le> spent s3 ! currentPlayer g s" "seg_inv g s3 f"
    "spent s' = spent s3" "playerFolded s' = playerFolded s3" "maxSpent s' = maxSpent s3"
    "numActions s3 = (numActions s)[round_no s := Suc (numActions s ! round_no s)]"
    "numActions s' = numActions s3" "action s' = action s3" "actingPlayer s' = actingPlayer s3"
proof -
  note f = reachable_facts [OF assms(2,1)]
  note nf = isValidAction_type(1) [OF assms(3)]
  have room: "act_type a' = a_raise \<Longrightarrow> numActions s ! round_no s + numPlayers g \<le> MAX_NUM_ACTIONS"
    using isValidAction_True(1) [OF f(2) assms(3)] .
  obtain s3 f where s3: "doAction_body g a' (currentPlayer g s) s = Some s3"
    "doAction_end g s3 = Some (s', e)" "moved g s (currentPlayer g s) (act_type a') s3"
    "money_inv g s3" "maxSpent s \<le> maxSpent s3"
    "spent s ! currentPlayer g s \<le> spent s3 ! currentPlayer g s" "seg_inv g s3 f"
    "numActions s3 = (numActions s)[round_no s := Suc (numActions s ! round_no s)]"
    using doAction_stages [OF f(1,2) nf assms(4) room] by metis
  have "spent s' = spent s3" "playerFolded s' = playerFolded s3" "maxSpent s' = maxSpent s3"
    "numActions s' = numActions s3" "action s' = action s3" "actingPlayer s' = actingPlayer s3"
    using end_stage [OF s3(2)] by auto
  then show ?thesis using that s3 by blast
qed

text \<open>C9: an accepted action changes the money and the fold flag of the current player only, never takes
  chips back and never lowers the bet; a call puts in the bet or the whole stack, a raise makes the new
  bet, which in no-limit games is the size of the action.
  The game is playable.\<close>

theorem doAction_effect:
  assumes "playable g" "reachable g s" "isValidAction g s fx a = Some (True, a')"
    "doAction g a' s = Some (s', e)" "p = currentPlayer g s"
  shows "(\<forall>x. x \<noteq> p \<longrightarrow> spent s' ! x = spent s ! x \<and> playerFolded s' ! x = playerFolded s ! x) \<and>
    (playerFolded s' ! p \<longleftrightarrow> act_type a' = a_fold) \<and>
    maxSpent s \<le> maxSpent s' \<and> spent s ! p \<le> spent s' ! p \<and>
    spent s' ! p = (case act_type a' of a_fold \<Rightarrow> spent s ! p
      | a_call \<Rightarrow> min (maxSpent s) (stack g ! p) | _ \<Rightarrow> maxSpent s') \<and>
    maxSpent s' = (if act_type a' \<noteq> a_raise then maxSpent s
      else if bettingType g = noLimitBetting then act_size a'
      else min (maxSpent s + raiseSize g ! round_no s) (stack g ! p))"
proof -
  note f = reachable_facts [OF assms(2,1)]
  note nf = isValidAction_type(1) [OF assms(3)]
  obtain s3 h where s3: "doAction_body g a' (currentPlayer g s) s = Some s3"
    "moved g s (currentPlayer g s) (act_type a') s3" "maxSpent s \<le> maxSpent s3"
    "spent s ! currentPlayer g s \<le> spent s3 ! currentPlayer g s"
    and s': "spent s' = spent s3" "playerFolded s' = playerFolded s3" "maxSpent s' = maxSpent s3"
    using step_stages [OF assms(1-4)] by metis
  note cur = turn_inv_current [OF f(1) binvD(6) [OF f(2) nf]]
  note sh = binvD(1,2) [OF f(2)]
  note eff = body_effect [OF f(1) sh cur(1,2) s3(1)]
  have len: "currentPlayer g s < length (spent s)"
    using shape_stateD(1) [OF sh(1)] cur(1) wf_gameD(2) [OF f(1)] by simp
  have "spent s3 ! p = (case act_type a' of a_fold \<Rightarrow> spent s ! p
      | a_call \<Rightarrow> min (maxSpent s) (stack g ! p) | _ \<Rightarrow> maxSpent s3)"
    using eff(1) len by (cases "act_type a'") (auto simp: assms(5))
  then show ?thesis using s3(2-4) eff(2) unfolding s' assms(5) by (auto simp: moved_def)
qed

text \<open>The small blind calls.\<close>

definition call_action :: Action where
  "call_action = \<lparr>act_type = a_call, act_size = 0\<rparr>"

lemma nolimit_call_valid: "isValidAction nolimit_2p nolimit_start False call_action = Some (True, call_action)"
  using call_always_valid [OF nolimit_start_running] by (simp add: call_action_def)

definition nolimit_called :: State where
  "nolimit_called = fst (the (doAction nolimit_2p call_action nolimit_start))"

lemma nolimit_call_done: "doAction nolimit_2p call_action nolimit_start = Some (nolimit_called, False)"
  unfolding nolimit_called_def nolimit_start_def by code_simp

lemma reachable_nolimit_called: "reachable nolimit_2p nolimit_called"
  by (rule reachable.step [OF reachable_nolimit_start bet_step.act [OF nolimit_call_valid nolimit_call_done]])

theorem doAction_effect_witness:
  "maxSpent nolimit_start \<le> maxSpent nolimit_called \<and> \<not> playerFolded nolimit_called ! currentPlayer nolimit_2p nolimit_start"
  using doAction_effect [OF playable_nolimit_2p reachable_nolimit_start nolimit_call_valid nolimit_call_done refl]
  by (simp add: call_action_def)

lemma settled_seg:
  assumes wf: "wf_game g" and seg: "seg_inv g s f" and mo: "money_inv g s"
    and called: "numActingPlayers g s \<le> numCalled g s" and p: "p < numPlayers g" "\<not> playerFolded s ! p"
  shows "spent s ! p = maxSpent s \<or> spent s ! p = stack g ! p"
proof (cases "can_act g s p")
  case True
  have "undecided g s = 0" using numCalled_undecided [OF wf seg] called by simp
  then have "p \<in> answered s" using True p(1) by (auto simp: undecided_def)
  then obtain t where t: "(p, t) \<in> set (since_raise (hist s))" by (auto simp: answered_def)
  then have "t \<noteq> a_fold" using seg p(2) by (auto simp: seg_inv_def turn_ok_def)
  then show ?thesis using seg t by (auto simp: seg_inv_def)
next
  case False
  then have "stack g ! p \<le> spent s ! p" using p(2) by (simp add: can_act_def)
  moreover have "spent s ! p \<le> stack g ! p" using mo p(1) by (simp add: money_inv_def)
  ultimately show ?thesis by simp
qed

text \<open>C10: when \<open>doAction\<close> reports the end of a betting round, either all but one player have folded or
  every player still in the hand has put in the full bet or the whole stack.
  The game is playable.\<close>

theorem round_settled:
  assumes "playable g" "reachable g s" "isValidAction g s fx a = Some (True, a')"
    "doAction g a' s = Some (s', True)"
  shows "numFolded g s' + 1 \<ge> numPlayers g \<or>
    (\<forall>p<numPlayers g. playerFolded s' ! p \<or> spent s' ! p = maxSpent s' \<or> spent s' ! p = stack g ! p)"
proof -
  note wf = reachable_facts(1) [OF assms(2,1)]
  obtain s3 f where s3: "doAction_end g s3 = Some (s', True)" "money_inv g s3" "seg_inv g s3 f"
    and s': "spent s' = spent s3" "playerFolded s' = playerFolded s3" "maxSpent s' = maxSpent s3"
    using step_stages [OF assms] by metis
  have "numFolded g s' = numFolded g s3" using s'(2) by (simp add: numFolded_def)
  moreover have "numFolded g s3 + 1 \<ge> numPlayers g \<or> numCalled g s3 \<ge> numActingPlayers g s3"
    using s3(1) by (auto simp: doAction_end_def split: if_splits)
  ultimately show ?thesis using settled_seg [OF wf s3(3,2)] unfolding s' by auto
qed

definition nolimit_flop :: State where
  "nolimit_flop = fst (the (doAction nolimit_2p call_action nolimit_called))"

lemma nolimit_check_valid: "isValidAction nolimit_2p nolimit_called False call_action = Some (True, call_action)"
  unfolding nolimit_called_def nolimit_start_def by code_simp

lemma nolimit_flop_done: "doAction nolimit_2p call_action nolimit_called = Some (nolimit_flop, True)"
  unfolding nolimit_flop_def nolimit_called_def nolimit_start_def by code_simp

theorem round_settled_witness:
  "numFolded nolimit_2p nolimit_flop + 1 \<ge> numPlayers nolimit_2p \<or>
   (\<forall>p<numPlayers nolimit_2p. playerFolded nolimit_flop ! p \<or> spent nolimit_flop ! p = maxSpent nolimit_flop
      \<or> spent nolimit_flop ! p = stack nolimit_2p ! p)"
  by (rule round_settled [OF playable_nolimit_2p reachable_nolimit_called nolimit_check_valid nolimit_flop_done])

section \<open>Bookkeeping of the rounds\<close>

text \<open>C11: once somebody has acted, the amounts booked for the rounds are not negative, nothing is booked
  for rounds to come, and together they are the current bet.
  The game is playable and the hand began in memory whose \<open>roundSpent\<close> is zero.\<close>

theorem roundSpent_total:
  assumes "playable g" "reachable g s" "numActions s ! 0 \<noteq> 0"
  shows "(\<forall>r<numRounds g. 0 \<le> roundSpent s ! r \<and> (round_no s < r \<longrightarrow> roundSpent s ! r = 0)) \<and>
    (\<Sum>r<numRounds g. roundSpent s ! r) = maxSpent s"
  using reachable_facts(3) [OF assms(2,1)] assms(3) by (simp add: book_inv_def all_roundSpent_def)

theorem roundSpent_total_witness:
  "(\<Sum>r<numRounds nolimit_2p. roundSpent nolimit_called ! r) = maxSpent nolimit_called"
proof -
  have "numActions nolimit_called ! 0 \<noteq> 0" unfolding nolimit_called_def nolimit_start_def by code_simp
  then show ?thesis using roundSpent_total [OF playable_nolimit_2p reachable_nolimit_called] by blast
qed

lemma numRaises_hist:
  assumes "numActions s ! round_no s \<le> 64"
  shows "numRaises s = length (filter (\<lambda>(p, t). t = a_raise) (hist s))"
proof -
  let ?n = "numActions s ! round_no s" and ?P = "\<lambda>i. act_type (action s ! round_no s ! i) = a_raise"
  have "numRaises s = card {i. i < ?n \<and> ?P i}" unfolding numRaises_def using assms by (simp add: count8_card)
  also have "\<dots> = length (filter ?P [0..<?n])"
    by (simp add: length_filter_conv_card cong: conj_cong)
  also have "\<dots> = length (filter (\<lambda>(p, t). t = a_raise) (hist s))"
    by (simp add: hist_def filter_map o_def rev_map [symmetric] rev_filter [symmetric])
  finally show ?thesis .
qed

text \<open>C12: no round sees more raises than the game allows.
  The game is playable.\<close>

theorem raises_limited:
  assumes "playable g" "reachable g s"
  shows "numRaises s \<le> maxRaises g ! round_no s"
  using assms(2)
proof (induction rule: reachable.induct)
  case (start s)
  then obtain hid s0 where "initState g hid s0 = Some s" "shape_state s0" by (auto simp: hand_start_def)
  then have "numActions s ! round_no s = 0"
    using initState_fields(2,7) [of g hid s0 s] wf_gameD(3) [of g] assms(1) by (simp add: playable_def)
  then show ?case by (simp add: numRaises_def count8_card)
next
  case (step s s')
  obtain fx a a' e where v: "isValidAction g s fx a = Some (True, a')" and d: "doAction g a' s = Some (s', e)"
    using step.hyps(2) by (rule bet_stepE)
  obtain s3 f where s3: "doAction_end g s3 = Some (s', e)" "moved g s (currentPlayer g s) (act_type a') s3"
    "seg_inv g s3 f" and s': "action s' = action s3"  "actingPlayer s' = actingPlayer s3" "numActions s' = numActions s3"
      "numActions s3 = (numActions s)[round_no s := Suc (numActions s ! round_no s)]"
    using step_stages [OF assms(1) step.hyps(1) v d] by metis
  note f = reachable_facts [OF step.hyps(1) assms(1)] and f' = reachable_facts [OF reachable.step [OF step.hyps] assms(1)]
  have le: "numActions s ! round_no s \<le> 64" "numActions s3 ! round_no s3 \<le> 64"
    using binvD(4) [OF f(2) binvD(2) [OF f(2)]] s3(3) by (auto simp: seg_inv_def)
  have "numRaises s3 = (if act_type a' = a_raise then 1 else 0) + numRaises s"
    using s3(2) le by (simp add: numRaises_hist moved_def)
  then have here: "numRaises s3 \<le> maxRaises g ! round_no s3"
    using step.IH isValidAction_True(3) [OF f(2) v] s3(2) by (simp add: moved_def split: if_splits)
  show ?case
  proof (cases "round_no s' = round_no s3")
    case True
    then show ?thesis using here s' by (simp add: numRaises_def)
  next
    case False
    then have "round_no s < round_no s'"
      using end_stage [OF s3(1)] s3(2) binvD(2) [OF f(2)] by (auto simp: moved_def)
    then have "numActions s' ! round_no s' = 0"
      using binvD(2) [OF f'(2)] binvD(5) [OF f(2), of "round_no s'"] unfolding s'(3,4) by simp
    then show ?thesis by (simp add: numRaises_def count8_card)
  qed
qed

theorem raises_limited_witness: "numRaises nolimit_called \<le> maxRaises nolimit_2p ! round_no nolimit_called"
  by (rule raises_limited [OF playable_nolimit_2p reachable_nolimit_called])

section \<open>Folding\<close>

text \<open>C13: while a hand runs, the current player may always call and always fold; \<open>isCanFold\<close> differs
  from \<open>isValidAction\<close> in that it refuses to fold to no bet.
  The game is playable.\<close>

theorem fold_call_valid:
  assumes "playable g" "reachable g s" "\<not> finished s"
  shows "isValidAction g s tryFixing \<lparr>act_type = a_call, act_size = z\<rparr> = Some (True, \<lparr>act_type = a_call, act_size = 0\<rparr>) \<and>
    isValidAction g s tryFixing \<lparr>act_type = a_fold, act_size = z\<rparr> = Some (True, \<lparr>act_type = a_fold, act_size = 0\<rparr>) \<and>
    isCanFold g s = Some (spent s ! currentPlayer g s \<noteq> maxSpent s)"
proof -
  note f = reachable_facts [OF assms(2,1)]
  note cur = turn_inv_current [OF f(1) binvD(6) [OF f(2) assms(3)]]
  have "currentPlayer g s < 10" using cur(1) wf_gameD(2) [OF f(1)] by simp
  then have "rd (spent s) (currentPlayer g s) = Some (spent s ! currentPlayer g s)"
    "rd (stack g) (currentPlayer g s) = Some (stack g ! currentPlayer g s)"
    using shape_stateD(1) [OF binvD(1) [OF f(2)]] wf_gameD(5) [OF f(1)] by (simp_all add: rd_def)
  then show ?thesis using cur(2) assms(3) by (simp add: isValidAction_def isCanFold_def can_act_def)
qed

theorem fold_call_valid_witness:
  "isCanFold nolimit_2p nolimit_called = Some False \<and>
   isValidAction nolimit_2p nolimit_called False \<lparr>act_type = a_fold, act_size = 0\<rparr> =
     Some (True, \<lparr>act_type = a_fold, act_size = 0\<rparr>)"
proof -
  have "\<not> finished nolimit_called" "spent nolimit_called ! currentPlayer nolimit_2p nolimit_called = maxSpent nolimit_called"
    unfolding nolimit_called_def nolimit_start_def by code_simp+
  then show ?thesis using fold_call_valid [OF playable_nolimit_2p reachable_nolimit_called] by simp
qed

section \<open>A short stack in a limit game\<close>

definition short_limit :: Game where
  "short_limit = limit_2p\<lparr>stack := [100, 7, 0, 0, 0, 0, 0, 0, 0, 0]\<rparr>"

text \<open>C15: in a limit game whose stacks differ, a raise that \<open>isValidAction\<close> accepts can lower the bet below
  what another player has already put in: the checks of \<open>readGame\<close> admit such a game, and the amount is
  only cut to the stack of the player who raises.\<close>

theorem limit_raise_lowers_bet:
  "game_checked short_limit \<and>
   (\<exists>s s' e. initState short_limit 7 zero_state = Some s \<and>
      isValidAction short_limit s False \<lparr>act_type = a_raise, act_size = 0\<rparr> = Some (True, \<lparr>act_type = a_raise, act_size = 0\<rparr>) \<and>
      doAction short_limit \<lparr>act_type = a_raise, act_size = 0\<rparr> s = Some (s', e) \<and> maxSpent s' < spent s' ! 0)"
proof -
  define s where "s = the (initState short_limit 7 zero_state)"
  define se where "se = the (doAction short_limit \<lparr>act_type = a_raise, act_size = 0\<rparr> s)"
  have "game_checked short_limit" by code_simp
  moreover have "initState short_limit 7 zero_state = Some s" unfolding s_def by code_simp
  moreover have "isValidAction short_limit s False \<lparr>act_type = a_raise, act_size = 0\<rparr> =
      Some (True, \<lparr>act_type = a_raise, act_size = 0\<rparr>)" unfolding s_def by code_simp
  moreover have "doAction short_limit \<lparr>act_type = a_raise, act_size = 0\<rparr> s = Some (fst se, snd se)"
    unfolding se_def s_def by code_simp
  moreover have "maxSpent (fst se) < spent (fst se) ! 0" unfolding se_def s_def by code_simp
  ultimately show ?thesis by blast
qed

end
