(* ===== verification/Gamedef_Props.thy ===== *)
theory Gamedef_Props
  imports Gamedef_Lines Betting_Props
begin

text \<open>
  Game definitions printed with \<open>printGame\<close> and read back with \<open>readGame\<close>.
\<close>

section \<open>Lists of numbers\<close>

text \<open>
  A conversion of \<open>sscanf\<close> and the text of the values it reads: the contract under which \<open>readItems\<close> takes back
  a line of items.
\<close>

locale scanner =
  fixes enc :: "'a \<Rightarrow> string" and conv :: "'a conversion" and ok :: "'a \<Rightarrow> bool"
  assumes conv_enc: "ok x \<Longrightarrow> ends_number rest \<Longrightarrow> conv (enc x @ rest) = Some (Some (x, length (enc x)))"
    and conv_Nil: "conv [] = Some None"
    and enc_front: "ok x \<Longrightarrow> \<exists>c cs. enc x = c # cs \<and> \<not> isspace c \<and> c \<noteq> CHR ''=''"
begin

lemma consume:
  assumes "\<forall>c \<in> set p. isspace c \<or> c = CHR ''=''" "rest = [] \<or> \<not> isspace (hd rest) \<and> hd rest \<noteq> CHR ''=''"
  shows "consumeSpaces (p @ rest) True = length p"
proof -
  let ?P = "\<lambda>c. c \<noteq> NUL \<and> (isspace c \<or> True \<and> c = CHR ''='')"
  have "\<not> isspace NUL" by (simp add: isspace_def)
  then have "\<forall>c \<in> set p. ?P c" using assms(1) by auto
  moreover have "takeWhile ?P rest = []" using assms(2) by (cases rest) auto
  ultimately have "takeWhile ?P (p @ rest) = p" by (simp add: takeWhile_append2)
  then show ?thesis unfolding consumeSpaces_def by simp
qed

lemma read_items:
  assumes "\<forall>x \<in> set xs. ok x" "length xs \<le> n" "\<forall>c \<in> set p. isspace c \<or> c = CHR ''=''"
  shows "\<exists>c. readItems conv n (p @ concat (map (\<lambda>x. CHR '' '' # enc x) xs) @ [CHR 0x0A]) True = Some (xs, c)"
  using assms
proof (induction xs arbitrary: n p)
  case Nil
  have "\<forall>c \<in> set (p @ [CHR 0x0A]). isspace c \<or> c = CHR ''=''" using Nil.prems(3) by (simp add: isspace_def)
  then have "consumeSpaces (p @ [CHR 0x0A]) True = length (p @ [CHR 0x0A])" using consume [of "p @ [CHR 0x0A]" "[]"] by simp
  then show ?case by (cases n) (simp_all add: conv_Nil)
next
  case (Cons x xs)
  then obtain m where m: "n = Suc m" by (cases n) auto
  let ?rest = "concat (map (\<lambda>x. CHR '' '' # enc x) xs) @ [CHR 0x0A]"
  let ?s = "(p @ '' '') @ enc x @ ?rest"
  have x: "ok x" using Cons.prems(1) by simp
  obtain c cs where e: "enc x = c # cs" "\<not> isspace c" "c \<noteq> CHR ''=''" using enc_front [OF x] by blast
  have k: "consumeSpaces ?s True = length (p @ '' '')"
    by (rule consume) (use Cons.prems(3) e in \<open>auto simp: isspace_def\<close>)
  have "ends_number ?rest" by (cases xs) (simp_all add: ends_number_def isdigit_def)
  note cv = conv_enc [OF x this]
  obtain c' where c': "readItems conv m ?rest True = Some (xs, c')" using Cons.IH [of m "[]"] Cons.prems m by auto
  have d1: "drop (length (p @ '' '')) ?s = enc x @ ?rest" by (rule append_eq_conv_conj [THEN iffD1, THEN conjunct2, symmetric]) simp
  have "drop (length (p @ '' '') + length (enc x)) ?s = drop (length (enc x)) (drop (length (p @ '' '')) ?s)"
    by (simp only: drop_drop add.commute)
  then have d2: "drop (length (p @ '' '') + length (enc x)) ?s = ?rest" unfolding d1 by simp
  have "readItems conv n ?s True = Some (x # xs, length (p @ '' '') + length (enc x) + c')"
    unfolding m readItems.simps Let_def k d1 cv using c' d2 by (simp del: drop_append length_append)
  then show ?case by simp
qed

end

lemma dec_front: "\<exists>c cs. dec n = c # cs \<and> \<not> isspace c \<and> c \<noteq> CHR ''=''"
proof -
  obtain c cs where c: "dec n = c # cs" by (cases "dec n") auto
  then have "isdigit c" using dec_digits [of n] by simp
  then show ?thesis using c by (auto simp: isspace_def isdigit_def)
qed

interpretation ints: scanner dec_int sscanf_d32 "\<lambda>i. INT32_MIN \<le> i \<and> i \<le> INT32_MAX"
proof
  show "\<exists>c cs. dec_int i = c # cs \<and> \<not> isspace c \<and> c \<noteq> CHR ''=''" for i
    using dec_front by (auto simp: dec_int_def isspace_def)
qed (auto simp: sscanf_d32_dec_int, auto simp: sscanf_d32_def scan_number_def)

interpretation bytes: scanner dec "sscanf_u 8" "\<lambda>n. n < 256"
proof
  show "n < 256 \<Longrightarrow> ends_number rest \<Longrightarrow> sscanf_u 8 (dec n @ rest) = Some (Some (n, length (dec n)))" for n rest
    using sscanf_u_dec [of n 8 rest] by simp
  show "\<exists>c cs. dec n = c # cs \<and> \<not> isspace c \<and> c \<noteq> CHR ''=''" for n by (rule dec_front)
qed (simp add: sscanf_u_def scan_number_def)

lemma items_text:
  "\<forall>x \<in> set xs. INT32_MIN \<le> x \<and> x \<le> INT32_MAX \<Longrightarrow> length xs \<le> n \<Longrightarrow>
     \<exists>c. items32 n ('' ='' @ concat (map (\<lambda>x. CHR '' '' # dec_int x) xs) @ [CHR 0x0A]) = Some (xs, c)"
  "\<forall>y \<in> set ys. y < 256 \<Longrightarrow> length ys \<le> n \<Longrightarrow>
     \<exists>c. items8 n ('' ='' @ concat (map (\<lambda>y. CHR '' '' # dec y) ys) @ [CHR 0x0A]) = Some (ys, c)"
  by (rule ints.read_items bytes.read_items; auto simp: isspace_def)+

section \<open>Lines\<close>

lemma dec_int_chars: "c \<in> set (dec_int i) \<Longrightarrow> isdigit c \<or> c = CHR ''-''"
  using dec_digits by (auto simp: dec_int_def split: if_splits)

lemma no_newline: "CHR 0x0A \<notin> set (dec n)" "CHR 0x0A \<notin> set (dec_int i)"
  using dec_digits [of n] dec_int_chars [of "CHR 0x0A" i] by (auto simp: isdigit_def)

lemma fgets_line:
  assumes "CHR 0x0A \<notin> set l" "length l < 4095"
  shows "fgets MAX_LINE_LEN (l @ [CHR 0x0A] @ rest) = Some (l @ [CHR 0x0A], rest)"
proof -
  have "takeWhile (\<lambda>c. c \<noteq> CHR 0x0A) (l @ [CHR 0x0A] @ rest) = l" using assms(1) by (induction l) auto
  then show ?thesis using assms(2) unfolding fgets_def Let_def by simp
qed

lemma read_lines_line:
  assumes "CHR 0x0A \<notin> set l" "length l < 4095" "l \<noteq> []" "hd l \<noteq> CHR ''#''" "\<not> strncasecmp_eq (l @ [CHR 0x0A]) ''end gamedef''"
    "read_line (l @ [CHR 0x0A]) x = Some y"
  shows "read_lines (l @ [CHR 0x0A] @ rest) x = read_lines rest y"
proof -
  have "char_at (l @ [CHR 0x0A]) 0 = hd l" "hd l \<noteq> CHR 0x0A" using assms(1,3) by (cases l; auto)+
  then show ?thesis using fgets_line [OF assms(1,2)] assms(4-6) by (subst read_lines.simps) simp
qed

lemma item_line_facts:
  assumes "\<forall>x \<in> set xs. CHR 0x0A \<notin> set x \<and> length x \<le> 11" "length xs \<le> 10" "CHR 0x0A \<notin> set kw" "length kw \<le> 20"
  shows "\<exists>l. item_line kw xs = l @ [CHR 0x0A] \<and> l = kw @ '' ='' @ concat (map (\<lambda>x. CHR '' '' # x) xs) \<and>
    CHR 0x0A \<notin> set l \<and> length l < 4095"
proof -
  have "length (concat (map (\<lambda>x. CHR '' '' # x) xs)) \<le> 12 * length xs"
    using assms(1) by (induction xs) auto
  then show ?thesis using assms by (auto simp: item_line_def)
qed

text \<open>Every printed keyword against every keyword the reader looks for.\<close>

lemma tolower_facts:
  "tolower CHR ''E'' = CHR ''e''" "tolower CHR ''N'' = CHR ''n''" "tolower CHR ''D'' = CHR ''d''" "tolower CHR ''G'' = CHR ''g''"
  "tolower CHR ''A'' = CHR ''a''" "tolower CHR ''M'' = CHR ''m''" "tolower CHR ''F'' = CHR ''f''" "tolower CHR ''P'' = CHR ''p''"
  "tolower CHR ''R'' = CHR ''r''" "tolower CHR ''S'' = CHR ''s''" "tolower CHR ''H'' = CHR ''h''" "tolower CHR ''C'' = CHR ''c''"
  "tolower CHR ''B'' = CHR ''b''"
  by code_simp+

lemmas keyword_simps = strncasecmp_eq_def tolower_facts tolower_low

lemma keyword_gamedef: "strncasecmp_eq (''GAMEDEF'' @ t) ''gamedef''" "\<not> strncasecmp_eq (''GAMEDEF'' @ t) ''end gamedef''"
  by (simp_all add: keyword_simps)

lemma read_line_scalar:
  assumes "n < 256"
  shows "read_line (item_line ''numPlayers'' [dec n]) x = Some (x\<lparr>rd_game := (rd_game x)\<lparr>numPlayers := n\<rparr>\<rparr>)"
    "read_line (item_line ''numRounds'' [dec n]) x = Some (x\<lparr>rd_game := (rd_game x)\<lparr>numRounds := n\<rparr>\<rparr>)"
    "read_line (item_line ''numSuits'' [dec n]) x = Some (x\<lparr>rd_game := (rd_game x)\<lparr>numSuits := n\<rparr>\<rparr>)"
    "read_line (item_line ''numRanks'' [dec n]) x = Some (x\<lparr>rd_game := (rd_game x)\<lparr>numRanks := n\<rparr>\<rparr>)"
    "read_line (item_line ''numHoleCards'' [dec n]) x = Some (x\<lparr>rd_game := (rd_game x)\<lparr>numHoleCards := n\<rparr>\<rparr>)"
proof -
  obtain c where c: "items8 1 ('' ='' @ (CHR '' '' # dec n) @ [CHR 0x0A]) = Some ([n], c)"
    using items_text(2) [of "[n]" 1] assms by auto
  show "read_line (item_line ''numPlayers'' [dec n]) x = Some (x\<lparr>rd_game := (rd_game x)\<lparr>numPlayers := n\<rparr>\<rparr>)"
    "read_line (item_line ''numRounds'' [dec n]) x = Some (x\<lparr>rd_game := (rd_game x)\<lparr>numRounds := n\<rparr>\<rparr>)"
    "read_line (item_line ''numSuits'' [dec n]) x = Some (x\<lparr>rd_game := (rd_game x)\<lparr>numSuits := n\<rparr>\<rparr>)"
    "read_line (item_line ''numRanks'' [dec n]) x = Some (x\<lparr>rd_game := (rd_game x)\<lparr>numRanks := n\<rparr>\<rparr>)"
    "read_line (item_line ''numHoleCards'' [dec n]) x = Some (x\<lparr>rd_game := (rd_game x)\<lparr>numHoleCards := n\<rparr>\<rparr>)"
    unfolding read_line_def item_line_def using c
    by (simp_all add: keyword_simps Let_def store_item_def del: readItems.simps)
qed

lemma read_line_ints:
  assumes "\<forall>v \<in> set vs. INT32_MIN \<le> v \<and> v \<le> INT32_MAX" "length vs \<le> 10"
  shows "read_line (item_line ''stack'' (map dec_int vs)) x = do { st \<leftarrow> store_items vs (stack (rd_game x));
      Some (x\<lparr>rd_game := (rd_game x)\<lparr>stack := st\<rparr>, stackRead := length vs\<rparr>) }"
    "read_line (item_line ''blind'' (map dec_int vs)) x = do { st \<leftarrow> store_items vs (blind (rd_game x));
      Some (x\<lparr>rd_game := (rd_game x)\<lparr>blind := st\<rparr>, blindRead := length vs\<rparr>) }"
    "read_line (item_line ''raiseSize'' (map dec_int vs)) x = do { st \<leftarrow> store_items vs (raiseSize (rd_game x));
      Some (x\<lparr>rd_game := (rd_game x)\<lparr>raiseSize := st\<rparr>, raiseSizeRead := length vs\<rparr>) }"
proof -
  obtain c where c: "items32 10 ('' ='' @ concat (map ((\<lambda>x. CHR '' '' # x) \<circ> dec_int) vs) @ [CHR 0x0A]) = Some (vs, c)"
    using items_text(1) [OF assms] by (auto simp: comp_def)
  show "read_line (item_line ''stack'' (map dec_int vs)) x = do { st \<leftarrow> store_items vs (stack (rd_game x));
      Some (x\<lparr>rd_game := (rd_game x)\<lparr>stack := st\<rparr>, stackRead := length vs\<rparr>) }"
    "read_line (item_line ''blind'' (map dec_int vs)) x = do { st \<leftarrow> store_items vs (blind (rd_game x));
      Some (x\<lparr>rd_game := (rd_game x)\<lparr>blind := st\<rparr>, blindRead := length vs\<rparr>) }"
    "read_line (item_line ''raiseSize'' (map dec_int vs)) x = do { st \<leftarrow> store_items vs (raiseSize (rd_game x));
      Some (x\<lparr>rd_game := (rd_game x)\<lparr>raiseSize := st\<rparr>, raiseSizeRead := length vs\<rparr>) }"
    unfolding read_line_def item_line_def using c
    by (simp_all add: keyword_simps Let_def del: readItems.simps)
qed

lemma read_line_bytes:
  assumes "\<forall>v \<in> set vs. v < 256" "length vs \<le> 4"
  shows "read_line (item_line ''firstPlayer'' (map dec vs)) x = do { st \<leftarrow> store_items vs (firstPlayer (rd_game x));
      Some (x\<lparr>rd_game := (rd_game x)\<lparr>firstPlayer := st\<rparr>\<rparr>) }"
    "read_line (item_line ''maxRaises'' (map dec vs)) x = do { st \<leftarrow> store_items vs (maxRaises (rd_game x));
      Some (x\<lparr>rd_game := (rd_game x)\<lparr>maxRaises := st\<rparr>\<rparr>) }"
    "read_line (item_line ''numBoardCards'' (map dec vs)) x = do { st \<leftarrow> store_items vs (numBoardCards (rd_game x));
      Some (x\<lparr>rd_game := (rd_game x)\<lparr>numBoardCards := st\<rparr>, boardCardsRead := length vs\<rparr>) }"
proof -
  obtain c where c: "items8 4 ('' ='' @ concat (map ((\<lambda>x. CHR '' '' # x) \<circ> dec) vs) @ [CHR 0x0A]) = Some (vs, c)"
    using items_text(2) [OF assms] by (auto simp: comp_def)
  show "read_line (item_line ''firstPlayer'' (map dec vs)) x = do { st \<leftarrow> store_items vs (firstPlayer (rd_game x));
      Some (x\<lparr>rd_game := (rd_game x)\<lparr>firstPlayer := st\<rparr>\<rparr>) }"
    "read_line (item_line ''maxRaises'' (map dec vs)) x = do { st \<leftarrow> store_items vs (maxRaises (rd_game x));
      Some (x\<lparr>rd_game := (rd_game x)\<lparr>maxRaises := st\<rparr>\<rparr>) }"
    "read_line (item_line ''numBoardCards'' (map dec vs)) x = do { st \<leftarrow> store_items vs (numBoardCards (rd_game x));
      Some (x\<lparr>rd_game := (rd_game x)\<lparr>numBoardCards := st\<rparr>, boardCardsRead := length vs\<rparr>) }"
    unfolding read_line_def item_line_def using c
    by (simp_all add: keyword_simps Let_def del: readItems.simps)
qed

text \<open>A piece of a file that takes the reader from one state to another.\<close>

definition line_reads :: "string \<Rightarrow> reader \<Rightarrow> reader \<Rightarrow> bool" where
  "line_reads l x y \<longleftrightarrow> (\<forall>rest. read_lines (l @ rest) x = read_lines rest y)"

lemma line_reads_append: "line_reads l x y \<Longrightarrow> line_reads l' y z \<Longrightarrow> line_reads (l @ l') x z"
  by (simp add: line_reads_def)

lemma item_line_reads:
  assumes "\<forall>v \<in> set xs. CHR 0x0A \<notin> set v \<and> length v \<le> 11" "length xs \<le> 10"
    and "kw \<in> {''numPlayers'', ''numRounds'', ''stack'', ''blind'', ''raiseSize'', ''firstPlayer'', ''maxRaises'',
      ''numSuits'', ''numRanks'', ''numHoleCards'', ''numBoardCards''}"
    and "read_line (item_line kw xs) x = Some y"
  shows "line_reads (item_line kw xs) x y"
proof -
  have kw: "CHR 0x0A \<notin> set kw" "length kw \<le> 20" "kw \<noteq> []" "hd kw \<noteq> CHR ''#''" "\<not> strncasecmp_eq (kw @ t) ''end gamedef''" for t
    using assms(3) by (auto simp: keyword_simps)
  obtain l where l: "item_line kw xs = l @ [CHR 0x0A]" "l = kw @ '' ='' @ concat (map (\<lambda>x. CHR '' '' # x) xs)"
    "CHR 0x0A \<notin> set l" "length l < 4095"
    using item_line_facts [OF assms(1,2) kw(1,2)] by blast
  have "read_lines (l @ [CHR 0x0A] @ rest) x = read_lines rest y" for rest
    using kw(3-5) l assms(4) by (intro read_lines_line) (auto simp: hd_append)
  then show ?thesis by (simp add: line_reads_def l(1))
qed

section \<open>Games survive the trip\<close>

text \<open>The parts of a game definition that are in use.\<close>

definition same_game :: "Game \<Rightarrow> Game \<Rightarrow> bool" where
  "same_game g h \<longleftrightarrow>
     bettingType g = bettingType h \<and> numPlayers g = numPlayers h \<and> numRounds g = numRounds h \<and>
     numSuits g = numSuits h \<and> numRanks g = numRanks h \<and> numHoleCards g = numHoleCards h \<and>
     (\<forall>p<numPlayers g. stack g ! p = stack h ! p \<and> blind g ! p = blind h ! p) \<and>
     (\<forall>r<numRounds g. firstPlayer g ! r = firstPlayer h ! r \<and> maxRaises g ! r = maxRaises h ! r \<and>
        numBoardCards g ! r = numBoardCards h ! r \<and>
        (bettingType g = limitBetting \<longrightarrow> raiseSize g ! r = raiseSize h ! r))"

text \<open>Values inside the widths of the fields.\<close>

definition fields_fit :: "Game \<Rightarrow> bool" where
  "fields_fit g \<longleftrightarrow>
     (\<forall>p<numPlayers g. INT32_MIN \<le> stack g ! p \<and> stack g ! p \<le> INT32_MAX \<and>
        INT32_MIN \<le> blind g ! p \<and> blind g ! p \<le> INT32_MAX) \<and>
     (\<forall>r<numRounds g. INT32_MIN \<le> raiseSize g ! r \<and> raiseSize g ! r \<le> INT32_MAX \<and>
        maxRaises g ! r < 256 \<and> numBoardCards g ! r < 256)"

definition front :: "nat \<Rightarrow> 'a list \<Rightarrow> 'a list \<Rightarrow> 'a list" where
  "front n xs ys = map (\<lambda>i. xs ! i) [0..<n] @ drop n ys"

lemma store_front: "n \<le> length ys \<Longrightarrow> store_items (map (\<lambda>i. xs ! i) [0..<n]) ys = Some (front n xs ys)"
  by (simp add: store_items_def front_def)

lemma front_nth: "i < n \<Longrightarrow> front n xs ys ! i = xs ! i"
  by (simp add: front_def nth_append)

lemma length_front: "n \<le> length ys \<Longrightarrow> length (front n xs ys) = length ys"
  by (simp add: front_def)

definition some_stack :: "Game \<Rightarrow> bool" where
  "some_stack g \<longleftrightarrow> (\<exists>i \<in> set [0..<numPlayers g]. stack g ! i < INT32_MAX)"

definition last_reader :: "Game \<Rightarrow> reader" where
  "last_reader g =
     (let x = rd_game reader_init; N = numPlayers g; R = numRounds g in
      \<lparr>rd_game = \<lparr>stack = (if some_stack g then front N (stack g) (stack x) else stack x), blind = front N (blind g) (blind x),
         raiseSize = (if bettingType g = limitBetting then front R (raiseSize g) (raiseSize x) else raiseSize x),
         bettingType = bettingType g, numPlayers = N, numRounds = R,
         firstPlayer = (if \<exists>i \<in> set [0..<R]. firstPlayer g ! i \<noteq> 0
           then front R (map (\<lambda>i. firstPlayer g ! i + 1) [0..<R]) (firstPlayer x) else firstPlayer x),
         maxRaises = (if \<exists>i \<in> set [0..<R]. maxRaises g ! i \<noteq> 255 then front R (maxRaises g) (maxRaises x) else maxRaises x),
         numSuits = numSuits g, numRanks = numRanks g, numHoleCards = numHoleCards g,
         numBoardCards = front R (numBoardCards g) (numBoardCards x)\<rparr>,
       stackRead = (if some_stack g then N else 4), blindRead = N,
       raiseSizeRead = (if bettingType g = limitBetting then R else 0), boardCardsRead = R\<rparr>)"

lemma plain_lines:
  "line_reads (''GAMEDEF'' @ [CHR 0x0A]) x x"
  "line_reads ((if b then ''nolimit'' else ''limit'') @ [CHR 0x0A]) x
     (x\<lparr>rd_game := (rd_game x)\<lparr>bettingType := (if b then noLimitBetting else limitBetting)\<rparr>\<rparr>)"
  "read_lines (''END GAMEDEF'' @ [CHR 0x0A] @ rest) x = Some x"
proof -
  show "line_reads (''GAMEDEF'' @ [CHR 0x0A]) x x"
    unfolding line_reads_def append.assoc
    by (intro allI read_lines_line) (simp_all add: keyword_simps read_line_def Let_def)
  show "line_reads ((if b then ''nolimit'' else ''limit'') @ [CHR 0x0A]) x
     (x\<lparr>rd_game := (rd_game x)\<lparr>bettingType := (if b then noLimitBetting else limitBetting)\<rparr>\<rparr>)"
    unfolding line_reads_def append.assoc
    by (intro allI read_lines_line) (cases b; simp add: keyword_simps read_line_def Let_def)+
  show "read_lines (''END GAMEDEF'' @ [CHR 0x0A] @ rest) x = Some x"
    using fgets_line [of "''END GAMEDEF''" rest] by (subst read_lines.simps) (simp add: keyword_simps)
qed

lemma scalar_line:
  assumes "n < 256"
  shows "line_reads (item_line ''numPlayers'' [dec n]) x (x\<lparr>rd_game := (rd_game x)\<lparr>numPlayers := n\<rparr>\<rparr>)"
    "line_reads (item_line ''numRounds'' [dec n]) x (x\<lparr>rd_game := (rd_game x)\<lparr>numRounds := n\<rparr>\<rparr>)"
    "line_reads (item_line ''numSuits'' [dec n]) x (x\<lparr>rd_game := (rd_game x)\<lparr>numSuits := n\<rparr>\<rparr>)"
    "line_reads (item_line ''numRanks'' [dec n]) x (x\<lparr>rd_game := (rd_game x)\<lparr>numRanks := n\<rparr>\<rparr>)"
    "line_reads (item_line ''numHoleCards'' [dec n]) x (x\<lparr>rd_game := (rd_game x)\<lparr>numHoleCards := n\<rparr>\<rparr>)"
  using assms length_dec [of n 3] by (intro item_line_reads; simp add: read_line_scalar no_newline)+

lemma int_line:
  assumes "\<forall>i<n. INT32_MIN \<le> v ! i \<and> v ! i \<le> INT32_MAX" "n \<le> 10"
  shows "length (stack (rd_game x)) = 10 \<Longrightarrow> line_reads (item_line ''stack'' (map (\<lambda>i. dec_int (v ! i)) [0..<n])) x
      (x\<lparr>rd_game := (rd_game x)\<lparr>stack := front n v (stack (rd_game x))\<rparr>, stackRead := n\<rparr>)"
    "length (blind (rd_game x)) = 10 \<Longrightarrow> line_reads (item_line ''blind'' (map (\<lambda>i. dec_int (v ! i)) [0..<n])) x
      (x\<lparr>rd_game := (rd_game x)\<lparr>blind := front n v (blind (rd_game x))\<rparr>, blindRead := n\<rparr>)"
    "n \<le> length (raiseSize (rd_game x)) \<Longrightarrow> line_reads (item_line ''raiseSize'' (map (\<lambda>i. dec_int (v ! i)) [0..<n])) x
      (x\<lparr>rd_game := (rd_game x)\<lparr>raiseSize := front n v (raiseSize (rd_game x))\<rparr>, raiseSizeRead := n\<rparr>)"
proof -
  let ?vs = "map (\<lambda>i. v ! i) [0..<n]"
  have vs: "\<forall>v \<in> set ?vs. INT32_MIN \<le> v \<and> v \<le> INT32_MAX" "length ?vs \<le> 10" using assms by auto
  have m: "map (\<lambda>i. dec_int (v ! i)) [0..<n] = map dec_int ?vs" by simp
  have t: "\<forall>s \<in> set (map dec_int ?vs). CHR 0x0A \<notin> set s \<and> length s \<le> 11" "length (map dec_int ?vs) \<le> 10"
    using assms length_dec_int no_newline(2) by auto
  note rl = read_line_ints [OF vs]
  show "length (stack (rd_game x)) = 10 \<Longrightarrow> line_reads (item_line ''stack'' (map (\<lambda>i. dec_int (v ! i)) [0..<n])) x
      (x\<lparr>rd_game := (rd_game x)\<lparr>stack := front n v (stack (rd_game x))\<rparr>, stackRead := n\<rparr>)"
    unfolding m by (rule item_line_reads [OF t]) (simp_all add: rl store_front assms(2) del: map_map)
  show "length (blind (rd_game x)) = 10 \<Longrightarrow> line_reads (item_line ''blind'' (map (\<lambda>i. dec_int (v ! i)) [0..<n])) x
      (x\<lparr>rd_game := (rd_game x)\<lparr>blind := front n v (blind (rd_game x))\<rparr>, blindRead := n\<rparr>)"
    unfolding m by (rule item_line_reads [OF t]) (simp_all add: rl store_front assms(2) del: map_map)
  show "n \<le> length (raiseSize (rd_game x)) \<Longrightarrow> line_reads (item_line ''raiseSize'' (map (\<lambda>i. dec_int (v ! i)) [0..<n])) x
      (x\<lparr>rd_game := (rd_game x)\<lparr>raiseSize := front n v (raiseSize (rd_game x))\<rparr>, raiseSizeRead := n\<rparr>)"
    unfolding m by (rule item_line_reads [OF t]) (simp_all add: rl store_front assms(2) del: map_map)
qed

lemma byte_line:
  assumes "\<forall>i<n. v ! i < 256" "n \<le> 4"
  shows "length (firstPlayer (rd_game x)) = 4 \<Longrightarrow> line_reads (item_line ''firstPlayer'' (map (\<lambda>i. dec (v ! i)) [0..<n])) x
      (x\<lparr>rd_game := (rd_game x)\<lparr>firstPlayer := front n v (firstPlayer (rd_game x))\<rparr>\<rparr>)"
    "length (maxRaises (rd_game x)) = 4 \<Longrightarrow> line_reads (item_line ''maxRaises'' (map (\<lambda>i. dec (v ! i)) [0..<n])) x
      (x\<lparr>rd_game := (rd_game x)\<lparr>maxRaises := front n v (maxRaises (rd_game x))\<rparr>\<rparr>)"
    "length (numBoardCards (rd_game x)) = 4 \<Longrightarrow> line_reads (item_line ''numBoardCards'' (map (\<lambda>i. dec (v ! i)) [0..<n])) x
      (x\<lparr>rd_game := (rd_game x)\<lparr>numBoardCards := front n v (numBoardCards (rd_game x))\<rparr>, boardCardsRead := n\<rparr>)"
proof -
  let ?vs = "map (\<lambda>i. v ! i) [0..<n]"
  have vs: "\<forall>v \<in> set ?vs. v < 256" "length ?vs \<le> 4" using assms by auto
  have m: "map (\<lambda>i. dec (v ! i)) [0..<n] = map dec ?vs" by simp
  have l: "i < n \<Longrightarrow> length (dec (v ! i)) \<le> 11" for i using assms(1) length_dec [of "v ! i" 11] by fastforce
  have t: "\<forall>s \<in> set (map dec ?vs). CHR 0x0A \<notin> set s \<and> length s \<le> 11" "length (map dec ?vs) \<le> 10"
    using assms(2) l no_newline(1) by auto
  note rl = read_line_bytes [OF vs]
  show "length (firstPlayer (rd_game x)) = 4 \<Longrightarrow> line_reads (item_line ''firstPlayer'' (map (\<lambda>i. dec (v ! i)) [0..<n])) x
      (x\<lparr>rd_game := (rd_game x)\<lparr>firstPlayer := front n v (firstPlayer (rd_game x))\<rparr>\<rparr>)"
    unfolding m by (rule item_line_reads [OF t]) (simp_all add: rl store_front assms(2) del: map_map)
  show "length (maxRaises (rd_game x)) = 4 \<Longrightarrow> line_reads (item_line ''maxRaises'' (map (\<lambda>i. dec (v ! i)) [0..<n])) x
      (x\<lparr>rd_game := (rd_game x)\<lparr>maxRaises := front n v (maxRaises (rd_game x))\<rparr>\<rparr>)"
    unfolding m by (rule item_line_reads [OF t]) (simp_all add: rl store_front assms(2) del: map_map)
  show "length (numBoardCards (rd_game x)) = 4 \<Longrightarrow> line_reads (item_line ''numBoardCards'' (map (\<lambda>i. dec (v ! i)) [0..<n])) x
      (x\<lparr>rd_game := (rd_game x)\<lparr>numBoardCards := front n v (numBoardCards (rd_game x))\<rparr>, boardCardsRead := n\<rparr>)"
    unfolding m by (rule item_line_reads [OF t]) (simp_all add: rl store_front assms(2) del: map_map)
qed

lemma optional_line: "(b \<Longrightarrow> line_reads l x y) \<Longrightarrow> line_reads (if b then l else []) x (if b then y else x)"
  by (simp add: line_reads_def)

lemma read_printed:
  assumes sh: "shape_game g" and ck: "game_checked g" and fit: "fields_fit g"
  shows "read_lines (printGame g @ rest) reader_init = Some (last_reader g)"
proof -
  let ?N = "numPlayers g" and ?R = "numRounds g" and ?G = "rd_game reader_init"
  have b: "?N \<le> 10" "?R \<le> 4" "?N < 256" "?R < 256" "numSuits g < 256" "numRanks g < 256" "numHoleCards g < 256"
    using ck by (auto simp: game_checked_def)
  have len: "length (stack ?G) = 10" "length (blind ?G) = 10" "length (raiseSize ?G) = 4" "length (firstPlayer ?G) = 4"
    "length (maxRaises ?G) = 4" "length (numBoardCards ?G) = 4"
    by (simp_all add: reader_init_def)
  have ints: "\<forall>i<?N. INT32_MIN \<le> stack g ! i \<and> stack g ! i \<le> INT32_MAX" "\<forall>i<?N. INT32_MIN \<le> blind g ! i \<and> blind g ! i \<le> INT32_MAX"
    "\<forall>i<?R. INT32_MIN \<le> raiseSize g ! i \<and> raiseSize g ! i \<le> INT32_MAX" "?R \<le> 10"
    using fit b(2) by (auto simp: fields_fit_def)
  let ?fp = "map (\<lambda>i. firstPlayer g ! i + 1) [0..<?R]"
  have bytes: "\<forall>i<?R. maxRaises g ! i < 256" "\<forall>i<?R. numBoardCards g ! i < 256" "\<forall>i<?R. ?fp ! i < 256"
    using fit ck b(1) by (auto simp: fields_fit_def game_checked_def)
  have fpl: "map (\<lambda>i. dec (firstPlayer g ! i + 1)) [0..<?R] = map (\<lambda>i. dec (?fp ! i)) [0..<?R]" by simp
  define x1 where "x1 = reader_init\<lparr>rd_game := ?G\<lparr>bettingType := (if bettingType g = noLimitBetting then noLimitBetting else limitBetting)\<rparr>\<rparr>"
  define x2 where "x2 = x1\<lparr>rd_game := (rd_game x1)\<lparr>numPlayers := ?N\<rparr>\<rparr>"
  define x3 where "x3 = x2\<lparr>rd_game := (rd_game x2)\<lparr>numRounds := ?R\<rparr>\<rparr>"
  define x4 where "x4 = (if some_stack g then x3\<lparr>rd_game := (rd_game x3)\<lparr>stack := front ?N (stack g) (stack (rd_game x3))\<rparr>, stackRead := ?N\<rparr> else x3)"
  define x5 where "x5 = x4\<lparr>rd_game := (rd_game x4)\<lparr>blind := front ?N (blind g) (blind (rd_game x4))\<rparr>, blindRead := ?N\<rparr>"
  define x6 where "x6 = (if bettingType g = limitBetting then x5\<lparr>rd_game := (rd_game x5)\<lparr>raiseSize := front ?R (raiseSize g) (raiseSize (rd_game x5))\<rparr>, raiseSizeRead := ?R\<rparr> else x5)"
  define x7 where "x7 = (if \<exists>i \<in> set [0..<?R]. firstPlayer g ! i \<noteq> 0 then x6\<lparr>rd_game := (rd_game x6)\<lparr>firstPlayer := front ?R ?fp (firstPlayer (rd_game x6))\<rparr>\<rparr> else x6)"
  define x8 where "x8 = (if \<exists>i \<in> set [0..<?R]. maxRaises g ! i \<noteq> 255 then x7\<lparr>rd_game := (rd_game x7)\<lparr>maxRaises := front ?R (maxRaises g) (maxRaises (rd_game x7))\<rparr>\<rparr> else x7)"
  define x9 where "x9 = x8\<lparr>rd_game := (rd_game x8)\<lparr>numSuits := numSuits g\<rparr>\<rparr>"
  define x10 where "x10 = x9\<lparr>rd_game := (rd_game x9)\<lparr>numRanks := numRanks g\<rparr>\<rparr>"
  define x11 where "x11 = x10\<lparr>rd_game := (rd_game x10)\<lparr>numHoleCards := numHoleCards g\<rparr>\<rparr>"
  define x12 where "x12 = x11\<lparr>rd_game := (rd_game x11)\<lparr>numBoardCards := front ?R (numBoardCards g) (numBoardCards (rd_game x11))\<rparr>, boardCardsRead := ?R\<rparr>"
  note xs = x1_def x2_def x3_def x4_def x5_def x6_def x7_def x8_def x9_def x10_def x11_def x12_def
  have l2: "line_reads (item_line ''numPlayers'' [dec ?N]) x1 x2" unfolding x2_def using b by (intro scalar_line)
  have l3: "line_reads (item_line ''numRounds'' [dec ?R]) x2 x3" unfolding x3_def using b by (intro scalar_line)
  have l4: "line_reads (if some_stack g then item_line ''stack'' (map (\<lambda>i. dec_int (stack g ! i)) [0..<?N]) else []) x3 x4"
    unfolding x4_def by (intro optional_line int_line ints b) (simp add: xs len)
  have l5: "line_reads (item_line ''blind'' (map (\<lambda>i. dec_int (blind g ! i)) [0..<?N])) x4 x5"
    unfolding x5_def by (intro int_line ints b) (simp add: xs len)
  have l6: "line_reads (if bettingType g = limitBetting then item_line ''raiseSize'' (map (\<lambda>i. dec_int (raiseSize g ! i)) [0..<?R]) else []) x5 x6"
    unfolding x6_def by (intro optional_line int_line ints b) (simp add: xs len b)
  have l7: "line_reads (if \<exists>i \<in> set [0..<?R]. firstPlayer g ! i \<noteq> 0 then item_line ''firstPlayer'' (map (\<lambda>i. dec (firstPlayer g ! i + 1)) [0..<?R]) else []) x6 x7"
    unfolding x7_def fpl by (intro optional_line byte_line bytes b) (simp add: xs len)
  have l8: "line_reads (if \<exists>i \<in> set [0..<?R]. maxRaises g ! i \<noteq> 255 then item_line ''maxRaises'' (map (\<lambda>i. dec (maxRaises g ! i)) [0..<?R]) else []) x7 x8"
    unfolding x8_def by (intro optional_line byte_line bytes b) (simp add: xs len)
  have l9: "line_reads (item_line ''numSuits'' [dec (numSuits g)]) x8 x9" unfolding x9_def using b by (intro scalar_line)
  have l10: "line_reads (item_line ''numRanks'' [dec (numRanks g)]) x9 x10" unfolding x10_def using b by (intro scalar_line)
  have l11: "line_reads (item_line ''numHoleCards'' [dec (numHoleCards g)]) x10 x11" unfolding x11_def using b by (intro scalar_line)
  have l12: "line_reads (item_line ''numBoardCards'' (map (\<lambda>i. dec (numBoardCards g ! i)) [0..<?R])) x11 x12"
    unfolding x12_def by (intro byte_line bytes b) (simp add: xs len)
  have "read_lines (printGame g @ rest) reader_init = Some x12"
    using plain_lines(1) [of reader_init] plain_lines(2) [of "bettingType g = noLimitBetting" reader_init]
      l2 l3 l4 l5 l6 l7 l8 l9 l10 l11 l12 plain_lines(3) [of rest x12]
    unfolding printGame_def line_reads_def append.assoc x1_def [symmetric] some_stack_def by simp
  moreover have "x12 = last_reader g"
    by (cases "bettingType g") (simp_all add: xs last_reader_def Let_def reader_init_def)
  ultimately show ?thesis by simp
qed

lemma first_players_ok:
  "distinct cs \<Longrightarrow> \<forall>c \<in> set cs. 0 < firstPlayer g ! c \<and> firstPlayer g ! c \<le> numPlayers g \<Longrightarrow>
    \<exists>g'. first_players cs g = Inr g'"
proof (induction cs arbitrary: g)
  case (Cons c cs)
  have "\<forall>d \<in> set cs. (firstPlayer g)[c := firstPlayer g ! c - 1] ! d = firstPlayer g ! d"
    using Cons.prems(1) by (auto simp: nth_list_update_neq [of c] ) (metis nth_list_update_neq)
  then show ?case using Cons.IH [of "g\<lparr>firstPlayer := (firstPlayer g)[c := firstPlayer g ! c - 1]\<rparr>"] Cons.prems by simp
qed simp

lemma last_reader_game:
  assumes "shape_game g" "game_checked g" "fields_fit g" "4 < numPlayers g \<Longrightarrow> some_stack g"
  shows "\<exists>fp. rd_game (last_reader g) = (rd_game (last_reader g))\<lparr>firstPlayer := fp\<rparr> \<and> length fp = 4 \<and>
      (\<forall>r<numRounds g. fp ! r = firstPlayer g ! r + 1) \<and>
      same_game g ((rd_game (last_reader g))\<lparr>firstPlayer := firstPlayer g\<rparr>) \<and> numPlayers g \<le> stackRead (last_reader g)"
proof -
  let ?h = "rd_game (last_reader g)"
  have b: "numPlayers g \<le> 10" "numRounds g \<le> 4" using assms(2) by (auto simp: game_checked_def)
  have fp: "length (firstPlayer ?h) = 4" "\<forall>r<numRounds g. firstPlayer ?h ! r = firstPlayer g ! r + 1"
    using b(2) by (auto simp: last_reader_def Let_def reader_init_def length_front front_nth)
  have st: "stack g ! p = stack ?h ! p" if p: "p < numPlayers g" for p
  proof (cases "some_stack g")
    case True
    then show ?thesis using p by (simp add: last_reader_def Let_def front_nth)
  next
    case False
    then have "stack g ! p = INT32_MAX" "p < 4"
      using p assms(3,4) by (force simp: some_stack_def fields_fit_def)+
    then show ?thesis using False by (simp add: last_reader_def Let_def reader_init_def nth_append)
  qed
  have mr: "maxRaises g ! r = maxRaises ?h ! r" if r: "r < numRounds g" for r
    using r b(2) by (auto simp: last_reader_def Let_def reader_init_def front_nth)
  have "same_game g (?h\<lparr>firstPlayer := firstPlayer g\<rparr>)"
    using st mr unfolding same_game_def
    by (simp add: last_reader_def Let_def front_nth)
  moreover have "numPlayers g \<le> stackRead (last_reader g)" using assms(4) by (simp add: last_reader_def Let_def) linarith
  ultimately show ?thesis using fp by (intro exI [of _ "firstPlayer ?h"]) simp
qed

lemma check_last_reader:
  assumes sh: "shape_game g" and ck: "game_checked g" and fit: "fields_fit g" and st: "4 < numPlayers g \<Longrightarrow> some_stack g"
  shows "\<exists>h. check_game (last_reader g) = Inr h \<and> same_game g h"
proof -
  let ?x = "last_reader g" let ?h = "rd_game ?x"
  obtain fp where fp: "?h = ?h\<lparr>firstPlayer := fp\<rparr>" "length fp = 4" "\<forall>r<numRounds g. fp ! r = firstPlayer g ! r + 1"
    and sg: "same_game g (?h\<lparr>firstPlayer := firstPlayer g\<rparr>)" and sr: "numPlayers g \<le> stackRead ?x"
    using last_reader_game [OF assms] by blast
  have fph: "firstPlayer ?h = fp" using fp(1) by (metis Game.select_convs(7) Game.surjective Game.update_convs(7))
  have N: "numPlayers ?h = numPlayers g" "numRounds ?h = numRounds g" "bettingType ?h = bettingType g"
    and R: "blindRead ?x = numPlayers g" "bettingType g = limitBetting \<Longrightarrow> raiseSizeRead ?x = numRounds g" "boardCardsRead ?x = numRounds g"
    by (simp_all add: last_reader_def Let_def)
  have bl: "blind_check ?h = None"
    using sg ck by (auto simp: blind_check_def find_None_iff same_game_def game_checked_def N)
  obtain h where h: "first_players [0..<numRounds g] ?h = Inr h"
    using first_players_ok [of "[0..<numRounds g]" ?h] fp(3) ck by (auto simp: fph N game_checked_def Suc_le_eq)
  obtain q where q: "h = ?h\<lparr>firstPlayer := q\<rparr>" "\<forall>c<numRounds g. q ! c = firstPlayer g ! c"
    using first_players_Inr [OF h] fp(2,3) ck by (auto simp: fph game_checked_def)
  have same: "same_game g h" using sg q by (simp add: same_game_def)
  have lb: "numRounds g \<le> length (numBoardCards g)" using sh ck by (simp add: shape_game_def game_checked_def)
  have "sum_list (map (\<lambda>c. numBoardCards h ! c) [0..<numRounds h]) = sum_list (map (\<lambda>c. numBoardCards g ! c) [0..<numRounds g])"
    using same by (intro arg_cong [where f = sum_list] map_cong) (auto simp: same_game_def)
  then have "check_cards (numRounds g) h = Inr h"
    using ck same sum_take_map [OF lb] by (auto simp: check_cards_def game_checked_def same_game_def)
  then have "check_game ?x = Inr h"
    using ck bl h sr R by (auto simp: check_game_def Let_def N game_checked_def)
  then show ?thesis using same by blast
qed

lemma readGame_printGame:
  assumes "shape_game g" "game_checked g" "fields_fit g" "4 < numPlayers g \<Longrightarrow> some_stack g"
  shows "\<exists>h. readGame (printGame g @ rest) = Some (Inr h) \<and> same_game g h"
  using read_printed [OF assms(1-3)] check_last_reader [OF assms] by (simp add: readGame_def)

text \<open>C27: a game definition that passes the checks and whose values fit their fields, printed with \<open>printGame\<close> and
  read back with \<open>readGame\<close>, is the same game in every part that is in use, for at most four players or when some
  stack is limited.\<close>

theorem game_round_trip:
  assumes "shape_game g" "game_checked g" "fields_fit g"
    "numPlayers g \<le> 4 \<or> (\<exists>p<numPlayers g. stack g ! p < INT32_MAX)"
  shows "\<exists>h. readGame (printGame g @ rest) = Some (Inr h) \<and> same_game g h"
  by (rule readGame_printGame [OF assms(1-3)]) (use assms(4) in \<open>auto simp: some_stack_def\<close>)

theorem game_round_trip_witness:
  "\<exists>h. readGame (printGame limit_2p @ ''trailing text'') = Some (Inr h) \<and> same_game limit_2p h"
proof (rule game_round_trip)
  show "shape_game limit_2p" "game_checked limit_2p" "fields_fit limit_2p"
    "numPlayers limit_2p \<le> 4 \<or> (\<exists>p<numPlayers limit_2p. stack limit_2p ! p < INT32_MAX)" by code_simp+
qed

text \<open>C28: with more than four players and no limited stack the trip fails: \<open>printGame\<close> leaves the stack line out, and
  the default of \<open>readGame\<close> only counts four stacks.\<close>

theorem deep_stacks_lost:
  assumes "shape_game g" "game_checked g" "fields_fit g" "4 < numPlayers g" "\<forall>p<numPlayers g. stack g ! p = INT32_MAX"
  shows "readGame (printGame g @ rest) = Some (Inl (few_stacks 4 (numPlayers g)))"
proof -
  have "\<not> some_stack g" using assms(5) by (auto simp: some_stack_def)
  then have "stackRead (last_reader g) = 4" "rd_game (last_reader g) = (rd_game (last_reader g))\<lparr>numPlayers := numPlayers g, numRounds := numRounds g\<rparr>"
    by (simp_all add: last_reader_def Let_def)
  then have "check_game (last_reader g) = Inl (few_stacks 4 (numPlayers g))"
    using assms(2,4) by (simp add: check_game_def Let_def game_checked_def last_reader_def)
  then show ?thesis using read_printed [OF assms(1-3)] by (simp add: readGame_def)
qed

definition deep_6p :: Game where
  "deep_6p = limit_2p\<lparr>numPlayers := 6, stack := replicate 10 INT32_MAX\<rparr>"

theorem deep_stacks_lost_witness:
  "game_checked deep_6p \<and> readGame (printGame deep_6p @ []) = Some (Inl (few_stacks 4 (numPlayers deep_6p)))"
proof (rule conjI, code_simp, rule deep_stacks_lost)
  show "shape_game deep_6p" "game_checked deep_6p" "fields_fit deep_6p" "4 < numPlayers deep_6p"
    "\<forall>p<numPlayers deep_6p. stack deep_6p ! p = INT32_MAX" by code_simp+
qed

text \<open>C26: whatever the file holds, a game that \<open>readGame\<close> returns has the array sizes of the struct and passes all the sanity checks: rounds, players,
  blinds against stacks, first players as indices, suits, ranks, hole cards, and a deck large enough; and the lists it needs were in the
  file.  Among the lines before \<open>end gamedef\<close> that are not comments, the last \<open>blind\<close> line holds a number for every player, the last
  \<open>numboardcards\<close> line one for every round, in a limit game the last \<open>raisesize\<close> line one for every round, the last \<open>stack\<close> line one for
  every player, and these numbers are the entries of the game; without a \<open>stack\<close> line there are at most four players, with unlimited
  stacks.\<close>

theorem readGame_checked:
  assumes "readGame inp = Some (Inr g)"
  shows "shape_game g \<and> game_checked g \<and>
    (\<exists>vs. last_items ''blind'' (items32 MAX_PLAYERS) (gd_lines inp) = Some vs \<and> numPlayers g \<le> length vs \<and>
       take (numPlayers g) (blind g) = take (numPlayers g) vs) \<and>
    (\<exists>vs. last_items ''numboardcards'' (items8 MAX_ROUNDS) (gd_lines inp) = Some vs \<and> numRounds g \<le> length vs \<and>
       take (numRounds g) (numBoardCards g) = take (numRounds g) vs) \<and>
    (bettingType g = limitBetting \<longrightarrow>
       (\<exists>vs. last_items ''raisesize'' (items32 MAX_PLAYERS) (gd_lines inp) = Some vs \<and> numRounds g \<le> length vs \<and>
          take (numRounds g) (raiseSize g) = take (numRounds g) vs)) \<and>
    (case last_items ''stack'' (items32 MAX_PLAYERS) (gd_lines inp) of
       None \<Rightarrow> numPlayers g \<le> 4 \<and> (\<forall>p<numPlayers g. stack g ! p = INT32_MAX)
     | Some vs \<Rightarrow> numPlayers g \<le> length vs \<and> take (numPlayers g) (stack g) = take (numPlayers g) vs)"
  using readGame_ok [OF assms] accepted_file [OF assms] by blast

theorem readGame_checked_witness:
  "\<exists>h vs. readGame (printGame nolimit_2p @ []) = Some (Inr h) \<and> game_checked h \<and>
     last_items ''blind'' (items32 MAX_PLAYERS) (gd_lines (printGame nolimit_2p @ [])) = Some vs \<and> numPlayers h \<le> length vs"
proof -
  have "shape_game nolimit_2p" "game_checked nolimit_2p" "fields_fit nolimit_2p" "\<not> 4 < numPlayers nolimit_2p" by code_simp+
  then obtain h where h: "readGame (printGame nolimit_2p @ []) = Some (Inr h)" using readGame_printGame [of nolimit_2p "[]"] by blast
  then show ?thesis using readGame_checked [OF h] by blast
qed

text \<open>C29: a line with five to ten raise sizes is stored past the end of \<open>raiseSize\<close>, which has one entry per round.\<close>

theorem raise_sizes_overflow:
  assumes "\<forall>v \<in> set vs. INT32_MIN \<le> v \<and> v \<le> INT32_MAX" "4 < length vs" "length vs \<le> 10" "shape_game (rd_game x)"
  shows "read_line (item_line ''raiseSize'' (map dec_int vs)) x = None"
  using read_line_ints(3) [OF assms(1,3)] assms(2,4) by (simp add: store_items_def shape_game_def)

theorem raise_sizes_overflow_witness: "read_line (item_line ''raiseSize'' (map dec_int [10, 10, 20, 20, 40])) reader_init = None"
  by (rule raise_sizes_overflow) (simp_all add: reader_init_def shape_game_def)

end
