(* ===== verification/Holdem_Evaluator.thy ===== *)
theory Holdem_Evaluator
  imports Prelude "HOL-Library.Word" "HOL-Library.Signed_Division"
begin

text \<open>
  The second hand evaluator of the program, \<open>HoldemHandEvaluator\<close> of \<open>SBotInterface/src/hand_evaluator.cpp\<close>, which counts
  ranks and suits instead of using tables.  A card is an \<open>int\<close>, rank times number of suits plus suit, as in \<open>cards.h\<close>.  The
  number of suits is the static member \<open>S_Game::num_suits_\<close> and an argument here.  \<open>None\<close> is an index outside an
  array or a division by zero.
\<close>

section \<open>Cards\<close>

definition Rank :: "int \<Rightarrow> int \<Rightarrow> int option" where
  "Rank num_suits c = (if num_suits = 0 then None else Some (c sdiv num_suits))"

definition Suit :: "int \<Rightarrow> int \<Rightarrow> int option" where
  "Suit num_suits c = (if num_suits = 0 then None else Some (c smod num_suits))"

definition MakeCard :: "int \<Rightarrow> int \<Rightarrow> int \<Rightarrow> int" where
  "MakeCard num_suits rank suit = rank * num_suits + suit"

fun InCards :: "int \<Rightarrow> int list \<Rightarrow> nat \<Rightarrow> bool option" where
  "InCards c cards 0 = Some False"
| "InCards c [] (Suc n) = None"
| "InCards c (x # cards) (Suc n) = (if c = x then Some True else InCards c cards n)"

section \<open>Constants\<close>

abbreviation kStraightFlush :: int where "kStraightFlush \<equiv> 775892"
abbreviation kQuads :: int where "kQuads \<equiv> 775723"
abbreviation kFullHouse :: int where "kFullHouse \<equiv> 775554"
abbreviation kFlush :: int where "kFlush \<equiv> 404261"
abbreviation kStraight :: int where "kStraight \<equiv> 404248"
abbreviation kThreeOfAKind :: int where "kThreeOfAKind \<equiv> 402051"
abbreviation kTwoPair :: int where "kTwoPair \<equiv> 399854"
abbreviation kPair :: int where "kPair \<equiv> 371293"
abbreviation kNoPair :: int where "kNoPair \<equiv> 0"
abbreviation kMaxHandVal :: int where "kMaxHandVal \<equiv> 775905"

abbreviation kH4Quads :: int where "kH4Quads \<equiv> 31096"
abbreviation kH4ThreeOfAKind :: int where "kH4ThreeOfAKind \<equiv> 30927"
abbreviation kH4TwoPair :: int where "kH4TwoPair \<equiv> 30758"
abbreviation kH4Pair :: int where "kH4Pair \<equiv> 28561"

section \<open>Two, three and four cards\<close>

definition EvaluateTwo :: "int \<Rightarrow> int list \<Rightarrow> int option" where
  "EvaluateTwo ns cards =
     do {
       c0 \<leftarrow> rd cards 0; c1 \<leftarrow> rd cards 1;
       r0 \<leftarrow> Rank ns c0; r1 \<leftarrow> Rank ns c1;
       if r0 = r1 then Some (78 + r0)
       else
         (let hr = (if r0 > r1 then r0 else r1); lr = (if r0 > r1 then r1 else r0) in
          Some
           (if hr = 1 then 0
            else if hr = 2 then 1 + lr
            else if hr = 3 then 3 + lr
            else if hr = 4 then 6 + lr
            else if hr = 5 then 10 + lr
            else if hr = 6 then 15 + lr
            else if hr = 7 then 21 + lr
            else if hr = 8 then 28 + lr
            else if hr = 9 then 36 + lr
            else if hr = 10 then 45 + lr
            else if hr = 11 then 55 + lr
            else 66 + lr))
     }"

text \<open>The ranks are \<open>unsigned int\<close> here.\<close>

definition three_value :: "32 word \<Rightarrow> 32 word \<Rightarrow> 32 word \<Rightarrow> 32 word" where
  "three_value r0 r1 r2 =
     (if r0 = r1 \<and> r1 = r2 then 2366 + r0
      else if r0 = r1 \<or> r0 = r2 \<or> r1 = r2 then
        (let (pr_rank, kicker) = (if r0 = r1 then (r0, r2) else if r0 = r2 then (r0, r1) else (r1, r0))
         in 2197 + pr_rank * 13 + kicker)
      else
        (let (hr, mr, lr) =
           (if r0 > r1 then
              if r1 > r2 then (r0, r1, r2) else if r0 > r2 then (r0, r2, r1) else (r2, r0, r1)
            else if r0 > r2 then (r1, r0, r2)
            else if r2 > r1 then (r2, r1, r0)
            else (r1, r2, r0))
         in hr * 169 + mr * 13 + lr))"

definition EvaluateThree :: "int \<Rightarrow> int list \<Rightarrow> int option" where
  "EvaluateThree ns cards =
     do {
       c0 \<leftarrow> rd cards 0; c1 \<leftarrow> rd cards 1; c2 \<leftarrow> rd cards 2;
       r0 \<leftarrow> Rank ns c0; r1 \<leftarrow> Rank ns c1; r2 \<leftarrow> Rank ns c2;
       Some (sint (three_value (word_of_int r0) (word_of_int r1) (word_of_int r2)))
     }"

definition bump_count :: "int list \<Rightarrow> int \<Rightarrow> int list option" where
  "bump_count counts i = (if i < 0 then None else do { x \<leftarrow> rd counts (nat i); wr counts (nat i) (x + 1) })"

fun count_ranks :: "int \<Rightarrow> int list \<Rightarrow> nat \<Rightarrow> int list \<Rightarrow> int list option" where
  "count_ranks ns cards 0 rank_counts = Some rank_counts"
| "count_ranks ns [] (Suc n) rank_counts = None"
| "count_ranks ns (c # cards) (Suc n) rank_counts =
     do { r \<leftarrow> Rank ns c; rc \<leftarrow> bump_count rank_counts r; count_ranks ns cards n rc }"

abbreviation ranks_12_0 :: "nat list" where
  "ranks_12_0 \<equiv> [12, 11, 10, 9, 8, 7, 6, 5, 4, 3, 2, 1, 0]"

text \<open>The highest ranks with one card, up to \<open>n\<close> of them, \<open>-1\<close> where there are fewer.\<close>

fun kickers_from :: "int list \<Rightarrow> nat list \<Rightarrow> nat \<Rightarrow> int list" where
  "kickers_from rc rs 0 = []"
| "kickers_from rc [] (Suc n) = replicate (Suc n) (-1)"
| "kickers_from rc (r # rs) (Suc n) =
     (if rc ! r = 1 then int r # kickers_from rc rs n else kickers_from rc rs (Suc n))"

text \<open>The loop over the ranks: the value of quads or trips, or the ranks of the pairs.\<close>

fun four_loop :: "int list \<Rightarrow> nat list \<Rightarrow> int \<Rightarrow> int + int \<times> int" where
  "four_loop rc [] pair_rank1 = Inr (pair_rank1, -1)"
| "four_loop rc (r # rs) pair_rank1 =
     (if rc ! r = 4 then Inl (kH4Quads + int r)
      else if rc ! r = 3 then Inl (kH4ThreeOfAKind + 13 * int r + kickers_from rc ranks_12_0 1 ! 0)
      else if rc ! r = 2 then
        if pair_rank1 = -1 then four_loop rc rs (int r) else Inr (pair_rank1, int r)
      else four_loop rc rs pair_rank1)"

definition EvaluateFour :: "int \<Rightarrow> int list \<Rightarrow> int option" where
  "EvaluateFour ns cards =
     do {
       rc \<leftarrow> count_ranks ns cards 4 (replicate 13 0);
       Some
        (case four_loop rc ranks_12_0 (-1) of
           Inl v \<Rightarrow> v
         | Inr (pair_rank1, pair_rank2) \<Rightarrow>
             if pair_rank2 \<ge> 0 then pair_rank1 * 13 + pair_rank2 + kH4TwoPair
             else if pair_rank1 \<ge> 0 then
               (let k = kickers_from rc ranks_12_0 2 in pair_rank1 * 169 + k ! 0 * 13 + k ! 1 + kH4Pair)
             else
               (let k = kickers_from rc ranks_12_0 4 in k ! 0 * 2197 + k ! 1 * 169 + k ! 2 * 13 + k ! 3))
     }"

section \<open>Five to seven cards\<close>

text \<open>The counting loop: ranks and suits of the cards, and how many cards there are of each.\<close>

record counted =
  h_ranks :: "int list"
  h_suits :: "int list"
  h_rank_counts :: "int list"
  h_suit_counts :: "int list"

fun count_cards :: "int \<Rightarrow> int list \<Rightarrow> nat \<Rightarrow> nat \<Rightarrow> counted \<Rightarrow> counted option" where
  "count_cards ns cards i 0 h = Some h"
| "count_cards ns [] i (Suc n) h = None"
| "count_cards ns (c # cards) i (Suc n) h =
     do {
       r \<leftarrow> Rank ns c;
       rs \<leftarrow> wr (h_ranks h) i r;
       rc \<leftarrow> bump_count (h_rank_counts h) r;
       s \<leftarrow> Suit ns c;
       ss \<leftarrow> wr (h_suits h) i s;
       sc \<leftarrow> bump_count (h_suit_counts h) s;
       count_cards ns cards (Suc i) n \<lparr>h_ranks = rs, h_suits = ss, h_rank_counts = rc, h_suit_counts = sc\<rparr>
     }"

fun find_flush :: "int list \<Rightarrow> nat list \<Rightarrow> int" where
  "find_flush sc [] = -1"
| "find_flush sc (s # ss) = (if sc ! s \<ge> 5 then int s else find_flush sc ss)"

text \<open>The inner loop: down from \<open>r1\<close> as long as there are cards, the ace below the deuce.\<close>

function row_down :: "int list \<Rightarrow> int \<Rightarrow> int \<Rightarrow> int" where
  "row_down rc row_end r1 =
     (if r1 \<ge> row_end \<and> (r1 > -1 \<and> rc ! nat r1 > 0 \<or> r1 = -1 \<and> rc ! 12 > 0) then row_down rc row_end (r1 - 1) else r1)"
  by pat_completeness auto
termination by (relation "measure (\<lambda>(rc, row_end, r1). nat (r1 + 2))") auto

declare row_down.simps [simp del]

lemma row_down_le: "row_down rc row_end r1 \<le> r1"
proof (induction rc row_end r1 rule: row_down.induct)
  case (1 rc row_end r1)
  then show ?case by (subst row_down.simps) force
qed

text \<open>The cards of the flush suit in the row that ends at \<open>r\<close>.\<close>

definition row_in_suit :: "(int \<times> int) list \<Rightarrow> int \<Rightarrow> int \<Rightarrow> nat" where
  "row_in_suit hand flush_suit r =
     (let row_end = r - 4 in
      length (filter (\<lambda>(rank, suit). suit = flush_suit \<and> (rank \<ge> row_end \<and> rank \<le> r \<or> row_end = -1 \<and> rank = 12)) hand))"

text \<open>The search for straights: the value of a straight flush, or the rank of the straight.\<close>

function straight_loop :: "int list \<Rightarrow> (int \<times> int) list \<Rightarrow> int \<Rightarrow> int \<Rightarrow> int \<Rightarrow> int + int" where
  "straight_loop rc hand flush_suit r straight_rank =
     (let row_end = r - 4; r1 = row_down rc row_end r in
      if r1 = row_end - 1 then
        if flush_suit \<ge> 0 then
          (let straight_rank = (if straight_rank = -1 then r else straight_rank) in
           if row_in_suit hand flush_suit r = 5 then Inl (kStraightFlush + r)
           else if r - 1 < 3 then Inr straight_rank
           else straight_loop rc hand flush_suit (r - 1) straight_rank)
        else Inr r
      else if r1 - 1 < 3 then Inr straight_rank
      else straight_loop rc hand flush_suit (r1 - 1) straight_rank)"
  by pat_completeness auto
termination
proof (relation "measure (\<lambda>(rc, hand, flush_suit, r, straight_rank). nat (r + 1))")
  fix rc hand flush_suit r straight_rank x xa
  assume "x = r - 4" "xa = row_down rc x r" "\<not> xa - 1 < (3 :: int)"
  then show "((rc, hand, flush_suit, xa - 1, straight_rank), rc, hand, flush_suit, r, straight_rank)
      \<in> measure (\<lambda>(rc, hand, flush_suit, r, straight_rank). nat (r + 1))"
    using row_down_le [of rc x r] by simp
qed auto

declare straight_loop.simps [simp del]

text \<open>The highest rank of a card whose rank is none of \<open>out\<close>.\<close>

fun best_other :: "int list \<Rightarrow> int list \<Rightarrow> int \<Rightarrow> int" where
  "best_other out [] hr = hr"
| "best_other out (r1 # ranks) hr = best_other out ranks (if r1 \<notin> set out \<and> r1 > hr then r1 else hr)"

text \<open>The loop over the counts: the value of quads, or the ranks of trips and pairs.\<close>

fun group_loop :: "int list \<Rightarrow> int list \<Rightarrow> nat list \<Rightarrow> int \<times> int \<times> int \<Rightarrow> int + int \<times> int \<times> int" where
  "group_loop rc ranks [] g = Inr g"
| "group_loop rc ranks (r # rs) (three_rank, pair_rank, pair2_rank) =
     (let ct = rc ! r in
      if ct = 4 then Inl (kQuads + int r * 13 + best_other [int r] ranks (-1))
      else if ct = 3 then
        group_loop rc ranks rs
          (if three_rank = -1 then (int r, pair_rank, pair2_rank)
           else if pair_rank = -1 then (three_rank, int r, pair2_rank)
           else (three_rank, pair_rank, pair2_rank))
      else if ct = 2 then
        group_loop rc ranks rs
          (if pair_rank = -1 then (three_rank, int r, pair2_rank)
           else if pair2_rank = -1 then (three_rank, pair_rank, int r)
           else (three_rank, pair_rank, pair2_rank))
      else group_loop rc ranks rs (three_rank, pair_rank, pair2_rank))"

text \<open>The cascades that keep the highest ranks \<open>hr1\<close>, \<open>hr2\<close>, \dots: a rank above one of them pushes it and those below down.\<close>

fun push_rank :: "int \<Rightarrow> int list \<Rightarrow> int list" where
  "push_rank r [] = []"
| "push_rank r (h # hs) = (if r > h then r # butlast (h # hs) else h # push_rank r hs)"

definition highest :: "nat \<Rightarrow> int list \<Rightarrow> int list" where
  "highest n ranks = fold push_rank ranks (replicate n (-1))"

text \<open>
  The rest of \<open>Evaluate\<close> once the ranks of trips and pairs are known.  Its cases for three and four cards are left out: they
  follow the early returns for two to four cards, so the number of cards is neither there.
\<close>

definition group_value :: "nat \<Rightarrow> int list \<Rightarrow> (int \<times> int) list \<Rightarrow> int \<Rightarrow> int \<Rightarrow> int \<times> int \<times> int \<Rightarrow> int" where
  "group_value num_cards ranks hand flush_suit straight_rank = (\<lambda>(three_rank, pair_rank, pair2_rank).
     if three_rank \<ge> 0 \<and> pair_rank \<ge> 0 then kFullHouse + three_rank * 13 + pair_rank
     else if flush_suit \<ge> 0 then
       (let hr = highest 5 (map fst (filter (\<lambda>(r, s). s = flush_suit) hand)) in
        kFlush + hr ! 0 * 28561 + hr ! 1 * 2197 + hr ! 2 * 169 + hr ! 3 * 13 + hr ! 4)
     else if straight_rank \<ge> 0 then kStraight + straight_rank
     else if three_rank \<ge> 0 then
       (let hr = highest 2 (filter (\<lambda>r. r \<noteq> three_rank) ranks) in
        kThreeOfAKind + three_rank * 169 + hr ! 0 * 13 + hr ! 1)
     else if pair2_rank \<ge> 0 then
       kTwoPair + pair_rank * 169 + pair2_rank * 13 +
       (if num_cards < 5 then 0 else best_other [pair_rank, pair2_rank] ranks (-1))
     else if pair_rank \<ge> 0 then
       (let hr = highest 3 (filter (\<lambda>r. r \<noteq> pair_rank) ranks) in
        kPair + pair_rank * 2197 + hr ! 0 * 169 + hr ! 1 * 13 + hr ! 2)
     else
       (let hr = highest 5 ranks in
        kNoPair + hr ! 0 * 28561 + hr ! 1 * 2197 + hr ! 2 * 169 + hr ! 3 * 13 + hr ! 4))"

definition Evaluate :: "int \<Rightarrow> int list \<Rightarrow> nat \<Rightarrow> int option" where
  "Evaluate ns cards num_cards =
     (if num_cards = 2 then EvaluateTwo ns cards
      else if num_cards = 3 then EvaluateThree ns cards
      else if num_cards = 4 then EvaluateFour ns cards
      else do {
        h \<leftarrow> count_cards ns cards 0 num_cards
               \<lparr>h_ranks = replicate 7 0, h_suits = replicate 7 0, h_rank_counts = replicate 13 0, h_suit_counts = replicate 4 0\<rparr>;
        let ranks = take num_cards (h_ranks h);
        let hand = zip ranks (take num_cards (h_suits h));
        let flush_suit = find_flush (h_suit_counts h) [0, 1, 2, 3];
        Some
         (case straight_loop (h_rank_counts h) hand flush_suit 12 (-1) of
            Inl v \<Rightarrow> v
          | Inr straight_rank \<Rightarrow>
              (case group_loop (h_rank_counts h) ranks ranks_12_0 (-1, -1, -1) of
                 Inl v \<Rightarrow> v
               | Inr g \<Rightarrow> group_value num_cards ranks hand flush_suit straight_rank g))
      })"

end
