(* ===== verification/Rank_Lists.thy ===== *)
theory Rank_Lists
  imports Prelude
begin

text \<open>
  Sets of ranks as descending lists, straights, and the two ways in which the hand evaluators number such lists.
\<close>

section \<open>Ranks of a hand\<close>

text \<open>The ranks below \<open>n\<close> with a property, from the highest down.\<close>

fun ranks_down :: "nat \<Rightarrow> (nat \<Rightarrow> bool) \<Rightarrow> nat list" where
  "ranks_down 0 p = []"
| "ranks_down (Suc n) p = (if p n then n # ranks_down n p else ranks_down n p)"

text \<open>The highest card of the best straight; the ace counts as the rank below the deuce.\<close>

definition straight_at :: "(nat \<Rightarrow> bool) \<Rightarrow> nat \<Rightarrow> bool" where
  "straight_at p h \<longleftrightarrow> p h \<and> p (h - 1) \<and> p (h - 2) \<and> p (h - 3) \<and> (if h = 3 then p 12 else p (h - 4))"

definition straight_high :: "(nat \<Rightarrow> bool) \<Rightarrow> nat option" where
  "straight_high p = find (straight_at p) [12, 11, 10, 9, 8, 7, 6, 5, 4, 3]"

lemma set_ranks_down: "set (ranks_down n p) = {r. r < n \<and> p r}"
  by (induction n) (auto simp: less_Suc_eq)

lemma sorted_ranks_down: "sorted_wrt (>) (ranks_down n p)"
  by (induction n) (auto simp: set_ranks_down)

lemma ranks_down_less: "r \<in> set (ranks_down n p) \<Longrightarrow> r < n"
  by (simp add: set_ranks_down)

lemma ranks_down_cong: "(\<And>r. r < n \<Longrightarrow> p r = q r) \<Longrightarrow> ranks_down n p = ranks_down n q"
  by (induction n) auto

lemma distinct_ranks_down: "distinct (ranks_down n p)"
  by (induction n) (auto simp: set_ranks_down)

lemma length_ranks_down: "length (ranks_down n p) = card {r. r < n \<and> p r}"
  using distinct_card [OF distinct_ranks_down] by (simp add: set_ranks_down)

lemma straight_high_SomeD: "straight_high p = Some h \<Longrightarrow> 3 \<le> h \<and> h < 13 \<and> straight_at p h"
  unfolding straight_high_def by (auto split: if_splits)

section \<open>Numbering of lists\<close>

text \<open>The number of a strictly descending list among the lists of its length.\<close>

fun comb :: "nat list \<Rightarrow> int" where
  "comb [] = 0"
| "comb (x # xs) = int (x choose Suc (length xs)) + comb xs"

text \<open>A list as the digits of a number.\<close>

fun digits :: "nat list \<Rightarrow> int" where
  "digits [] = 0"
| "digits (x # xs) = 13 ^ length xs * int x + digits xs"

lemma comb_nonneg: "0 \<le> comb xs"
  by (induction xs) auto

lemma digits_nonneg: "0 \<le> digits xs"
  by (induction xs) auto

lemma comb_bound:
  assumes "sorted_wrt (>) xs" "\<forall>x \<in> set xs. x < n"
  shows "comb xs < int (n choose length xs)"
  using assms
proof (induction xs arbitrary: n)
  case (Cons x xs)
  have "comb xs < int (x choose length xs)" using Cons by simp
  moreover have "(x choose Suc (length xs)) + (x choose length xs) = Suc x choose Suc (length xs)" by simp
  moreover have "Suc x choose Suc (length xs) \<le> n choose Suc (length xs)"
    using Cons.prems(2) by (intro binomial_right_mono) simp
  ultimately show ?case by simp
qed simp

lemma digits_bound: "\<forall>x \<in> set xs. x < 13 \<Longrightarrow> digits xs < 13 ^ length xs"
proof (induction xs)
  case (Cons x xs)
  have "13 ^ length xs * int x \<le> 13 ^ length xs * (12 :: int)" using Cons.prems by (intro mult_left_mono) auto
  moreover have "digits xs < 13 ^ length xs" using Cons by simp
  ultimately show ?case unfolding digits.simps list.size power_Suc add_0_right add_Suc_right by linarith
qed simp

end
