(* ===== verification/Hand_Tables.thy ===== *)
theory Hand_Tables
  imports Prelude
begin

text \<open>
  The five lookup tables of \<open>evalHandTables\<close> with one entry for each of the 8192 sets of ranks.  They are
  given by their runs: a pair \<open>(n, v)\<close> stands for \<open>n\<close> consecutive entries \<open>v\<close>.  \<open>table_at\<close> reads an entry and
  is \<open>None\<close> beyond the end of the table.
\<close>

fun table_at :: "(int \<times> int) list \<Rightarrow> int \<Rightarrow> int option" where
  "table_at [] i = None"
| "table_at ((n, v) # runs) i = (if i < n then Some v else table_at runs (i - n))"

lemma table_at_defined:
  "0 \<le> i \<Longrightarrow> i < sum_list (map fst runs) \<Longrightarrow> \<exists>v. table_at runs i = Some v"
  by (induction runs i rule: table_at.induct) auto

section \<open>The table \<open>oneSuitVal\<close>\<close>

definition oneSuitVal_0 :: "(int \<times> int) list" where
  "oneSuitVal_0 = [
    (31, 0), (1, 12107), (15, 0), (1, 9634), (7, 0), (1, 9635), (3, 0), (1, 9636), (1, 0), (1, 9637),
    (2, 12108), (15, 0), (1, 9639), (7, 0), (1, 9640), (3, 0), (1, 9641), (1, 0), (1, 9642), (1, 9643),
    (1, 12107), (7, 0), (1, 9644), (3, 0), (1, 9645), (1, 0), (1, 9646), (2, 9647), (3, 0), (1, 9648),
    (1, 0), (1, 9649), (2, 9650), (1, 0), (1, 9651), (2, 9652), (4, 12109), (15, 0), (1, 9654), (7, 0),
    (1, 9655), (3, 0), (1, 9656), (1, 0), (1, 9657), (1, 9658), (1, 12107), (7, 0), (1, 9659), (3, 0),
    (1, 9660), (1, 0), (1, 9661), (2, 9662), (3, 0), (1, 9663), (1, 0), (1, 9664), (2, 9665), (1, 0),
    (1, 9666), (2, 9667), (2, 9668), (2, 12108), (7, 0), (1, 9669), (3, 0), (1, 9670), (1, 0), (1, 9671),
    (2, 9672), (3, 0), (1, 9673), (1, 0), (1, 9674), (2, 9675), (1, 0), (1, 9676), (2, 9677), (3, 9678),
    (1, 12107), (3, 0), (1, 9679), (1, 0), (1, 9680), (2, 9681), (1, 0), (1, 9682), (2, 9683), (4, 9684),
    (1, 0), (1, 9685), (2, 9686), (4, 9687), (8, 12110)]"

definition oneSuitVal_1 :: "(int \<times> int) list" where
  "oneSuitVal_1 = [
    (15, 0), (1, 9689), (7, 0), (1, 9690), (3, 0), (1, 9691), (1, 0), (1, 9692), (1, 9693), (1, 12107),
    (7, 0), (1, 9694), (3, 0), (1, 9695), (1, 0), (1, 9696), (2, 9697), (3, 0), (1, 9698), (1, 0),
    (1, 9699), (2, 9700), (1, 0), (1, 9701), (2, 9702), (2, 9703), (2, 12108), (7, 0), (1, 9704), (3, 0),
    (1, 9705), (1, 0), (1, 9706), (2, 9707), (3, 0), (1, 9708), (1, 0), (1, 9709), (2, 9710), (1, 0),
    (1, 9711), (2, 9712), (3, 9713), (1, 12107), (3, 0), (1, 9714), (1, 0), (1, 9715), (2, 9716), (1, 0),
    (1, 9717), (2, 9718), (4, 9719), (1, 0), (1, 9720), (2, 9721), (4, 9722), (4, 9723), (4, 12109), (7, 0),
    (1, 9724), (3, 0), (1, 9725), (1, 0), (1, 9726), (2, 9727), (3, 0), (1, 9728), (1, 0), (1, 9729),
    (2, 9730), (1, 0), (1, 9731), (2, 9732), (3, 9733), (1, 12107), (3, 0), (1, 9734), (1, 0), (1, 9735),
    (2, 9736), (1, 0), (1, 9737), (2, 9738), (4, 9739), (1, 0), (1, 9740), (2, 9741), (4, 9742), (6, 9743),
    (2, 12108), (3, 0), (1, 9744), (1, 0), (1, 9745), (2, 9746), (1, 0), (1, 9747), (2, 9748), (4, 9749),
    (1, 0), (1, 9750), (2, 9751), (4, 9752), (7, 9753), (1, 12107), (1, 0), (1, 9754), (2, 9755), (4, 9756),
    (8, 9757), (16, 12111)]"

definition oneSuitVal_2 :: "(int \<times> int) list" where
  "oneSuitVal_2 = [
    (15, 0), (1, 9759), (7, 0), (1, 9760), (3, 0), (1, 9761), (1, 0), (1, 9762), (1, 9763), (1, 12107),
    (7, 0), (1, 9764), (3, 0), (1, 9765), (1, 0), (1, 9766), (2, 9767), (3, 0), (1, 9768), (1, 0),
    (1, 9769), (2, 9770), (1, 0), (1, 9771), (2, 9772), (2, 9773), (2, 12108), (7, 0), (1, 9774), (3, 0),
    (1, 9775), (1, 0), (1, 9776), (2, 9777), (3, 0), (1, 9778), (1, 0), (1, 9779), (2, 9780), (1, 0),
    (1, 9781), (2, 9782), (3, 9783), (1, 12107), (3, 0), (1, 9784), (1, 0), (1, 9785), (2, 9786), (1, 0),
    (1, 9787), (2, 9788), (4, 9789), (1, 0), (1, 9790), (2, 9791), (4, 9792), (4, 9793), (4, 12109), (7, 0),
    (1, 9794), (3, 0), (1, 9795), (1, 0), (1, 9796), (2, 9797), (3, 0), (1, 9798), (1, 0), (1, 9799),
    (2, 9800), (1, 0), (1, 9801), (2, 9802), (3, 9803), (1, 12107), (3, 0), (1, 9804), (1, 0), (1, 9805),
    (2, 9806), (1, 0), (1, 9807), (2, 9808), (4, 9809), (1, 0), (1, 9810), (2, 9811), (4, 9812), (6, 9813),
    (2, 12108), (3, 0), (1, 9814), (1, 0), (1, 9815), (2, 9816), (1, 0), (1, 9817), (2, 9818), (4, 9819),
    (1, 0), (1, 9820), (2, 9821), (4, 9822), (7, 9823), (1, 12107), (1, 0), (1, 9824), (2, 9825), (4, 9826),
    (8, 9827), (8, 9828), (8, 12110)]"

definition oneSuitVal_3 :: "(int \<times> int) list" where
  "oneSuitVal_3 = [
    (7, 0), (1, 9829), (3, 0), (1, 9830), (1, 0), (1, 9831), (2, 9832), (3, 0), (1, 9833), (1, 0),
    (1, 9834), (2, 9835), (1, 0), (1, 9836), (2, 9837), (3, 9838), (1, 12107), (3, 0), (1, 9839), (1, 0),
    (1, 9840), (2, 9841), (1, 0), (1, 9842), (2, 9843), (4, 9844), (1, 0), (1, 9845), (2, 9846), (4, 9847),
    (6, 9848), (2, 12108), (3, 0), (1, 9849), (1, 0), (1, 9850), (2, 9851), (1, 0), (1, 9852), (2, 9853),
    (4, 9854), (1, 0), (1, 9855), (2, 9856), (4, 9857), (7, 9858), (1, 12107), (1, 0), (1, 9859), (2, 9860),
    (4, 9861), (8, 9862), (12, 9863), (4, 12109), (3, 0), (1, 9864), (1, 0), (1, 9865), (2, 9866), (1, 0),
    (1, 9867), (2, 9868), (4, 9869), (1, 0), (1, 9870), (2, 9871), (4, 9872), (7, 9873), (1, 12107), (1, 0),
    (1, 9874), (2, 9875), (4, 9876), (8, 9877), (14, 9878), (2, 12108), (1, 0), (1, 9879), (2, 9880),
    (4, 9881), (8, 9882), (15, 9883), (1, 12107), (32, 12112)]"

definition oneSuitVal_4 :: "(int \<times> int) list" where
  "oneSuitVal_4 = [
    (15, 0), (1, 9885), (7, 0), (1, 9886), (3, 0), (1, 9887), (1, 0), (1, 9888), (1, 9889), (1, 12107),
    (7, 0), (1, 9890), (3, 0), (1, 9891), (1, 0), (1, 9892), (2, 9893), (3, 0), (1, 9894), (1, 0),
    (1, 9895), (2, 9896), (1, 0), (1, 9897), (2, 9898), (2, 9899), (2, 12108), (7, 0), (1, 9900), (3, 0),
    (1, 9901), (1, 0), (1, 9902), (2, 9903), (3, 0), (1, 9904), (1, 0), (1, 9905), (2, 9906), (1, 0),
    (1, 9907), (2, 9908), (3, 9909), (1, 12107), (3, 0), (1, 9910), (1, 0), (1, 9911), (2, 9912), (1, 0),
    (1, 9913), (2, 9914), (4, 9915), (1, 0), (1, 9916), (2, 9917), (4, 9918), (4, 9919), (4, 12109), (7, 0),
    (1, 9920), (3, 0), (1, 9921), (1, 0), (1, 9922), (2, 9923), (3, 0), (1, 9924), (1, 0), (1, 9925),
    (2, 9926), (1, 0), (1, 9927), (2, 9928), (3, 9929), (1, 12107), (3, 0), (1, 9930), (1, 0), (1, 9931),
    (2, 9932), (1, 0), (1, 9933), (2, 9934), (4, 9935), (1, 0), (1, 9936), (2, 9937), (4, 9938), (6, 9939),
    (2, 12108), (3, 0), (1, 9940), (1, 0), (1, 9941), (2, 9942), (1, 0), (1, 9943), (2, 9944), (4, 9945),
    (1, 0), (1, 9946), (2, 9947), (4, 9948), (7, 9949), (1, 12107), (1, 0), (1, 9950), (2, 9951), (4, 9952),
    (8, 9953), (8, 9954), (8, 12110)]"

definition oneSuitVal_5 :: "(int \<times> int) list" where
  "oneSuitVal_5 = [
    (7, 0), (1, 9955), (3, 0), (1, 9956), (1, 0), (1, 9957), (2, 9958), (3, 0), (1, 9959), (1, 0),
    (1, 9960), (2, 9961), (1, 0), (1, 9962), (2, 9963), (3, 9964), (1, 12107), (3, 0), (1, 9965), (1, 0),
    (1, 9966), (2, 9967), (1, 0), (1, 9968), (2, 9969), (4, 9970), (1, 0), (1, 9971), (2, 9972), (4, 9973),
    (6, 9974), (2, 12108), (3, 0), (1, 9975), (1, 0), (1, 9976), (2, 9977), (1, 0), (1, 9978), (2, 9979),
    (4, 9980), (1, 0), (1, 9981), (2, 9982), (4, 9983), (7, 9984), (1, 12107), (1, 0), (1, 9985), (2, 9986),
    (4, 9987), (8, 9988), (12, 9989), (4, 12109), (3, 0), (1, 9990), (1, 0), (1, 9991), (2, 9992), (1, 0),
    (1, 9993), (2, 9994), (4, 9995), (1, 0), (1, 9996), (2, 9997), (4, 9998), (7, 9999), (1, 12107), (1, 0),
    (1, 10000), (2, 10001), (4, 10002), (8, 10003), (14, 10004), (2, 12108), (1, 0), (1, 10005), (2, 10006),
    (4, 10007), (8, 10008), (15, 10009), (1, 12107), (16, 10010), (16, 12111)]"

definition oneSuitVal_6 :: "(int \<times> int) list" where
  "oneSuitVal_6 = [
    (7, 0), (1, 10011), (3, 0), (1, 10012), (1, 0), (1, 10013), (2, 10014), (3, 0), (1, 10015), (1, 0),
    (1, 10016), (2, 10017), (1, 0), (1, 10018), (2, 10019), (3, 10020), (1, 12107), (3, 0), (1, 10021),
    (1, 0), (1, 10022), (2, 10023), (1, 0), (1, 10024), (2, 10025), (4, 10026), (1, 0), (1, 10027),
    (2, 10028), (4, 10029), (6, 10030), (2, 12108), (3, 0), (1, 10031), (1, 0), (1, 10032), (2, 10033),
    (1, 0), (1, 10034), (2, 10035), (4, 10036), (1, 0), (1, 10037), (2, 10038), (4, 10039), (7, 10040),
    (1, 12107), (1, 0), (1, 10041), (2, 10042), (4, 10043), (8, 10044), (12, 10045), (4, 12109), (3, 0),
    (1, 10046), (1, 0), (1, 10047), (2, 10048), (1, 0), (1, 10049), (2, 10050), (4, 10051), (1, 0),
    (1, 10052), (2, 10053), (4, 10054), (7, 10055), (1, 12107), (1, 0), (1, 10056), (2, 10057), (4, 10058),
    (8, 10059), (14, 10060), (2, 12108), (1, 0), (1, 10061), (2, 10062), (4, 10063), (8, 10064),
    (15, 10065), (1, 12107), (24, 10066), (8, 12110)]"

definition oneSuitVal_7 :: "(int \<times> int) list" where
  "oneSuitVal_7 = [
    (3, 0), (1, 10067), (1, 0), (1, 10068), (2, 10069), (1, 0), (1, 10070), (2, 10071), (4, 10072), (1, 0),
    (1, 10073), (2, 10074), (4, 10075), (7, 10076), (1, 12107), (1, 0), (1, 10077), (2, 10078), (4, 10079),
    (8, 10080), (14, 10081), (2, 12108), (1, 0), (1, 10082), (2, 10083), (4, 10084), (8, 10085),
    (15, 10086), (1, 12107), (28, 10087), (4, 12109), (1, 0), (1, 10088), (2, 10089), (4, 10090),
    (8, 10091), (15, 10092), (1, 12107), (30, 10093), (2, 12108), (64, 12113)]"

definition oneSuitVal_8 :: "(int \<times> int) list" where
  "oneSuitVal_8 = [
    (15, 0), (1, 10095), (7, 0), (1, 10096), (3, 0), (1, 10097), (1, 0), (1, 10098), (1, 10099), (1, 12107),
    (7, 0), (1, 10100), (3, 0), (1, 10101), (1, 0), (1, 10102), (2, 10103), (3, 0), (1, 10104), (1, 0),
    (1, 10105), (2, 10106), (1, 0), (1, 10107), (2, 10108), (2, 10109), (2, 12108), (7, 0), (1, 10110),
    (3, 0), (1, 10111), (1, 0), (1, 10112), (2, 10113), (3, 0), (1, 10114), (1, 0), (1, 10115), (2, 10116),
    (1, 0), (1, 10117), (2, 10118), (3, 10119), (1, 12107), (3, 0), (1, 10120), (1, 0), (1, 10121),
    (2, 10122), (1, 0), (1, 10123), (2, 10124), (4, 10125), (1, 0), (1, 10126), (2, 10127), (4, 10128),
    (4, 10129), (4, 12109), (7, 0), (1, 10130), (3, 0), (1, 10131), (1, 0), (1, 10132), (2, 10133), (3, 0),
    (1, 10134), (1, 0), (1, 10135), (2, 10136), (1, 0), (1, 10137), (2, 10138), (3, 10139), (1, 12107),
    (3, 0), (1, 10140), (1, 0), (1, 10141), (2, 10142), (1, 0), (1, 10143), (2, 10144), (4, 10145), (1, 0),
    (1, 10146), (2, 10147), (4, 10148), (6, 10149), (2, 12108), (3, 0), (1, 10150), (1, 0), (1, 10151),
    (2, 10152), (1, 0), (1, 10153), (2, 10154), (4, 10155), (1, 0), (1, 10156), (2, 10157), (4, 10158),
    (7, 10159), (1, 12107), (1, 0), (1, 10160), (2, 10161), (4, 10162), (8, 10163), (8, 10164), (8, 12110)]"

definition oneSuitVal_9 :: "(int \<times> int) list" where
  "oneSuitVal_9 = [
    (7, 0), (1, 10165), (3, 0), (1, 10166), (1, 0), (1, 10167), (2, 10168), (3, 0), (1, 10169), (1, 0),
    (1, 10170), (2, 10171), (1, 0), (1, 10172), (2, 10173), (3, 10174), (1, 12107), (3, 0), (1, 10175),
    (1, 0), (1, 10176), (2, 10177), (1, 0), (1, 10178), (2, 10179), (4, 10180), (1, 0), (1, 10181),
    (2, 10182), (4, 10183), (6, 10184), (2, 12108), (3, 0), (1, 10185), (1, 0), (1, 10186), (2, 10187),
    (1, 0), (1, 10188), (2, 10189), (4, 10190), (1, 0), (1, 10191), (2, 10192), (4, 10193), (7, 10194),
    (1, 12107), (1, 0), (1, 10195), (2, 10196), (4, 10197), (8, 10198), (12, 10199), (4, 12109), (3, 0),
    (1, 10200), (1, 0), (1, 10201), (2, 10202), (1, 0), (1, 10203), (2, 10204), (4, 10205), (1, 0),
    (1, 10206), (2, 10207), (4, 10208), (7, 10209), (1, 12107), (1, 0), (1, 10210), (2, 10211), (4, 10212),
    (8, 10213), (14, 10214), (2, 12108), (1, 0), (1, 10215), (2, 10216), (4, 10217), (8, 10218),
    (15, 10219), (1, 12107), (16, 10220), (16, 12111)]"

definition oneSuitVal_10 :: "(int \<times> int) list" where
  "oneSuitVal_10 = [
    (7, 0), (1, 10221), (3, 0), (1, 10222), (1, 0), (1, 10223), (2, 10224), (3, 0), (1, 10225), (1, 0),
    (1, 10226), (2, 10227), (1, 0), (1, 10228), (2, 10229), (3, 10230), (1, 12107), (3, 0), (1, 10231),
    (1, 0), (1, 10232), (2, 10233), (1, 0), (1, 10234), (2, 10235), (4, 10236), (1, 0), (1, 10237),
    (2, 10238), (4, 10239), (6, 10240), (2, 12108), (3, 0), (1, 10241), (1, 0), (1, 10242), (2, 10243),
    (1, 0), (1, 10244), (2, 10245), (4, 10246), (1, 0), (1, 10247), (2, 10248), (4, 10249), (7, 10250),
    (1, 12107), (1, 0), (1, 10251), (2, 10252), (4, 10253), (8, 10254), (12, 10255), (4, 12109), (3, 0),
    (1, 10256), (1, 0), (1, 10257), (2, 10258), (1, 0), (1, 10259), (2, 10260), (4, 10261), (1, 0),
    (1, 10262), (2, 10263), (4, 10264), (7, 10265), (1, 12107), (1, 0), (1, 10266), (2, 10267), (4, 10268),
    (8, 10269), (14, 10270), (2, 12108), (1, 0), (1, 10271), (2, 10272), (4, 10273), (8, 10274),
    (15, 10275), (1, 12107), (24, 10276), (8, 12110)]"

definition oneSuitVal_11 :: "(int \<times> int) list" where
  "oneSuitVal_11 = [
    (3, 0), (1, 10277), (1, 0), (1, 10278), (2, 10279), (1, 0), (1, 10280), (2, 10281), (4, 10282), (1, 0),
    (1, 10283), (2, 10284), (4, 10285), (7, 10286), (1, 12107), (1, 0), (1, 10287), (2, 10288), (4, 10289),
    (8, 10290), (14, 10291), (2, 12108), (1, 0), (1, 10292), (2, 10293), (4, 10294), (8, 10295),
    (15, 10296), (1, 12107), (28, 10297), (4, 12109), (1, 0), (1, 10298), (2, 10299), (4, 10300),
    (8, 10301), (15, 10302), (1, 12107), (30, 10303), (2, 12108), (31, 10304), (1, 12107), (32, 12112)]"

definition oneSuitVal_12 :: "(int \<times> int) list" where
  "oneSuitVal_12 = [
    (7, 0), (1, 10305), (3, 0), (1, 10306), (1, 0), (1, 10307), (2, 10308), (3, 0), (1, 10309), (1, 0),
    (1, 10310), (2, 10311), (1, 0), (1, 10312), (2, 10313), (3, 10314), (1, 12107), (3, 0), (1, 10315),
    (1, 0), (1, 10316), (2, 10317), (1, 0), (1, 10318), (2, 10319), (4, 10320), (1, 0), (1, 10321),
    (2, 10322), (4, 10323), (6, 10324), (2, 12108), (3, 0), (1, 10325), (1, 0), (1, 10326), (2, 10327),
    (1, 0), (1, 10328), (2, 10329), (4, 10330), (1, 0), (1, 10331), (2, 10332), (4, 10333), (7, 10334),
    (1, 12107), (1, 0), (1, 10335), (2, 10336), (4, 10337), (8, 10338), (12, 10339), (4, 12109), (3, 0),
    (1, 10340), (1, 0), (1, 10341), (2, 10342), (1, 0), (1, 10343), (2, 10344), (4, 10345), (1, 0),
    (1, 10346), (2, 10347), (4, 10348), (7, 10349), (1, 12107), (1, 0), (1, 10350), (2, 10351), (4, 10352),
    (8, 10353), (14, 10354), (2, 12108), (1, 0), (1, 10355), (2, 10356), (4, 10357), (8, 10358),
    (15, 10359), (1, 12107), (24, 10360), (8, 12110)]"

definition oneSuitVal_13 :: "(int \<times> int) list" where
  "oneSuitVal_13 = [
    (3, 0), (1, 10361), (1, 0), (1, 10362), (2, 10363), (1, 0), (1, 10364), (2, 10365), (4, 10366), (1, 0),
    (1, 10367), (2, 10368), (4, 10369), (7, 10370), (1, 12107), (1, 0), (1, 10371), (2, 10372), (4, 10373),
    (8, 10374), (14, 10375), (2, 12108), (1, 0), (1, 10376), (2, 10377), (4, 10378), (8, 10379),
    (15, 10380), (1, 12107), (28, 10381), (4, 12109), (1, 0), (1, 10382), (2, 10383), (4, 10384),
    (8, 10385), (15, 10386), (1, 12107), (30, 10387), (2, 12108), (31, 10388), (1, 12107), (16, 10388),
    (16, 12111)]"

definition oneSuitVal_14 :: "(int \<times> int) list" where
  "oneSuitVal_14 = [
    (3, 0), (1, 10389), (1, 0), (1, 10390), (2, 10391), (1, 0), (1, 10392), (2, 10393), (4, 10394), (1, 0),
    (1, 10395), (2, 10396), (4, 10397), (7, 10398), (1, 12107), (1, 0), (1, 10399), (2, 10400), (4, 10401),
    (8, 10402), (14, 10403), (2, 12108), (1, 0), (1, 10404), (2, 10405), (4, 10406), (8, 10407),
    (15, 10408), (1, 12107), (28, 10409), (4, 12109), (1, 0), (1, 10410), (2, 10411), (4, 10412),
    (8, 10413), (15, 10414), (1, 12107), (30, 10415), (2, 12108), (31, 10416), (1, 12107), (24, 10416),
    (8, 12110)]"

definition oneSuitVal_15 :: "(int \<times> int) list" where
  "oneSuitVal_15 = [
    (1, 0), (1, 10417), (2, 10418), (4, 10419), (8, 10420), (15, 10421), (1, 12107), (30, 10422),
    (2, 12108), (31, 10423), (1, 12107), (28, 10423), (4, 12109), (128, 12114)]"

definition oneSuitVal_16 :: "(int \<times> int) list" where
  "oneSuitVal_16 = [
    (15, 0), (1, 12106), (7, 0), (1, 10426), (3, 0), (1, 10427), (1, 0), (1, 10428), (1, 10429), (1, 12107),
    (7, 0), (1, 10430), (3, 0), (1, 10431), (1, 0), (1, 10432), (1, 10433), (1, 12106), (3, 0), (1, 10434),
    (1, 0), (1, 10435), (2, 10436), (1, 0), (1, 10437), (2, 10438), (2, 10439), (2, 12108), (7, 0),
    (1, 10440), (3, 0), (1, 10441), (1, 0), (1, 10442), (1, 10443), (1, 12106), (3, 0), (1, 10444), (1, 0),
    (1, 10445), (2, 10446), (1, 0), (1, 10447), (2, 10448), (3, 10449), (1, 12107), (3, 0), (1, 10450),
    (1, 0), (1, 10451), (2, 10452), (1, 0), (1, 10453), (2, 10454), (3, 10455), (1, 12106), (1, 0),
    (1, 10456), (2, 10457), (4, 10458), (4, 10459), (4, 12109), (7, 0), (1, 10460), (3, 0), (1, 10461),
    (1, 0), (1, 10462), (1, 10463), (1, 12106), (3, 0), (1, 10464), (1, 0), (1, 10465), (2, 10466), (1, 0),
    (1, 10467), (2, 10468), (3, 10469), (1, 12107), (3, 0), (1, 10470), (1, 0), (1, 10471), (2, 10472),
    (1, 0), (1, 10473), (2, 10474), (3, 10475), (1, 12106), (1, 0), (1, 10476), (2, 10477), (4, 10478),
    (6, 10479), (2, 12108), (3, 0), (1, 10480), (1, 0), (1, 10481), (2, 10482), (1, 0), (1, 10483),
    (2, 10484), (3, 10485), (1, 12106), (1, 0), (1, 10486), (2, 10487), (4, 10488), (7, 10489), (1, 12107),
    (1, 0), (1, 10490), (2, 10491), (4, 10492), (7, 10493), (1, 12106), (8, 10494), (8, 12110)]"

definition oneSuitVal_17 :: "(int \<times> int) list" where
  "oneSuitVal_17 = [
    (7, 0), (1, 10495), (3, 0), (1, 10496), (1, 0), (1, 10497), (1, 10498), (1, 12106), (3, 0), (1, 10499),
    (1, 0), (1, 10500), (2, 10501), (1, 0), (1, 10502), (2, 10503), (3, 10504), (1, 12107), (3, 0),
    (1, 10505), (1, 0), (1, 10506), (2, 10507), (1, 0), (1, 10508), (2, 10509), (3, 10510), (1, 12106),
    (1, 0), (1, 10511), (2, 10512), (4, 10513), (6, 10514), (2, 12108), (3, 0), (1, 10515), (1, 0),
    (1, 10516), (2, 10517), (1, 0), (1, 10518), (2, 10519), (3, 10520), (1, 12106), (1, 0), (1, 10521),
    (2, 10522), (4, 10523), (7, 10524), (1, 12107), (1, 0), (1, 10525), (2, 10526), (4, 10527), (7, 10528),
    (1, 12106), (12, 10529), (4, 12109), (3, 0), (1, 10530), (1, 0), (1, 10531), (2, 10532), (1, 0),
    (1, 10533), (2, 10534), (3, 10535), (1, 12106), (1, 0), (1, 10536), (2, 10537), (4, 10538), (7, 10539),
    (1, 12107), (1, 0), (1, 10540), (2, 10541), (4, 10542), (7, 10543), (1, 12106), (14, 10544), (2, 12108),
    (1, 0), (1, 10545), (2, 10546), (4, 10547), (7, 10548), (1, 12106), (15, 10549), (1, 12107),
    (15, 10550), (1, 12106), (16, 12111)]"

definition oneSuitVal_18 :: "(int \<times> int) list" where
  "oneSuitVal_18 = [
    (7, 0), (1, 10551), (3, 0), (1, 10552), (1, 0), (1, 10553), (1, 10554), (1, 12106), (3, 0), (1, 10555),
    (1, 0), (1, 10556), (2, 10557), (1, 0), (1, 10558), (2, 10559), (3, 10560), (1, 12107), (3, 0),
    (1, 10561), (1, 0), (1, 10562), (2, 10563), (1, 0), (1, 10564), (2, 10565), (3, 10566), (1, 12106),
    (1, 0), (1, 10567), (2, 10568), (4, 10569), (6, 10570), (2, 12108), (3, 0), (1, 10571), (1, 0),
    (1, 10572), (2, 10573), (1, 0), (1, 10574), (2, 10575), (3, 10576), (1, 12106), (1, 0), (1, 10577),
    (2, 10578), (4, 10579), (7, 10580), (1, 12107), (1, 0), (1, 10581), (2, 10582), (4, 10583), (7, 10584),
    (1, 12106), (12, 10585), (4, 12109), (3, 0), (1, 10586), (1, 0), (1, 10587), (2, 10588), (1, 0),
    (1, 10589), (2, 10590), (3, 10591), (1, 12106), (1, 0), (1, 10592), (2, 10593), (4, 10594), (7, 10595),
    (1, 12107), (1, 0), (1, 10596), (2, 10597), (4, 10598), (7, 10599), (1, 12106), (14, 10600), (2, 12108),
    (1, 0), (1, 10601), (2, 10602), (4, 10603), (7, 10604), (1, 12106), (15, 10605), (1, 12107),
    (15, 10606), (1, 12106), (8, 10606), (8, 12110)]"

definition oneSuitVal_19 :: "(int \<times> int) list" where
  "oneSuitVal_19 = [
    (3, 0), (1, 10607), (1, 0), (1, 10608), (2, 10609), (1, 0), (1, 10610), (2, 10611), (3, 10612),
    (1, 12106), (1, 0), (1, 10613), (2, 10614), (4, 10615), (7, 10616), (1, 12107), (1, 0), (1, 10617),
    (2, 10618), (4, 10619), (7, 10620), (1, 12106), (14, 10621), (2, 12108), (1, 0), (1, 10622), (2, 10623),
    (4, 10624), (7, 10625), (1, 12106), (15, 10626), (1, 12107), (15, 10627), (1, 12106), (12, 10627),
    (4, 12109), (1, 0), (1, 10628), (2, 10629), (4, 10630), (7, 10631), (1, 12106), (15, 10632), (1, 12107),
    (15, 10633), (1, 12106), (14, 10633), (2, 12108), (15, 10634), (1, 12106), (15, 10634), (1, 12107),
    (32, 12112)]"

definition oneSuitVal_20 :: "(int \<times> int) list" where
  "oneSuitVal_20 = [
    (7, 0), (1, 10635), (3, 0), (1, 10636), (1, 0), (1, 10637), (1, 10638), (1, 12106), (3, 0), (1, 10639),
    (1, 0), (1, 10640), (2, 10641), (1, 0), (1, 10642), (2, 10643), (3, 10644), (1, 12107), (3, 0),
    (1, 10645), (1, 0), (1, 10646), (2, 10647), (1, 0), (1, 10648), (2, 10649), (3, 10650), (1, 12106),
    (1, 0), (1, 10651), (2, 10652), (4, 10653), (6, 10654), (2, 12108), (3, 0), (1, 10655), (1, 0),
    (1, 10656), (2, 10657), (1, 0), (1, 10658), (2, 10659), (3, 10660), (1, 12106), (1, 0), (1, 10661),
    (2, 10662), (4, 10663), (7, 10664), (1, 12107), (1, 0), (1, 10665), (2, 10666), (4, 10667), (7, 10668),
    (1, 12106), (12, 10669), (4, 12109), (3, 0), (1, 10670), (1, 0), (1, 10671), (2, 10672), (1, 0),
    (1, 10673), (2, 10674), (3, 10675), (1, 12106), (1, 0), (1, 10676), (2, 10677), (4, 10678), (7, 10679),
    (1, 12107), (1, 0), (1, 10680), (2, 10681), (4, 10682), (7, 10683), (1, 12106), (14, 10684), (2, 12108),
    (1, 0), (1, 10685), (2, 10686), (4, 10687), (7, 10688), (1, 12106), (15, 10689), (1, 12107),
    (15, 10690), (1, 12106), (8, 10690), (8, 12110)]"

definition oneSuitVal_21 :: "(int \<times> int) list" where
  "oneSuitVal_21 = [
    (3, 0), (1, 10691), (1, 0), (1, 10692), (2, 10693), (1, 0), (1, 10694), (2, 10695), (3, 10696),
    (1, 12106), (1, 0), (1, 10697), (2, 10698), (4, 10699), (7, 10700), (1, 12107), (1, 0), (1, 10701),
    (2, 10702), (4, 10703), (7, 10704), (1, 12106), (14, 10705), (2, 12108), (1, 0), (1, 10706), (2, 10707),
    (4, 10708), (7, 10709), (1, 12106), (15, 10710), (1, 12107), (15, 10711), (1, 12106), (12, 10711),
    (4, 12109), (1, 0), (1, 10712), (2, 10713), (4, 10714), (7, 10715), (1, 12106), (15, 10716), (1, 12107),
    (15, 10717), (1, 12106), (14, 10717), (2, 12108), (15, 10718), (1, 12106), (15, 10718), (1, 12107),
    (15, 10718), (1, 12106), (16, 12111)]"

definition oneSuitVal_22 :: "(int \<times> int) list" where
  "oneSuitVal_22 = [
    (3, 0), (1, 10719), (1, 0), (1, 10720), (2, 10721), (1, 0), (1, 10722), (2, 10723), (3, 10724),
    (1, 12106), (1, 0), (1, 10725), (2, 10726), (4, 10727), (7, 10728), (1, 12107), (1, 0), (1, 10729),
    (2, 10730), (4, 10731), (7, 10732), (1, 12106), (14, 10733), (2, 12108), (1, 0), (1, 10734), (2, 10735),
    (4, 10736), (7, 10737), (1, 12106), (15, 10738), (1, 12107), (15, 10739), (1, 12106), (12, 10739),
    (4, 12109), (1, 0), (1, 10740), (2, 10741), (4, 10742), (7, 10743), (1, 12106), (15, 10744), (1, 12107),
    (15, 10745), (1, 12106), (14, 10745), (2, 12108), (15, 10746), (1, 12106), (15, 10746), (1, 12107),
    (15, 10746), (1, 12106), (8, 10746), (8, 12110)]"

definition oneSuitVal_23 :: "(int \<times> int) list" where
  "oneSuitVal_23 = [
    (1, 0), (1, 10747), (2, 10748), (4, 10749), (7, 10750), (1, 12106), (15, 10751), (1, 12107),
    (15, 10752), (1, 12106), (14, 10752), (2, 12108), (15, 10753), (1, 12106), (15, 10753), (1, 12107),
    (15, 10753), (1, 12106), (12, 10753), (4, 12109), (15, 10754), (1, 12106), (15, 10754), (1, 12107),
    (15, 10754), (1, 12106), (14, 10754), (2, 12108), (64, 12113)]"

definition oneSuitVal_24 :: "(int \<times> int) list" where
  "oneSuitVal_24 = [
    (7, 0), (1, 10755), (3, 0), (1, 10756), (1, 0), (1, 10757), (1, 10758), (1, 12106), (3, 0), (1, 10759),
    (1, 0), (1, 10760), (2, 10761), (1, 0), (1, 10762), (2, 10763), (3, 10764), (1, 12107), (3, 0),
    (1, 10765), (1, 0), (1, 10766), (2, 10767), (1, 0), (1, 10768), (2, 10769), (3, 10770), (1, 12106),
    (1, 0), (1, 10771), (2, 10772), (4, 10773), (6, 10774), (2, 12108), (3, 0), (1, 10775), (1, 0),
    (1, 10776), (2, 10777), (1, 0), (1, 10778), (2, 10779), (3, 10780), (1, 12106), (1, 0), (1, 10781),
    (2, 10782), (4, 10783), (7, 10784), (1, 12107), (1, 0), (1, 10785), (2, 10786), (4, 10787), (7, 10788),
    (1, 12106), (12, 10789), (4, 12109), (3, 0), (1, 10790), (1, 0), (1, 10791), (2, 10792), (1, 0),
    (1, 10793), (2, 10794), (3, 10795), (1, 12106), (1, 0), (1, 10796), (2, 10797), (4, 10798), (7, 10799),
    (1, 12107), (1, 0), (1, 10800), (2, 10801), (4, 10802), (7, 10803), (1, 12106), (14, 10804), (2, 12108),
    (1, 0), (1, 10805), (2, 10806), (4, 10807), (7, 10808), (1, 12106), (15, 10809), (1, 12107),
    (15, 10810), (1, 12106), (8, 10810), (8, 12110)]"

definition oneSuitVal_25 :: "(int \<times> int) list" where
  "oneSuitVal_25 = [
    (3, 0), (1, 10811), (1, 0), (1, 10812), (2, 10813), (1, 0), (1, 10814), (2, 10815), (3, 10816),
    (1, 12106), (1, 0), (1, 10817), (2, 10818), (4, 10819), (7, 10820), (1, 12107), (1, 0), (1, 10821),
    (2, 10822), (4, 10823), (7, 10824), (1, 12106), (14, 10825), (2, 12108), (1, 0), (1, 10826), (2, 10827),
    (4, 10828), (7, 10829), (1, 12106), (15, 10830), (1, 12107), (15, 10831), (1, 12106), (12, 10831),
    (4, 12109), (1, 0), (1, 10832), (2, 10833), (4, 10834), (7, 10835), (1, 12106), (15, 10836), (1, 12107),
    (15, 10837), (1, 12106), (14, 10837), (2, 12108), (15, 10838), (1, 12106), (15, 10838), (1, 12107),
    (15, 10838), (1, 12106), (16, 12111)]"

definition oneSuitVal_26 :: "(int \<times> int) list" where
  "oneSuitVal_26 = [
    (3, 0), (1, 10839), (1, 0), (1, 10840), (2, 10841), (1, 0), (1, 10842), (2, 10843), (3, 10844),
    (1, 12106), (1, 0), (1, 10845), (2, 10846), (4, 10847), (7, 10848), (1, 12107), (1, 0), (1, 10849),
    (2, 10850), (4, 10851), (7, 10852), (1, 12106), (14, 10853), (2, 12108), (1, 0), (1, 10854), (2, 10855),
    (4, 10856), (7, 10857), (1, 12106), (15, 10858), (1, 12107), (15, 10859), (1, 12106), (12, 10859),
    (4, 12109), (1, 0), (1, 10860), (2, 10861), (4, 10862), (7, 10863), (1, 12106), (15, 10864), (1, 12107),
    (15, 10865), (1, 12106), (14, 10865), (2, 12108), (15, 10866), (1, 12106), (15, 10866), (1, 12107),
    (15, 10866), (1, 12106), (8, 10866), (8, 12110)]"

definition oneSuitVal_27 :: "(int \<times> int) list" where
  "oneSuitVal_27 = [
    (1, 0), (1, 10867), (2, 10868), (4, 10869), (7, 10870), (1, 12106), (15, 10871), (1, 12107),
    (15, 10872), (1, 12106), (14, 10872), (2, 12108), (15, 10873), (1, 12106), (15, 10873), (1, 12107),
    (15, 10873), (1, 12106), (12, 10873), (4, 12109), (15, 10874), (1, 12106), (15, 10874), (1, 12107),
    (15, 10874), (1, 12106), (14, 10874), (2, 12108), (15, 10874), (1, 12106), (15, 10874), (1, 12107),
    (32, 12112)]"

definition oneSuitVal_28 :: "(int \<times> int) list" where
  "oneSuitVal_28 = [
    (3, 0), (1, 10875), (1, 0), (1, 10876), (2, 10877), (1, 0), (1, 10878), (2, 10879), (3, 10880),
    (1, 12106), (1, 0), (1, 10881), (2, 10882), (4, 10883), (7, 10884), (1, 12107), (1, 0), (1, 10885),
    (2, 10886), (4, 10887), (7, 10888), (1, 12106), (14, 10889), (2, 12108), (1, 0), (1, 10890), (2, 10891),
    (4, 10892), (7, 10893), (1, 12106), (15, 10894), (1, 12107), (15, 10895), (1, 12106), (12, 10895),
    (4, 12109), (1, 0), (1, 10896), (2, 10897), (4, 10898), (7, 10899), (1, 12106), (15, 10900), (1, 12107),
    (15, 10901), (1, 12106), (14, 10901), (2, 12108), (15, 10902), (1, 12106), (15, 10902), (1, 12107),
    (15, 10902), (1, 12106), (8, 10902), (8, 12110)]"

definition oneSuitVal_29 :: "(int \<times> int) list" where
  "oneSuitVal_29 = [
    (1, 0), (1, 10903), (2, 10904), (4, 10905), (7, 10906), (1, 12106), (15, 10907), (1, 12107),
    (15, 10908), (1, 12106), (14, 10908), (2, 12108), (15, 10909), (1, 12106), (15, 10909), (1, 12107),
    (15, 10909), (1, 12106), (12, 10909), (4, 12109), (15, 10910), (1, 12106), (15, 10910), (1, 12107),
    (15, 10910), (1, 12106), (14, 10910), (2, 12108), (15, 10910), (1, 12106), (15, 10910), (1, 12107),
    (15, 10910), (1, 12106), (16, 12111)]"

definition oneSuitVal_30 :: "(int \<times> int) list" where
  "oneSuitVal_30 = [
    (1, 0), (1, 10911), (2, 10912), (4, 10913), (7, 10914), (1, 12106), (15, 10915), (1, 12107),
    (15, 10916), (1, 12106), (14, 10916), (2, 12108), (15, 10917), (1, 12106), (15, 10917), (1, 12107),
    (15, 10917), (1, 12106), (12, 10917), (4, 12109), (15, 10918), (1, 12106), (15, 10918), (1, 12107),
    (15, 10918), (1, 12106), (14, 10918), (2, 12108), (15, 10918), (1, 12106), (15, 10918), (1, 12107),
    (15, 10918), (1, 12106), (8, 10918), (8, 12110)]"

definition oneSuitVal_31 :: "(int \<times> int) list" where
  "oneSuitVal_31 = [
    (256, 12115)]"

definition oneSuitVal_blocks :: "(int \<times> int) list list" where
  "oneSuitVal_blocks = [
    oneSuitVal_0, oneSuitVal_1, oneSuitVal_2, oneSuitVal_3, oneSuitVal_4, oneSuitVal_5, oneSuitVal_6,
    oneSuitVal_7, oneSuitVal_8, oneSuitVal_9, oneSuitVal_10, oneSuitVal_11, oneSuitVal_12, oneSuitVal_13,
    oneSuitVal_14, oneSuitVal_15, oneSuitVal_16, oneSuitVal_17, oneSuitVal_18, oneSuitVal_19, oneSuitVal_20,
    oneSuitVal_21, oneSuitVal_22, oneSuitVal_23, oneSuitVal_24, oneSuitVal_25, oneSuitVal_26, oneSuitVal_27,
    oneSuitVal_28, oneSuitVal_29, oneSuitVal_30, oneSuitVal_31]"

definition oneSuitVal :: "int \<Rightarrow> int option" where
  "oneSuitVal = table_at (concat oneSuitVal_blocks)"

section \<open>The table \<open>pairOtherVal\<close>\<close>

definition pairOtherVal_0 :: "(int \<times> int) list" where
  "pairOtherVal_0 = [
    (2, 0), (1, 1), (1, 0), (1, 2), (1, 1), (1, 2), (1, 0), (2, 3), (1, 4), (1, 1), (1, 5), (1, 2), (2, 3),
    (1, 4), (1, 6), (1, 7), (1, 4), (1, 8), (1, 5), (2, 6), (1, 9), (1, 7), (2, 8), (4, 9), (1, 5), (1, 10),
    (1, 11), (1, 10), (1, 12), (1, 11), (2, 12), (2, 13), (2, 14), (4, 15), (1, 14), (1, 16), (2, 17),
    (4, 18), (8, 19), (1, 6), (1, 15), (1, 16), (1, 20), (1, 17), (1, 21), (2, 22), (1, 18), (1, 23),
    (2, 24), (4, 25), (1, 19), (1, 26), (2, 27), (4, 28), (8, 29), (1, 20), (1, 30), (2, 31), (4, 32),
    (8, 33)]"

definition pairOtherVal_1 :: "(int \<times> int) list" where
  "pairOtherVal_1 = [
    (16, 34), (1, 7), (1, 21), (1, 22), (1, 35), (1, 23), (1, 36), (2, 37), (1, 24), (1, 38), (2, 39),
    (4, 40), (1, 25), (1, 41), (2, 42), (4, 43), (8, 44), (1, 26), (1, 45), (2, 46), (4, 47), (8, 48),
    (16, 49), (1, 27), (1, 50), (2, 51), (4, 52), (8, 53), (16, 54), (32, 55), (1, 8), (1, 28), (1, 29),
    (1, 56), (1, 30), (1, 57), (2, 58), (1, 31), (1, 59), (2, 60), (4, 61), (1, 32), (1, 62), (2, 63),
    (4, 64), (8, 65), (1, 33), (1, 66), (2, 67), (4, 68), (8, 69), (16, 70), (1, 34), (1, 71), (2, 72),
    (4, 73), (8, 74), (16, 75), (32, 76), (1, 35)]"

definition pairOtherVal_2 :: "(int \<times> int) list" where
  "pairOtherVal_2 = [
    (1, 77), (2, 78), (4, 79), (8, 80), (16, 81), (32, 82), (64, 83), (1, 9), (1, 36), (1, 37), (1, 84),
    (1, 38), (1, 85), (2, 86), (1, 39), (1, 87), (2, 88), (4, 89), (1, 40), (1, 90), (2, 91), (4, 92),
    (8, 93), (1, 41), (1, 94), (2, 95), (4, 96), (8, 97), (16, 98), (1, 42), (1, 99), (2, 100), (4, 101),
    (8, 102), (16, 103), (32, 104), (1, 43), (1, 105), (2, 106), (4, 107), (8, 108), (16, 109), (32, 110),
    (64, 111), (1, 44), (1, 112), (2, 113), (4, 114), (8, 115), (16, 116), (32, 117), (64, 118), (128, 119),
    (1, 10), (1, 45), (1, 46), (1, 120), (1, 47), (1, 121), (2, 122)]"

definition pairOtherVal_3 :: "(int \<times> int) list" where
  "pairOtherVal_3 = [
    (1, 48), (1, 123), (2, 124), (4, 125), (1, 49), (1, 126), (2, 127), (4, 128), (8, 129), (1, 50),
    (1, 130), (2, 131), (4, 132), (8, 133), (16, 134), (1, 51), (1, 135), (2, 136), (4, 137), (8, 138),
    (16, 139), (32, 140), (1, 52), (1, 141), (2, 142), (4, 143), (8, 144), (16, 145), (32, 146), (64, 147),
    (1, 53), (1, 148), (2, 149), (4, 150), (8, 151), (16, 152), (32, 153), (64, 154), (128, 155), (1, 54),
    (1, 156), (2, 157), (4, 158), (8, 159), (16, 160), (32, 161), (64, 162), (128, 163), (256, 164), (1, 11),
    (1, 55), (1, 56), (1, 165), (1, 57), (1, 166), (2, 167), (1, 58), (1, 168), (2, 169), (4, 170)]"

definition pairOtherVal_4 :: "(int \<times> int) list" where
  "pairOtherVal_4 = [
    (1, 59), (1, 171), (2, 172), (4, 173), (8, 174), (1, 60), (1, 175), (2, 176), (4, 177), (8, 178),
    (16, 179), (1, 61), (1, 180), (2, 181), (4, 182), (8, 183), (16, 184), (32, 185), (1, 62), (1, 186),
    (2, 187), (4, 188), (8, 189), (16, 190), (32, 191), (64, 192), (1, 63), (1, 193), (2, 194), (4, 195),
    (8, 196), (16, 197), (32, 198), (64, 199), (128, 200), (1, 64), (1, 201), (2, 202), (4, 203), (8, 204),
    (16, 205), (32, 206), (64, 207), (128, 208), (256, 209), (1, 65), (1, 210), (2, 211), (4, 212), (8, 213),
    (16, 214), (32, 215), (64, 216), (128, 217), (256, 218), (512, 219), (1, 12), (1, 66), (1, 67), (1, 220)]"

definition pairOtherVal_5 :: "(int \<times> int) list" where
  "pairOtherVal_5 = [
    (1, 68), (1, 221), (2, 222), (1, 69), (1, 223), (2, 224), (4, 225), (1, 70), (1, 226), (2, 227),
    (4, 228), (8, 229), (1, 71), (1, 230), (2, 231), (4, 232), (8, 233), (16, 234), (1, 72), (1, 235),
    (2, 236), (4, 237), (8, 238), (16, 239), (32, 240), (1, 73), (1, 241), (2, 242), (4, 243), (8, 244),
    (16, 245), (32, 246), (64, 247), (1, 74), (1, 248), (2, 249), (4, 250), (8, 251), (16, 252), (32, 253),
    (64, 254), (128, 255), (1, 75), (1, 256), (2, 257), (4, 258), (8, 259), (16, 260), (32, 261), (64, 262),
    (128, 263), (256, 264), (1, 76), (1, 265), (2, 266), (4, 267), (8, 268), (16, 269), (32, 270), (64, 271)]"

definition pairOtherVal_6 :: "(int \<times> int) list" where
  "pairOtherVal_6 = [
    (128, 272), (256, 273), (512, 274), (1, 77), (1, 275), (2, 276), (4, 277), (8, 278), (16, 279),
    (32, 280), (64, 281), (128, 282), (256, 283), (512, 284), (1024, 285)]"

definition pairOtherVal_runs :: "(int \<times> int) list" where
  "pairOtherVal_runs =
     pairOtherVal_0 @ pairOtherVal_1 @ pairOtherVal_2 @ pairOtherVal_3 @ pairOtherVal_4 @ pairOtherVal_5 @
     pairOtherVal_6"

definition pairOtherVal :: "int \<Rightarrow> int option" where
  "pairOtherVal = table_at pairOtherVal_runs"

section \<open>The table \<open>anySuitVal\<close>\<close>

definition anySuitVal_0 :: "(int \<times> int) list" where
  "anySuitVal_0 = [
    (2, 0), (1, 1), (1, 0), (1, 2), (1, 1), (1, 2), (1, 0), (2, 3), (1, 4), (1, 1), (1, 5), (1, 2), (1, 3),
    (1, 0), (1, 4), (1, 6), (1, 7), (1, 4), (1, 8), (1, 5), (1, 6), (1, 1), (1, 9), (1, 7), (1, 8), (1, 2),
    (1, 9), (1, 3), (1, 4), (1, 9624), (1, 5), (1, 10), (1, 11), (1, 10), (1, 12), (1, 11), (1, 12), (1, 5),
    (2, 13), (1, 14), (1, 6), (1, 15), (1, 7), (1, 8), (1, 1), (1, 14), (1, 16), (1, 17), (1, 9), (1, 18),
    (1, 10), (1, 11), (1, 2), (1, 19), (1, 12), (1, 13), (1, 3), (1, 14), (1, 4), (2, 9625), (1, 6),
    (1, 15), (1, 16), (1, 20), (1, 17), (1, 21), (1, 22), (1, 15), (1, 18), (1, 23), (1, 24), (1, 16),
    (1, 25), (1, 17), (1, 18), (1, 6), (1, 19), (1, 26), (1, 27), (1, 19), (1, 28), (1, 20), (1, 21),
    (1, 7), (1, 29), (1, 22), (1, 23), (1, 8), (1, 24), (1, 9), (1, 10), (1, 9624), (1, 20), (1, 30),
    (1, 31), (1, 25), (1, 32), (1, 26), (1, 27), (1, 11), (1, 33), (1, 28), (1, 29), (1, 12), (1, 30),
    (1, 13), (2, 14), (1, 34), (1, 31), (1, 32), (1, 15), (1, 33), (1, 16), (2, 17), (1, 34), (1, 18),
    (2, 19), (4, 9626), (1, 7), (1, 21), (1, 22), (1, 35), (1, 23), (1, 36), (1, 37), (1, 35), (1, 24),
    (1, 38), (1, 39), (1, 36), (1, 40), (1, 37), (1, 38), (1, 21), (1, 25), (1, 41), (1, 42), (1, 39),
    (1, 43), (1, 40), (1, 41), (1, 22), (1, 44), (1, 42), (1, 43), (1, 23), (1, 44), (1, 24), (1, 25),
    (1, 9624), (1, 26), (1, 45), (1, 46), (1, 45), (1, 47), (1, 46), (1, 47), (1, 26), (2, 48), (1, 49),
    (1, 27), (1, 50), (1, 28), (2, 29), (1, 49), (1, 51), (1, 52), (1, 30), (1, 53), (1, 31), (2, 32),
    (1, 54), (1, 33), (2, 34), (2, 35), (2, 9625), (1, 27), (1, 50), (1, 51), (1, 55), (1, 52), (1, 56),
    (1, 57), (1, 36), (1, 53), (1, 58), (1, 59), (1, 37), (1, 60), (1, 38), (2, 39), (1, 54), (1, 61),
    (1, 62), (1, 40), (1, 63), (1, 41), (2, 42), (1, 64), (1, 43), (2, 44), (3, 45), (1, 9624), (1, 55),
    (1, 65), (1, 66), (1, 46), (1, 67), (1, 47), (2, 48), (1, 68), (1, 49), (2, 50), (4, 51), (1, 69),
    (1, 52), (2, 53), (4, 54), (8, 9627)]"

definition anySuitVal_1 :: "(int \<times> int) list" where
  "anySuitVal_1 = [
    (1, 8), (1, 28), (1, 29), (1, 56), (1, 30), (1, 57), (1, 58), (1, 70), (1, 31), (1, 59), (1, 60),
    (1, 71), (1, 61), (1, 72), (1, 73), (1, 56), (1, 32), (1, 62), (1, 63), (1, 74), (1, 64), (1, 75),
    (1, 76), (1, 57), (1, 65), (1, 77), (1, 78), (1, 58), (1, 79), (1, 59), (1, 60), (1, 9624), (1, 33),
    (1, 66), (1, 67), (1, 80), (1, 68), (1, 81), (1, 82), (1, 61), (1, 69), (1, 83), (1, 84), (1, 62),
    (1, 85), (1, 63), (2, 64), (1, 70), (1, 86), (1, 87), (1, 65), (1, 88), (1, 66), (2, 67), (1, 89),
    (1, 68), (2, 69), (2, 70), (2, 9625), (1, 34), (1, 71), (1, 72), (1, 90), (1, 73), (1, 91), (1, 92),
    (1, 71), (1, 74), (1, 93), (1, 94), (1, 72), (1, 95), (1, 73), (2, 74), (1, 75), (1, 96), (1, 97),
    (1, 75), (1, 98), (1, 76), (2, 77), (1, 99), (1, 78), (2, 79), (3, 80), (1, 9624), (1, 76), (1, 100),
    (1, 101), (1, 81), (1, 102), (1, 82), (2, 83), (1, 103), (1, 84), (2, 85), (4, 86), (1, 104), (1, 87),
    (2, 88), (4, 89), (4, 90), (4, 9626), (1, 35), (1, 77), (1, 78), (1, 105), (1, 79), (1, 106), (1, 107),
    (1, 91), (1, 80), (1, 108), (1, 109), (1, 92), (1, 110), (1, 93), (2, 94), (1, 81), (1, 111), (1, 112),
    (1, 95), (1, 113), (1, 96), (2, 97), (1, 114), (1, 98), (2, 99), (3, 100), (1, 9624), (1, 82), (1, 115),
    (1, 116), (1, 101), (1, 117), (1, 102), (2, 103), (1, 118), (1, 104), (2, 105), (4, 106), (1, 119),
    (1, 107), (2, 108), (4, 109), (6, 110), (2, 9625), (1, 83), (1, 120), (1, 121), (1, 111), (1, 122),
    (1, 112), (2, 113), (1, 123), (1, 114), (2, 115), (4, 116), (1, 124), (1, 117), (2, 118), (4, 119),
    (7, 120), (1, 9624), (1, 125), (1, 121), (2, 122), (4, 123), (8, 124), (16, 9628)]"

definition anySuitVal_2 :: "(int \<times> int) list" where
  "anySuitVal_2 = [
    (1, 9), (1, 36), (1, 37), (1, 84), (1, 38), (1, 85), (1, 86), (1, 126), (1, 39), (1, 87), (1, 88),
    (1, 127), (1, 89), (1, 128), (1, 129), (1, 126), (1, 40), (1, 90), (1, 91), (1, 130), (1, 92), (1, 131),
    (1, 132), (1, 127), (1, 93), (1, 133), (1, 134), (1, 128), (1, 135), (1, 129), (1, 130), (1, 9624),
    (1, 41), (1, 94), (1, 95), (1, 136), (1, 96), (1, 137), (1, 138), (1, 131), (1, 97), (1, 139), (1, 140),
    (1, 132), (1, 141), (1, 133), (2, 134), (1, 98), (1, 142), (1, 143), (1, 135), (1, 144), (1, 136),
    (2, 137), (1, 145), (1, 138), (2, 139), (2, 140), (2, 9625), (1, 42), (1, 99), (1, 100), (1, 146),
    (1, 101), (1, 147), (1, 148), (1, 141), (1, 102), (1, 149), (1, 150), (1, 142), (1, 151), (1, 143),
    (2, 144), (1, 103), (1, 152), (1, 153), (1, 145), (1, 154), (1, 146), (2, 147), (1, 155), (1, 148),
    (2, 149), (3, 150), (1, 9624), (1, 104), (1, 156), (1, 157), (1, 151), (1, 158), (1, 152), (2, 153),
    (1, 159), (1, 154), (2, 155), (4, 156), (1, 160), (1, 157), (2, 158), (4, 159), (4, 160), (4, 9626),
    (1, 43), (1, 105), (1, 106), (1, 161), (1, 107), (1, 162), (1, 163), (1, 161), (1, 108), (1, 164),
    (1, 165), (1, 162), (1, 166), (1, 163), (2, 164), (1, 109), (1, 167), (1, 168), (1, 165), (1, 169),
    (1, 166), (2, 167), (1, 170), (1, 168), (2, 169), (3, 170), (1, 9624), (1, 110), (1, 171), (1, 172),
    (1, 171), (1, 173), (1, 172), (2, 173), (2, 174), (2, 175), (4, 176), (1, 175), (1, 177), (2, 178),
    (4, 179), (6, 180), (2, 9625), (1, 111), (1, 176), (1, 177), (1, 181), (1, 178), (1, 182), (2, 183),
    (1, 179), (1, 184), (2, 185), (4, 186), (1, 180), (1, 187), (2, 188), (4, 189), (7, 190), (1, 9624),
    (1, 181), (1, 191), (2, 192), (4, 193), (8, 194), (8, 195), (8, 9627)]"

definition anySuitVal_3 :: "(int \<times> int) list" where
  "anySuitVal_3 = [
    (1, 44), (1, 112), (1, 113), (1, 182), (1, 114), (1, 183), (1, 184), (1, 196), (1, 115), (1, 185),
    (1, 186), (1, 197), (1, 187), (1, 198), (2, 199), (1, 116), (1, 188), (1, 189), (1, 200), (1, 190),
    (1, 201), (2, 202), (1, 191), (1, 203), (2, 204), (3, 205), (1, 9624), (1, 117), (1, 192), (1, 193),
    (1, 206), (1, 194), (1, 207), (2, 208), (1, 195), (1, 209), (2, 210), (4, 211), (1, 196), (1, 212),
    (2, 213), (4, 214), (6, 215), (2, 9625), (1, 118), (1, 197), (1, 198), (1, 216), (1, 199), (1, 217),
    (2, 218), (1, 200), (1, 219), (2, 220), (4, 221), (1, 201), (1, 222), (2, 223), (4, 224), (7, 225),
    (1, 9624), (1, 202), (1, 226), (2, 227), (4, 228), (8, 229), (12, 230), (4, 9626), (1, 119), (1, 203),
    (1, 204), (1, 231), (1, 205), (1, 232), (2, 233), (1, 206), (1, 234), (2, 235), (4, 236), (1, 207),
    (1, 237), (2, 238), (4, 239), (7, 240), (1, 9624), (1, 208), (1, 241), (2, 242), (4, 243), (8, 244),
    (14, 245), (2, 9625), (1, 209), (1, 246), (2, 247), (4, 248), (8, 249), (15, 250), (1, 9624), (32, 9629)]"

definition anySuitVal_4 :: "(int \<times> int) list" where
  "anySuitVal_4 = [
    (1, 10), (1, 45), (1, 46), (1, 120), (1, 47), (1, 121), (1, 122), (1, 210), (1, 48), (1, 123), (1, 124),
    (1, 211), (1, 125), (1, 212), (1, 213), (1, 252), (1, 49), (1, 126), (1, 127), (1, 214), (1, 128),
    (1, 215), (1, 216), (1, 253), (1, 129), (1, 217), (1, 218), (1, 254), (1, 219), (1, 255), (1, 256),
    (1, 9624), (1, 50), (1, 130), (1, 131), (1, 220), (1, 132), (1, 221), (1, 222), (1, 257), (1, 133),
    (1, 223), (1, 224), (1, 258), (1, 225), (1, 259), (2, 260), (1, 134), (1, 226), (1, 227), (1, 261),
    (1, 228), (1, 262), (2, 263), (1, 229), (1, 264), (2, 265), (2, 266), (2, 9625), (1, 51), (1, 135),
    (1, 136), (1, 230), (1, 137), (1, 231), (1, 232), (1, 267), (1, 138), (1, 233), (1, 234), (1, 268),
    (1, 235), (1, 269), (2, 270), (1, 139), (1, 236), (1, 237), (1, 271), (1, 238), (1, 272), (2, 273),
    (1, 239), (1, 274), (2, 275), (3, 276), (1, 9624), (1, 140), (1, 240), (1, 241), (1, 277), (1, 242),
    (1, 278), (2, 279), (1, 243), (1, 280), (2, 281), (4, 282), (1, 244), (1, 283), (2, 284), (4, 285),
    (4, 286), (4, 9626), (1, 52), (1, 141), (1, 142), (1, 245), (1, 143), (1, 246), (1, 247), (1, 287),
    (1, 144), (1, 248), (1, 249), (1, 288), (1, 250), (1, 289), (2, 290), (1, 145), (1, 251), (1, 252),
    (1, 291), (1, 253), (1, 292), (2, 293), (1, 254), (1, 294), (2, 295), (3, 296), (1, 9624), (1, 146),
    (1, 255), (1, 256), (1, 297), (1, 257), (1, 298), (2, 299), (1, 258), (1, 300), (2, 301), (4, 302),
    (1, 259), (1, 303), (2, 304), (4, 305), (6, 306), (2, 9625), (1, 147), (1, 260), (1, 261), (1, 307),
    (1, 262), (1, 308), (2, 309), (1, 263), (1, 310), (2, 311), (4, 312), (1, 264), (1, 313), (2, 314),
    (4, 315), (7, 316), (1, 9624), (1, 265), (1, 317), (2, 318), (4, 319), (8, 320), (8, 321), (8, 9627)]"

definition anySuitVal_5 :: "(int \<times> int) list" where
  "anySuitVal_5 = [
    (1, 53), (1, 148), (1, 149), (1, 266), (1, 150), (1, 267), (1, 268), (1, 322), (1, 151), (1, 269),
    (1, 270), (1, 323), (1, 271), (1, 324), (2, 325), (1, 152), (1, 272), (1, 273), (1, 326), (1, 274),
    (1, 327), (2, 328), (1, 275), (1, 329), (2, 330), (3, 331), (1, 9624), (1, 153), (1, 276), (1, 277),
    (1, 332), (1, 278), (1, 333), (2, 334), (1, 279), (1, 335), (2, 336), (4, 337), (1, 280), (1, 338),
    (2, 339), (4, 340), (6, 341), (2, 9625), (1, 154), (1, 281), (1, 282), (1, 342), (1, 283), (1, 343),
    (2, 344), (1, 284), (1, 345), (2, 346), (4, 347), (1, 285), (1, 348), (2, 349), (4, 350), (7, 351),
    (1, 9624), (1, 286), (1, 352), (2, 353), (4, 354), (8, 355), (12, 356), (4, 9626), (1, 155), (1, 287),
    (1, 288), (1, 357), (1, 289), (1, 358), (2, 359), (1, 290), (1, 360), (2, 361), (4, 362), (1, 291),
    (1, 363), (2, 364), (4, 365), (7, 366), (1, 9624), (1, 292), (1, 367), (2, 368), (4, 369), (8, 370),
    (14, 371), (2, 9625), (1, 293), (1, 372), (2, 373), (4, 374), (8, 375), (15, 376), (1, 9624), (16, 377),
    (16, 9628)]"

definition anySuitVal_6 :: "(int \<times> int) list" where
  "anySuitVal_6 = [
    (1, 54), (1, 156), (1, 157), (1, 294), (1, 158), (1, 295), (1, 296), (1, 378), (1, 159), (1, 297),
    (1, 298), (1, 379), (1, 299), (1, 380), (2, 381), (1, 160), (1, 300), (1, 301), (1, 382), (1, 302),
    (1, 383), (2, 384), (1, 303), (1, 385), (2, 386), (3, 387), (1, 9624), (1, 161), (1, 304), (1, 305),
    (1, 388), (1, 306), (1, 389), (2, 390), (1, 307), (1, 391), (2, 392), (4, 393), (1, 308), (1, 394),
    (2, 395), (4, 396), (6, 397), (2, 9625), (1, 162), (1, 309), (1, 310), (1, 398), (1, 311), (1, 399),
    (2, 400), (1, 312), (1, 401), (2, 402), (4, 403), (1, 313), (1, 404), (2, 405), (4, 406), (7, 407),
    (1, 9624), (1, 314), (1, 408), (2, 409), (4, 410), (8, 411), (12, 412), (4, 9626), (1, 163), (1, 315),
    (1, 316), (1, 413), (1, 317), (1, 414), (2, 415), (1, 318), (1, 416), (2, 417), (4, 418), (1, 319),
    (1, 419), (2, 420), (4, 421), (7, 422), (1, 9624), (1, 320), (1, 423), (2, 424), (4, 425), (8, 426),
    (14, 427), (2, 9625), (1, 321), (1, 428), (2, 429), (4, 430), (8, 431), (15, 432), (1, 9624), (24, 433),
    (8, 9627)]"

definition anySuitVal_7 :: "(int \<times> int) list" where
  "anySuitVal_7 = [
    (1, 164), (1, 322), (1, 323), (1, 434), (1, 324), (1, 435), (2, 436), (1, 325), (1, 437), (2, 438),
    (4, 439), (1, 326), (1, 440), (2, 441), (4, 442), (7, 443), (1, 9624), (1, 327), (1, 444), (2, 445),
    (4, 446), (8, 447), (14, 448), (2, 9625), (1, 328), (1, 449), (2, 450), (4, 451), (8, 452), (15, 453),
    (1, 9624), (28, 454), (4, 9626), (1, 329), (1, 455), (2, 456), (4, 457), (8, 458), (15, 459), (1, 9624),
    (30, 460), (2, 9625), (64, 9630)]"

definition anySuitVal_8 :: "(int \<times> int) list" where
  "anySuitVal_8 = [
    (1, 11), (1, 55), (1, 56), (1, 165), (1, 57), (1, 166), (1, 167), (1, 330), (1, 58), (1, 168), (1, 169),
    (1, 331), (1, 170), (1, 332), (1, 333), (1, 462), (1, 59), (1, 171), (1, 172), (1, 334), (1, 173),
    (1, 335), (1, 336), (1, 463), (1, 174), (1, 337), (1, 338), (1, 464), (1, 339), (1, 465), (1, 466),
    (1, 9624), (1, 60), (1, 175), (1, 176), (1, 340), (1, 177), (1, 341), (1, 342), (1, 467), (1, 178),
    (1, 343), (1, 344), (1, 468), (1, 345), (1, 469), (2, 470), (1, 179), (1, 346), (1, 347), (1, 471),
    (1, 348), (1, 472), (2, 473), (1, 349), (1, 474), (2, 475), (2, 476), (2, 9625), (1, 61), (1, 180),
    (1, 181), (1, 350), (1, 182), (1, 351), (1, 352), (1, 477), (1, 183), (1, 353), (1, 354), (1, 478),
    (1, 355), (1, 479), (2, 480), (1, 184), (1, 356), (1, 357), (1, 481), (1, 358), (1, 482), (2, 483),
    (1, 359), (1, 484), (2, 485), (3, 486), (1, 9624), (1, 185), (1, 360), (1, 361), (1, 487), (1, 362),
    (1, 488), (2, 489), (1, 363), (1, 490), (2, 491), (4, 492), (1, 364), (1, 493), (2, 494), (4, 495),
    (4, 496), (4, 9626), (1, 62), (1, 186), (1, 187), (1, 365), (1, 188), (1, 366), (1, 367), (1, 497),
    (1, 189), (1, 368), (1, 369), (1, 498), (1, 370), (1, 499), (2, 500), (1, 190), (1, 371), (1, 372),
    (1, 501), (1, 373), (1, 502), (2, 503), (1, 374), (1, 504), (2, 505), (3, 506), (1, 9624), (1, 191),
    (1, 375), (1, 376), (1, 507), (1, 377), (1, 508), (2, 509), (1, 378), (1, 510), (2, 511), (4, 512),
    (1, 379), (1, 513), (2, 514), (4, 515), (6, 516), (2, 9625), (1, 192), (1, 380), (1, 381), (1, 517),
    (1, 382), (1, 518), (2, 519), (1, 383), (1, 520), (2, 521), (4, 522), (1, 384), (1, 523), (2, 524),
    (4, 525), (7, 526), (1, 9624), (1, 385), (1, 527), (2, 528), (4, 529), (8, 530), (8, 531), (8, 9627)]"

definition anySuitVal_9 :: "(int \<times> int) list" where
  "anySuitVal_9 = [
    (1, 63), (1, 193), (1, 194), (1, 386), (1, 195), (1, 387), (1, 388), (1, 532), (1, 196), (1, 389),
    (1, 390), (1, 533), (1, 391), (1, 534), (2, 535), (1, 197), (1, 392), (1, 393), (1, 536), (1, 394),
    (1, 537), (2, 538), (1, 395), (1, 539), (2, 540), (3, 541), (1, 9624), (1, 198), (1, 396), (1, 397),
    (1, 542), (1, 398), (1, 543), (2, 544), (1, 399), (1, 545), (2, 546), (4, 547), (1, 400), (1, 548),
    (2, 549), (4, 550), (6, 551), (2, 9625), (1, 199), (1, 401), (1, 402), (1, 552), (1, 403), (1, 553),
    (2, 554), (1, 404), (1, 555), (2, 556), (4, 557), (1, 405), (1, 558), (2, 559), (4, 560), (7, 561),
    (1, 9624), (1, 406), (1, 562), (2, 563), (4, 564), (8, 565), (12, 566), (4, 9626), (1, 200), (1, 407),
    (1, 408), (1, 567), (1, 409), (1, 568), (2, 569), (1, 410), (1, 570), (2, 571), (4, 572), (1, 411),
    (1, 573), (2, 574), (4, 575), (7, 576), (1, 9624), (1, 412), (1, 577), (2, 578), (4, 579), (8, 580),
    (14, 581), (2, 9625), (1, 413), (1, 582), (2, 583), (4, 584), (8, 585), (15, 586), (1, 9624), (16, 587),
    (16, 9628)]"

definition anySuitVal_10 :: "(int \<times> int) list" where
  "anySuitVal_10 = [
    (1, 64), (1, 201), (1, 202), (1, 414), (1, 203), (1, 415), (1, 416), (1, 588), (1, 204), (1, 417),
    (1, 418), (1, 589), (1, 419), (1, 590), (2, 591), (1, 205), (1, 420), (1, 421), (1, 592), (1, 422),
    (1, 593), (2, 594), (1, 423), (1, 595), (2, 596), (3, 597), (1, 9624), (1, 206), (1, 424), (1, 425),
    (1, 598), (1, 426), (1, 599), (2, 600), (1, 427), (1, 601), (2, 602), (4, 603), (1, 428), (1, 604),
    (2, 605), (4, 606), (6, 607), (2, 9625), (1, 207), (1, 429), (1, 430), (1, 608), (1, 431), (1, 609),
    (2, 610), (1, 432), (1, 611), (2, 612), (4, 613), (1, 433), (1, 614), (2, 615), (4, 616), (7, 617),
    (1, 9624), (1, 434), (1, 618), (2, 619), (4, 620), (8, 621), (12, 622), (4, 9626), (1, 208), (1, 435),
    (1, 436), (1, 623), (1, 437), (1, 624), (2, 625), (1, 438), (1, 626), (2, 627), (4, 628), (1, 439),
    (1, 629), (2, 630), (4, 631), (7, 632), (1, 9624), (1, 440), (1, 633), (2, 634), (4, 635), (8, 636),
    (14, 637), (2, 9625), (1, 441), (1, 638), (2, 639), (4, 640), (8, 641), (15, 642), (1, 9624), (24, 643),
    (8, 9627)]"

definition anySuitVal_11 :: "(int \<times> int) list" where
  "anySuitVal_11 = [
    (1, 209), (1, 442), (1, 443), (1, 644), (1, 444), (1, 645), (2, 646), (1, 445), (1, 647), (2, 648),
    (4, 649), (1, 446), (1, 650), (2, 651), (4, 652), (7, 653), (1, 9624), (1, 447), (1, 654), (2, 655),
    (4, 656), (8, 657), (14, 658), (2, 9625), (1, 448), (1, 659), (2, 660), (4, 661), (8, 662), (15, 663),
    (1, 9624), (28, 664), (4, 9626), (1, 449), (1, 665), (2, 666), (4, 667), (8, 668), (15, 669), (1, 9624),
    (30, 670), (2, 9625), (31, 671), (1, 9624), (32, 9629)]"

definition anySuitVal_12 :: "(int \<times> int) list" where
  "anySuitVal_12 = [
    (1, 65), (1, 210), (1, 211), (1, 450), (1, 212), (1, 451), (1, 452), (1, 672), (1, 213), (1, 453),
    (1, 454), (1, 673), (1, 455), (1, 674), (2, 675), (1, 214), (1, 456), (1, 457), (1, 676), (1, 458),
    (1, 677), (2, 678), (1, 459), (1, 679), (2, 680), (3, 681), (1, 9624), (1, 215), (1, 460), (1, 461),
    (1, 682), (1, 462), (1, 683), (2, 684), (1, 463), (1, 685), (2, 686), (4, 687), (1, 464), (1, 688),
    (2, 689), (4, 690), (6, 691), (2, 9625), (1, 216), (1, 465), (1, 466), (1, 692), (1, 467), (1, 693),
    (2, 694), (1, 468), (1, 695), (2, 696), (4, 697), (1, 469), (1, 698), (2, 699), (4, 700), (7, 701),
    (1, 9624), (1, 470), (1, 702), (2, 703), (4, 704), (8, 705), (12, 706), (4, 9626), (1, 217), (1, 471),
    (1, 472), (1, 707), (1, 473), (1, 708), (2, 709), (1, 474), (1, 710), (2, 711), (4, 712), (1, 475),
    (1, 713), (2, 714), (4, 715), (7, 716), (1, 9624), (1, 476), (1, 717), (2, 718), (4, 719), (8, 720),
    (14, 721), (2, 9625), (1, 477), (1, 722), (2, 723), (4, 724), (8, 725), (15, 726), (1, 9624), (24, 727),
    (8, 9627)]"

definition anySuitVal_13 :: "(int \<times> int) list" where
  "anySuitVal_13 = [
    (1, 218), (1, 478), (1, 479), (1, 728), (1, 480), (1, 729), (2, 730), (1, 481), (1, 731), (2, 732),
    (4, 733), (1, 482), (1, 734), (2, 735), (4, 736), (7, 737), (1, 9624), (1, 483), (1, 738), (2, 739),
    (4, 740), (8, 741), (14, 742), (2, 9625), (1, 484), (1, 743), (2, 744), (4, 745), (8, 746), (15, 747),
    (1, 9624), (28, 748), (4, 9626), (1, 485), (1, 749), (2, 750), (4, 751), (8, 752), (15, 753), (1, 9624),
    (30, 754), (2, 9625), (31, 755), (1, 9624), (16, 755), (16, 9628)]"

definition anySuitVal_14 :: "(int \<times> int) list" where
  "anySuitVal_14 = [
    (1, 219), (1, 486), (1, 487), (1, 756), (1, 488), (1, 757), (2, 758), (1, 489), (1, 759), (2, 760),
    (4, 761), (1, 490), (1, 762), (2, 763), (4, 764), (7, 765), (1, 9624), (1, 491), (1, 766), (2, 767),
    (4, 768), (8, 769), (14, 770), (2, 9625), (1, 492), (1, 771), (2, 772), (4, 773), (8, 774), (15, 775),
    (1, 9624), (28, 776), (4, 9626), (1, 493), (1, 777), (2, 778), (4, 779), (8, 780), (15, 781), (1, 9624),
    (30, 782), (2, 9625), (31, 783), (1, 9624), (24, 783), (8, 9627)]"

definition anySuitVal_15 :: "(int \<times> int) list" where
  "anySuitVal_15 = [
    (1, 494), (1, 784), (2, 785), (4, 786), (8, 787), (15, 788), (1, 9624), (30, 789), (2, 9625), (31, 790),
    (1, 9624), (28, 790), (4, 9626), (128, 9631)]"

definition anySuitVal_16 :: "(int \<times> int) list" where
  "anySuitVal_16 = [
    (1, 12), (1, 66), (1, 67), (1, 220), (1, 68), (1, 221), (1, 222), (1, 495), (1, 69), (1, 223), (1, 224),
    (1, 496), (1, 225), (1, 497), (1, 498), (1, 9623), (1, 70), (1, 226), (1, 227), (1, 499), (1, 228),
    (1, 500), (1, 501), (1, 793), (1, 229), (1, 502), (1, 503), (1, 794), (1, 504), (1, 795), (1, 796),
    (1, 9624), (1, 71), (1, 230), (1, 231), (1, 505), (1, 232), (1, 506), (1, 507), (1, 797), (1, 233),
    (1, 508), (1, 509), (1, 798), (1, 510), (1, 799), (1, 800), (1, 9623), (1, 234), (1, 511), (1, 512),
    (1, 801), (1, 513), (1, 802), (2, 803), (1, 514), (1, 804), (2, 805), (2, 806), (2, 9625), (1, 72),
    (1, 235), (1, 236), (1, 515), (1, 237), (1, 516), (1, 517), (1, 807), (1, 238), (1, 518), (1, 519),
    (1, 808), (1, 520), (1, 809), (1, 810), (1, 9623), (1, 239), (1, 521), (1, 522), (1, 811), (1, 523),
    (1, 812), (2, 813), (1, 524), (1, 814), (2, 815), (3, 816), (1, 9624), (1, 240), (1, 525), (1, 526),
    (1, 817), (1, 527), (1, 818), (2, 819), (1, 528), (1, 820), (2, 821), (3, 822), (1, 9623), (1, 529),
    (1, 823), (2, 824), (4, 825), (4, 826), (4, 9626), (1, 73), (1, 241), (1, 242), (1, 530), (1, 243),
    (1, 531), (1, 532), (1, 827), (1, 244), (1, 533), (1, 534), (1, 828), (1, 535), (1, 829), (1, 830),
    (1, 9623), (1, 245), (1, 536), (1, 537), (1, 831), (1, 538), (1, 832), (2, 833), (1, 539), (1, 834),
    (2, 835), (3, 836), (1, 9624), (1, 246), (1, 540), (1, 541), (1, 837), (1, 542), (1, 838), (2, 839),
    (1, 543), (1, 840), (2, 841), (3, 842), (1, 9623), (1, 544), (1, 843), (2, 844), (4, 845), (6, 846),
    (2, 9625), (1, 247), (1, 545), (1, 546), (1, 847), (1, 547), (1, 848), (2, 849), (1, 548), (1, 850),
    (2, 851), (3, 852), (1, 9623), (1, 549), (1, 853), (2, 854), (4, 855), (7, 856), (1, 9624), (1, 550),
    (1, 857), (2, 858), (4, 859), (7, 860), (1, 9623), (8, 861), (8, 9627)]"

definition anySuitVal_17 :: "(int \<times> int) list" where
  "anySuitVal_17 = [
    (1, 74), (1, 248), (1, 249), (1, 551), (1, 250), (1, 552), (1, 553), (1, 862), (1, 251), (1, 554),
    (1, 555), (1, 863), (1, 556), (1, 864), (1, 865), (1, 9623), (1, 252), (1, 557), (1, 558), (1, 866),
    (1, 559), (1, 867), (2, 868), (1, 560), (1, 869), (2, 870), (3, 871), (1, 9624), (1, 253), (1, 561),
    (1, 562), (1, 872), (1, 563), (1, 873), (2, 874), (1, 564), (1, 875), (2, 876), (3, 877), (1, 9623),
    (1, 565), (1, 878), (2, 879), (4, 880), (6, 881), (2, 9625), (1, 254), (1, 566), (1, 567), (1, 882),
    (1, 568), (1, 883), (2, 884), (1, 569), (1, 885), (2, 886), (3, 887), (1, 9623), (1, 570), (1, 888),
    (2, 889), (4, 890), (7, 891), (1, 9624), (1, 571), (1, 892), (2, 893), (4, 894), (7, 895), (1, 9623),
    (12, 896), (4, 9626), (1, 255), (1, 572), (1, 573), (1, 897), (1, 574), (1, 898), (2, 899), (1, 575),
    (1, 900), (2, 901), (3, 902), (1, 9623), (1, 576), (1, 903), (2, 904), (4, 905), (7, 906), (1, 9624),
    (1, 577), (1, 907), (2, 908), (4, 909), (7, 910), (1, 9623), (14, 911), (2, 9625), (1, 578), (1, 912),
    (2, 913), (4, 914), (7, 915), (1, 9623), (15, 916), (1, 9624), (15, 917), (1, 9623), (16, 9628)]"

definition anySuitVal_18 :: "(int \<times> int) list" where
  "anySuitVal_18 = [
    (1, 75), (1, 256), (1, 257), (1, 579), (1, 258), (1, 580), (1, 581), (1, 918), (1, 259), (1, 582),
    (1, 583), (1, 919), (1, 584), (1, 920), (1, 921), (1, 9623), (1, 260), (1, 585), (1, 586), (1, 922),
    (1, 587), (1, 923), (2, 924), (1, 588), (1, 925), (2, 926), (3, 927), (1, 9624), (1, 261), (1, 589),
    (1, 590), (1, 928), (1, 591), (1, 929), (2, 930), (1, 592), (1, 931), (2, 932), (3, 933), (1, 9623),
    (1, 593), (1, 934), (2, 935), (4, 936), (6, 937), (2, 9625), (1, 262), (1, 594), (1, 595), (1, 938),
    (1, 596), (1, 939), (2, 940), (1, 597), (1, 941), (2, 942), (3, 943), (1, 9623), (1, 598), (1, 944),
    (2, 945), (4, 946), (7, 947), (1, 9624), (1, 599), (1, 948), (2, 949), (4, 950), (7, 951), (1, 9623),
    (12, 952), (4, 9626), (1, 263), (1, 600), (1, 601), (1, 953), (1, 602), (1, 954), (2, 955), (1, 603),
    (1, 956), (2, 957), (3, 958), (1, 9623), (1, 604), (1, 959), (2, 960), (4, 961), (7, 962), (1, 9624),
    (1, 605), (1, 963), (2, 964), (4, 965), (7, 966), (1, 9623), (14, 967), (2, 9625), (1, 606), (1, 968),
    (2, 969), (4, 970), (7, 971), (1, 9623), (15, 972), (1, 9624), (15, 973), (1, 9623), (8, 973), (8, 9627)]"

definition anySuitVal_19 :: "(int \<times> int) list" where
  "anySuitVal_19 = [
    (1, 264), (1, 607), (1, 608), (1, 974), (1, 609), (1, 975), (2, 976), (1, 610), (1, 977), (2, 978),
    (3, 979), (1, 9623), (1, 611), (1, 980), (2, 981), (4, 982), (7, 983), (1, 9624), (1, 612), (1, 984),
    (2, 985), (4, 986), (7, 987), (1, 9623), (14, 988), (2, 9625), (1, 613), (1, 989), (2, 990), (4, 991),
    (7, 992), (1, 9623), (15, 993), (1, 9624), (15, 994), (1, 9623), (12, 994), (4, 9626), (1, 614),
    (1, 995), (2, 996), (4, 997), (7, 998), (1, 9623), (15, 999), (1, 9624), (15, 1000), (1, 9623),
    (14, 1000), (2, 9625), (15, 1001), (1, 9623), (15, 1001), (1, 9624), (32, 9629)]"

definition anySuitVal_20 :: "(int \<times> int) list" where
  "anySuitVal_20 = [
    (1, 76), (1, 265), (1, 266), (1, 615), (1, 267), (1, 616), (1, 617), (1, 1002), (1, 268), (1, 618),
    (1, 619), (1, 1003), (1, 620), (1, 1004), (1, 1005), (1, 9623), (1, 269), (1, 621), (1, 622), (1, 1006),
    (1, 623), (1, 1007), (2, 1008), (1, 624), (1, 1009), (2, 1010), (3, 1011), (1, 9624), (1, 270),
    (1, 625), (1, 626), (1, 1012), (1, 627), (1, 1013), (2, 1014), (1, 628), (1, 1015), (2, 1016),
    (3, 1017), (1, 9623), (1, 629), (1, 1018), (2, 1019), (4, 1020), (6, 1021), (2, 9625), (1, 271),
    (1, 630), (1, 631), (1, 1022), (1, 632), (1, 1023), (2, 1024), (1, 633), (1, 1025), (2, 1026),
    (3, 1027), (1, 9623), (1, 634), (1, 1028), (2, 1029), (4, 1030), (7, 1031), (1, 9624), (1, 635),
    (1, 1032), (2, 1033), (4, 1034), (7, 1035), (1, 9623), (12, 1036), (4, 9626), (1, 272), (1, 636),
    (1, 637), (1, 1037), (1, 638), (1, 1038), (2, 1039), (1, 639), (1, 1040), (2, 1041), (3, 1042),
    (1, 9623), (1, 640), (1, 1043), (2, 1044), (4, 1045), (7, 1046), (1, 9624), (1, 641), (1, 1047),
    (2, 1048), (4, 1049), (7, 1050), (1, 9623), (14, 1051), (2, 9625), (1, 642), (1, 1052), (2, 1053),
    (4, 1054), (7, 1055), (1, 9623), (15, 1056), (1, 9624), (15, 1057), (1, 9623), (8, 1057), (8, 9627)]"

definition anySuitVal_21 :: "(int \<times> int) list" where
  "anySuitVal_21 = [
    (1, 273), (1, 643), (1, 644), (1, 1058), (1, 645), (1, 1059), (2, 1060), (1, 646), (1, 1061), (2, 1062),
    (3, 1063), (1, 9623), (1, 647), (1, 1064), (2, 1065), (4, 1066), (7, 1067), (1, 9624), (1, 648),
    (1, 1068), (2, 1069), (4, 1070), (7, 1071), (1, 9623), (14, 1072), (2, 9625), (1, 649), (1, 1073),
    (2, 1074), (4, 1075), (7, 1076), (1, 9623), (15, 1077), (1, 9624), (15, 1078), (1, 9623), (12, 1078),
    (4, 9626), (1, 650), (1, 1079), (2, 1080), (4, 1081), (7, 1082), (1, 9623), (15, 1083), (1, 9624),
    (15, 1084), (1, 9623), (14, 1084), (2, 9625), (15, 1085), (1, 9623), (15, 1085), (1, 9624), (15, 1085),
    (1, 9623), (16, 9628)]"

definition anySuitVal_22 :: "(int \<times> int) list" where
  "anySuitVal_22 = [
    (1, 274), (1, 651), (1, 652), (1, 1086), (1, 653), (1, 1087), (2, 1088), (1, 654), (1, 1089), (2, 1090),
    (3, 1091), (1, 9623), (1, 655), (1, 1092), (2, 1093), (4, 1094), (7, 1095), (1, 9624), (1, 656),
    (1, 1096), (2, 1097), (4, 1098), (7, 1099), (1, 9623), (14, 1100), (2, 9625), (1, 657), (1, 1101),
    (2, 1102), (4, 1103), (7, 1104), (1, 9623), (15, 1105), (1, 9624), (15, 1106), (1, 9623), (12, 1106),
    (4, 9626), (1, 658), (1, 1107), (2, 1108), (4, 1109), (7, 1110), (1, 9623), (15, 1111), (1, 9624),
    (15, 1112), (1, 9623), (14, 1112), (2, 9625), (15, 1113), (1, 9623), (15, 1113), (1, 9624), (15, 1113),
    (1, 9623), (8, 1113), (8, 9627)]"

definition anySuitVal_23 :: "(int \<times> int) list" where
  "anySuitVal_23 = [
    (1, 659), (1, 1114), (2, 1115), (4, 1116), (7, 1117), (1, 9623), (15, 1118), (1, 9624), (15, 1119),
    (1, 9623), (14, 1119), (2, 9625), (15, 1120), (1, 9623), (15, 1120), (1, 9624), (15, 1120), (1, 9623),
    (12, 1120), (4, 9626), (15, 1121), (1, 9623), (15, 1121), (1, 9624), (15, 1121), (1, 9623), (14, 1121),
    (2, 9625), (64, 9630)]"

definition anySuitVal_24 :: "(int \<times> int) list" where
  "anySuitVal_24 = [
    (1, 77), (1, 275), (1, 276), (1, 660), (1, 277), (1, 661), (1, 662), (1, 1122), (1, 278), (1, 663),
    (1, 664), (1, 1123), (1, 665), (1, 1124), (1, 1125), (1, 9623), (1, 279), (1, 666), (1, 667), (1, 1126),
    (1, 668), (1, 1127), (2, 1128), (1, 669), (1, 1129), (2, 1130), (3, 1131), (1, 9624), (1, 280),
    (1, 670), (1, 671), (1, 1132), (1, 672), (1, 1133), (2, 1134), (1, 673), (1, 1135), (2, 1136),
    (3, 1137), (1, 9623), (1, 674), (1, 1138), (2, 1139), (4, 1140), (6, 1141), (2, 9625), (1, 281),
    (1, 675), (1, 676), (1, 1142), (1, 677), (1, 1143), (2, 1144), (1, 678), (1, 1145), (2, 1146),
    (3, 1147), (1, 9623), (1, 679), (1, 1148), (2, 1149), (4, 1150), (7, 1151), (1, 9624), (1, 680),
    (1, 1152), (2, 1153), (4, 1154), (7, 1155), (1, 9623), (12, 1156), (4, 9626), (1, 282), (1, 681),
    (1, 682), (1, 1157), (1, 683), (1, 1158), (2, 1159), (1, 684), (1, 1160), (2, 1161), (3, 1162),
    (1, 9623), (1, 685), (1, 1163), (2, 1164), (4, 1165), (7, 1166), (1, 9624), (1, 686), (1, 1167),
    (2, 1168), (4, 1169), (7, 1170), (1, 9623), (14, 1171), (2, 9625), (1, 687), (1, 1172), (2, 1173),
    (4, 1174), (7, 1175), (1, 9623), (15, 1176), (1, 9624), (15, 1177), (1, 9623), (8, 1177), (8, 9627)]"

definition anySuitVal_25 :: "(int \<times> int) list" where
  "anySuitVal_25 = [
    (1, 283), (1, 688), (1, 689), (1, 1178), (1, 690), (1, 1179), (2, 1180), (1, 691), (1, 1181), (2, 1182),
    (3, 1183), (1, 9623), (1, 692), (1, 1184), (2, 1185), (4, 1186), (7, 1187), (1, 9624), (1, 693),
    (1, 1188), (2, 1189), (4, 1190), (7, 1191), (1, 9623), (14, 1192), (2, 9625), (1, 694), (1, 1193),
    (2, 1194), (4, 1195), (7, 1196), (1, 9623), (15, 1197), (1, 9624), (15, 1198), (1, 9623), (12, 1198),
    (4, 9626), (1, 695), (1, 1199), (2, 1200), (4, 1201), (7, 1202), (1, 9623), (15, 1203), (1, 9624),
    (15, 1204), (1, 9623), (14, 1204), (2, 9625), (15, 1205), (1, 9623), (15, 1205), (1, 9624), (15, 1205),
    (1, 9623), (16, 9628)]"

definition anySuitVal_26 :: "(int \<times> int) list" where
  "anySuitVal_26 = [
    (1, 284), (1, 696), (1, 697), (1, 1206), (1, 698), (1, 1207), (2, 1208), (1, 699), (1, 1209), (2, 1210),
    (3, 1211), (1, 9623), (1, 700), (1, 1212), (2, 1213), (4, 1214), (7, 1215), (1, 9624), (1, 701),
    (1, 1216), (2, 1217), (4, 1218), (7, 1219), (1, 9623), (14, 1220), (2, 9625), (1, 702), (1, 1221),
    (2, 1222), (4, 1223), (7, 1224), (1, 9623), (15, 1225), (1, 9624), (15, 1226), (1, 9623), (12, 1226),
    (4, 9626), (1, 703), (1, 1227), (2, 1228), (4, 1229), (7, 1230), (1, 9623), (15, 1231), (1, 9624),
    (15, 1232), (1, 9623), (14, 1232), (2, 9625), (15, 1233), (1, 9623), (15, 1233), (1, 9624), (15, 1233),
    (1, 9623), (8, 1233), (8, 9627)]"

definition anySuitVal_27 :: "(int \<times> int) list" where
  "anySuitVal_27 = [
    (1, 704), (1, 1234), (2, 1235), (4, 1236), (7, 1237), (1, 9623), (15, 1238), (1, 9624), (15, 1239),
    (1, 9623), (14, 1239), (2, 9625), (15, 1240), (1, 9623), (15, 1240), (1, 9624), (15, 1240), (1, 9623),
    (12, 1240), (4, 9626), (15, 1241), (1, 9623), (15, 1241), (1, 9624), (15, 1241), (1, 9623), (14, 1241),
    (2, 9625), (15, 1241), (1, 9623), (15, 1241), (1, 9624), (32, 9629)]"

definition anySuitVal_28 :: "(int \<times> int) list" where
  "anySuitVal_28 = [
    (1, 285), (1, 705), (1, 706), (1, 1242), (1, 707), (1, 1243), (2, 1244), (1, 708), (1, 1245), (2, 1246),
    (3, 1247), (1, 9623), (1, 709), (1, 1248), (2, 1249), (4, 1250), (7, 1251), (1, 9624), (1, 710),
    (1, 1252), (2, 1253), (4, 1254), (7, 1255), (1, 9623), (14, 1256), (2, 9625), (1, 711), (1, 1257),
    (2, 1258), (4, 1259), (7, 1260), (1, 9623), (15, 1261), (1, 9624), (15, 1262), (1, 9623), (12, 1262),
    (4, 9626), (1, 712), (1, 1263), (2, 1264), (4, 1265), (7, 1266), (1, 9623), (15, 1267), (1, 9624),
    (15, 1268), (1, 9623), (14, 1268), (2, 9625), (15, 1269), (1, 9623), (15, 1269), (1, 9624), (15, 1269),
    (1, 9623), (8, 1269), (8, 9627)]"

definition anySuitVal_29 :: "(int \<times> int) list" where
  "anySuitVal_29 = [
    (1, 713), (1, 1270), (2, 1271), (4, 1272), (7, 1273), (1, 9623), (15, 1274), (1, 9624), (15, 1275),
    (1, 9623), (14, 1275), (2, 9625), (15, 1276), (1, 9623), (15, 1276), (1, 9624), (15, 1276), (1, 9623),
    (12, 1276), (4, 9626), (15, 1277), (1, 9623), (15, 1277), (1, 9624), (15, 1277), (1, 9623), (14, 1277),
    (2, 9625), (15, 1277), (1, 9623), (15, 1277), (1, 9624), (15, 1277), (1, 9623), (16, 9628)]"

definition anySuitVal_30 :: "(int \<times> int) list" where
  "anySuitVal_30 = [
    (1, 714), (1, 1278), (2, 1279), (4, 1280), (7, 1281), (1, 9623), (15, 1282), (1, 9624), (15, 1283),
    (1, 9623), (14, 1283), (2, 9625), (15, 1284), (1, 9623), (15, 1284), (1, 9624), (15, 1284), (1, 9623),
    (12, 1284), (4, 9626), (15, 1285), (1, 9623), (15, 1285), (1, 9624), (15, 1285), (1, 9623), (14, 1285),
    (2, 9625), (15, 1285), (1, 9623), (15, 1285), (1, 9624), (15, 1285), (1, 9623), (8, 1285), (8, 9627)]"

definition anySuitVal_31 :: "(int \<times> int) list" where
  "anySuitVal_31 = [
    (256, 9632)]"

definition anySuitVal_blocks :: "(int \<times> int) list list" where
  "anySuitVal_blocks = [
    anySuitVal_0, anySuitVal_1, anySuitVal_2, anySuitVal_3, anySuitVal_4, anySuitVal_5, anySuitVal_6,
    anySuitVal_7, anySuitVal_8, anySuitVal_9, anySuitVal_10, anySuitVal_11, anySuitVal_12, anySuitVal_13,
    anySuitVal_14, anySuitVal_15, anySuitVal_16, anySuitVal_17, anySuitVal_18, anySuitVal_19, anySuitVal_20,
    anySuitVal_21, anySuitVal_22, anySuitVal_23, anySuitVal_24, anySuitVal_25, anySuitVal_26, anySuitVal_27,
    anySuitVal_28, anySuitVal_29, anySuitVal_30, anySuitVal_31]"

definition anySuitVal :: "int \<Rightarrow> int option" where
  "anySuitVal = table_at (concat anySuitVal_blocks)"

section \<open>The table \<open>topBit\<close>\<close>

definition topBit_runs :: "(int \<times> int) list" where
  "topBit_runs = [
    (2, 0), (2, 1), (4, 2), (8, 3), (16, 4), (32, 5), (64, 6), (128, 7), (256, 8), (512, 9), (1024, 10),
    (2048, 11), (4096, 12)]"

definition topBit :: "int \<Rightarrow> int option" where
  "topBit = table_at topBit_runs"

section \<open>The table \<open>tripsOtherVal\<close>\<close>

definition tripsOtherVal_0 :: "(int \<times> int) list" where
  "tripsOtherVal_0 = [
    (2, 0), (1, 1), (1, 0), (1, 2), (1, 1), (2, 2), (2, 3), (2, 4), (4, 5), (1, 4), (1, 6), (2, 7), (4, 8),
    (8, 9), (1, 5), (1, 10), (2, 11), (4, 12), (8, 13), (16, 14), (1, 6), (1, 15), (2, 16), (4, 17), (8, 18),
    (16, 19), (32, 20), (1, 7), (1, 21), (2, 22), (4, 23), (8, 24), (16, 25), (32, 26), (64, 27), (1, 8),
    (1, 28), (2, 29), (4, 30), (8, 31), (16, 32), (32, 33), (64, 34), (128, 35), (1, 9), (1, 36), (2, 37),
    (4, 38), (8, 39), (16, 40), (32, 41), (64, 42), (128, 43), (256, 44), (1, 10), (1, 45), (2, 46), (4, 47),
    (8, 48), (16, 49)]"

definition tripsOtherVal_1 :: "(int \<times> int) list" where
  "tripsOtherVal_1 = [
    (32, 50), (64, 51), (128, 52), (256, 53), (512, 54), (1, 11), (1, 55), (2, 56), (4, 57), (8, 58),
    (16, 59), (32, 60), (64, 61), (128, 62), (256, 63), (512, 64), (1024, 65), (1, 12), (1, 66), (2, 67),
    (4, 68), (8, 69), (16, 70), (32, 71), (64, 72), (128, 73), (256, 74), (512, 75), (1024, 76), (2048, 77)]"

definition tripsOtherVal_runs :: "(int \<times> int) list" where
  "tripsOtherVal_runs =
     tripsOtherVal_0 @ tripsOtherVal_1"

definition tripsOtherVal :: "int \<Rightarrow> int option" where
  "tripsOtherVal = table_at tripsOtherVal_runs"

end
