(* ===== verification/Hand_Eval.thy ===== *)
theory Hand_Eval
  imports Hand_Tables "HOL-Library.Word"
begin

unbundle bit_operations_syntax

text \<open>
  The hand evaluator of \<open>evalHandTables\<close>: sets of cards as 64-bit words with sixteen bits for each suit (the
  \<open>union Cardset\<close> on a little-endian machine), and \<open>rankCardset\<close>, which finds the strength of the best
  five-card hand with table lookups.  \<open>None\<close> is an index outside a table or a shift by 64 or more.
\<close>

section \<open>The code\<close>

abbreviation HANDCLASS_PAIR :: int where "HANDCLASS_PAIR \<equiv> 1287"
abbreviation HANDCLASS_TWO_PAIR :: int where "HANDCLASS_TWO_PAIR \<equiv> 5005"
abbreviation HANDCLASS_TRIPS :: int where "HANDCLASS_TRIPS \<equiv> 8606"
abbreviation HANDCLASS_STRAIGHT :: int where "HANDCLASS_STRAIGHT \<equiv> 9620"
abbreviation HANDCLASS_FLUSH :: int where "HANDCLASS_FLUSH \<equiv> 9633"
abbreviation HANDCLASS_FULL_HOUSE :: int where "HANDCLASS_FULL_HOUSE \<equiv> 10920"
abbreviation HANDCLASS_QUADS :: int where "HANDCLASS_QUADS \<equiv> 11934"
abbreviation HANDCLASS_STRAIGHT_FLUSH :: int where "HANDCLASS_STRAIGHT_FLUSH \<equiv> 12103"

type_synonym Cardset = "64 word"

definition bySuit :: "Cardset \<Rightarrow> nat \<Rightarrow> 16 word" where
  "bySuit c k = ucast (drop_bit (16 * k) c)"

definition quadsVal :: "int list" where
  "quadsVal = [11934, 11947, 11960, 11973, 11986, 11999, 12012, 12025, 12038, 12051, 12064, 12077, 12090]"

definition tripsVal :: "int list" where
  "tripsVal = [8606, 8684, 8762, 8840, 8918, 8996, 9074, 9152, 9230, 9308, 9386, 9464, 9542]"

definition fullHouseOtherVal :: int where
  "fullHouseOtherVal = HANDCLASS_FULL_HOUSE - HANDCLASS_TRIPS"

definition pairsVal :: "int list" where
  "pairsVal = [1287, 1573, 1859, 2145, 2431, 2717, 3003, 3289, 3575, 3861, 4147, 4433, 4719]"

definition twoPairOtherVal :: "int list" where
  "twoPairOtherVal = [3718, 3731, 3744, 3757, 3770, 3783, 3796, 3809, 3822, 3835, 3848, 3861, 3874]"

text \<open>The four sets of ranks held in at least one, two, three and all four suits.\<close>

definition rank_sets :: "Cardset \<Rightarrow> 16 word \<times> 16 word \<times> 16 word \<times> 16 word" where
  "rank_sets cards =
     (let c0 = bySuit cards 0; c1 = bySuit cards 1; c2 = bySuit cards 2; c3 = bySuit cards 3;
          s0 = c0 OR c1;
          s1 = c0 AND c1;
          s2 = s1 AND c2;
          s1 = s1 OR (s0 AND c2);
          s0 = s0 OR c2;
          s3 = s2 AND c3;
          s2 = s2 OR (s1 AND c3);
          s1 = s1 OR (s0 AND c3);
          s0 = s0 OR c3
      in (s0, s1, s2, s3))"

text \<open>The best flush or straight flush of the four suits.\<close>

definition rank_suits :: "Cardset \<Rightarrow> int option" where
  "rank_suits cards =
     do {
       v0 \<leftarrow> oneSuitVal (uint (bySuit cards 0));
       v1 \<leftarrow> oneSuitVal (uint (bySuit cards 1));
       v2 \<leftarrow> oneSuitVal (uint (bySuit cards 2));
       v3 \<leftarrow> oneSuitVal (uint (bySuit cards 3));
       let p = v0;
       let p = (if v1 > p then v1 else p);
       let p = (if v2 > p then v2 else p);
       Some (if v3 > p then v3 else p)
     }"

definition rank_quads :: "16 word \<Rightarrow> 16 word \<Rightarrow> int option" where
  "rank_quads s0 s3 =
     do {
       r \<leftarrow> topBit (uint s3);
       q \<leftarrow> rd quadsVal (nat r);
       t \<leftarrow> topBit (uint (s0 XOR push_bit (nat r) 1));
       Some (q + t)
     }"

definition rank_trips :: "16 word \<Rightarrow> 16 word \<Rightarrow> 16 word \<Rightarrow> int \<Rightarrow> int option" where
  "rank_trips s0 s1 s2 postponed =
     do {
       r \<leftarrow> topBit (uint s2);
       let s1 = s1 XOR push_bit (nat r) 1;
       if s1 \<noteq> 0 then
         do { v \<leftarrow> rd tripsVal (nat r); t \<leftarrow> topBit (uint s1); Some (v + fullHouseOtherVal + t) }
       else if postponed \<noteq> 0 then Some postponed
       else do {
         postponed \<leftarrow> anySuitVal (uint s0);
         if postponed \<ge> HANDCLASS_STRAIGHT then Some postponed
         else do {
           v \<leftarrow> rd tripsVal (nat r);
           t \<leftarrow> tripsOtherVal (uint (s0 XOR push_bit (nat r) 1));
           Some (v + t)
         }
       }
     }"

definition rank_pairs :: "16 word \<Rightarrow> 16 word \<Rightarrow> int option" where
  "rank_pairs s0 s1 =
     do {
       r \<leftarrow> topBit (uint s1);
       let s0 = s0 XOR push_bit (nat r) 1;
       let s1 = s1 XOR push_bit (nat r) 1;
       v \<leftarrow> rd pairsVal (nat r);
       if s1 \<noteq> 0 then
         do {
           r2 \<leftarrow> topBit (uint s1);
           w \<leftarrow> rd twoPairOtherVal (nat r2);
           t \<leftarrow> topBit (uint (s0 XOR push_bit (nat r2) 1));
           Some (v + w + t)
         }
       else do { t \<leftarrow> pairOtherVal (uint s0); Some (v + t) }
     }"

definition rankCardset :: "Cardset \<Rightarrow> int option" where
  "rankCardset cards =
     do {
       postponed \<leftarrow> rank_suits cards;
       if postponed \<ge> HANDCLASS_STRAIGHT_FLUSH then Some postponed
       else (case rank_sets cards of (s0, s1, s2, s3) \<Rightarrow>
         if s3 \<noteq> 0 then rank_quads s0 s3
         else if s2 \<noteq> 0 then rank_trips s0 s1 s2 postponed
         else if postponed \<noteq> 0 then Some postponed
         else do {
           postponed \<leftarrow> anySuitVal (uint s0);
           if postponed \<ge> HANDCLASS_STRAIGHT then Some postponed
           else if s1 \<noteq> 0 then rank_pairs s0 s1
           else Some postponed
         })
     }"

definition emptyCardset :: Cardset where
  "emptyCardset = 0"

definition addCardToCardset :: "Cardset \<Rightarrow> nat \<Rightarrow> nat \<Rightarrow> Cardset option" where
  "addCardToCardset c suit rank =
     (let n = suit * 16 + rank in if n < 64 then Some (c OR push_bit n 1) else None)"

end
