(* ===== verification/Table_Walk.thy ===== *)
theory Table_Walk
  imports Rank_Lists Hand_Eval
begin

text \<open>
  A lookup table with an entry for every set of ranks is compared with its specification by a walk over the sets in
  the order of their masks, which carries a state from the highest rank down to the lowest.  The walk over a
  whole subtree stops where the state says that the remaining ranks do not matter.
\<close>

section \<open>The walk\<close>

fun run_bits :: "(bool \<Rightarrow> nat \<Rightarrow> 's \<Rightarrow> 's) \<Rightarrow> nat \<Rightarrow> (nat \<Rightarrow> bool) \<Rightarrow> 's \<Rightarrow> 's" where
  "run_bits step 0 p s = s"
| "run_bits step (Suc n) p s = run_bits step n p (step (p n) n s)"

definition take_run :: "('s \<Rightarrow> int \<Rightarrow> bool) \<Rightarrow> 's \<Rightarrow> int \<Rightarrow> (int \<times> int) list \<Rightarrow> (int \<times> int) list option" where
  "take_run ok s m runs =
     (case runs of [] \<Rightarrow> None
      | (k, v) # rest \<Rightarrow> if m \<le> k \<and> ok s v then Some (if m = k then rest else (k - m, v) # rest) else None)"

fun walk_table ::
  "('s \<Rightarrow> bool) \<Rightarrow> (bool \<Rightarrow> nat \<Rightarrow> 's \<Rightarrow> 's) \<Rightarrow> ('s \<Rightarrow> int \<Rightarrow> bool) \<Rightarrow> nat \<Rightarrow> 's \<Rightarrow> (int \<times> int) list \<Rightarrow> (int \<times> int) list option" where
  "walk_table fin step ok 0 s runs = take_run ok s 1 runs"
| "walk_table fin step ok (Suc n) s runs =
     (if fin s then take_run ok s (2 ^ Suc n) runs
      else case walk_table fin step ok n (step False n s) runs of
          None \<Rightarrow> None
        | Some rest \<Rightarrow> walk_table fin step ok n (step True n s) rest)"

text \<open>The upper \<open>k\<close> levels of the walk over a table that is given in blocks of 256 entries.\<close>

fun walk_blocks ::
  "('s \<Rightarrow> bool) \<Rightarrow> (bool \<Rightarrow> nat \<Rightarrow> 's \<Rightarrow> 's) \<Rightarrow> ('s \<Rightarrow> int \<Rightarrow> bool) \<Rightarrow> nat \<Rightarrow> 's \<Rightarrow> (int \<times> int) list list \<Rightarrow> bool" where
  "walk_blocks fin step ok 0 s bs \<longleftrightarrow> (case bs of [b] \<Rightarrow> walk_table fin step ok 8 s b = Some [] | _ \<Rightarrow> False)"
| "walk_blocks fin step ok (Suc k) s bs \<longleftrightarrow>
     walk_blocks fin step ok k (step False (8 + k) s) (take (2 ^ k) bs) \<and>
     walk_blocks fin step ok k (step True (8 + k) s) (drop (2 ^ k) bs)"

lemma run_bits_cong: "(\<And>m. m < n \<Longrightarrow> p m = q m) \<Longrightarrow> run_bits step n p s = run_bits step n q s"
  by (induction n arbitrary: s) simp_all

lemma take_run_append: "take_run ok s m xs = Some ys \<Longrightarrow> take_run ok s m (xs @ zs) = Some (ys @ zs)"
  by (auto simp: take_run_def split: list.splits if_splits)

lemma walk_table_append: "walk_table fin step ok n s xs = Some ys \<Longrightarrow> walk_table fin step ok n s (xs @ zs) = Some (ys @ zs)"
  by (induction n arbitrary: s xs ys) (auto simp: take_run_append split: option.splits if_splits)

section \<open>The walk checks every entry\<close>

locale table_scan =
  fixes fin :: "'s \<Rightarrow> bool" and step :: "bool \<Rightarrow> nat \<Rightarrow> 's \<Rightarrow> 's" and ok :: "'s \<Rightarrow> int \<Rightarrow> bool"
  assumes fin_step: "fin s \<Longrightarrow> fin (step b n s) \<and> ok (step b n s) v = ok s v"
begin

text \<open>The first \<open>2 ^ n\<close> entries of \<open>xs\<close> agree with the specification and \<open>ys\<close> is what follows them.\<close>

definition covers :: "nat \<Rightarrow> 's \<Rightarrow> (int \<times> int) list \<Rightarrow> (int \<times> int) list \<Rightarrow> bool" where
  "covers n s xs ys \<longleftrightarrow>
     (\<forall>i. 0 \<le> i \<longrightarrow> i < 2 ^ n \<longrightarrow> (\<exists>v. table_at xs i = Some v \<and> ok (run_bits step n (bit i) s) v)) \<and>
     (\<forall>i \<ge> 2 ^ n. table_at xs i = table_at ys (i - 2 ^ n))"

lemma fin_run: "fin s \<Longrightarrow> ok (run_bits step n p s) v = ok s v"
  by (induction n arbitrary: s) (simp_all add: fin_step)

lemma take_run_covers:
  assumes "take_run ok s (2 ^ n) xs = Some ys" "fin s \<or> n = 0"
  shows "covers n s xs ys"
proof -
  have "ok (run_bits step n p s) v = ok s v" for p v using assms(2) fin_run [of s n p v] by auto
  then show ?thesis using assms(1) unfolding covers_def take_run_def by (auto split: list.splits if_splits)
qed

lemma covers_step:
  assumes "covers n (step False n s) xs ys" "covers n (step True n s) ys zs"
  shows "covers (Suc n) s xs zs"
proof -
  have "\<exists>v. table_at xs i = Some v \<and> ok (run_bits step (Suc n) (bit i) s) v" if i: "0 \<le> i" "i < 2 ^ Suc n" for i
  proof (cases "i < 2 ^ n")
    case True
    then have "\<not> bit i n" using i(1) by (simp add: bit_iff_odd)
    then show ?thesis using assms(1) True i(1) unfolding covers_def by simp
  next
    case False
    let ?j = "i - 2 ^ n"
    have j: "0 \<le> ?j" "?j < 2 ^ n" using False i by simp_all
    have tb: "take_bit n i = ?j" using j unfolding take_bit_eq_mod by (metis mod_add_self2 diff_add_cancel mod_pos_pos_trivial)
    have "i div 2 ^ n = 1" using False i by (simp add: int_div_pos_eq [of i "2 ^ n" 1 ?j] j)
    then have "bit i n" by (simp add: bit_iff_odd)
    moreover have "run_bits step n (bit ?j) t = run_bits step n (bit i) t" for t
      unfolding tb [symmetric] by (rule run_bits_cong) (simp add: bit_take_bit_iff)
    moreover obtain v where "table_at ys ?j = Some v" "ok (run_bits step n (bit ?j) (step True n s)) v"
      using assms(2) j unfolding covers_def by blast
    moreover have "table_at xs i = table_at ys ?j" using assms(1) False unfolding covers_def by (simp add: not_less)
    ultimately show ?thesis by simp
  qed
  moreover have "table_at xs i = table_at zs (i - 2 ^ Suc n)" if i: "2 ^ Suc n \<le> i" for i
  proof -
    have "0 < (2 :: int) ^ n" by simp
    then have "2 ^ n \<le> i" "2 ^ n \<le> i - 2 ^ n" using i unfolding power_Suc by linarith+
    then have "table_at xs i = table_at zs (i - 2 ^ n - 2 ^ n)" using assms unfolding covers_def by simp
    then show ?thesis by (simp add: algebra_simps)
  qed
  ultimately show ?thesis unfolding covers_def by blast
qed

lemma walk_covers: "walk_table fin step ok n s xs = Some ys \<Longrightarrow> covers n s xs ys"
proof (induction n arbitrary: s xs ys)
  case 0
  then show ?case using take_run_covers [of s 0 xs ys] by simp
next
  case (Suc n)
  show ?case
  proof (cases "fin s")
    case True
    then show ?thesis using Suc.prems take_run_covers [of s "Suc n" xs ys] by simp
  next
    case False
    then obtain zs where "walk_table fin step ok n (step False n s) xs = Some zs" "walk_table fin step ok n (step True n s) zs = Some ys"
      using Suc.prems by (auto split: option.splits)
    then show ?thesis by (intro covers_step [of n s xs zs]) (simp_all only: Suc.IH)
  qed
qed

lemma blocks_cover: "walk_blocks fin step ok k s bs \<Longrightarrow> covers (8 + k) s (concat bs @ rest) rest"
proof (induction k arbitrary: s bs rest)
  case 0
  then obtain b where "bs = [b]" "walk_table fin step ok 8 s b = Some []" by (auto split: list.splits)
  then show ?case using walk_covers walk_table_append [of fin step ok 8 s b "[]" rest] by simp
next
  case (Suc k)
  let ?xs = "take (2 ^ k) bs" and ?ys = "drop (2 ^ k) bs"
  have "covers (8 + k) (step False (8 + k) s) (concat ?xs @ concat ?ys @ rest) (concat ?ys @ rest)"
    "covers (8 + k) (step True (8 + k) s) (concat ?ys @ rest) rest" using Suc by simp_all
  then have "covers (Suc (8 + k)) s (concat ?xs @ concat ?ys @ rest) rest" by (rule covers_step)
  moreover have "concat ?xs @ concat ?ys = concat bs" by (metis append_take_drop_id concat_append)
  ultimately show ?case by (simp add: append_assoc [symmetric] del: append_assoc)
qed

lemma table_entry:
  assumes "walk_blocks fin step ok 5 s bs" "0 \<le> i" "i < 8192"
  shows "\<exists>v. table_at (concat bs) i = Some v \<and> ok (run_bits step 13 (bit i) s) v"
  using blocks_cover [OF assms(1), of "[]"] assms(2,3) by (simp add: covers_def)

end

end
