(* ===== verification/Rank_Scan.thy ===== *)
theory Rank_Scan
  imports Table_Walk
begin

text \<open>
  The state of a walk over the sets of ranks: the number of the ranks picked so far, the number of ranks still to pick, the
  length of the row of ranks that ends at the last one, the best straight and whether there is an ace.
\<close>

type_synonym scan = "int \<times> nat \<times> nat \<times> nat option \<times> bool"

definition pascal :: "int list list" where
  "pascal = [[1, 0, 0, 0, 0, 0], [1, 1, 0, 0, 0, 0], [1, 2, 1, 0, 0, 0], [1, 3, 3, 1, 0, 0], [1, 4, 6, 4, 1, 0],
    [1, 5, 10, 10, 5, 1], [1, 6, 15, 20, 15, 6], [1, 7, 21, 35, 35, 21], [1, 8, 28, 56, 70, 56], [1, 9, 36, 84, 126, 126],
    [1, 10, 45, 120, 210, 252], [1, 11, 55, 165, 330, 462], [1, 12, 66, 220, 495, 792]]"

definition scan_step :: "bool \<Rightarrow> nat \<Rightarrow> scan \<Rightarrow> scan" where
  "scan_step b n = (\<lambda>(su, left, run, high, ace).
     if b then
       (case left of 0 \<Rightarrow> su | Suc k \<Rightarrow> su + pascal ! n ! left, left - 1, Suc run,
        (case high of None \<Rightarrow> if run = 4 then Some (n + 4) else None | Some h \<Rightarrow> Some h), ace \<or> n = 12)
     else (su, left, 0, high, ace))"

lemma scan_step_simps:
  "scan_step False n (su, left, run, high, ace) = (su, left, 0, high, ace)"
  "scan_step True n (su, left, run, high, ace) =
     (case left of 0 \<Rightarrow> su | Suc k \<Rightarrow> su + pascal ! n ! left, left - 1, Suc run,
      (case high of None \<Rightarrow> if run = 4 then Some (n + 4) else None | Some h \<Rightarrow> Some h), ace \<or> n = 12)"
  by (simp_all add: scan_step_def)

lemma pascal_rows:
  "\<forall>n \<in> set [0..<13]. pascal ! n ! 0 = 1"
  "\<forall>k \<in> set [0..<5]. pascal ! 0 ! Suc k = 0"
  "\<forall>n \<in> set [0..<12]. \<forall>k \<in> set [0..<5]. pascal ! Suc n ! Suc k = pascal ! n ! k + pascal ! n ! Suc k"
  by code_simp+

lemma pascal_choose: "n < 13 \<Longrightarrow> k < 6 \<Longrightarrow> pascal ! n ! k = int (n choose k)"
proof (induction n arbitrary: k)
  case 0
  then show ?case using pascal_rows(1,2) by (cases k) simp_all
next
  case (Suc n)
  then show ?case using pascal_rows(1,3) by (cases k) simp_all
qed

section \<open>The ranks picked\<close>

fun pick_sum :: "nat \<Rightarrow> nat list \<Rightarrow> int" where
  "pick_sum 0 xs = 0"
| "pick_sum (Suc k) [] = 0"
| "pick_sum (Suc k) (x # xs) = int (x choose Suc k) + pick_sum k xs"

lemma pick_sum_comb: "k \<le> length xs \<Longrightarrow> pick_sum k xs = comb (take k xs)"
  by (induction k xs rule: pick_sum.induct) (simp_all add: min_def)

lemma scan_picked:
  assumes "n \<le> 13" "left \<le> 5"
  shows "\<exists>run' high' ace'. run_bits scan_step n p (su, left, run, high, ace) =
    (su + pick_sum left (ranks_down n p), left - length (ranks_down n p), run', high', ace')"
  using assms
proof (induction n arbitrary: su left run high ace)
  case 0
  then show ?case by (cases left) simp_all
next
  case (Suc n)
  show ?case
  proof (cases "p n")
    case False
    then show ?thesis using Suc by (simp add: scan_step_simps)
  next
    case p: True
    show ?thesis
    proof (cases left)
      case 0
      then show ?thesis using Suc.IH [of 0 su "Suc run"] Suc.prems p by (simp add: scan_step_simps)
    next
      case (Suc k)
      then have "pascal ! n ! Suc k = int (n choose Suc k)" using Suc.prems by (intro pascal_choose) simp_all
      then show ?thesis using Suc.IH [of k "su + int (n choose Suc k)" "Suc run"] Suc.prems Suc p
        by (simp add: scan_step_simps add.assoc)
    qed
  qed
qed

section \<open>Straights\<close>

text \<open>What the walk knows about straights when it has seen the ranks from \<open>n\<close> on.\<close>

definition straight_known :: "nat \<Rightarrow> (nat \<Rightarrow> bool) \<Rightarrow> scan \<Rightarrow> bool" where
  "straight_known n p = (\<lambda>(su, left, run, high, ace).
     (\<forall>r. n \<le> r \<and> r < n + run \<longrightarrow> p r) \<and> n + run \<le> 13 \<and> (n + run < 13 \<longrightarrow> \<not> p (n + run)) \<and>
     high = find (\<lambda>h. n + 4 \<le> h \<and> straight_at p h) [12, 11, 10, 9, 8, 7, 6, 5, 4] \<and> ace = (n \<le> 12 \<and> p 12))"

lemma straight_at_row: "4 \<le> h \<Longrightarrow> straight_at p h \<longleftrightarrow> (\<forall>r. h - 4 \<le> r \<and> r \<le> h \<longrightarrow> p r)"
proof
  assume "4 \<le> h" "straight_at p h"
  then have "p h" "p (h - 1)" "p (h - 2)" "p (h - 3)" "p (h - 4)" by (auto simp: straight_at_def split: if_splits)
  moreover have "r = h \<or> r = h - 1 \<or> r = h - 2 \<or> r = h - 3 \<or> r = h - 4" if "h - 4 \<le> r \<and> r \<le> h" for r using that by linarith
  ultimately show "\<forall>r. h - 4 \<le> r \<and> r \<le> h \<longrightarrow> p r" by blast
qed (auto simp: straight_at_def)

lemma find_step:
  fixes m :: nat
  assumes "sorted_wrt (>) xs" "\<And>h. P h \<longleftrightarrow> Q h \<or> h = m \<and> b" "\<And>h. Q h \<Longrightarrow> m < h"
  shows "find P xs = (case find Q xs of Some h \<Rightarrow> Some h | None \<Rightarrow> if m \<in> set xs \<and> b then Some m else None)"
  using assms(1)
proof (induction xs)
  case (Cons x xs)
  have IH: "find P xs = (case find Q xs of Some h \<Rightarrow> Some h | None \<Rightarrow> if m \<in> set xs \<and> b then Some m else None)"
    using Cons by simp
  show ?case
  proof (cases "Q x")
    case True
    then show ?thesis using assms(2) [of x] by simp
  next
    case False
    have none: "find Q xs = None" if "x = m"
    proof -
      have "\<not> Q h" if "h \<in> set xs" for h using assms(3) [of h] Cons.prems that \<open>x = m\<close> by fastforce
      then show ?thesis unfolding find_None_iff by blast
    qed
    show ?thesis
    proof (cases "x = m")
      case True
      then show ?thesis using none IH False assms(2) [of x] by simp
    next
      case ne: False
      then have "\<not> P x" using False assms(2) [of x] by simp
      then show ?thesis using IH False ne by (auto split: option.splits)
    qed
  qed
qed simp

lemma heads_set: "set [12, 11, 10, 9, 8, 7, 6, 5, 4] = {4..12 :: nat}"
  by code_simp

lemma straight_at_plus: "straight_at p (n + 4) \<longleftrightarrow> p n \<and> p (n + 1) \<and> p (n + 2) \<and> p (n + 3) \<and> p (n + 4)"
  by (auto simp: straight_at_def numeral_eq_Suc)

lemma straight_row_step:
  assumes row: "\<And>r. n < r \<Longrightarrow> r \<le> n + run \<Longrightarrow> p r" "n + run \<le> 12" "n + run < 12 \<Longrightarrow> \<not> p (n + run + 1)"
    and none: "n + 5 \<le> 12 \<Longrightarrow> \<not> straight_at p (n + 5)"
  shows "n + 4 \<le> 12 \<and> straight_at p (n + 4) \<longleftrightarrow> p n \<and> run = 4"
proof
  assume a: "n + 4 \<le> 12 \<and> straight_at p (n + 4)"
  have "\<not> run < 4"
  proof
    assume "run < 4"
    then consider "run = 0" | "run = 1" | "run = 2" | "run = 3" by linarith
    then show False using a [unfolded straight_at_plus] row(3) by cases (simp_all add: numeral_eq_Suc)
  qed
  moreover have "\<not> 5 \<le> run"
  proof
    assume "5 \<le> run"
    then have "n + 5 \<le> 12" "p (n + 1)" "p (n + 2)" "p (n + 3)" "p (n + 4)" "p (n + 5)" using row(1,2) by auto
    then show False using none straight_at_plus [of p "n + 1"] by (simp add: add.assoc numeral_eq_Suc)
  qed
  ultimately show "p n \<and> run = 4" using a by (simp add: straight_at_plus)
next
  assume a: "p n \<and> run = 4"
  then have "p (n + 1)" "p (n + 2)" "p (n + 3)" "p (n + 4)" using row(1) by auto
  then show "n + 4 \<le> 12 \<and> straight_at p (n + 4)" using a row(2) by (simp add: straight_at_plus)
qed

lemma straight_known_step:
  assumes "straight_known (Suc n) p s" "n < 13"
  shows "straight_known n p (scan_step (p n) n s)"
proof -
  obtain su left run high ace where s: "s = (su, left, run, high, ace)" by (cases s) auto
  let ?hs = "[12, 11, 10, 9, 8, 7, 6, 5, 4] :: nat list"
  have k: "\<forall>r. Suc n \<le> r \<and> r < Suc n + run \<longrightarrow> p r" "Suc n + run \<le> 13" "Suc n + run < 13 \<longrightarrow> \<not> p (Suc n + run)"
    "high = find (\<lambda>h. Suc n + 4 \<le> h \<and> straight_at p h) ?hs" "ace = (Suc n \<le> 12 \<and> p 12)"
    using assms(1) unfolding straight_known_def s prod.case by blast+
  have new: "find (\<lambda>h. n + 4 \<le> h \<and> straight_at p h) ?hs =
      (case high of Some h \<Rightarrow> Some h | None \<Rightarrow> if n + 4 \<in> set ?hs \<and> straight_at p (n + 4) then Some (n + 4) else None)"
    unfolding k(4)
  proof (rule find_step)
    show "n + 4 \<le> h \<and> straight_at p h \<longleftrightarrow> (Suc n + 4 \<le> h \<and> straight_at p h) \<or> h = n + 4 \<and> straight_at p (n + 4)" for h
      by (cases "h = n + 4") auto
  qed simp_all
  have run4: "n + 4 \<in> set ?hs \<and> straight_at p (n + 4) \<longleftrightarrow> p n \<and> run = 4" if none: "high = None"
  proof -
    have "\<not> straight_at p (n + 5)" if "n + 5 \<le> 12"
      using none that unfolding k(4) find_None_iff heads_set by auto
    moreover have "p r" if "n < r" "r \<le> n + run" for r using k(1) that by simp
    ultimately show ?thesis unfolding heads_set using straight_row_step [of n run p] k(2,3) by simp
  qed
  have new': "find (\<lambda>h. n + 4 \<le> h \<and> straight_at p h) ?hs =
      (case high of Some h \<Rightarrow> Some h | None \<Rightarrow> if p n \<and> run = 4 then Some (n + 4) else None)"
    unfolding new using run4 by (cases high) (simp_all only: option.case)
  note d = straight_known_def s prod.case scan_step_simps new'
  show ?thesis
  proof (cases "p n")
    case False
    have "ace = (n \<le> 12 \<and> p 12)" using False k(5) assms(2) by (cases "n = 12") auto
    moreover have "\<forall>r. n \<le> r \<and> r < n + 0 \<longrightarrow> p r" by (metis add_0_right not_less)
    moreover have "scan_step (p n) n s = (su, left, 0, high, ace)" using False by (simp only: s scan_step_simps)
    ultimately show ?thesis using False assms(2) unfolding straight_known_def prod.case new' by (simp only: simp_thms) (simp split: option.split)
  next
    case True
    have "\<forall>r. n \<le> r \<and> r < n + Suc run \<longrightarrow> p r" using k(1) True by (metis add_Suc add_Suc_right le_neq_implies_less Suc_leI)
    moreover have "(ace \<or> n = 12) = (n \<le> 12 \<and> p 12)" using True k(5) assms(2) by (cases "n = 12") auto
    moreover have "n + Suc run \<le> 13" "n + Suc run < 13 \<longrightarrow> \<not> p (n + Suc run)" using k(2,3) by simp_all
    moreover have "(case high of Some h \<Rightarrow> Some h | None \<Rightarrow> if p n \<and> run = 4 then Some (n + 4) else None) =
        (case high of None \<Rightarrow> if run = 4 then Some (n + 4) else None | Some h \<Rightarrow> Some h)"
      using True by (simp split: option.split)
    moreover have "p n = True" using True by simp
    ultimately show ?thesis by (simp only: d simp_thms)
  qed
qed

lemma straight_known_run: "n \<le> 13 \<Longrightarrow> straight_known n p s \<Longrightarrow> straight_known 0 p (run_bits scan_step n p s)"
  by (induction n arbitrary: s) (simp_all add: straight_known_step)

text \<open>The straight that the walk has found when it has seen all ranks.\<close>

definition scan_high :: "scan \<Rightarrow> nat option" where
  "scan_high = (\<lambda>(su, left, run, high, ace). case high of Some h \<Rightarrow> Some h | None \<Rightarrow> if run = 4 \<and> ace then Some 3 else None)"

lemma find_append: "find P (xs @ ys) = (case find P xs of Some x \<Rightarrow> Some x | None \<Rightarrow> find P ys)"
  by (induction xs) auto

lemma scan_high_straight:
  assumes "straight_known 0 p s"
  shows "scan_high s = straight_high p"
proof -
  obtain su left run high ace where s: "s = (su, left, run, high, ace)" by (cases s) auto
  let ?hs = "[12, 11, 10, 9, 8, 7, 6, 5, 4] :: nat list"
  have k: "\<And>r. r < run \<Longrightarrow> p r" "run < 13 \<Longrightarrow> \<not> p run" "run \<le> 13" "ace = p 12"
    "high = find (\<lambda>h. 4 \<le> h \<and> straight_at p h) ?hs"
    using assms unfolding straight_known_def s prod.case by auto
  have high: "high = find (straight_at p) ?hs" unfolding k(5) by (rule find_cong) auto
  have e: "straight_high p = (case high of Some h \<Rightarrow> Some h | None \<Rightarrow> if straight_at p 3 then Some 3 else None)"
    unfolding high straight_high_def using find_append [of "straight_at p" ?hs "[3]"] by simp
  have "straight_at p 3 \<longleftrightarrow> run = 4 \<and> p 12" if none: "high = None"
  proof
    assume "straight_at p 3"
    then have w: "p 0" "p 1" "p 2" "p 3" "p 12" by (simp_all add: straight_at_def)
    have "\<not> 5 \<le> run"
    proof
      assume "5 \<le> run"
      then have "straight_at p 4" using k(1) by (simp add: straight_at_def)
      then show False using none unfolding high find_None_iff heads_set by simp
    qed
    moreover have "\<not> run < 4"
    proof
      assume "run < 4"
      then consider "run = 0" | "run = 1" | "run = 2" | "run = 3" by linarith
      then show False using w k(2) by cases simp_all
    qed
    ultimately show "run = 4 \<and> p 12" using w(5) by linarith
  qed (use k(1) in \<open>simp add: straight_at_def\<close>)
  then show ?thesis using e k(4) by (auto simp: scan_high_def s split: option.splits)
qed

text \<open>The state at the end of a walk.\<close>

lemma scan_end:
  assumes "k \<le> 5"
  shows "\<exists>run high ace. run_bits scan_step 13 p (0, k, 0, None, False) =
      (pick_sum k (ranks_down 13 p), k - length (ranks_down 13 p), run, high, ace) \<and>
    scan_high (pick_sum k (ranks_down 13 p), k - length (ranks_down 13 p), run, high, ace) = straight_high p"
proof -
  have "straight_known 13 p (0, k, 0, None, False)" unfolding straight_known_def by auto
  then have "scan_high (run_bits scan_step 13 p (0, k, 0, None, False)) = straight_high p"
    by (intro scan_high_straight straight_known_run) simp_all
  moreover obtain run high ace where "run_bits scan_step 13 p (0, k, 0, None, False) =
      (pick_sum k (ranks_down 13 p), k - length (ranks_down 13 p), run, high, ace)"
    using scan_picked [of 13 k p 0 0 None False] assms by auto
  ultimately show ?thesis by simp
qed

end
