(* ===== verification/Hand_Table_Facts.thy ===== *)
theory Hand_Table_Facts
  imports Rank_Scan
begin

unbundle bit_operations_syntax

text \<open>
  What the lookup tables of the hand evaluator hold: the number of the five highest ranks among all sets of five ranks, or
  the highest card of the straight; and for the kickers the number of the two or three highest ranks.  Every
  entry is checked, by a walk over the table.
\<close>

section \<open>Ranks and straights of a mask\<close>

definition popcount :: "int \<Rightarrow> int" where
  "popcount i = int (length (ranks_down 13 (bit i)))"

text \<open>Five ranks in a row, or the ace with the four lowest.\<close>

definition straight_mask :: "int \<Rightarrow> bool" where
  "straight_mask i \<longleftrightarrow> straight_high (bit i) \<noteq> None"

section \<open>The tables of flushes and straights\<close>

definition straight_found :: "scan \<Rightarrow> bool" where
  "straight_found = (\<lambda>(su, left, run, high, ace). high \<noteq> None)"

definition oneSuit_ok :: "scan \<Rightarrow> int \<Rightarrow> bool" where
  "oneSuit_ok s v \<longleftrightarrow>
     (case scan_high s of
        Some h \<Rightarrow> v = HANDCLASS_STRAIGHT_FLUSH + int h
      | None \<Rightarrow> if fst (snd s) = 0 then v = HANDCLASS_FLUSH + fst s else v = 0)"

definition anySuit_ok :: "scan \<Rightarrow> int \<Rightarrow> bool" where
  "anySuit_ok s v \<longleftrightarrow>
     (case scan_high s of
        Some h \<Rightarrow> v = HANDCLASS_STRAIGHT + int h
      | None \<Rightarrow> if fst (snd s) = 0 then v = fst s else 0 \<le> v \<and> v < HANDCLASS_PAIR)"

lemma straight_found_step:
  "straight_found s \<Longrightarrow> straight_found (scan_step b n s) \<and> scan_high (scan_step b n s) = scan_high s \<and> scan_high s \<noteq> None"
  by (cases s; cases b) (auto simp: straight_found_def scan_step_simps scan_high_def)

interpretation one_suit: table_scan straight_found scan_step oneSuit_ok
  by unfold_locales (use straight_found_step in \<open>force simp: oneSuit_ok_def split: option.split\<close>)

interpretation any_suit_scan: table_scan straight_found scan_step anySuit_ok
  by unfold_locales (use straight_found_step in \<open>force simp: anySuit_ok_def split: option.split\<close>)

abbreviation scan_start :: "nat \<Rightarrow> scan" where
  "scan_start k \<equiv> (0, k, 0, None, False)"

lemma oneSuitVal_walk: "walk_blocks straight_found scan_step oneSuit_ok 5 (scan_start 5) oneSuitVal_blocks"
  unfolding oneSuitVal_blocks_def by (simp add: eval_nat_numeral del: walk_table.simps; intro conjI; code_simp)

lemma anySuitVal_walk: "walk_blocks straight_found scan_step anySuit_ok 5 (scan_start 5) anySuitVal_blocks"
  unfolding anySuitVal_blocks_def by (simp add: eval_nat_numeral del: walk_table.simps; intro conjI; code_simp)

lemma oneSuitVal_entry:
  assumes "0 \<le> i" "i < 8192"
  shows "\<exists>v. oneSuitVal i = Some v \<and>
    (case straight_high (bit i) of
       Some h \<Rightarrow> v = HANDCLASS_STRAIGHT_FLUSH + int h
     | None \<Rightarrow> if 5 \<le> length (ranks_down 13 (bit i)) then v = HANDCLASS_FLUSH + comb (take 5 (ranks_down 13 (bit i))) else v = 0)"
  using one_suit.table_entry [OF oneSuitVal_walk assms] scan_end [of 5 "bit i"] pick_sum_comb [of 5 "ranks_down 13 (bit i)"]
  by (auto simp: oneSuitVal_def oneSuit_ok_def split: option.splits)

lemma anySuitVal_entry:
  assumes "0 \<le> i" "i < 8192"
  shows "\<exists>v. anySuitVal i = Some v \<and>
    (case straight_high (bit i) of
       Some h \<Rightarrow> v = HANDCLASS_STRAIGHT + int h
     | None \<Rightarrow> if 5 \<le> length (ranks_down 13 (bit i)) then v = comb (take 5 (ranks_down 13 (bit i))) else 0 \<le> v \<and> v < HANDCLASS_PAIR)"
  using any_suit_scan.table_entry [OF anySuitVal_walk assms] scan_end [of 5 "bit i"] pick_sum_comb [of 5 "ranks_down 13 (bit i)"]
  by (auto simp: anySuitVal_def anySuit_ok_def split: option.splits)

section \<open>The tables of kickers\<close>

definition all_picked :: "scan \<Rightarrow> bool" where
  "all_picked s \<longleftrightarrow> fst (snd s) = 0"

definition kicker_ok :: "scan \<Rightarrow> int \<Rightarrow> bool" where
  "kicker_ok s v \<longleftrightarrow> (fst (snd s) = 0 \<longrightarrow> v = fst s)"

interpretation kickers: table_scan all_picked scan_step kicker_ok
proof
  fix s :: scan and b n v
  show "all_picked s \<Longrightarrow> all_picked (scan_step b n s) \<and> kicker_ok (scan_step b n s) v = kicker_ok s v"
    by (cases s; cases b) (simp_all add: all_picked_def kicker_ok_def scan_step_simps)
qed

lemma pairOtherVal_walk: "walk_table all_picked scan_step kicker_ok 13 (scan_start 3) pairOtherVal_runs = Some []"
  by code_simp

lemma tripsOtherVal_walk: "walk_table all_picked scan_step kicker_ok 13 (scan_start 2) tripsOtherVal_runs = Some []"
  by code_simp

lemma kicker_entry:
  assumes "walk_table all_picked scan_step kicker_ok 13 (scan_start k) runs = Some []" "k \<le> 5" "0 \<le> i" "i < 8192"
  shows "\<exists>v. table_at runs i = Some v \<and> (k \<le> length (ranks_down 13 (bit i)) \<longrightarrow> v = comb (take k (ranks_down 13 (bit i))))"
  using kickers.walk_covers [OF assms(1)] assms(3,4) scan_end [OF assms(2), of "bit i"] pick_sum_comb [of k "ranks_down 13 (bit i)"]
  by (force simp: kickers.covers_def kicker_ok_def)

section \<open>Classes and bounds\<close>

definition oneSuit_entry :: "int \<Rightarrow> int \<Rightarrow> bool" where
  "oneSuit_entry i v \<longleftrightarrow>
     (if popcount i < 5 then v = 0
      else if straight_mask i then HANDCLASS_STRAIGHT_FLUSH \<le> v \<and> v < 12116
      else HANDCLASS_FLUSH \<le> v \<and> v < HANDCLASS_FULL_HOUSE)"

definition anySuit_entry :: "int \<Rightarrow> int \<Rightarrow> bool" where
  "anySuit_entry i v \<longleftrightarrow>
     (if straight_mask i then HANDCLASS_STRAIGHT \<le> v \<and> v < HANDCLASS_FLUSH else 0 \<le> v \<and> v < HANDCLASS_PAIR)"

lemma take_ranks:
  "sorted_wrt (>) (take k (ranks_down n p))" "\<forall>x \<in> set (take k (ranks_down n p)). x < n"
  using sorted_ranks_down sorted_wrt_take ranks_down_less by (blast, meson in_set_takeD ranks_down_less)

lemma comb5_bound:
  assumes "5 \<le> length (ranks_down 13 p)"
  shows "0 \<le> comb (take 5 (ranks_down 13 p)) \<and> comb (take 5 (ranks_down 13 p)) < 1287"
proof -
  have "comb (take 5 (ranks_down 13 p)) < int (13 choose length (take 5 (ranks_down 13 p)))"
    by (rule comb_bound) (rule take_ranks)+
  moreover have "13 choose 5 = (1287 :: nat)" by (simp add: numeral_eq_Suc)
  moreover have "length (take 5 (ranks_down 13 p)) = 5" using assms by simp
  ultimately show ?thesis using comb_nonneg by simp
qed

text \<open>A straight has five ranks.\<close>

lemma straight_length:
  assumes "straight_high p = Some h"
  shows "5 \<le> length (ranks_down 13 p)"
proof -
  have h: "straight_at p h" "h < 13" "3 \<le> h" using straight_high_SomeD [OF assms] by auto
  have sub: "card S \<le> length (ranks_down 13 p)" if "S \<subseteq> {r. r < 13 \<and> p r}" for S
    unfolding length_ranks_down by (rule card_mono [OF _ that]) simp
  show ?thesis
  proof (cases "h = 3")
    case True
    then have "{0, 1, 2, 3, 12} \<subseteq> {r. r < 13 \<and> p r}" using h(1) by (simp add: straight_at_def)
    from sub [OF this] show ?thesis by simp
  next
    case False
    then have "4 \<le> h" using h(3) by linarith
    then obtain k where k: "h = k + 4" by (metis add.commute le_Suc_ex)
    then have "{k, k + 1, k + 2, k + 3, k + 4} \<subseteq> {r. r < 13 \<and> p r}" using h(1,2) unfolding k straight_at_plus by simp
    from sub [OF this] show ?thesis by simp
  qed
qed

lemma oneSuitVal_Some: "0 \<le> i \<Longrightarrow> i < 8192 \<Longrightarrow> \<exists>v. oneSuitVal i = Some v \<and> oneSuit_entry i v"
  using oneSuitVal_entry [of i] straight_length [of "bit i"] straight_high_SomeD [of "bit i"] comb5_bound [of "bit i"]
  by (fastforce simp: oneSuit_entry_def popcount_def straight_mask_def split: option.splits if_splits)

lemma anySuitVal_Some: "0 \<le> i \<Longrightarrow> i < 8192 \<Longrightarrow> \<exists>v. anySuitVal i = Some v \<and> anySuit_entry i v"
  using anySuitVal_entry [of i] straight_high_SomeD [of "bit i"] comb5_bound [of "bit i"]
  by (fastforce simp: anySuit_entry_def straight_mask_def split: option.splits if_splits)

text \<open>The top bit and the bounds of the kicker values.\<close>

definition topBit_entry :: "int \<Rightarrow> int \<Rightarrow> bool" where
  "topBit_entry i v \<longleftrightarrow> 0 \<le> v \<and> v \<le> 12 \<and> (0 < i \<longrightarrow> 2 ^ nat v \<le> i \<and> i < 2 ^ Suc (nat v))"

lemma topBit_Some: "0 \<le> i \<Longrightarrow> i < 8192 \<Longrightarrow> \<exists>v. topBit i = Some v \<and> topBit_entry i v"
  by (simp add: topBit_def topBit_runs_def topBit_entry_def)

lemma bounded_entries:
  "(\<forall>(n, v) \<in> set runs. lo \<le> v \<and> v \<le> hi) \<Longrightarrow> table_at runs i = Some v \<Longrightarrow> lo \<le> v \<and> v \<le> hi"
  by (induction runs i rule: table_at.induct) (auto split: if_splits)

lemma pairOtherVal_bounds: "pairOtherVal i = Some v \<Longrightarrow> 0 \<le> v \<and> v \<le> 285"
  unfolding pairOtherVal_def by (erule bounded_entries [rotated]) code_simp

lemma tripsOtherVal_bounds: "tripsOtherVal i = Some v \<Longrightarrow> 0 \<le> v \<and> v \<le> 77"
  unfolding tripsOtherVal_def by (erule bounded_entries [rotated]) code_simp

lemma pairOtherVal_Some: "0 \<le> i \<Longrightarrow> i < 8192 \<Longrightarrow> \<exists>v. pairOtherVal i = Some v \<and> 0 \<le> v \<and> v \<le> 285"
  using kicker_entry [OF pairOtherVal_walk, of i] pairOtherVal_bounds [of i] by (auto simp: pairOtherVal_def)

lemma tripsOtherVal_Some: "0 \<le> i \<Longrightarrow> i < 8192 \<Longrightarrow> \<exists>v. tripsOtherVal i = Some v \<and> 0 \<le> v \<and> v \<le> 77"
  using kicker_entry [OF tripsOtherVal_walk, of i] tripsOtherVal_bounds [of i] by (auto simp: tripsOtherVal_def)

end
