(* ===== verification/Hand_Class.thy ===== *)
theory Hand_Class
  imports Hand_Table_Facts
begin

unbundle bit_operations_syntax

text \<open>
  The category of a hand: \<open>rankCardset\<close> is defined for every set of cards of the deck, and the range its
  value falls in names the poker category of the set, which \<open>category\<close> defines by counting.
\<close>

section \<open>Poker categories\<close>

definition valid_cardset :: "Cardset \<Rightarrow> bool" where
  "valid_cardset c \<longleftrightarrow> (\<forall>k<4. uint (bySuit c k) < 8192)"

text \<open>In how many suits a rank is held.\<close>

definition rank_count :: "Cardset \<Rightarrow> nat \<Rightarrow> nat" where
  "rank_count c r = card {k. k < 4 \<and> bit (bySuit c k) r}"

definition any_suit :: "Cardset \<Rightarrow> 16 word" where
  "any_suit c = bySuit c 0 OR bySuit c 1 OR bySuit c 2 OR bySuit c 3"

datatype category = SingleCard | Pair | TwoPair | Trips | Straight | Flush | FullHouse | Quads | StraightFlush

definition has_straight_flush :: "Cardset \<Rightarrow> bool" where
  "has_straight_flush c \<longleftrightarrow>
     (\<exists>k<4. popcount (uint (bySuit c k)) \<ge> 5 \<and> straight_mask (uint (bySuit c k)))"

definition has_quads :: "Cardset \<Rightarrow> bool" where
  "has_quads c \<longleftrightarrow> (\<exists>r<13. rank_count c r = 4)"

definition has_full_house :: "Cardset \<Rightarrow> bool" where
  "has_full_house c \<longleftrightarrow> (\<exists>r<13. \<exists>q<13. q \<noteq> r \<and> rank_count c r \<ge> 3 \<and> rank_count c q \<ge> 2)"

definition has_flush :: "Cardset \<Rightarrow> bool" where
  "has_flush c \<longleftrightarrow> (\<exists>k<4. popcount (uint (bySuit c k)) \<ge> 5)"

definition has_straight :: "Cardset \<Rightarrow> bool" where
  "has_straight c \<longleftrightarrow> straight_mask (uint (any_suit c))"

definition has_trips :: "Cardset \<Rightarrow> bool" where
  "has_trips c \<longleftrightarrow> (\<exists>r<13. rank_count c r \<ge> 3)"

definition has_two_pair :: "Cardset \<Rightarrow> bool" where
  "has_two_pair c \<longleftrightarrow> (\<exists>r<13. \<exists>q<13. q \<noteq> r \<and> rank_count c r \<ge> 2 \<and> rank_count c q \<ge> 2)"

definition has_pair :: "Cardset \<Rightarrow> bool" where
  "has_pair c \<longleftrightarrow> (\<exists>r<13. rank_count c r \<ge> 2)"

definition category_of :: "Cardset \<Rightarrow> category" where
  "category_of c =
     (if has_straight_flush c then StraightFlush else if has_quads c then Quads
      else if has_full_house c then FullHouse else if has_flush c then Flush
      else if has_straight c then Straight else if has_trips c then Trips
      else if has_two_pair c then TwoPair else if has_pair c then Pair else SingleCard)"

definition category_of_value :: "int \<Rightarrow> category" where
  "category_of_value v =
     (if v \<ge> HANDCLASS_STRAIGHT_FLUSH then StraightFlush else if v \<ge> HANDCLASS_QUADS then Quads
      else if v \<ge> HANDCLASS_FULL_HOUSE then FullHouse else if v \<ge> HANDCLASS_FLUSH then Flush
      else if v \<ge> HANDCLASS_STRAIGHT then Straight else if v \<ge> HANDCLASS_TRIPS then Trips
      else if v \<ge> HANDCLASS_TWO_PAIR then TwoPair else if v \<ge> HANDCLASS_PAIR then Pair else SingleCard)"

lemma category_nonneg: "category_of_value v \<noteq> SingleCard \<Longrightarrow> 0 \<le> v"
  by (auto simp: category_of_value_def split: if_splits)

section \<open>Words of thirteen bits\<close>

definition small :: "16 word \<Rightarrow> bool" where
  "small w \<longleftrightarrow> uint w < 8192"

lemma bit16_less: "bit (w :: 16 word) r \<Longrightarrow> r < 16"
  using bit_imp_le_length [of w r] by simp

lemma small_iff: "small w \<longleftrightarrow> (\<forall>r. bit w r \<longrightarrow> r < 13)"
proof -
  have "small w \<longleftrightarrow> take_bit 13 (uint w) = uint w"
    by (simp add: small_def take_bit_int_eq_self_iff)
  also have "\<dots> \<longleftrightarrow> (\<forall>r. bit (uint w) r \<longrightarrow> r < 13)"
    by (auto simp: bit_eq_iff bit_take_bit_iff)
  finally show ?thesis using bit16_less by (auto simp: bit_uint_iff)
qed

lemma small_ops [intro]:
  "small a \<Longrightarrow> small b \<Longrightarrow> small (a OR b)" "small a \<Longrightarrow> small (a AND b)" "small b \<Longrightarrow> small (a AND b)"
  "small a \<Longrightarrow> small b \<Longrightarrow> small (a XOR b)"
  by (auto simp: small_iff bit_simps)

lemma small_single: "r < 13 \<Longrightarrow> small (push_bit r 1)"
  by (auto simp: small_iff bit_simps)

lemma small_range: "small w \<Longrightarrow> 0 \<le> uint w \<and> uint w < 8192"
  by (simp add: small_def)

lemma small_nonzero_iff: "small w \<Longrightarrow> w \<noteq> 0 \<longleftrightarrow> (\<exists>r<13. bit w r)"
  using bit16_less by (auto simp: small_iff bit_eq_iff)

lemma bit_of_range:
  assumes "2 ^ n \<le> i" "i < 2 ^ Suc n"
  shows "bit (i :: int) n"
proof -
  have "i div 2 ^ n = 1" using assms by (intro int_div_pos_eq [of _ _ 1 "i - 2 ^ n"]) auto
  then show ?thesis by (simp add: bit_iff_odd)
qed

lemma topBit_small:
  assumes "small w"
  obtains v where "topBit (uint w) = Some v" "0 \<le> v" "v \<le> 12" "w = 0 \<or> bit w (nat v)"
proof -
  obtain v where v: "topBit (uint w) = Some v" "topBit_entry (uint w) v"
    using topBit_Some small_range [OF assms] by blast
  have "bit w (nat v)" if "w \<noteq> 0"
  proof -
    have "0 < uint w" using that uint_ge_0 [of w] by (auto simp: order_le_less simp flip: uint_0_iff)
    then have "bit (uint w) (nat v)" using v(2) by (intro bit_of_range) (auto simp: topBit_entry_def)
    then show ?thesis by (simp add: bit_uint_iff)
  qed
  then show ?thesis using that v by (auto simp: topBit_entry_def)
qed

section \<open>The sets of ranks\<close>

lemma card_four:
  "card {k. k < 4 \<and> P k} = (if P 0 then 1 else 0) + (if P 1 then 1 else 0) + (if P 2 then 1 else 0) + (if P (3::nat) then 1 else 0)"
proof -
  have "{k. k < 4 \<and> P k} = {k \<in> {0, 1, 2, 3}. P k}" by auto
  also have "card \<dots> = (if P 0 then 1 else 0) + (if P 1 then 1 else 0) + (if P 2 then 1 else 0) + (if P 3 then 1 else 0)"
    by (simp add: Collect_conv_if2 card_insert_if insert_compr [symmetric] Collect_disj_eq conj_disj_distribR cong: conj_cong)
  finally show ?thesis .
qed

lemma rank_sets_bits:
  assumes "valid_cardset c" "rank_sets c = (s0, s1, s2, s3)"
  shows "small s0" "small s1" "small s2" "small s3" "s0 = any_suit c"
    "bit s0 r \<longleftrightarrow> rank_count c r \<ge> 1" "bit s1 r \<longleftrightarrow> rank_count c r \<ge> 2"
    "bit s2 r \<longleftrightarrow> rank_count c r \<ge> 3" "bit s3 r \<longleftrightarrow> rank_count c r = 4"
proof -
  have sm: "small (bySuit c 0)" "small (bySuit c 1)" "small (bySuit c 2)" "small (bySuit c 3)"
    using assms(1) by (auto simp: valid_cardset_def small_def)
  show "s0 = any_suit c" and "small s0" "small s1" "small s2" "small s3"
    using assms(2) sm by (auto simp: rank_sets_def Let_def any_suit_def or.assoc)
  show "bit s0 r \<longleftrightarrow> rank_count c r \<ge> 1" "bit s1 r \<longleftrightarrow> rank_count c r \<ge> 2"
    "bit s2 r \<longleftrightarrow> rank_count c r \<ge> 3" "bit s3 r \<longleftrightarrow> rank_count c r = 4"
    using assms(2) by (auto simp: rank_sets_def Let_def rank_count_def card_four bit_or_iff bit_and_iff)
qed

lemma drop_top:
  assumes "bit w r"
  shows "bit (w XOR push_bit r 1) q \<longleftrightarrow> bit (w :: 16 word) q \<and> q \<noteq> r"
  using assms bit16_less [OF assms] by (auto simp: bit_xor_iff bit_exp_iff)

section \<open>The branches\<close>

lemma small_table:
  "n < 13 \<Longrightarrow> \<exists>v. rd quadsVal n = Some v \<and> 11934 \<le> v \<and> v \<le> 12090"
  "n < 13 \<Longrightarrow> \<exists>v. rd tripsVal n = Some v \<and> 8606 \<le> v \<and> v \<le> 9542"
  "n < 13 \<Longrightarrow> \<exists>v. rd pairsVal n = Some v \<and> 1287 \<le> v \<and> v \<le> 4719"
  "n < 13 \<Longrightarrow> \<exists>v. rd twoPairOtherVal n = Some v \<and> 3718 \<le> v \<and> v \<le> 3874"
proof -
  have sets: "\<forall>v \<in> set quadsVal. 11934 \<le> v \<and> v \<le> 12090" "\<forall>v \<in> set tripsVal. 8606 \<le> v \<and> v \<le> 9542"
    "\<forall>v \<in> set pairsVal. 1287 \<le> v \<and> v \<le> 4719" "\<forall>v \<in> set twoPairOtherVal. 3718 \<le> v \<and> v \<le> 3874"
    by code_simp+
  have "length quadsVal = 13" "length tripsVal = 13" "length pairsVal = 13" "length twoPairOtherVal = 13"
    by code_simp+
  then show "n < 13 \<Longrightarrow> \<exists>v. rd quadsVal n = Some v \<and> 11934 \<le> v \<and> v \<le> 12090"
    "n < 13 \<Longrightarrow> \<exists>v. rd tripsVal n = Some v \<and> 8606 \<le> v \<and> v \<le> 9542"
    "n < 13 \<Longrightarrow> \<exists>v. rd pairsVal n = Some v \<and> 1287 \<le> v \<and> v \<le> 4719"
    "n < 13 \<Longrightarrow> \<exists>v. rd twoPairOtherVal n = Some v \<and> 3718 \<le> v \<and> v \<le> 3874"
    using sets by (simp_all add: rd_def)
qed

lemma rank_suits_value:
  assumes "valid_cardset c"
  shows "\<exists>p. rank_suits c = Some p \<and>
    (if has_straight_flush c then HANDCLASS_STRAIGHT_FLUSH \<le> p
     else if has_flush c then HANDCLASS_FLUSH \<le> p \<and> p < HANDCLASS_FULL_HOUSE else p = 0)"
proof -
  have "\<exists>v. oneSuitVal (uint (bySuit c k)) = Some v \<and> oneSuit_entry (uint (bySuit c k)) v" if "k < 4" for k
    using oneSuitVal_Some assms that by (simp add: valid_cardset_def)
  then obtain v where v: "\<And>k. k < 4 \<Longrightarrow> oneSuitVal (uint (bySuit c k)) = Some (v k)"
    "\<And>k. k < 4 \<Longrightarrow> oneSuit_entry (uint (bySuit c k)) (v k)" by metis
  let ?m = "max (max (max (v 0) (v 1)) (v 2)) (v 3)"
  have four: "(\<exists>k<4. Q k) \<longleftrightarrow> Q 0 \<or> Q 1 \<or> Q 2 \<or> Q (3 :: nat)" for Q
    by (auto simp: numeral_eq_Suc less_Suc_eq)
  have "rank_suits c = Some ?m"
    using v(1) [of 0] v(1) [of 1] v(1) [of 2] v(1) [of 3] by (simp add: rank_suits_def Let_def max_def)
  moreover have up: "v k \<le> ?m" if "k < 4" for k
  proof -
    have "k = 0 \<or> k = 1 \<or> k = 2 \<or> k = 3" using that by linarith
    then show ?thesis by auto
  qed
  moreover have "\<exists>k<4. ?m = v k" unfolding four by linarith
  then obtain j where "j < 4" "?m = v j" by blast
  ultimately have m: "rank_suits c = Some ?m" "j < 4" "?m = v j" "\<And>k. k < 4 \<Longrightarrow> v k \<le> ?m" by blast+
  have "HANDCLASS_STRAIGHT_FLUSH \<le> ?m" if sf: "has_straight_flush c"
  proof -
    obtain k where "k < 4" "popcount (uint (bySuit c k)) \<ge> 5" "straight_mask (uint (bySuit c k))"
      using sf by (auto simp: has_straight_flush_def)
    then have "HANDCLASS_STRAIGHT_FLUSH \<le> v k" using v(2) [of k] by (simp add: oneSuit_entry_def)
    then show ?thesis using m(4) [OF \<open>k < 4\<close>] by (rule order_trans)
  qed
  moreover have "HANDCLASS_FLUSH \<le> ?m \<and> ?m < HANDCLASS_FULL_HOUSE" if fl: "has_flush c" "\<not> has_straight_flush c"
  proof -
    have nsf: "\<not> (popcount (uint (bySuit c k)) \<ge> 5 \<and> straight_mask (uint (bySuit c k)))" if "k < 4" for k
      using fl(2) that by (auto simp: has_straight_flush_def)
    obtain k where k: "k < 4" "popcount (uint (bySuit c k)) \<ge> 5" using fl(1) by (auto simp: has_flush_def)
    then have "HANDCLASS_FLUSH \<le> v k" using v(2) [of k] nsf [of k] by (simp add: oneSuit_entry_def)
    moreover have "v j < HANDCLASS_FULL_HOUSE"
      using v(2) [OF m(2)] nsf [OF m(2)] by (auto simp: oneSuit_entry_def split: if_splits)
    ultimately show ?thesis using m(3) m(4) [OF k(1)] by linarith
  qed
  moreover have "?m = 0" if "\<not> has_flush c"
    using v(2) [OF m(2)] that m(2,3) by (auto simp: oneSuit_entry_def has_flush_def split: if_splits)
  ultimately show ?thesis using m(1) by auto
qed

lemma rank_quads_value:
  assumes "small s0" "small s3" "s3 \<noteq> 0"
  shows "\<exists>v. rank_quads s0 s3 = Some v \<and> HANDCLASS_QUADS \<le> v \<and> v < HANDCLASS_STRAIGHT_FLUSH"
proof -
  obtain r where r: "topBit (uint s3) = Some r" "0 \<le> r" "r \<le> 12" using topBit_small [OF assms(2)] .
  then have nr: "nat r < 13" by auto
  obtain q where q: "rd quadsVal (nat r) = Some q" "11934 \<le> q" "q \<le> 12090" using small_table(1) [OF nr] by blast
  obtain t where "topBit (uint (s0 XOR push_bit (nat r) 1)) = Some t" "0 \<le> t" "t \<le> 12"
    using topBit_small [OF small_ops(4) [OF assms(1) small_single [OF nr]]] .
  then show ?thesis using r q by (simp add: rank_quads_def)
qed

lemma rank_trips_value:
  assumes "small s0" "small s1" "small s2" "s2 \<noteq> 0" "\<And>r. bit s2 r \<Longrightarrow> bit s1 r"
    and "postponed \<noteq> 0 \<Longrightarrow> HANDCLASS_FLUSH \<le> postponed \<and> postponed < HANDCLASS_FULL_HOUSE"
  shows "\<exists>v. rank_trips s0 s1 s2 postponed = Some v \<and>
    category_of_value v =
      (if \<exists>r<13. \<exists>q<13. q \<noteq> r \<and> bit s2 r \<and> bit s1 q then FullHouse
       else if postponed \<noteq> 0 then Flush else if straight_mask (uint s0) then Straight else Trips)"
proof -
  obtain r where r: "topBit (uint s2) = Some r" "0 \<le> r" "r \<le> 12" "s2 = 0 \<or> bit s2 (nat r)"
    using topBit_small [OF assms(3)] .
  then have nr: "nat r < 13" and b: "bit s2 (nat r)" using assms(4) by auto
  let ?s1 = "s1 XOR push_bit (nat r) 1"
  note sm = small_ops(4) [OF assms(2) small_single [OF nr]] small_ops(4) [OF assms(1) small_single [OF nr]]
  obtain v where v: "rd tripsVal (nat r) = Some v" "8606 \<le> v" "v \<le> 9542" using small_table(2) [OF nr] by blast
  obtain t where t: "topBit (uint ?s1) = Some t" "0 \<le> t" "t \<le> 12" using topBit_small [OF sm(1)] .
  obtain a where a: "anySuitVal (uint s0) = Some a" "anySuit_entry (uint s0) a"
    using anySuitVal_Some small_range [OF assms(1)] by blast
  obtain w where w: "tripsOtherVal (uint (s0 XOR push_bit (nat r) 1)) = Some w" "0 \<le> w" "w \<le> 77"
    using tripsOtherVal_Some small_range [OF sm(2)] by blast
  have "?s1 \<noteq> 0 \<longleftrightarrow> (\<exists>q<13. bit s1 q \<and> q \<noteq> nat r)"
    unfolding small_nonzero_iff [OF sm(1)] using drop_top [OF assms(5) [OF b]] by simp
  also have "\<dots> \<longleftrightarrow> (\<exists>r<13. \<exists>q<13. q \<noteq> r \<and> bit s2 r \<and> bit s1 q)"
    using assms(5) b nr by metis
  finally have fh: "?s1 \<noteq> 0 \<longleftrightarrow> (\<exists>r<13. \<exists>q<13. q \<noteq> r \<and> bit s2 r \<and> bit s1 q)" .
  note code = rank_trips_def category_of_value_def fullHouseOtherVal_def Let_def
  show ?thesis unfolding fh [symmetric]
  proof (cases "?s1 \<noteq> 0 \<or> postponed \<noteq> 0")
    case True
    then show "\<exists>v. rank_trips s0 s1 s2 postponed = Some v \<and> category_of_value v =
      (if ?s1 \<noteq> 0 then FullHouse else if postponed \<noteq> 0 then Flush
       else if straight_mask (uint s0) then Straight else Trips)"
      using r(1) v t assms(6) by (cases "?s1 = 0") (simp_all add: code)
  next
    case False
    then show "\<exists>v. rank_trips s0 s1 s2 postponed = Some v \<and> category_of_value v =
      (if ?s1 \<noteq> 0 then FullHouse else if postponed \<noteq> 0 then Flush
       else if straight_mask (uint s0) then Straight else Trips)"
      using r(1) v a w by (cases "straight_mask (uint s0)") (simp_all add: code anySuit_entry_def)
  qed
qed

lemma rank_pairs_value:
  assumes "small s0" "small s1" "s1 \<noteq> 0"
  shows "\<exists>v. rank_pairs s0 s1 = Some v \<and>
    category_of_value v = (if \<exists>r<13. \<exists>q<13. q \<noteq> r \<and> bit s1 r \<and> bit s1 q then TwoPair else Pair)"
proof -
  obtain r where r: "topBit (uint s1) = Some r" "0 \<le> r" "r \<le> 12" "s1 = 0 \<or> bit s1 (nat r)"
    using topBit_small [OF assms(2)] .
  then have nr: "nat r < 13" and b: "bit s1 (nat r)" using assms(3) by auto
  let ?s0 = "s0 XOR push_bit (nat r) 1" and ?s1 = "s1 XOR push_bit (nat r) 1"
  note sm = small_ops(4) [OF assms(2) small_single [OF nr]] small_ops(4) [OF assms(1) small_single [OF nr]]
  obtain v where v: "rd pairsVal (nat r) = Some v" "1287 \<le> v" "v \<le> 4719" using small_table(3) [OF nr] by blast
  obtain r2 where r2: "topBit (uint ?s1) = Some r2" "0 \<le> r2" "r2 \<le> 12" using topBit_small [OF sm(1)] .
  then have nr2: "nat r2 < 13" by auto
  obtain w where w: "rd twoPairOtherVal (nat r2) = Some w" "3718 \<le> w" "w \<le> 3874" using small_table(4) [OF nr2] by blast
  obtain t where t: "topBit (uint (?s0 XOR push_bit (nat r2) 1)) = Some t" "0 \<le> t" "t \<le> 12"
    using topBit_small [OF small_ops(4) [OF sm(2) small_single [OF nr2]]] .
  obtain u where u: "pairOtherVal (uint ?s0) = Some u" "0 \<le> u" "u \<le> 285"
    using pairOtherVal_Some small_range [OF sm(2)] by blast
  have "?s1 \<noteq> 0 \<longleftrightarrow> (\<exists>q<13. bit s1 q \<and> q \<noteq> nat r)"
    unfolding small_nonzero_iff [OF sm(1)] using drop_top [OF b] by simp
  also have "\<dots> \<longleftrightarrow> (\<exists>r<13. \<exists>q<13. q \<noteq> r \<and> bit s1 r \<and> bit s1 q)" using b nr by metis
  finally have tp: "?s1 \<noteq> 0 \<longleftrightarrow> (\<exists>r<13. \<exists>q<13. q \<noteq> r \<and> bit s1 r \<and> bit s1 q)" .
  show ?thesis unfolding tp [symmetric]
    using r(1) v r2 w t u by (simp add: rank_pairs_def category_of_value_def Let_def)
qed

section \<open>The category theorem\<close>

text \<open>For every set of cards of the deck \<open>rankCardset\<close> stays inside its tables, and the class of the
  value it returns, which is never negative, is the poker category of the set.\<close>

lemma rankCardset_category:
  assumes "valid_cardset c"
  shows "\<exists>v. rankCardset c = Some v \<and> 0 \<le> v \<and> category_of_value v = category_of c"
proof -
  obtain s0 s1 s2 s3 where s: "rank_sets c = (s0, s1, s2, s3)" by (cases "rank_sets c") auto
  note b = rank_sets_bits [OF assms s]
  have nz: "has_pair c \<longleftrightarrow> s1 \<noteq> 0" "has_trips c \<longleftrightarrow> s2 \<noteq> 0" "has_quads c \<longleftrightarrow> s3 \<noteq> 0"
    using small_nonzero_iff b by (simp_all add: has_pair_def has_trips_def has_quads_def)
  have two: "(\<exists>r<13. \<exists>q<13. q \<noteq> r \<and> bit s2 r \<and> bit s1 q) \<longleftrightarrow> has_full_house c"
    "(\<exists>r<13. \<exists>q<13. q \<noteq> r \<and> bit s1 r \<and> bit s1 q) \<longleftrightarrow> has_two_pair c"
    and st: "straight_mask (uint s0) \<longleftrightarrow> has_straight c"
    unfolding b(7,8) b(5) by (simp_all only: has_full_house_def has_two_pair_def has_straight_def)
  have sub: "has_full_house c \<Longrightarrow> has_trips c" "has_two_pair c \<Longrightarrow> has_pair c" "has_trips c \<Longrightarrow> has_pair c"
    by (auto simp: has_full_house_def has_trips_def has_two_pair_def has_pair_def intro: order_trans [of 2 3])
  obtain p where p: "rank_suits c = Some p"
    "if has_straight_flush c then HANDCLASS_STRAIGHT_FLUSH \<le> p
     else if has_flush c then HANDCLASS_FLUSH \<le> p \<and> p < HANDCLASS_FULL_HOUSE else p = 0"
    using rank_suits_value [OF assms] by blast
  obtain a where a: "anySuitVal (uint s0) = Some a" "anySuit_entry (uint s0) a"
    using anySuitVal_Some small_range [OF b(1)] by blast
  note code = rankCardset_def p(1) s
  show ?thesis
  proof (cases "has_straight_flush c")
    case True
    then show ?thesis using p(2) by (simp add: code category_of_def category_of_value_def)
  next
    case nsf: False
    then have q: "p < HANDCLASS_STRAIGHT_FLUSH" "p \<noteq> 0 \<longleftrightarrow> has_flush c"
      "has_flush c \<Longrightarrow> HANDCLASS_FLUSH \<le> p \<and> p < HANDCLASS_FULL_HOUSE" using p(2) by (auto split: if_splits)
    consider (quads) "s3 \<noteq> 0" | (trips) "s3 = 0" "s2 \<noteq> 0" | (rest) "s3 = 0" "s2 = 0" by blast
    then show ?thesis
    proof cases
      case quads
      obtain v where v: "rank_quads s0 s3 = Some v" "HANDCLASS_QUADS \<le> v" "v < HANDCLASS_STRAIGHT_FLUSH"
        using rank_quads_value [OF b(1,4) quads] by blast
      have "rankCardset c = Some v" using v(1) quads q(1) by (simp add: code)
      moreover have "category_of_value v = Quads" using v(2,3) by (simp add: category_of_value_def)
      moreover have "category_of c = Quads" using quads nz(3) nsf by (simp add: category_of_def)
      ultimately show ?thesis using v(2) by simp
    next
      case trips
      obtain v where v: "rank_trips s0 s1 s2 p = Some v" "category_of_value v =
        (if has_full_house c then FullHouse else if has_flush c then Flush else if has_straight c then Straight else Trips)"
        using rank_trips_value [OF b(1-3) trips(2), of p] b(7,8) q unfolding two st q(2) by fastforce
      have "rankCardset c = Some v" using v(1) trips q(1) by (simp add: code)
      then show ?thesis using v(2) nsf nz trips category_nonneg [of v] by (simp add: category_of_def)
    next
      case rest
      have cat: "category_of c = (if has_flush c then Flush else if has_straight c then Straight
        else if has_two_pair c then TwoPair else if has_pair c then Pair else SingleCard)"
        using rest nz nsf sub(1) by (auto simp: category_of_def)
      show ?thesis
      proof (cases "has_flush c \<or> has_straight c \<or> \<not> has_pair c")
        case True
        then have "rankCardset c = Some (if has_flush c then p else a)"
          using rest q a nz st by (auto simp: code anySuit_entry_def)
        then show ?thesis unfolding cat using True q a st sub
          by (auto simp: category_of_value_def anySuit_entry_def)
      next
        case False
        then obtain v where v: "rank_pairs s0 s1 = Some v" "category_of_value v = (if has_two_pair c then TwoPair else Pair)"
          using rank_pairs_value [OF b(1,2)] nz(1) unfolding two by blast
        have "rankCardset c = Some v" using False rest a v(1) nz q st by (simp add: code anySuit_entry_def)
        then show ?thesis unfolding cat using v(2) False category_nonneg [of v] by simp
      qed
    qed
  qed
qed

end
