(* ===== verification/Hand_Keys.thy ===== *)
theory Hand_Keys
  imports Rank_Lists Hand_Class "HOL-Library.Product_Lexorder" "HOL-Library.List_Lexorder"
begin

text \<open>
  The order of poker hands, independent of any evaluator: a hand is its category and the list of the ranks that
  decide between hands of that category.  The values that the two evaluators of the program compute are
  two encodings of such keys as numbers, and both are strictly monotone.
\<close>

section \<open>The order of the categories\<close>

primrec cat_index :: "category \<Rightarrow> nat" where
  "cat_index SingleCard = 0"
| "cat_index Pair = 1"
| "cat_index TwoPair = 2"
| "cat_index Trips = 3"
| "cat_index Straight = 4"
| "cat_index Flush = 5"
| "cat_index FullHouse = 6"
| "cat_index Quads = 7"
| "cat_index StraightFlush = 8"

lemma cat_index_inj: "cat_index a = cat_index b \<Longrightarrow> a = b"
  by (cases a; cases b) simp_all

instantiation category :: linorder
begin

definition less_eq_category :: "category \<Rightarrow> category \<Rightarrow> bool" where
  "less_eq_category a b \<longleftrightarrow> cat_index a \<le> cat_index b"

definition less_category :: "category \<Rightarrow> category \<Rightarrow> bool" where
  "less_category a b \<longleftrightarrow> cat_index a < cat_index b"

instance
  by standard (auto simp: less_eq_category_def less_category_def dest: cat_index_inj)

end

section \<open>Keys\<close>

primrec key_length :: "category \<Rightarrow> nat" where
  "key_length SingleCard = 5"
| "key_length Pair = 4"
| "key_length TwoPair = 3"
| "key_length Trips = 3"
| "key_length Straight = 1"
| "key_length Flush = 5"
| "key_length FullHouse = 2"
| "key_length Quads = 2"
| "key_length StraightFlush = 1"

text \<open>The ranks of a key are those of cards, and kickers are listed from the highest down.\<close>

fun valid_key :: "category \<times> nat list \<Rightarrow> bool" where
  "valid_key (cat, xs) \<longleftrightarrow> length xs = key_length cat \<and> (\<forall>x \<in> set xs. x < 13) \<and>
     (case cat of
        SingleCard \<Rightarrow> sorted_wrt (>) xs
      | Flush \<Rightarrow> sorted_wrt (>) xs
      | Pair \<Rightarrow> sorted_wrt (>) (tl xs)
      | Trips \<Rightarrow> sorted_wrt (>) (tl xs)
      | _ \<Rightarrow> True)"

text \<open>The values of \<open>rankCardset\<close>.\<close>

fun acpc_val :: "category \<times> nat list \<Rightarrow> int" where
  "acpc_val (StraightFlush, xs) = HANDCLASS_STRAIGHT_FLUSH + digits xs"
| "acpc_val (Quads, xs) = HANDCLASS_QUADS + digits xs"
| "acpc_val (FullHouse, xs) = HANDCLASS_FULL_HOUSE + 78 * int (hd xs) + digits (tl xs)"
| "acpc_val (Flush, xs) = HANDCLASS_FLUSH + comb xs"
| "acpc_val (Straight, xs) = HANDCLASS_STRAIGHT + digits xs"
| "acpc_val (Trips, xs) = HANDCLASS_TRIPS + 78 * int (hd xs) + comb (tl xs)"
| "acpc_val (TwoPair, xs) = HANDCLASS_TWO_PAIR + 286 * int (hd xs) + digits (tl xs)"
| "acpc_val (Pair, xs) = HANDCLASS_PAIR + 286 * int (hd xs) + comb (tl xs)"
| "acpc_val (SingleCard, xs) = comb xs"

section \<open>The encodings are strictly monotone\<close>

text \<open>A leading digit outweighs the rest.\<close>

lemma weight_less:
  assumes "0 \<le> a" "a < w" "0 \<le> b" "b < w" "x < y \<or> x = y \<and> a < b"
  shows "w * int x + a < w * int y + (b :: int)"
proof (cases "x < y")
  case True
  then have "w * (int x + 1) \<le> w * int y" using assms by (intro mult_left_mono) auto
  then show ?thesis using assms by (simp add: algebra_simps)
qed (use assms in auto)

lemma digits_less:
  "length xs = length ys \<Longrightarrow> \<forall>x \<in> set xs. x < 13 \<Longrightarrow> \<forall>y \<in> set ys. y < 13 \<Longrightarrow> xs < ys \<Longrightarrow> digits xs < digits ys"
proof (induction xs ys rule: list_induct2)
  case (Cons x xs y ys)
  then have "x < y \<or> x = y \<and> digits xs < digits ys" by auto
  then show ?case using weight_less [of "digits xs" "13 ^ length xs" "digits ys" x y] Cons digits_nonneg
      digits_bound [of xs] digits_bound [of ys] by simp
qed simp

lemma comb_less:
  "length xs = length ys \<Longrightarrow> sorted_wrt (>) xs \<Longrightarrow> sorted_wrt (>) ys \<Longrightarrow> xs < ys \<Longrightarrow> comb xs < comb ys"
proof (induction xs ys rule: list_induct2)
  case (Cons x xs y ys)
  show ?case
  proof (cases "x = y")
    case False
    then have "x < y" using Cons.prems(3) by auto
    have "comb (x # xs) < int (Suc x choose length (x # xs))" using Cons.prems(1) by (intro comb_bound) auto
    also have "\<dots> \<le> int (y choose Suc (length ys))" using \<open>x < y\<close> Cons.hyps by (simp add: binomial_right_mono del: binomial_Suc_Suc)
    also have "\<dots> \<le> comb (y # ys)" using comb_nonneg [of ys] by simp
    finally show ?thesis .
  qed (use Cons in auto)
qed simp

text \<open>The range of the values of a category.\<close>

lemma comb_range: "sorted_wrt (>) xs \<Longrightarrow> \<forall>x \<in> set xs. x < 13 \<Longrightarrow> length xs = n \<Longrightarrow> 0 \<le> comb xs \<and> comb xs < int (13 choose n)"
  using comb_bound [of xs 13] comb_nonneg [of xs] by simp

lemma choose_13: "13 choose 2 = (78 :: nat)" "13 choose 3 = (286 :: nat)" "13 choose 5 = (1287 :: nat)"
  by (simp_all add: numeral_eq_Suc)

lemma digits_range: "\<forall>x \<in> set xs. x < 13 \<Longrightarrow> length xs = n \<Longrightarrow> 0 \<le> digits xs \<and> digits xs < 13 ^ n"
  using digits_bound [of xs] digits_nonneg [of xs] by simp

primrec acpc_top :: "category \<Rightarrow> int" where
  "acpc_top SingleCard = HANDCLASS_PAIR"
| "acpc_top Pair = HANDCLASS_TWO_PAIR"
| "acpc_top TwoPair = HANDCLASS_TRIPS"
| "acpc_top Trips = HANDCLASS_STRAIGHT"
| "acpc_top Straight = HANDCLASS_FLUSH"
| "acpc_top Flush = HANDCLASS_FULL_HOUSE"
| "acpc_top FullHouse = HANDCLASS_QUADS"
| "acpc_top Quads = HANDCLASS_STRAIGHT_FLUSH"
| "acpc_top StraightFlush = 12116"

primrec acpc_base :: "category \<Rightarrow> int" where
  "acpc_base SingleCard = 0"
| "acpc_base Pair = HANDCLASS_PAIR"
| "acpc_base TwoPair = HANDCLASS_TWO_PAIR"
| "acpc_base Trips = HANDCLASS_TRIPS"
| "acpc_base Straight = HANDCLASS_STRAIGHT"
| "acpc_base Flush = HANDCLASS_FLUSH"
| "acpc_base FullHouse = HANDCLASS_FULL_HOUSE"
| "acpc_base Quads = HANDCLASS_QUADS"
| "acpc_base StraightFlush = HANDCLASS_STRAIGHT_FLUSH"

lemma key_split:
  assumes "length xs = Suc n" "\<forall>x \<in> set xs. x < (13 :: nat)"
  shows "\<exists>y ys. xs = y # ys \<and> y < 13 \<and> length ys = n \<and> (\<forall>x \<in> set ys. x < 13)"
  using assms by (cases xs) auto

lemma acpc_val_range:
  assumes "valid_key (cat, xs)"
  shows "acpc_base cat \<le> acpc_val (cat, xs) \<and> acpc_val (cat, xs) < acpc_top cat"
proof -
  have l: "length xs = key_length cat" "\<forall>x \<in> set xs. x < 13" using assms by auto
  have h: "\<exists>y ys. xs = y # ys \<and> y < 13 \<and> length ys = n \<and> (\<forall>x \<in> set ys. x < 13)" if "key_length cat = Suc n" for n
    using key_split [of xs n] l that by simp
  show ?thesis
  proof (cases cat)
    case SingleCard
    then show ?thesis using comb_range [of xs 5] assms choose_13 by simp
  next
    case Pair
    then obtain y ys where y: "xs = y # ys" "y < 13" "length ys = 3" "\<forall>x \<in> set ys. x < 13" using h [of 3] by auto
    then show ?thesis using comb_range [of ys 3] assms Pair choose_13 by simp
  next
    case TwoPair
    then obtain y ys where y: "xs = y # ys" "y < 13" "length ys = 2" "\<forall>x \<in> set ys. x < 13" using h [of 2] by auto
    then show ?thesis using digits_range [of ys 2] TwoPair by simp
  next
    case Trips
    then obtain y ys where y: "xs = y # ys" "y < 13" "length ys = 2" "\<forall>x \<in> set ys. x < 13" using h [of 2] by auto
    then show ?thesis using comb_range [of ys 2] assms Trips choose_13 by simp
  next
    case FullHouse
    then obtain y ys where y: "xs = y # ys" "y < 13" "length ys = 1" "\<forall>x \<in> set ys. x < 13" using h [of 1] by auto
    then show ?thesis using digits_range [of ys 1] FullHouse by simp
  next
    case Flush
    then show ?thesis using comb_range [of xs 5] assms choose_13 by simp
  qed (use l digits_range [of xs 1] digits_range [of xs 2] in \<open>simp_all\<close>)
qed

lemma acpc_val_less_same:
  assumes "valid_key (cat, xs)" "valid_key (cat, ys)" "xs < ys"
  shows "acpc_val (cat, xs) < acpc_val (cat, ys)"
proof -
  have l: "length xs = key_length cat" "length ys = key_length cat" "\<forall>x \<in> set xs. x < 13" "\<forall>y \<in> set ys. y < 13"
    using assms by auto
  have dig: "digits xs < digits ys" using digits_less [of xs ys] l assms(3) by simp
  obtain x xr y yr where e: "xs = x # xr" "ys = y # yr" using l by (cases xs; cases ys; cases cat) auto
  have r: "length xr = length yr" "x < 13" "y < 13" "\<forall>x \<in> set xr. x < 13" "\<forall>y \<in> set yr. y < 13" "x < y \<or> x = y \<and> xr < yr"
    using l assms(3) e by auto
  have d: "x < y \<or> x = y \<and> digits xr < digits yr" using r digits_less [of xr yr] by auto
  have c: "x < y \<or> x = y \<and> comb xr < comb yr" if "sorted_wrt (>) xr" "sorted_wrt (>) yr"
    using r comb_less [of xr yr] that by auto
  have rx: "0 \<le> digits xr \<and> digits xr < 13 ^ n" "0 \<le> digits yr \<and> digits yr < 13 ^ n" if "length xr = n" for n
    using digits_range [of xr n] digits_range [of yr n] r that by auto
  have cx: "0 \<le> comb xr \<and> comb xr < int (13 choose n)" "0 \<le> comb yr \<and> comb yr < int (13 choose n)"
    if "length xr = n" "sorted_wrt (>) xr" "sorted_wrt (>) yr" for n
    using comb_range [of xr n] comb_range [of yr n] r that by auto
  show ?thesis
  proof (cases cat)
    case Pair
    then show ?thesis using assms weight_less [of "comb xr" 286 "comb yr" x y] cx [of 3] c e choose_13 by simp
  next
    case TwoPair
    then show ?thesis using l e weight_less [of "digits xr" 286 "digits yr" x y] rx [of 2] d by simp
  next
    case Trips
    then show ?thesis using assms weight_less [of "comb xr" 78 "comb yr" x y] cx [of 2] c e choose_13 by simp
  next
    case FullHouse
    then show ?thesis using l e weight_less [of "digits xr" 78 "digits yr" x y] rx [of 1] d by simp
  next
    case SingleCard
    then show ?thesis using assms comb_less [of xs ys] l by simp
  next
    case Flush
    then show ?thesis using assms comb_less [of xs ys] l by simp
  qed (use dig in simp_all)
qed

lemma acpc_top_base: "a < b \<Longrightarrow> acpc_top a \<le> acpc_base b"
  by (cases a; cases b) (simp_all add: less_category_def)

text \<open>The value orders hands by their keys.\<close>

locale key_value =
  fixes val :: "category \<times> nat list \<Rightarrow> int" and base top :: "category \<Rightarrow> int"
  assumes range: "valid_key (cat, xs) \<Longrightarrow> base cat \<le> val (cat, xs) \<and> val (cat, xs) < top cat"
    and same: "valid_key (cat, xs) \<Longrightarrow> valid_key (cat, ys) \<Longrightarrow> xs < ys \<Longrightarrow> val (cat, xs) < val (cat, ys)"
    and apart: "a < b \<Longrightarrow> top a \<le> base b"
begin

lemma mono: "valid_key k \<Longrightarrow> valid_key l \<Longrightarrow> k < l \<Longrightarrow> val k < val l"
  using range [of "fst k" "snd k"] range [of "fst l" "snd l"] same [of "fst k" "snd k" "snd l"] apart [of "fst k" "fst l"]
  by (cases k; cases l) force

lemma less_iff: "valid_key k \<Longrightarrow> valid_key l \<Longrightarrow> val k < val l \<longleftrightarrow> k < l"
  using mono [of k l] mono [of l k] by (metis less_asym linorder_less_linear)

lemma eq_iff: "valid_key k \<Longrightarrow> valid_key l \<Longrightarrow> val k = val l \<longleftrightarrow> k = l"
  using less_iff [of k l] less_iff [of l k] by (metis less_irrefl linorder_less_linear)

end

interpretation acpc: key_value acpc_val acpc_base acpc_top
  by unfold_locales (simp_all only: acpc_val_range acpc_val_less_same acpc_top_base)

end
