(* ===== verification/Hand_Value.thy ===== *)
theory Hand_Value
  imports Hand_Keys
begin

unbundle bit_operations_syntax

text \<open>
  The value that \<open>rankCardset\<close> computes with its tables is the number of the key of the hand: the order of the values is
  the order of poker hands, kickers included.
\<close>

section \<open>The key of a hand\<close>

text \<open>The highest rank with a property, and the \<open>n\<close> highest.\<close>

definition top_rank :: "(nat \<Rightarrow> bool) \<Rightarrow> nat" where
  "top_rank p = hd (ranks_down 13 p)"

definition top_ranks :: "nat \<Rightarrow> (nat \<Rightarrow> bool) \<Rightarrow> nat list" where
  "top_ranks n p = take n (ranks_down 13 p)"

definition suit_size :: "Cardset \<Rightarrow> nat \<Rightarrow> nat" where
  "suit_size c k = length (ranks_down 13 (bit (bySuit c k)))"

text \<open>The first suit with five cards.\<close>

definition flush_suit :: "Cardset \<Rightarrow> nat" where
  "flush_suit c = hd (filter (\<lambda>k. 5 \<le> suit_size c k) [0, 1, 2, 3])"

definition hand_key :: "Cardset \<Rightarrow> category \<times> nat list" where
  "hand_key c =
     (let has = (\<lambda>j r. j \<le> rank_count c r);
          q = top_rank (has 4); t = top_rank (has 3); p = top_rank (has 2);
          p2 = top_rank (\<lambda>r. has 2 r \<and> r \<noteq> p)
      in (category_of c,
          case category_of c of
            StraightFlush \<Rightarrow> [the (straight_high (bit (bySuit c (flush_suit c))))]
          | Quads \<Rightarrow> [q, top_rank (\<lambda>r. has 1 r \<and> r \<noteq> q)]
          | FullHouse \<Rightarrow> [t, top_rank (\<lambda>r. has 2 r \<and> r \<noteq> t)]
          | Flush \<Rightarrow> top_ranks 5 (bit (bySuit c (flush_suit c)))
          | Straight \<Rightarrow> [the (straight_high (has 1))]
          | Trips \<Rightarrow> t # top_ranks 2 (\<lambda>r. has 1 r \<and> r \<noteq> t)
          | TwoPair \<Rightarrow> [p, p2, top_rank (\<lambda>r. has 1 r \<and> r \<noteq> p \<and> r \<noteq> p2)]
          | Pair \<Rightarrow> p # top_ranks 3 (\<lambda>r. has 1 r \<and> r \<noteq> p)
          | SingleCard \<Rightarrow> top_ranks 5 (has 1)))"

definition hand_size :: "Cardset \<Rightarrow> nat" where
  "hand_size c = (\<Sum>r<13. rank_count c r)"

section \<open>The highest ranks\<close>

lemma top_rank_eq: "r < 13 \<Longrightarrow> p r \<Longrightarrow> (\<And>q. r < q \<Longrightarrow> q < 13 \<Longrightarrow> \<not> p q) \<Longrightarrow> top_rank p = r"
proof -
  have "hd (ranks_down n p) = r" if "r < n" "p r" "\<And>q. r < q \<Longrightarrow> q < n \<Longrightarrow> \<not> p q" for n
    using that
  proof (induction n)
    case (Suc n)
    then show ?case by (cases "r = n") auto
  qed simp
  then show "r < 13 \<Longrightarrow> p r \<Longrightarrow> (\<And>q. r < q \<Longrightarrow> q < 13 \<Longrightarrow> \<not> p q) \<Longrightarrow> top_rank p = r" by (simp add: top_rank_def)
qed

lemma top_rank_holds:
  assumes "\<exists>r<13. p r"
  shows "top_rank p < 13" "p (top_rank p)"
proof -
  obtain r where "r \<in> set (ranks_down 13 p)" using assms unfolding set_ranks_down by blast
  then have "hd (ranks_down 13 p) \<in> set (ranks_down 13 p)" by (intro hd_in_set) (metis list.set(1) empty_iff)
  then show "top_rank p < 13" "p (top_rank p)" unfolding set_ranks_down top_rank_def by blast+
qed

lemma top_rank_max: "r < 13 \<Longrightarrow> p r \<Longrightarrow> r \<le> top_rank p"
proof (rule ccontr)
  assume a: "r < 13" "p r" "\<not> r \<le> top_rank p"
  have "ranks_down 13 p = top_rank p # tl (ranks_down 13 p)"
    using a(1,2) set_ranks_down [of 13 p] by (cases "ranks_down 13 p") (auto simp: top_rank_def)
  then have "\<forall>x \<in> set (tl (ranks_down 13 p)). x < top_rank p" using sorted_ranks_down [of 13 p] by (metis sorted_wrt.simps(2))
  moreover have "r \<in> set (ranks_down 13 p)" using a by (simp add: set_ranks_down)
  ultimately show False using a(3) \<open>ranks_down 13 p = _\<close> by (metis le_refl nat_less_le set_ConsD)
qed

lemma top_rank_cong: "(\<And>r. r < 13 \<Longrightarrow> p r = q r) \<Longrightarrow> top_rank p = top_rank q"
  unfolding top_rank_def using ranks_down_cong [of 13 p q] by simp

lemma top_ranks_cong: "(\<And>r. r < 13 \<Longrightarrow> p r = q r) \<Longrightarrow> top_ranks n p = top_ranks n q"
  unfolding top_ranks_def using ranks_down_cong [of 13 p q] by simp

lemma straight_high_cong:
  assumes "\<And>r. r < 13 \<Longrightarrow> p r = q r"
  shows "straight_high p = straight_high q"
proof -
  have "straight_at p h = straight_at q h" if "h < 13" for h using assms that by (simp add: straight_at_def)
  then show ?thesis unfolding straight_high_def by (intro find_cong) auto
qed

lemma top_ranks_facts:
  assumes "n \<le> card {r. r < 13 \<and> p r}"
  shows "length (top_ranks n p) = n" "sorted_wrt (>) (top_ranks n p)" "\<forall>x \<in> set (top_ranks n p). x < 13"
proof -
  show "length (top_ranks n p) = n" using assms by (simp add: top_ranks_def length_ranks_down)
  show "sorted_wrt (>) (top_ranks n p)" "\<forall>x \<in> set (top_ranks n p). x < 13"
    unfolding top_ranks_def by (rule take_ranks)+
qed

section \<open>Tables on words\<close>

lemma bit_uint13: "r < 13 \<Longrightarrow> bit (uint (w :: 16 word)) r = bit w r"
  by (simp add: bit_uint_iff)

lemma uint_ranks:
  "ranks_down 13 (bit (uint (w :: 16 word))) = ranks_down 13 (bit w)"
  "straight_high (bit (uint (w :: 16 word))) = straight_high (bit w)"
  by (rule ranks_down_cong straight_high_cong; simp add: bit_uint13)+

lemma topBit_top:
  assumes "small w" "w \<noteq> 0"
  shows "topBit (uint w) = Some (int (top_rank (bit w)))"
proof -
  obtain v where v: "topBit (uint w) = Some v" "topBit_entry (uint w) v" using topBit_Some small_range [OF assms(1)] by blast
  have "0 < uint w" using assms(2) uint_ge_0 [of w] by (auto simp: order_le_less simp flip: uint_0_iff)
  then have r: "0 \<le> v" "v \<le> 12" "2 ^ nat v \<le> uint w" "uint w < 2 ^ Suc (nat v)" using v(2) by (auto simp: topBit_entry_def)
  have "top_rank (bit w) = nat v"
  proof (rule top_rank_eq)
    show "nat v < 13" using r by simp
    show "bit w (nat v)" using bit_of_range [OF r(3,4)] r(2) by (simp add: bit_uint_iff)
    show "\<not> bit w q" if "nat v < q" "q < 13" for q
    proof -
      have "(2 :: int) ^ Suc (nat v) \<le> 2 ^ q" using that(1) by (intro power_increasing) auto
      then have "uint w < 2 ^ q" using r(4) by linarith
      then have "\<not> bit (uint w) q" by (simp add: bit_iff_odd)
      then show ?thesis using that(2) by (simp add: bit_uint_iff)
    qed
  qed
  then show ?thesis using v(1) r(1) by simp
qed

lemma small_values:
  "n < 13 \<Longrightarrow> rd quadsVal n = Some (11934 + 13 * int n)"
  "n < 13 \<Longrightarrow> rd tripsVal n = Some (8606 + 78 * int n)"
  "n < 13 \<Longrightarrow> rd pairsVal n = Some (1287 + 286 * int n)"
  "n < 13 \<Longrightarrow> rd twoPairOtherVal n = Some (3718 + 13 * int n)"
proof -
  have "\<forall>n \<in> set [0..<13]. rd quadsVal n = Some (11934 + 13 * int n) \<and> rd tripsVal n = Some (8606 + 78 * int n) \<and>
      rd pairsVal n = Some (1287 + 286 * int n) \<and> rd twoPairOtherVal n = Some (3718 + 13 * int n)"
    by code_simp
  then show "n < 13 \<Longrightarrow> rd quadsVal n = Some (11934 + 13 * int n)" "n < 13 \<Longrightarrow> rd tripsVal n = Some (8606 + 78 * int n)"
    "n < 13 \<Longrightarrow> rd pairsVal n = Some (1287 + 286 * int n)" "n < 13 \<Longrightarrow> rd twoPairOtherVal n = Some (3718 + 13 * int n)"
    by simp_all
qed

lemma pairOther_value:
  assumes "small w" "3 \<le> card {r. r < 13 \<and> bit w r}"
  shows "pairOtherVal (uint w) = Some (comb (top_ranks 3 (bit w)))"
  using kicker_entry [OF pairOtherVal_walk, of "uint w"] small_range [OF assms(1)] assms(2)
  by (auto simp: pairOtherVal_def uint_ranks length_ranks_down top_ranks_def)

lemma tripsOther_value:
  assumes "small w" "2 \<le> card {r. r < 13 \<and> bit w r}"
  shows "tripsOtherVal (uint w) = Some (comb (top_ranks 2 (bit w)))"
  using kicker_entry [OF tripsOtherVal_walk, of "uint w"] small_range [OF assms(1)] assms(2)
  by (auto simp: tripsOtherVal_def uint_ranks length_ranks_down top_ranks_def)

lemma anySuit_value:
  assumes "small w" "5 \<le> card {r. r < 13 \<and> bit w r} \<or> straight_high (bit w) \<noteq> None"
  shows "anySuitVal (uint w) =
    Some (case straight_high (bit w) of Some h \<Rightarrow> HANDCLASS_STRAIGHT + int h | None \<Rightarrow> comb (top_ranks 5 (bit w)))"
  using anySuitVal_entry [of "uint w"] small_range [OF assms(1)] assms(2)
  by (auto simp: uint_ranks length_ranks_down top_ranks_def split: option.splits)

lemma oneSuit_value:
  assumes "small w"
  shows "oneSuitVal (uint w) =
    Some (case straight_high (bit w) of
        Some h \<Rightarrow> HANDCLASS_STRAIGHT_FLUSH + int h
      | None \<Rightarrow> if 5 \<le> length (ranks_down 13 (bit w)) then HANDCLASS_FLUSH + comb (top_ranks 5 (bit w)) else 0)"
  using oneSuitVal_entry [of "uint w"] small_range [OF assms]
  by (auto simp: uint_ranks top_ranks_def split: option.splits)


section \<open>Counting cards\<close>

lemma rank_count_le: "rank_count c r \<le> 4"
  unfolding rank_count_def card_four by simp

lemma hand_size_split:
  assumes "S \<subseteq> {..<13}" "\<And>r. r < 13 \<Longrightarrow> r \<notin> S \<Longrightarrow> rank_count c r \<le> 1"
  shows "hand_size c = (\<Sum>r\<in>S. rank_count c r) + card {r. r < 13 \<and> 1 \<le> rank_count c r \<and> r \<notin> S}"
proof -
  have "hand_size c = (\<Sum>r\<in>S. rank_count c r) + (\<Sum>r\<in>{..<13} - S. rank_count c r)"
    unfolding hand_size_def using sum.subset_diff [OF assms(1), of "rank_count c"] by simp
  also have "(\<Sum>r\<in>{..<13} - S. rank_count c r) = (\<Sum>r\<in>{..<13} - S. if 1 \<le> rank_count c r then 1 else 0)"
    by (rule sum.cong) (use assms(2) in \<open>force+\<close>)
  also have "\<dots> = card {r \<in> {..<13} - S. 1 \<le> rank_count c r}" by (simp add: sum.If_cases Int_def)
  also have "{r \<in> {..<13} - S. 1 \<le> rank_count c r} = {r. r < 13 \<and> 1 \<le> rank_count c r \<and> r \<notin> S}" by auto
  finally show ?thesis .
qed

lemma hand_size_suits: "hand_size c = (\<Sum>k<4. suit_size c k)"
proof -
  have "hand_size c = (\<Sum>r<13. \<Sum>k<4. if bit (bySuit c k) r then 1 else 0)"
    unfolding hand_size_def rank_count_def by (simp add: sum.If_cases Int_def lessThan_def)
  also have "\<dots> = (\<Sum>k<4. \<Sum>r<13. if bit (bySuit c k) r then 1 else 0)" by (rule sum.swap)
  also have "\<dots> = (\<Sum>k<4. suit_size c k)"
    unfolding suit_size_def length_ranks_down by (simp add: sum.If_cases Int_def lessThan_def)
  finally show ?thesis .
qed

lemma one_flush:
  assumes "hand_size c \<le> 9" "j < 4" "k < 4" "5 \<le> suit_size c j" "5 \<le> suit_size c k"
  shows "j = k"
proof (rule ccontr)
  assume "j \<noteq> k"
  then have "suit_size c j + suit_size c k = (\<Sum>i\<in>{j, k}. suit_size c i)" by simp
  also have "\<dots> \<le> (\<Sum>i<4. suit_size c i)" using assms(2,3) by (intro sum_mono2) auto
  finally show False using assms(1,4,5) hand_size_suits [of c] by simp
qed

lemma flush_suit_eq:
  assumes "hand_size c \<le> 9" "k < 4" "5 \<le> suit_size c k"
  shows "flush_suit c = k"
proof -
  have k: "k \<in> set (filter (\<lambda>k. 5 \<le> suit_size c k) [0, 1, 2, 3])" using assms(2,3) by (auto simp: numeral_eq_Suc less_Suc_eq)
  then have "flush_suit c \<in> set (filter (\<lambda>k. 5 \<le> suit_size c k) [0, 1, 2, 3])"
    unfolding flush_suit_def by (intro hd_in_set) (metis empty_iff list.set(1))
  then have "flush_suit c < 4" "5 \<le> suit_size c (flush_suit c)" unfolding set_filter by auto
  then show ?thesis using one_flush [OF assms(1) _ assms(2) _ assms(3)] by blast
qed

section \<open>The value of a hand\<close>

text \<open>A rank taken out of a set of ranks.\<close>

lemma drop_rank:
  assumes "small w" "bit w q" "q < 13"
  shows "small (w XOR push_bit q 1)" "bit (w XOR push_bit q 1) = (\<lambda>r. bit w r \<and> r \<noteq> q)"
  using small_ops(4) [OF assms(1) small_single [OF assms(3)]] drop_top [OF assms(2)] by (simp_all add: fun_eq_iff)

lemma rank_suits_key:
  assumes "valid_cardset c" "hand_size c \<le> 9"
  shows "rank_suits c = Some (if has_flush c then
      (case straight_high (bit (bySuit c (flush_suit c))) of
         Some h \<Rightarrow> HANDCLASS_STRAIGHT_FLUSH + int h
       | None \<Rightarrow> HANDCLASS_FLUSH + comb (top_ranks 5 (bit (bySuit c (flush_suit c))))) else 0)"
proof -
  have sm: "small (bySuit c k)" if "k < 4" for k using assms(1) that by (auto simp: valid_cardset_def small_def)
  define v where "v k = (case straight_high (bit (bySuit c k)) of Some h \<Rightarrow> HANDCLASS_STRAIGHT_FLUSH + int h
      | None \<Rightarrow> if 5 \<le> suit_size c k then HANDCLASS_FLUSH + comb (top_ranks 5 (bit (bySuit c k))) else 0)" for k
  have v: "oneSuitVal (uint (bySuit c k)) = Some (v k)" if "k < 4" for k
    using oneSuit_value [OF sm [OF that]] by (simp add: v_def suit_size_def)
  have zero: "v k = 0" if "\<not> 5 \<le> suit_size c k" for k
    using that straight_length [of "bit (bySuit c k)"]
    by (cases "straight_high (bit (bySuit c k))") (auto simp: v_def suit_size_def)
  have nonneg: "0 \<le> v k" for k using comb_nonneg by (auto simp: v_def add_nonneg_nonneg split: option.splits)
  have run: "rank_suits c = Some (max (max (max (v 0) (v 1)) (v 2)) (v 3))"
    using v [of 0] v [of 1] v [of 2] v [of 3] by (simp add: rank_suits_def Let_def max_def)
  have flush: "has_flush c \<longleftrightarrow> (\<exists>k<4. 5 \<le> suit_size c k)"
    by (simp add: has_flush_def popcount_def uint_ranks suit_size_def)
  show ?thesis
  proof (cases "has_flush c")
    case True
    then obtain k where k: "k < 4" "5 \<le> suit_size c k" unfolding flush by blast
    have other: "v j = 0" if "j < 4" "j \<noteq> k" for j using zero one_flush [OF assms(2) that(1) k(1) _ k(2)] that(2) by blast
    have "k = 0 \<or> k = 1 \<or> k = 2 \<or> k = 3" using k(1) by linarith
    then have "max (max (max (v 0) (v 1)) (v 2)) (v 3) = v k" using other [of 0] other [of 1] other [of 2] other [of 3] nonneg [of k] by auto
    moreover have "v k = (case straight_high (bit (bySuit c k)) of Some h \<Rightarrow> HANDCLASS_STRAIGHT_FLUSH + int h
      | None \<Rightarrow> HANDCLASS_FLUSH + comb (top_ranks 5 (bit (bySuit c k))))" using k(2) by (simp add: v_def)
    ultimately show ?thesis unfolding flush_suit_eq [OF assms(2) k] using True run by simp
  next
    case False
    then have "v k = 0" if "k < 4" for k using that zero unfolding flush by blast
    from this [of 0] this [of 1] this [of 2] this [of 3] show ?thesis using False run by simp
  qed
qed


lemma category_cases:
  "category_of c = StraightFlush \<Longrightarrow> has_straight_flush c"
  "category_of c = Quads \<Longrightarrow> \<not> has_straight_flush c \<and> has_quads c"
  "category_of c = FullHouse \<Longrightarrow> \<not> has_straight_flush c \<and> \<not> has_quads c \<and> has_full_house c"
  "category_of c = Flush \<Longrightarrow> \<not> has_straight_flush c \<and> \<not> has_quads c \<and> \<not> has_full_house c \<and> has_flush c"
  "category_of c = Straight \<Longrightarrow> \<not> has_quads c \<and> \<not> has_full_house c \<and> \<not> has_flush c \<and> has_straight c"
  "category_of c = Trips \<Longrightarrow> \<not> has_quads c \<and> \<not> has_full_house c \<and> \<not> has_flush c \<and> \<not> has_straight c \<and> has_trips c"
  "category_of c = TwoPair \<Longrightarrow> \<not> has_flush c \<and> \<not> has_straight c \<and> \<not> has_trips c \<and> has_two_pair c"
  "category_of c = Pair \<Longrightarrow> \<not> has_flush c \<and> \<not> has_straight c \<and> \<not> has_trips c \<and> \<not> has_two_pair c \<and> has_pair c"
  "category_of c = SingleCard \<Longrightarrow> \<not> has_flush c \<and> \<not> has_straight c \<and> \<not> has_pair c"
  by (auto simp: category_of_def split: if_splits)

lemma straight_flush_suit:
  assumes "hand_size c \<le> 9"
  shows "has_straight_flush c \<longleftrightarrow> has_flush c \<and> straight_high (bit (bySuit c (flush_suit c))) \<noteq> None"
proof -
  have sf: "has_straight_flush c \<longleftrightarrow> (\<exists>k<4. 5 \<le> suit_size c k \<and> straight_high (bit (bySuit c k)) \<noteq> None)"
    and fl: "has_flush c \<longleftrightarrow> (\<exists>k<4. 5 \<le> suit_size c k)"
    by (auto simp: has_straight_flush_def has_flush_def popcount_def uint_ranks suit_size_def straight_mask_def)
  show ?thesis unfolding sf fl using flush_suit_eq [OF assms] by metis
qed

text \<open>The sets of ranks of a hand without a straight flush.\<close>

definition ranked_hand :: "Cardset \<Rightarrow> 16 word \<Rightarrow> 16 word \<Rightarrow> 16 word \<Rightarrow> 16 word \<Rightarrow> bool" where
  "ranked_hand c s0 s1 s2 s3 \<longleftrightarrow> valid_cardset c \<and> 5 \<le> hand_size c \<and> hand_size c \<le> 9 \<and>
     rank_sets c = (s0, s1, s2, s3) \<and> \<not> has_straight_flush c"

abbreviation has :: "Cardset \<Rightarrow> nat \<Rightarrow> nat \<Rightarrow> bool" where
  "has c j r \<equiv> j \<le> rank_count c r"

lemma has4: "has c 4 r \<longleftrightarrow> rank_count c r = 4"
  using rank_count_le [of c r] by linarith

lemma ranked_sets:
  assumes "ranked_hand c s0 s1 s2 s3"
  shows "small s0" "small s1" "small s2" "small s3"
    "bit s0 = has c 1" "bit s1 = has c 2" "bit s2 = has c 3" "bit s3 = has c 4"
    "s1 \<noteq> 0 \<longleftrightarrow> has_pair c" "s2 \<noteq> 0 \<longleftrightarrow> has_trips c" "s3 \<noteq> 0 \<longleftrightarrow> has_quads c"
    "has_straight c \<longleftrightarrow> straight_high (has c 1) \<noteq> None" "5 \<le> hand_size c" "hand_size c \<le> 9"
proof -
  have v: "valid_cardset c" "rank_sets c = (s0, s1, s2, s3)" and "5 \<le> hand_size c" "hand_size c \<le> 9"
    using assms by (simp_all add: ranked_hand_def)
  then show "5 \<le> hand_size c" "hand_size c \<le> 9" by simp_all
  note b = rank_sets_bits [OF v]
  show sm: "small s0" "small s1" "small s2" "small s3" using b(1-4) .
  show bits: "bit s0 = has c 1" "bit s1 = has c 2" "bit s2 = has c 3" "bit s3 = has c 4"
    using b(6-9) has4 [of c] by (auto simp: fun_eq_iff)
  show "s1 \<noteq> 0 \<longleftrightarrow> has_pair c" "s2 \<noteq> 0 \<longleftrightarrow> has_trips c" "s3 \<noteq> 0 \<longleftrightarrow> has_quads c"
    using small_nonzero_iff sm bits has4 [of c] by (simp_all add: has_pair_def has_trips_def has_quads_def)
  show "has_straight c \<longleftrightarrow> straight_high (has c 1) \<noteq> None"
    using b(5) bits(1) by (simp add: has_straight_def straight_mask_def uint_ranks)
qed

lemma flush_facts:
  assumes "hand_size c \<le> 9" "has_flush c"
  defines "xs \<equiv> top_ranks 5 (bit (bySuit c (flush_suit c)))"
  shows "length xs = 5" "sorted_wrt (>) xs" "\<forall>x \<in> set xs. x < 13" "0 \<le> comb xs" "comb xs < 1287"
proof -
  obtain k where k: "k < 4" "5 \<le> suit_size c k" using assms by (auto simp: has_flush_def popcount_def uint_ranks suit_size_def)
  then have f: "5 \<le> card {r. r < 13 \<and> bit (bySuit c (flush_suit c)) r}"
    using flush_suit_eq [OF assms(1) k] by (simp add: suit_size_def length_ranks_down)
  show "length xs = 5" "sorted_wrt (>) xs" "\<forall>x \<in> set xs. x < 13" unfolding xs_def using top_ranks_facts [OF f] by blast+
  show "0 \<le> comb xs" "comb xs < 1287"
    using comb5_bound [of "bit (bySuit c (flush_suit c))"] f by (simp_all add: xs_def length_ranks_down top_ranks_def)
qed

lemma ranked_suits:
  assumes "ranked_hand c s0 s1 s2 s3"
  shows "\<exists>p. rank_suits c = Some p \<and> p < HANDCLASS_STRAIGHT_FLUSH \<and> (p \<noteq> 0 \<longleftrightarrow> has_flush c) \<and>
    (has_flush c \<longrightarrow> p = HANDCLASS_FLUSH + comb (top_ranks 5 (bit (bySuit c (flush_suit c)))))"
proof -
  have c: "valid_cardset c" "hand_size c \<le> 9" "\<not> has_straight_flush c" using assms by (simp_all add: ranked_hand_def)
  then have "rank_suits c = Some (if has_flush c then HANDCLASS_FLUSH + comb (top_ranks 5 (bit (bySuit c (flush_suit c)))) else 0)"
    using rank_suits_key [OF c(1,2)] straight_flush_suit [OF c(2)] by auto
  then show ?thesis using flush_facts(4,5) [OF c(2)] by auto
qed


text \<open>Ranks other than those of the pairs or trips.\<close>

lemma other_ranks:
  assumes "S \<subseteq> {..<13}" "\<And>r. r < 13 \<Longrightarrow> r \<notin> S \<Longrightarrow> rank_count c r \<le> 1" "(\<Sum>r\<in>S. rank_count c r) + n \<le> hand_size c"
  shows "n \<le> card {r. r < 13 \<and> has c 1 r \<and> r \<notin> S}"
  using hand_size_split [OF assms(1,2)] assms(3) by simp

lemma kicker_exists:
  assumes "finite S" "S \<subseteq> {..<13}" "(\<Sum>r\<in>S. rank_count c r) < hand_size c"
  shows "\<exists>r<13. has c 1 r \<and> r \<notin> S"
proof (rule ccontr)
  assume "\<not> ?thesis"
  then have "rank_count c r = 0" if "r \<in> {..<13} - S" for r using that by fastforce
  then have "(\<Sum>r\<in>{..<13} - S. rank_count c r) = 0" by simp
  then have "hand_size c = (\<Sum>r\<in>S. rank_count c r)"
    unfolding hand_size_def using sum.subset_diff [OF assms(2), of "rank_count c"] by simp
  then show False using assms(3) by simp
qed

lemma full_house_top:
  assumes "has_trips c"
  shows "has_full_house c \<longleftrightarrow> (\<exists>r<13. has c 2 r \<and> r \<noteq> top_rank (has c 3))"
proof -
  have t: "top_rank (has c 3) < 13" "has c 3 (top_rank (has c 3))" using top_rank_holds [of "has c 3"] assms by (auto simp: has_trips_def)
  show ?thesis
  proof
    assume "has_full_house c"
    then obtain r q where rq: "r < 13" "q < 13" "q \<noteq> r" "has c 3 r" "has c 2 q" by (auto simp: has_full_house_def)
    then show "\<exists>r<13. has c 2 r \<and> r \<noteq> top_rank (has c 3)" by (cases "q = top_rank (has c 3)") auto
  qed (use t in \<open>auto simp: has_full_house_def\<close>)
qed

lemma two_pair_top:
  assumes "has_pair c"
  shows "has_two_pair c \<longleftrightarrow> (\<exists>r<13. has c 2 r \<and> r \<noteq> top_rank (has c 2))"
proof -
  have t: "top_rank (has c 2) < 13" "has c 2 (top_rank (has c 2))" using top_rank_holds [of "has c 2"] assms by (auto simp: has_pair_def)
  show ?thesis
  proof
    assume "has_two_pair c"
    then obtain r q where "r < 13" "q < 13" "q \<noteq> r" "has c 2 r" "has c 2 q" by (auto simp: has_two_pair_def)
    then show "\<exists>r<13. has c 2 r \<and> r \<noteq> top_rank (has c 2)" by (cases "q = top_rank (has c 2)") auto
  qed (use t in \<open>auto simp: has_two_pair_def\<close>)
qed

lemma quads_key:
  assumes rh: "ranked_hand c s0 s1 s2 s3" and "has_quads c"
  defines "q \<equiv> top_rank (has c 4)"
  defines "k \<equiv> top_rank (\<lambda>r. has c 1 r \<and> r \<noteq> q)"
  shows "rank_quads s0 s3 = Some (HANDCLASS_QUADS + digits [q, k])" "q < 13" "k < 13"
proof -
  note s = ranked_sets [OF rh]
  have q: "q < 13" "has c 4 q" using top_rank_holds [of "has c 4"] assms(2) has4 [of c] by (auto simp: has_quads_def q_def)
  have "\<exists>r<13. has c 1 r \<and> r \<notin> {q}" using q s(13) rank_count_le [of c q] by (intro kicker_exists) auto
  then have e: "\<exists>r<13. has c 1 r \<and> r \<noteq> q" by simp
  have b: "bit s0 q" using q by (simp add: s(5))
  note d = drop_rank [OF s(1) b q(1)]
  have nz: "s0 XOR push_bit q 1 \<noteq> 0" using e small_nonzero_iff [OF d(1)] d(2) by (simp add: s(5))
  have "topBit (uint s3) = Some (int q)" using topBit_top [OF s(4)] s(8,11) assms(2) by (simp add: q_def)
  moreover have "topBit (uint (s0 XOR push_bit q 1)) = Some (int k)" using topBit_top [OF d(1) nz] d(2) by (simp add: s(5) k_def)
  ultimately show "rank_quads s0 s3 = Some (HANDCLASS_QUADS + digits [q, k])" using small_values(1) [OF q(1)] by (simp add: rank_quads_def)
  show "q < 13" "k < 13" using q(1) top_rank_holds(1) [OF e] by (simp_all add: k_def)
qed

lemma trips_key:
  assumes rh: "ranked_hand c s0 s1 s2 s3" and tr: "has_trips c" and nq: "\<not> has_quads c"
  defines "t \<equiv> top_rank (has c 3)"
  shows "t < 13" "has_full_house c \<Longrightarrow> rank_trips s0 s1 s2 p = Some (HANDCLASS_FULL_HOUSE + 78 * int t + digits [top_rank (\<lambda>r. has c 2 r \<and> r \<noteq> t)])"
    "\<not> has_full_house c \<Longrightarrow> p \<noteq> 0 \<Longrightarrow> rank_trips s0 s1 s2 p = Some p"
    "\<not> has_full_house c \<Longrightarrow> 2 \<le> card {r. r < 13 \<and> has c 1 r \<and> r \<noteq> t}"
    "\<not> has_full_house c \<Longrightarrow> p = 0 \<Longrightarrow> rank_trips s0 s1 s2 p = Some (case straight_high (has c 1) of Some h \<Rightarrow> HANDCLASS_STRAIGHT + int h
       | None \<Rightarrow> HANDCLASS_TRIPS + 78 * int t + comb (top_ranks 2 (\<lambda>r. has c 1 r \<and> r \<noteq> t)))"
proof -
  note s = ranked_sets [OF rh]
  have t: "t < 13" "has c 3 t" using top_rank_holds [of "has c 3"] tr by (auto simp: has_trips_def t_def)
  show "t < 13" by (rule t)
  have b: "bit s0 t" "bit s1 t" using t by (simp_all add: s(5,6))
  note d0 = drop_rank [OF s(1) b(1) t(1)] and d1 = drop_rank [OF s(2) b(2) t(1)]
  have top: "topBit (uint s2) = Some (int t)" using topBit_top [OF s(3)] s(7,10) tr by (simp add: t_def)
  have fh: "s1 XOR push_bit t 1 \<noteq> 0 \<longleftrightarrow> has_full_house c"
    using small_nonzero_iff [OF d1(1)] d1(2) full_house_top [OF tr] by (simp add: s(6) t_def)
  note v = small_values(2) [OF t(1)]
  have code: "rank_trips s0 s1 s2 p = (if s1 XOR push_bit t 1 \<noteq> 0 then
         do { w \<leftarrow> topBit (uint (s1 XOR push_bit t 1)); Some (8606 + 78 * int t + fullHouseOtherVal + w) }
       else if p \<noteq> 0 then Some p
       else do { a \<leftarrow> anySuitVal (uint s0); if a \<ge> HANDCLASS_STRAIGHT then Some a
         else do { w \<leftarrow> tripsOtherVal (uint (s0 XOR push_bit t 1)); Some (8606 + 78 * int t + w) } })"
    unfolding rank_trips_def Let_def top Option.bind.simps nat_int v by simp
  show "has_full_house c \<Longrightarrow> rank_trips s0 s1 s2 p = Some (HANDCLASS_FULL_HOUSE + 78 * int t + digits [top_rank (\<lambda>r. has c 2 r \<and> r \<noteq> t)])"
    using topBit_top [OF d1(1)] fh d1(2) unfolding code by (simp add: s(6) fullHouseOtherVal_def)
  show "\<not> has_full_house c \<Longrightarrow> p \<noteq> 0 \<Longrightarrow> rank_trips s0 s1 s2 p = Some p" using fh unfolding code by simp
  have le3: "rank_count c t \<le> 3" using nq t(1) rank_count_le [of c t] by (auto simp: has_quads_def le_less)
  show kick: "2 \<le> card {r. r < 13 \<and> has c 1 r \<and> r \<noteq> t}" if nf: "\<not> has_full_house c"
  proof -
    have "rank_count c r \<le> 1" if "r < 13" "r \<notin> {t}" for r using nf full_house_top [OF tr] that by (force simp: t_def)
    then have "2 \<le> card {r. r < 13 \<and> has c 1 r \<and> r \<notin> {t}}" using t(1) le3 s(13) by (intro other_ranks) auto
    then show ?thesis by simp
  qed
  show "rank_trips s0 s1 s2 p = Some (case straight_high (has c 1) of Some h \<Rightarrow> HANDCLASS_STRAIGHT + int h
       | None \<Rightarrow> HANDCLASS_TRIPS + 78 * int t + comb (top_ranks 2 (\<lambda>r. has c 1 r \<and> r \<noteq> t)))"
    if nf: "\<not> has_full_house c" "p = 0"
  proof -
    have "tripsOtherVal (uint (s0 XOR push_bit t 1)) = Some (comb (top_ranks 2 (\<lambda>r. has c 1 r \<and> r \<noteq> t)))"
      using tripsOther_value [OF d0(1)] kick [OF nf(1)] d0(2) by (simp add: s(5))
    moreover obtain a where "anySuitVal (uint s0) = Some a" "anySuit_entry (uint s0) a"
      using anySuitVal_Some small_range [OF s(1)] by blast
    moreover have "straight_mask (uint s0) \<longleftrightarrow> straight_high (has c 1) \<noteq> None" by (simp add: straight_mask_def uint_ranks s(5))
    moreover have "anySuitVal (uint s0) = Some (HANDCLASS_STRAIGHT + int h)" if "straight_high (has c 1) = Some h" for h
      using anySuit_value [OF s(1)] that by (simp add: s(5))
    ultimately show ?thesis using nf fh unfolding code by (cases "straight_high (has c 1)") (auto simp: anySuit_entry_def)
  qed
qed


lemma pairs_key:
  assumes rh: "ranked_hand c s0 s1 s2 s3" and pr: "has_pair c" and nt: "\<not> has_trips c"
  defines "p \<equiv> top_rank (has c 2)"
  defines "q \<equiv> top_rank (\<lambda>r. has c 2 r \<and> r \<noteq> p)"
  defines "k \<equiv> top_rank (\<lambda>r. has c 1 r \<and> r \<noteq> p \<and> r \<noteq> q)"
  shows "p < 13"
    "has_two_pair c \<Longrightarrow> rank_pairs s0 s1 = Some (HANDCLASS_TWO_PAIR + 286 * int p + digits [q, k])"
    "has_two_pair c \<Longrightarrow> q < 13 \<and> k < 13"
    "\<not> has_two_pair c \<Longrightarrow> 3 \<le> card {r. r < 13 \<and> has c 1 r \<and> r \<noteq> p}"
    "\<not> has_two_pair c \<Longrightarrow> rank_pairs s0 s1 = Some (HANDCLASS_PAIR + 286 * int p + comb (top_ranks 3 (\<lambda>r. has c 1 r \<and> r \<noteq> p)))"
proof -
  note s = ranked_sets [OF rh]
  have le2: "rank_count c r \<le> 2" if "r < 13" for r using nt that by (force simp: has_trips_def not_le)
  have p: "p < 13" "has c 2 p" using top_rank_holds [of "has c 2"] pr by (auto simp: has_pair_def p_def)
  show "p < 13" by (rule p)
  have b: "bit s0 p" "bit s1 p" using p by (simp_all add: s(5,6))
  note d0 = drop_rank [OF s(1) b(1) p(1)] and d1 = drop_rank [OF s(2) b(2) p(1)]
  have top: "topBit (uint s1) = Some (int p)" using topBit_top [OF s(2)] s(6,9) pr by (simp add: p_def)
  have tp: "s1 XOR push_bit p 1 \<noteq> 0 \<longleftrightarrow> has_two_pair c"
    using small_nonzero_iff [OF d1(1)] d1(2) two_pair_top [OF pr] by (simp add: s(6) p_def)
  note v = small_values(3) [OF p(1)]
  have code: "rank_pairs s0 s1 = (if s1 XOR push_bit p 1 \<noteq> 0 then
       do { r2 \<leftarrow> topBit (uint (s1 XOR push_bit p 1)); w \<leftarrow> rd twoPairOtherVal (nat r2);
            t \<leftarrow> topBit (uint ((s0 XOR push_bit p 1) XOR push_bit (nat r2) 1)); Some (1287 + 286 * int p + w + t) }
       else do { t \<leftarrow> pairOtherVal (uint (s0 XOR push_bit p 1)); Some (1287 + 286 * int p + t) })"
    unfolding rank_pairs_def Let_def top Option.bind.simps nat_int v by simp
  have two: "rank_pairs s0 s1 = Some (HANDCLASS_TWO_PAIR + 286 * int p + digits [q, k]) \<and> q < 13 \<and> k < 13" if tw: "has_two_pair c"
  proof -
    have "\<exists>r<13. has c 2 r \<and> r \<noteq> p" using two_pair_top [OF pr] tw by (simp add: p_def)
    then have q: "q < 13" "has c 2 q" "q \<noteq> p" using top_rank_holds [of "\<lambda>r. has c 2 r \<and> r \<noteq> p"] by (auto simp: q_def)
    have "\<exists>r<13. has c 1 r \<and> r \<notin> {p, q}" using p q s(13) le2 [OF p(1)] le2 [OF q(1)] by (intro kicker_exists) auto
    then have e: "\<exists>r<13. has c 1 r \<and> r \<noteq> p \<and> r \<noteq> q" by simp
    have "bit (s0 XOR push_bit p 1) q" using q d0(2) by (simp add: s(5))
    note d2 = drop_rank [OF d0(1) this q(1)]
    have "(s0 XOR push_bit p 1) XOR push_bit q 1 \<noteq> 0" using e small_nonzero_iff [OF d2(1)] d2(2) d0(2) by (simp add: s(5))
    then have "topBit (uint ((s0 XOR push_bit p 1) XOR push_bit q 1)) = Some (int k)"
      using topBit_top [OF d2(1)] d2(2) d0(2) by (simp add: s(5) k_def)
    moreover have "topBit (uint (s1 XOR push_bit p 1)) = Some (int q)" using topBit_top [OF d1(1)] tp tw d1(2) by (simp add: s(6) q_def)
    ultimately have "rank_pairs s0 s1 = Some (1287 + 286 * int p + (3718 + 13 * int q) + int k)"
      unfolding code using tp tw small_values(4) [OF q(1)] by simp
    then show ?thesis using q(1) top_rank_holds(1) [OF e] by (simp add: k_def)
  qed
  then show "has_two_pair c \<Longrightarrow> rank_pairs s0 s1 = Some (HANDCLASS_TWO_PAIR + 286 * int p + digits [q, k])"
    "has_two_pair c \<Longrightarrow> q < 13 \<and> k < 13" by blast+
  show kick: "3 \<le> card {r. r < 13 \<and> has c 1 r \<and> r \<noteq> p}" if nf: "\<not> has_two_pair c"
  proof -
    have "rank_count c r \<le> 1" if "r < 13" "r \<notin> {p}" for r using nf two_pair_top [OF pr] that by (force simp: p_def)
    then have "3 \<le> card {r. r < 13 \<and> has c 1 r \<and> r \<notin> {p}}" using p(1) le2 [OF p(1)] s(13) by (intro other_ranks) auto
    then show ?thesis by simp
  qed
  show "rank_pairs s0 s1 = Some (HANDCLASS_PAIR + 286 * int p + comb (top_ranks 3 (\<lambda>r. has c 1 r \<and> r \<noteq> p)))" if "\<not> has_two_pair c"
    using pairOther_value [OF d0(1)] kick [OF that] d0(2) tp that unfolding code by (simp add: s(5))
qed

lemma single_ranks:
  assumes "ranked_hand c s0 s1 s2 s3" "\<not> has_pair c"
  shows "5 \<le> card {r. r < 13 \<and> has c 1 r}"
proof -
  have "rank_count c r \<le> 1" if "r < 13" "r \<notin> {}" for r using assms(2) that by (force simp: has_pair_def)
  then show ?thesis using other_ranks [of "{}" c 5] ranked_sets(13) [OF assms(1)] by simp
qed


text \<open>The value of every hand of five to nine cards is the number of its key.\<close>

lemma rankCardset_no_sf:
  assumes rh: "ranked_hand c s0 s1 s2 s3"
  shows "rankCardset c = Some (acpc_val (hand_key c)) \<and> valid_key (hand_key c)"
proof -
  note s = ranked_sets [OF rh]
  have nsf: "\<not> has_straight_flush c" and sets: "rank_sets c = (s0, s1, s2, s3)" using rh by (simp_all add: ranked_hand_def)
  obtain p where p: "rank_suits c = Some p" "p < HANDCLASS_STRAIGHT_FLUSH" "p \<noteq> 0 \<longleftrightarrow> has_flush c"
    "has_flush c \<Longrightarrow> p = HANDCLASS_FLUSH + comb (top_ranks 5 (bit (bySuit c (flush_suit c))))"
    using ranked_suits [OF rh] by blast
  have run: "rankCardset c = (if has_quads c then rank_quads s0 s3 else if has_trips c then rank_trips s0 s1 s2 p
      else if p \<noteq> 0 then Some p
      else do { a \<leftarrow> anySuitVal (uint s0); if a \<ge> HANDCLASS_STRAIGHT then Some a else if has_pair c then rank_pairs s0 s1 else Some a })"
    unfolding rankCardset_def p(1) sets Option.bind.simps prod.case s(9-11) using p(2) by simp
  note key = hand_key_def Let_def
  note fl = flush_facts [OF s(14)]
  have sub: "has_full_house c \<Longrightarrow> has_trips c" "has_two_pair c \<Longrightarrow> has_pair c"
    by (auto simp: has_full_house_def has_trips_def has_two_pair_def has_pair_def)
  show ?thesis
  proof (cases "category_of c")
    case StraightFlush
    then show ?thesis using category_cases(1) nsf by blast
  next
    case Quads
    then show ?thesis using category_cases(2) [of c] quads_key [OF rh] run by (simp add: key)
  next
    case FullHouse
    note cc = category_cases(3) [OF this]
    have tr: "has_trips c" "\<not> has_quads c" "has_full_house c" using cc sub by blast+
    have "top_rank (\<lambda>r. has c 2 r \<and> r \<noteq> top_rank (has c 3)) < 13"
      using top_rank_holds(1) [of "\<lambda>r. has c 2 r \<and> r \<noteq> top_rank (has c 3)"] full_house_top [OF tr(1)] tr(3) by simp
    then show ?thesis using FullHouse tr trips_key(1,2) [OF rh tr(1,2)] run by (simp add: key)
  next
    case Flush
    note cc = category_cases(4) [OF this]
    then have "rankCardset c = Some p" using run p(3) trips_key(3) [OF rh] by simp
    then show ?thesis using Flush cc fl(1-3) p(4) by (simp add: key)
  next
    case Straight
    note cc = category_cases(5) [OF this]
    then obtain h where h: "straight_high (has c 1) = Some h" using s(12) by blast
    have "anySuitVal (uint s0) = Some (HANDCLASS_STRAIGHT + int h)" using anySuit_value [OF s(1)] h by (simp add: s(5))
    then have "rankCardset c = Some (HANDCLASS_STRAIGHT + int h)" using run cc p(3) trips_key(5) [OF rh] h by simp
    then show ?thesis using Straight h straight_high_SomeD [OF h] by (simp add: key)
  next
    case Trips
    note cc = category_cases(6) [OF this]
    then have "straight_high (has c 1) = None" using s(12) by simp
    then have "rankCardset c = Some (HANDCLASS_TRIPS + 78 * int (top_rank (has c 3)) + comb (top_ranks 2 (\<lambda>r. has c 1 r \<and> r \<noteq> top_rank (has c 3))))"
      using run cc p(3) trips_key(5) [OF rh] by simp
    then show ?thesis using Trips cc trips_key(1) [OF rh] top_ranks_facts [OF trips_key(4) [OF rh]] by (simp add: key)
  next
    case TwoPair
    note cc = category_cases(7) [OF this]
    then have c: "has_pair c" "\<not> has_trips c" "\<not> has_quads c" using sub by (auto simp: has_quads_def has_trips_def)
    obtain a where a: "anySuitVal (uint s0) = Some a" "anySuit_entry (uint s0) a" using anySuitVal_Some small_range [OF s(1)] by blast
    then have "a < HANDCLASS_STRAIGHT" using cc s(12) by (simp add: anySuit_entry_def straight_mask_def uint_ranks s(5))
    then have "rankCardset c = rank_pairs s0 s1" using run a(1) cc c p(3) by simp
    then show ?thesis using TwoPair cc pairs_key(1-3) [OF rh c(1,2)] by (simp add: key)
  next
    case Pair
    note cc = category_cases(8) [OF this]
    then have c: "has_pair c" "\<not> has_trips c" "\<not> has_quads c" by (auto simp: has_quads_def has_trips_def)
    obtain a where a: "anySuitVal (uint s0) = Some a" "anySuit_entry (uint s0) a" using anySuitVal_Some small_range [OF s(1)] by blast
    then have "a < HANDCLASS_STRAIGHT" using cc s(12) by (simp add: anySuit_entry_def straight_mask_def uint_ranks s(5))
    then have "rankCardset c = rank_pairs s0 s1" using run a(1) cc c p(3) by simp
    then show ?thesis using Pair cc pairs_key(1,5) [OF rh c(1,2)] top_ranks_facts [OF pairs_key(4) [OF rh c(1,2)]] by (simp add: key)
  next
    case SingleCard
    note cc = category_cases(9) [OF this]
    then have c: "\<not> has_trips c" "\<not> has_quads c" by (auto simp: has_quads_def has_trips_def has_pair_def)
    note five = single_ranks [OF rh] top_ranks_facts [OF single_ranks [OF rh]]
    have "straight_high (has c 1) = None" using cc s(12) by simp
    then have "anySuitVal (uint s0) = Some (comb (top_ranks 5 (has c 1)))" using anySuit_value [OF s(1)] five(1) cc by (simp add: s(5))
    moreover have "comb (top_ranks 5 (has c 1)) < HANDCLASS_STRAIGHT"
      using comb5_bound [of "has c 1"] five(1) cc by (simp add: length_ranks_down top_ranks_def)
    ultimately have "rankCardset c = Some (comb (top_ranks 5 (has c 1)))" using run cc c p(3) by simp
    then show ?thesis using SingleCard cc five(2-4) by (simp add: key)
  qed
qed

lemma rankCardset_key:
  assumes "valid_cardset c" "5 \<le> hand_size c" "hand_size c \<le> 9"
  shows "rankCardset c = Some (acpc_val (hand_key c))" "valid_key (hand_key c)"
proof -
  obtain s0 s1 s2 s3 where s: "rank_sets c = (s0, s1, s2, s3)" by (cases "rank_sets c") auto
  have "rankCardset c = Some (acpc_val (hand_key c)) \<and> valid_key (hand_key c)"
  proof (cases "has_straight_flush c")
    case True
    then obtain h where h: "has_flush c" "straight_high (bit (bySuit c (flush_suit c))) = Some h"
      using straight_flush_suit [OF assms(3)] by blast
    then have "rank_suits c = Some (HANDCLASS_STRAIGHT_FLUSH + int h)" using rank_suits_key [OF assms(1,3)] by simp
    moreover have "category_of c = StraightFlush" using True by (simp add: category_of_def)
    ultimately show ?thesis using h(2) straight_high_SomeD [OF h(2)] by (simp add: rankCardset_def hand_key_def Let_def)
  next
    case False
    then show ?thesis using rankCardset_no_sf [of c s0 s1 s2 s3] assms s by (simp add: ranked_hand_def)
  qed
  then show "rankCardset c = Some (acpc_val (hand_key c))" "valid_key (hand_key c)" by blast+
qed

end
