(* ===== verification/Holdem_Counts.thy ===== *)
theory Holdem_Counts
  imports Holdem_Evaluator Hand_Value Game_Types
begin

text \<open>
  The parts of \<open>Evaluate\<close> against the key of the hand: the counts, the search for straights, the loop over the counts and
  the cascades.
\<close>

section \<open>Values as numbers of keys\<close>

primrec holdem_base :: "category \<Rightarrow> int" where
  "holdem_base SingleCard = kNoPair"
| "holdem_base Pair = kPair"
| "holdem_base TwoPair = kTwoPair"
| "holdem_base Trips = kThreeOfAKind"
| "holdem_base Straight = kStraight"
| "holdem_base Flush = kFlush"
| "holdem_base FullHouse = kFullHouse"
| "holdem_base Quads = kQuads"
| "holdem_base StraightFlush = kStraightFlush"

definition holdem_top :: "category \<Rightarrow> int" where
  "holdem_top cat = holdem_base cat + 13 ^ key_length cat"

definition holdem_val :: "category \<times> nat list \<Rightarrow> int" where
  "holdem_val = (\<lambda>(cat, xs). holdem_base cat + digits xs)"

interpretation holdem: key_value holdem_val holdem_base holdem_top
proof
  fix cat xs ys assume x: "valid_key (cat, xs)"
  show "holdem_base cat \<le> holdem_val (cat, xs) \<and> holdem_val (cat, xs) < holdem_top cat"
    using x digits_range [of xs "key_length cat"] by (simp add: holdem_val_def holdem_top_def)
  assume "valid_key (cat, ys)" "xs < ys"
  then show "holdem_val (cat, xs) < holdem_val (cat, ys)" using x digits_less [of xs ys] by (simp add: holdem_val_def)
next
  fix a b :: category assume "a < b"
  then show "holdem_top a \<le> holdem_base b" by (cases a; cases b) (simp_all add: less_category_def holdem_top_def)
qed

section \<open>Counts\<close>

text \<open>The cards of the list are the cards of the set.\<close>

definition same_cards :: "Cardset \<Rightarrow> nat list \<Rightarrow> bool" where
  "same_cards c cs \<longleftrightarrow> (\<forall>k<4. \<forall>r<16. bit (bySuit c k) r \<longleftrightarrow> r < 13 \<and> makeCard r k \<in> set cs)"

lemma Rank_Suit: "Rank 4 (int x) = Some (int (rankOfCard x))" "Suit 4 (int x) = Some (int (suitOfCard x))"
  by (simp_all add: Rank_def Suit_def rankOfCard_def suitOfCard_def signed_divide_int_def signed_modulo_int_def zdiv_int zmod_int
      sgn_if)

lemma bump_count_in: "i < length xs \<Longrightarrow> bump_count xs (int i) = Some (xs[i := xs ! i + 1])"
  by (simp add: bump_count_def)

definition count_by :: "(nat \<Rightarrow> nat) \<Rightarrow> nat \<Rightarrow> nat list \<Rightarrow> nat" where
  "count_by f v cs = length (filter (\<lambda>x. f x = v) cs)"

lemma count_cards_run:
  assumes "\<forall>x \<in> set cs. x < 52" "i + length cs \<le> 7" "length (h_ranks h) = 7" "length (h_suits h) = 7"
    "length (h_rank_counts h) = 13" "length (h_suit_counts h) = 4"
  shows "\<exists>h'. count_cards 4 (map int cs) i (length cs) h = Some h' \<and>
    take (i + length cs) (h_ranks h') = take i (h_ranks h) @ map (\<lambda>x. int (rankOfCard x)) cs \<and>
    take (i + length cs) (h_suits h') = take i (h_suits h) @ map (\<lambda>x. int (suitOfCard x)) cs \<and>
    (\<forall>r<13. h_rank_counts h' ! r = h_rank_counts h ! r + int (count_by rankOfCard r cs)) \<and>
    (\<forall>k<4. h_suit_counts h' ! k = h_suit_counts h ! k + int (count_by suitOfCard k cs)) \<and>
    length (h_ranks h') = 7 \<and> length (h_suits h') = 7 \<and> length (h_rank_counts h') = 13 \<and> length (h_suit_counts h') = 4"
  using assms
proof (induction cs arbitrary: i h)
  case Nil
  then show ?case by (simp add: count_by_def)
next
  case (Cons x cs)
  let ?r = "rankOfCard x" and ?k = "suitOfCard x"
  have rk: "?r < 13" "?k < 4" using Cons.prems(1) by (auto simp: rankOfCard_def suitOfCard_def)
  let ?h = "\<lparr>h_ranks = (h_ranks h)[i := int ?r], h_suits = (h_suits h)[i := int ?k],
     h_rank_counts = (h_rank_counts h)[?r := h_rank_counts h ! ?r + 1], h_suit_counts = (h_suit_counts h)[?k := h_suit_counts h ! ?k + 1]\<rparr>"
  have step: "count_cards 4 (map int (x # cs)) i (length (x # cs)) h = count_cards 4 (map int cs) (Suc i) (length cs) ?h"
    using Cons.prems rk by (simp add: Rank_Suit bump_count_in)
  have i: "take (Suc i) (xs[i := v]) = take i xs @ [v]" if "length xs = 7" for xs :: "int list" and v
    using that Cons.prems(2) by (simp add: take_Suc_conv_app_nth)
  obtain h' where h': "count_cards 4 (map int cs) (Suc i) (length cs) ?h = Some h'"
    "take (Suc i + length cs) (h_ranks h') = take (Suc i) (h_ranks ?h) @ map (\<lambda>x. int (rankOfCard x)) cs"
    "take (Suc i + length cs) (h_suits h') = take (Suc i) (h_suits ?h) @ map (\<lambda>x. int (suitOfCard x)) cs"
    "\<forall>r<13. h_rank_counts h' ! r = h_rank_counts ?h ! r + int (count_by rankOfCard r cs)"
    "\<forall>k<4. h_suit_counts h' ! k = h_suit_counts ?h ! k + int (count_by suitOfCard k cs)"
    "length (h_ranks h') = 7 \<and> length (h_suits h') = 7 \<and> length (h_rank_counts h') = 13 \<and> length (h_suit_counts h') = 4"
    using Cons.IH [of "Suc i" ?h] Cons.prems by auto
  have "\<forall>r<13. h_rank_counts h' ! r = h_rank_counts h ! r + int (count_by rankOfCard r (x # cs))"
    "\<forall>k<4. h_suit_counts h' ! k = h_suit_counts h ! k + int (count_by suitOfCard k (x # cs))"
    using h'(4,5) Cons.prems(5,6) by (auto simp: count_by_def nth_list_update)
  then show ?case using h' i Cons.prems(3,4) step by simp
qed

lemma rank_suit_unique: "suitOfCard x < 4" "x = makeCard (rankOfCard x) (suitOfCard x)"
  by (simp_all add: suitOfCard_def makeCard_def rankOfCard_def)

lemma same_cards_rank:
  assumes "same_cards c cs" "distinct cs" "r < 13"
  shows "rank_count c r = count_by rankOfCard r cs"
proof -
  have "{x \<in> set cs. rankOfCard x = r} = makeCard r ` {k. k < 4 \<and> bit (bySuit c k) r}"
  proof (rule set_eqI)
    fix x
    have "x \<in> set cs \<and> rankOfCard x = r \<longleftrightarrow> (\<exists>k<4. x = makeCard r k \<and> x \<in> set cs)"
      by (metis rank_suit_unique rankOfCard_makeCard)
    then show "x \<in> {x \<in> set cs. rankOfCard x = r} \<longleftrightarrow> x \<in> makeCard r ` {k. k < 4 \<and> bit (bySuit c k) r}"
      using assms(1,3) by (auto simp: same_cards_def)
  qed
  moreover have "inj_on (makeCard r) {k. k < 4 \<and> bit (bySuit c k) r}" by (auto simp: inj_on_def makeCard_def)
  ultimately have "card {x \<in> set cs. rankOfCard x = r} = rank_count c r" by (simp add: card_image rank_count_def)
  then show ?thesis using distinct_length_filter [OF assms(2), of "\<lambda>x. rankOfCard x = r"] by (simp add: count_by_def Int_def conj_commute)
qed

lemma same_cards_suit:
  assumes "same_cards c cs" "distinct cs" "\<forall>x \<in> set cs. x < 52" "k < 4"
  shows "suit_size c k = count_by suitOfCard k cs"
proof -
  have "{x \<in> set cs. suitOfCard x = k} = (\<lambda>r. makeCard r k) ` {r. r < 13 \<and> bit (bySuit c k) r}"
  proof (rule set_eqI)
    fix x
    have "rankOfCard x < 13" if "x \<in> set cs" using assms(3) that by (auto simp: rankOfCard_def)
    then have "x \<in> set cs \<and> suitOfCard x = k \<longleftrightarrow> (\<exists>r<13. x = makeCard r k \<and> x \<in> set cs)"
      using assms(4) by (metis rank_suit_unique suitOfCard_makeCard)
    then show "x \<in> {x \<in> set cs. suitOfCard x = k} \<longleftrightarrow> x \<in> (\<lambda>r. makeCard r k) ` {r. r < 13 \<and> bit (bySuit c k) r}"
      using assms(1,4) by (auto simp: same_cards_def)
  qed
  moreover have "inj_on (\<lambda>r. makeCard r k) {r. r < 13 \<and> bit (bySuit c k) r}" by (auto simp: inj_on_def makeCard_def)
  ultimately have "card {x \<in> set cs. suitOfCard x = k} = suit_size c k" by (simp add: card_image suit_size_def length_ranks_down)
  then show ?thesis using distinct_length_filter [OF assms(2), of "\<lambda>x. suitOfCard x = k"] by (simp add: count_by_def Int_def conj_commute)
qed

lemma same_cards_has: "same_cards c cs \<Longrightarrow> distinct cs \<Longrightarrow> r < 13 \<Longrightarrow> has c 1 r \<longleftrightarrow> (\<exists>x \<in> set cs. rankOfCard x = r)"
  using same_cards_rank [of c cs r] by (auto simp: count_by_def filter_empty_conv Suc_le_eq)

lemma sum_filter_length: "\<forall>x \<in> set xs. f x < (n :: nat) \<Longrightarrow> (\<Sum>r<n. length (filter (\<lambda>x. f x = r) xs)) = length xs"
proof (induction xs)
  case (Cons x xs)
  have e: "length (filter (\<lambda>x. f x = r) (x # xs)) = (if r = f x then 1 else 0) + length (filter (\<lambda>x. f x = r) xs)" for r by simp
  have "(\<Sum>r<n. if r = f x then 1 else 0) = (1 :: nat)" using Cons.prems by (subst sum.delta) auto
  then show ?case unfolding e sum.distrib using Cons by simp
qed simp

lemma same_cards_size:
  assumes "same_cards c cs" "distinct cs" "\<forall>x \<in> set cs. x < 52"
  shows "hand_size c = length cs"
proof -
  have "hand_size c = (\<Sum>r<13. length (filter (\<lambda>x. rankOfCard x = r) cs))"
    unfolding hand_size_def using same_cards_rank [OF assms(1,2)] by (intro sum.cong) (auto simp: count_by_def)
  also have "\<dots> = length cs" by (rule sum_filter_length) (use assms(3) in \<open>auto simp: rankOfCard_def\<close>)
  finally show ?thesis .
qed

lemma same_cards_valid: "same_cards c cs \<Longrightarrow> valid_cardset c"
  unfolding valid_cardset_def same_cards_def using small_iff [unfolded small_def] bit16_less by blast


section \<open>Cascades\<close>

fun ins_desc :: "int \<Rightarrow> int list \<Rightarrow> int list" where
  "ins_desc x [] = [x]"
| "ins_desc x (d # ds) = (if x > d then x # d # ds else d # ins_desc x ds)"

lemma push_rank_padded:
  "n \<le> m \<Longrightarrow> 0 \<le> x \<Longrightarrow> push_rank x (take n (ds @ replicate m (-1))) = take n (ins_desc x ds @ replicate m (-1))"
proof (induction ds arbitrary: n)
  case Nil
  have b: "butlast (replicate (Suc k) a) = replicate k a" for k and a :: int by (induction k) simp_all
  show ?case
  proof (cases n)
    case (Suc k)
    have "take n ([] @ replicate m (-1 :: int)) = replicate (Suc k) (-1)" using Nil.prems Suc by (simp only: append_Nil take_replicate min_def if_True)
    moreover have "take n (ins_desc x [] @ replicate m (-1)) = x # replicate k (-1)"
      using Nil.prems Suc by (simp add: take_replicate min_def)
    moreover have "push_rank x (replicate (Suc k) (-1)) = x # butlast (replicate (Suc k) (-1))" using Nil.prems by simp
    ultimately show ?thesis using b by simp
  qed simp
next
  case (Cons d ds)
  show ?case
  proof (cases n)
    case (Suc k)
    have "butlast (take (Suc k) (d # ds @ replicate m (-1))) = take k (d # ds @ replicate m (-1))"
      using Cons.prems Suc by (subst butlast_take) simp_all
    then have b: "butlast (d # take k (ds @ replicate m (-1))) = take k (d # ds @ replicate m (-1))" by (simp only: take_Suc_Cons)
    have IH: "push_rank x (take k (ds @ replicate m (-1))) = take k (ins_desc x ds @ replicate m (-1))" using Cons Suc by simp
    note code = Suc append_Cons take_Suc_Cons push_rank.simps ins_desc.simps
    show ?thesis
    proof (cases "x > d")
      case True
      then show ?thesis by (simp only: code if_True b)
    next
      case False
      then show ?thesis by (simp only: code if_False IH)
    qed
  qed simp
qed

lemma ins_desc_ranks:
  "y < n \<Longrightarrow> \<not> p y \<Longrightarrow> map int (ranks_down n (\<lambda>r. p r \<or> r = y)) = ins_desc (int y) (map int (ranks_down n p))"
proof (induction n)
  case (Suc n)
  show ?case
  proof (cases "y = n")
    case True
    have same: "ranks_down n (\<lambda>r. p r \<or> r = y) = ranks_down n p" using True by (intro ranks_down_cong) auto
    have "ins_desc (int n) (map int (ranks_down n p)) = int n # map int (ranks_down n p)"
      using ranks_down_less [of _ n p] by (cases "ranks_down n p") auto
    then show ?thesis using True Suc.prems same by simp
  next
    case False
    then show ?thesis using Suc by simp
  qed
qed simp

lemma highest_run:
  "distinct ys \<Longrightarrow> \<forall>y \<in> set ys. y < 13 \<and> \<not> p y \<Longrightarrow>
   fold push_rank (map int ys) (take n (map int (ranks_down 13 p) @ replicate n (-1))) =
   take n (map int (ranks_down 13 (\<lambda>r. p r \<or> r \<in> set ys)) @ replicate n (-1))"
proof (induction ys arbitrary: p)
  case (Cons y ys)
  have "push_rank (int y) (take n (map int (ranks_down 13 p) @ replicate n (-1))) =
      take n (map int (ranks_down 13 (\<lambda>r. p r \<or> r = y)) @ replicate n (-1))"
    using Cons.prems push_rank_padded [OF order_refl, of "int y" n "map int (ranks_down 13 p)"] ins_desc_ranks [of y 13 p] by simp
  moreover have "\<forall>z \<in> set ys. z < 13 \<and> \<not> (p z \<or> z = y)" using Cons.prems by auto
  ultimately show ?case using Cons.IH [of "\<lambda>r. p r \<or> r = y"] Cons.prems(1) by (simp add: disj_assoc)
qed simp

lemma highest_top:
  assumes "distinct ys" "\<forall>y \<in> set ys. y < 13" "n \<le> length ys"
  shows "highest n (map int ys) = map int (top_ranks n (\<lambda>r. r \<in> set ys))"
proof -
  have "{r. r < 13 \<and> r \<in> set ys} = set ys" using assms(2) by auto
  then have "length (ranks_down 13 (\<lambda>r. r \<in> set ys)) = length ys" using assms(1) by (simp add: length_ranks_down distinct_card)
  moreover have "ranks_down 13 (\<lambda>r. False) = []" using set_ranks_down [of 13 "\<lambda>r. False"] by simp
  ultimately show ?thesis using highest_run [OF assms(1), of "\<lambda>r. False" n] assms(2,3)
    by (simp add: highest_def top_ranks_def take_map)
qed

lemma best_other_max:
  "hr \<le> best_other out xs hr \<and> (\<forall>x \<in> set xs - set out. x \<le> best_other out xs hr) \<and>
   (best_other out xs hr = hr \<or> best_other out xs hr \<in> set xs - set out)"
proof (induction out xs hr rule: best_other.induct)
  case (2 out r xs hr)
  let ?h = "if r \<notin> set out \<and> r > hr then r else hr"
  have "hr \<le> ?h" by simp
  moreover have "r \<le> ?h" if "r \<notin> set out" using that by simp
  ultimately show ?case using "2.IH" by (auto split: if_splits)
qed simp

lemma best_other_top:
  assumes "\<exists>r \<in> set ys. int r \<notin> set out" "\<forall>y \<in> set ys. y < 13"
  shows "best_other out (map int ys) (-1) = int (top_rank (\<lambda>r. r \<in> set ys \<and> int r \<notin> set out))"
proof -
  let ?b = "best_other out (map int ys) (-1)"
  note b = best_other_max [of "-1" out "map int ys"]
  obtain r where r: "r \<in> set ys" "int r \<notin> set out" using assms(1) by blast
  then have "int r \<le> ?b" using b by auto
  then obtain m where m: "?b = int m" "m \<in> set ys" "int m \<notin> set out" using b by force
  have "top_rank (\<lambda>r. r \<in> set ys \<and> int r \<notin> set out) = m"
  proof (rule top_rank_eq)
    show "m < 13" "m \<in> set ys \<and> int m \<notin> set out" using m assms(2) by auto
    show "\<not> (q \<in> set ys \<and> int q \<notin> set out)" if "m < q" for q using b m(1) that by force
  qed
  then show ?thesis using m(1) by simp
qed


section \<open>Straights\<close>

text \<open>The ranks of which there are cards, and the ace as rank \<open>-1\<close>.\<close>

definition present :: "int list \<Rightarrow> int \<Rightarrow> bool" where
  "present rc r \<longleftrightarrow> r > -1 \<and> rc ! nat r > 0 \<or> r = -1 \<and> rc ! 12 > 0"

lemma row_down_spec:
  "(\<forall>x. row_down rc e r < x \<and> x \<le> r \<longrightarrow> present rc x) \<and> (row_down rc e r < e \<or> \<not> present rc (row_down rc e r)) \<and>
   (e \<le> r + 1 \<longrightarrow> e - 1 \<le> row_down rc e r)"
proof (induction rc e r rule: row_down.induct)
  case (1 rc e r)
  show ?case
  proof (cases "e \<le> r \<and> present rc r")
    case True
    then have step: "row_down rc e r = row_down rc e (r - 1)" by (subst row_down.simps) (simp add: present_def)
    have IH: "(\<forall>x. row_down rc e (r - 1) < x \<and> x \<le> r - 1 \<longrightarrow> present rc x) \<and>
      (row_down rc e (r - 1) < e \<or> \<not> present rc (row_down rc e (r - 1))) \<and> (e \<le> r - 1 + 1 \<longrightarrow> e - 1 \<le> row_down rc e (r - 1))"
      using "1.IH" True by (simp add: present_def)
    have "present rc x" if "row_down rc e (r - 1) < x" "x \<le> r" for x using IH True that by (cases "x = r") auto
    then show ?thesis unfolding step using IH True by auto
  next
    case False
    then have "row_down rc e r = r" by (subst row_down.simps) (auto simp: present_def)
    then show ?thesis using False by auto
  qed
qed

text \<open>The row of five ranks that ends at a given one.\<close>

lemma straight_at_present:
  assumes "\<forall>r<13. rc ! r > 0 \<longleftrightarrow> p r" "3 \<le> h" "h \<le> 12"
  shows "straight_at p h \<longleftrightarrow> (\<forall>x. int h - 4 \<le> x \<and> x \<le> int h \<longrightarrow> present rc x)"
proof -
  have five: "(\<forall>x. int h - 4 \<le> x \<and> x \<le> int h \<longrightarrow> Q x) \<longleftrightarrow> Q (int h) \<and> Q (int h - 1) \<and> Q (int h - 2) \<and> Q (int h - 3) \<and> Q (int h - 4)" for Q
  proof
    assume a: "Q (int h) \<and> Q (int h - 1) \<and> Q (int h - 2) \<and> Q (int h - 3) \<and> Q (int h - 4)"
    have "x = int h \<or> x = int h - 1 \<or> x = int h - 2 \<or> x = int h - 3 \<or> x = int h - 4" if "int h - 4 \<le> x" "x \<le> int h" for x
      using that by linarith
    then show "\<forall>x. int h - 4 \<le> x \<and> x \<le> int h \<longrightarrow> Q x" using a by blast
  qed auto
  have pr: "present rc x \<longleftrightarrow> p (nat x)" if "0 \<le> x" "x \<le> 12" for x
  proof -
    have "nat x < 13" using that by linarith
    then show ?thesis using assms(1) that by (auto simp: present_def)
  qed
  have n: "nat (int h - 1) = h - 1" "nat (int h - 2) = h - 2" "nat (int h - 3) = h - 3" "nat (int h - 4) = h - 4" by linarith+
  have "present rc (int h - 4) \<longleftrightarrow> (if h = 3 then p 12 else p (h - 4))"
  proof (cases "h = 3")
    case True
    then show ?thesis using assms(1) by (simp add: present_def)
  next
    case False
    then show ?thesis using pr [of "int h - 4"] assms(2,3) n(4) by simp
  qed
  moreover have "present rc (int h) \<longleftrightarrow> p h" using pr [of "int h"] assms(3) by simp
  moreover have "present rc (int h - 1) \<longleftrightarrow> p (h - 1)" "present rc (int h - 2) \<longleftrightarrow> p (h - 2)" "present rc (int h - 3) \<longleftrightarrow> p (h - 3)"
    using pr [of "int h - 1"] pr [of "int h - 2"] pr [of "int h - 3"] assms(2,3) n by simp_all
  ultimately show ?thesis unfolding five straight_at_def by blast
qed

lemma straight_heads: "set [12, 11, 10, 9, 8, 7, 6, 5, 4, 3] = {3..12 :: nat}" "sorted_wrt (>) [12, 11, 10, 9, 8, 7, 6, 5, 4, 3 :: nat]"
  by code_simp+

lemma straight_high_iff: "straight_high p = Some h \<longleftrightarrow> 3 \<le> h \<and> h \<le> 12 \<and> straight_at p h \<and> (\<forall>k. h < k \<and> k \<le> 12 \<longrightarrow> \<not> straight_at p k)"
proof -
  have desc: "find P xs = Some h \<longleftrightarrow> h \<in> set xs \<and> P h \<and> (\<forall>k \<in> set xs. h < k \<longrightarrow> \<not> P k)" if "sorted_wrt (>) xs" for P and xs :: "nat list"
    using that by (induction xs) auto
  show ?thesis unfolding straight_high_def desc [OF straight_heads(2)] straight_heads(1) by auto
qed

lemma straight_high_none: "straight_high p = None \<longleftrightarrow> (\<forall>h. 3 \<le> h \<and> h \<le> 12 \<longrightarrow> \<not> straight_at p h)"
  unfolding straight_high_def find_None_iff straight_heads(1) by auto


text \<open>One round of the search: either the row at \<open>r\<close> is a straight, or no straight ends between \<open>r1\<close> and \<open>r\<close>.\<close>

lemma row_round:
  assumes rc: "\<forall>r<13. rc ! r > 0 \<longleftrightarrow> p r" and r: "3 \<le> r" "r \<le> 12"
  defines "r1 \<equiv> row_down rc (int r - 4) (int r)"
  shows "r1 = int r - 5 \<longleftrightarrow> straight_at p r" "r1 \<noteq> int r - 5 \<Longrightarrow> r1 \<le> int h \<Longrightarrow> 3 \<le> h \<Longrightarrow> h \<le> r \<Longrightarrow> \<not> straight_at p h" "r1 \<le> int r"
proof -
  note s = row_down_spec [of rc "int r - 4" "int r", folded r1_def]
  show "r1 \<le> int r" unfolding r1_def by (rule row_down_le)
  have lo: "int r - 5 \<le> r1" using s by simp
  show miss: "\<not> straight_at p h" if "r1 \<noteq> int r - 5" "r1 \<le> int h" "3 \<le> h" "h \<le> r" for h
  proof -
    have "int r - 4 \<le> r1" using that(1) lo by linarith
    moreover have "\<not> present rc r1" using s that(1) lo by linarith
    ultimately show ?thesis using straight_at_present [OF rc that(3)] that r(2) by force
  qed
  have "straight_at p r" if "r1 = int r - 5" using s that unfolding straight_at_present [OF rc r] by auto
  then show "r1 = int r - 5 \<longleftrightarrow> straight_at p r" using miss [of r] r \<open>r1 \<le> int r\<close> by auto
qed

lemma straight_loop_plain:
  assumes rc: "\<forall>r<13. rc ! r > 0 \<longleftrightarrow> p r" and "3 \<le> r" "r \<le> 12" "\<forall>h. r < h \<and> h \<le> 12 \<longrightarrow> \<not> straight_at p h"
  shows "straight_loop rc hand (-1) (int r) sr = Inr (case straight_high p of Some h \<Rightarrow> int h | None \<Rightarrow> sr)"
  using assms(2-4)
proof (induction r rule: less_induct)
  case (less r)
  let ?r1 = "row_down rc (int r - 4) (int r)"
  note round = row_round [OF rc less.prems(1,2)]
  show ?case
  proof (cases "straight_at p r")
    case True
    then have "straight_high p = Some r" using less.prems by (simp add: straight_high_iff)
    then show ?thesis using True round(1) by (subst straight_loop.simps) (simp add: Let_def)
  next
    case False
    then have ne: "?r1 \<noteq> int r - 5" using round(1) by blast
    show ?thesis
    proof (cases "?r1 - 1 < 3")
      case True
      have "\<not> straight_at p h" if "3 \<le> h" "h \<le> 12" for h
        using round(2) [OF ne, of h] less.prems(3) that True by (cases "h \<le> r") auto
      then have "straight_high p = None" by (simp add: straight_high_none)
      then show ?thesis using ne True by (subst straight_loop.simps) (simp add: Let_def)
    next
      case False
      define q where "q = nat (?r1 - 1)"
      have q: "int q = ?r1 - 1" "q < r" "3 \<le> q" using False round(3) by (simp_all add: q_def)
      have "\<not> straight_at p h" if "q < h" "h \<le> 12" for h
        using round(2) [OF ne, of h] less.prems(3) that q by (cases "h \<le> r") auto
      then have "straight_loop rc hand (-1) (int q) sr = Inr (case straight_high p of Some h \<Rightarrow> int h | None \<Rightarrow> sr)"
        using less.IH [OF q(2,3)] less.prems(2) q(2) by simp
      then show ?thesis using ne False q(1) by (subst straight_loop.simps) (simp add: Let_def)
    qed
  qed
qed

lemma straight_loop_flush:
  assumes rc: "\<forall>r<13. rc ! r > 0 \<longleftrightarrow> p r" and sub: "\<And>h. 3 \<le> h \<Longrightarrow> h \<le> 12 \<Longrightarrow> straight_at q h \<Longrightarrow> straight_at p h"
    and suit: "\<And>h. 3 \<le> h \<Longrightarrow> h \<le> 12 \<Longrightarrow> row_in_suit hand f (int h) = 5 \<longleftrightarrow> straight_at q h" and f: "0 \<le> f"
    and "3 \<le> r" "r \<le> 12" "\<forall>h. r < h \<and> h \<le> 12 \<longrightarrow> \<not> straight_at q h"
  shows "case straight_high q of Some h \<Rightarrow> straight_loop rc hand f (int r) sr = Inl (kStraightFlush + int h)
    | None \<Rightarrow> \<exists>x. straight_loop rc hand f (int r) sr = Inr x"
  using assms(5-)
proof (induction r arbitrary: sr rule: less_induct)
  case (less r)
  let ?r1 = "row_down rc (int r - 4) (int r)"
  note round = row_round [OF rc less.prems(1,2)]
  have done_: "straight_high q = None" if "\<And>h. 3 \<le> h \<Longrightarrow> h \<le> r \<Longrightarrow> \<not> straight_at q h"
    unfolding straight_high_none using that less.prems(3) by (metis not_le)
  show ?case
  proof (cases "straight_at p r")
    case p: True
    note row = suit [OF less.prems(1,2)]
    show ?thesis
    proof (cases "straight_at q r")
      case True
      then have "straight_high q = Some r" using less.prems by (simp add: straight_high_iff)
      then show ?thesis using p round(1) row True f by (subst straight_loop.simps) (simp add: Let_def)
    next
      case nq: False
      show ?thesis
      proof (cases "r = 3")
        case True
        then have "straight_high q = None" using nq by (intro done_) (metis le_antisym)
        then show ?thesis using p round(1) row nq f True by (subst straight_loop.simps) (simp add: Let_def)
      next
        case False
        let ?s = "if sr = -1 then int r else sr"
        have r: "r - 1 < r" "3 \<le> r - 1" "r - 1 \<le> 12" "int (r - 1) = int r - 1" using False less.prems(1,2) by auto
        have "\<not> straight_at q h" if "r - 1 < h" "h \<le> 12" for h using nq less.prems(3) that by (cases "h = r") auto
        then have "\<forall>h. r - 1 < h \<and> h \<le> 12 \<longrightarrow> \<not> straight_at q h" by blast
        note IH = less.IH [OF r(1-3) this, of ?s, unfolded r(4)]
        have "straight_loop rc hand f (int r) sr = straight_loop rc hand f (int r - 1) ?s"
          using p round(1) row nq f False less.prems(1) by (subst straight_loop.simps) (simp add: Let_def)
        then show ?thesis using IH by (simp only:)
      qed
    qed
  next
    case False
    then have ne: "?r1 \<noteq> int r - 5" using round(1) by blast
    have miss: "\<not> straight_at q h" if "?r1 \<le> int h" "3 \<le> h" "h \<le> r" for h
      using round(2) [OF ne that] sub [OF that(2)] that(3) less.prems(2) by auto
    show ?thesis
    proof (cases "?r1 - 1 < 3")
      case True
      then have "straight_high q = None" using miss by (intro done_) simp
      then show ?thesis using ne True by (subst straight_loop.simps) (simp add: Let_def)
    next
      case False
      define m where "m = nat (?r1 - 1)"
      have m: "int m = ?r1 - 1" "m < r" "3 \<le> m" using False round(3) by (simp_all add: m_def)
      have "\<not> straight_at q h" if h: "m < h" "h \<le> 12" for h
      proof (cases "h \<le> r")
        case True
        moreover have "?r1 \<le> int h" "3 \<le> h" using h(1) m(1,3) by linarith+
        ultimately show ?thesis by (intro miss)
      next
        case False
        then show ?thesis using less.prems(3) h(2) by simp
      qed
      then have "\<forall>h. m < h \<and> h \<le> 12 \<longrightarrow> \<not> straight_at q h" by blast
      moreover have "m \<le> 12" using m(2) less.prems(2) by simp
      ultimately have IH: "case straight_high q of Some h \<Rightarrow> straight_loop rc hand f (?r1 - 1) sr = Inl (kStraightFlush + int h)
          | None \<Rightarrow> \<exists>x. straight_loop rc hand f (?r1 - 1) sr = Inr x"
        using less.IH [OF m(2,3), of sr] unfolding m(1) by blast
      have "straight_loop rc hand f (int r) sr = straight_loop rc hand f (?r1 - 1) sr"
        using ne False by (subst straight_loop.simps) (simp add: Let_def)
      then show ?thesis using IH by (simp only:)
    qed
  qed
qed

end
