(* ===== verification/Holdem_Order.thy ===== *)
theory Holdem_Order
  imports Holdem_Counts
begin

text \<open>
  \<open>HoldemHandEvaluator::Evaluate\<close> and the table-driven \<open>rankCardset\<close> order hands of five to seven cards in the same way: both
  number the keys of hands.
\<close>

section \<open>The loop over the counts\<close>

text \<open>The first rank with a property, \<open>-1\<close> where there is none.\<close>

definition first_rank :: "(nat \<Rightarrow> bool) \<Rightarrow> nat list \<Rightarrow> int" where
  "first_rank P rs = (case find P rs of Some r \<Rightarrow> int r | None \<Rightarrow> -1)"

lemma first_rank_simps [simp]:
  "first_rank P [] = -1" "first_rank P (r # rs) = (if P r then int r else first_rank P rs)"
  by (simp_all add: first_rank_def)

lemma first_rank_cong: "(\<And>r. r \<in> set rs \<Longrightarrow> P r = Q r) \<Longrightarrow> first_rank P rs = first_rank Q rs"
  by (induction rs) auto

lemma first_rank_cases: "first_rank P rs = -1 \<and> (\<forall>r \<in> set rs. \<not> P r) \<or> (\<exists>r \<in> set rs. P r \<and> first_rank P rs = int r)"
  by (induction rs) auto

lemma group_loop_quads:
  "find (\<lambda>r. rc ! r = 4) rs = Some q \<Longrightarrow> group_loop rc ranks rs g = Inl (kQuads + int q * 13 + best_other [int q] ranks (-1))"
proof (induction rs arbitrary: g)
  case (Cons r rs)
  then show ?case by (cases g) (auto simp: Let_def split: if_splits)
qed simp

text \<open>The ranks of the trips and of the first pair.\<close>

definition groups :: "int + int \<times> int \<times> int \<Rightarrow> (int \<times> int) option" where
  "groups x = (case x of Inl v \<Rightarrow> None | Inr (th, pa, p2) \<Rightarrow> Some (th, pa))"

lemma groups_Some: "groups x = Some (th, pa) \<longleftrightarrow> (\<exists>p2. x = Inr (th, pa, p2))"
  by (auto simp: groups_def split: sum.splits)

lemma group_loop_three:
  assumes "\<forall>r \<in> set rs. rc ! r \<noteq> 4" "0 \<le> th"
  shows "groups (group_loop rc ranks rs (th, pa, p2)) =
    Some (th, if pa = -1 then first_rank (\<lambda>x. rc ! x = 2 \<or> rc ! x = 3) rs else pa)"
  using assms(1)
proof (induction rs arbitrary: pa p2)
  case (Cons r rs)
  then show ?case using assms(2) by (auto simp: Let_def)
qed (simp add: groups_def)

lemma group_loop_groups:
  assumes "\<forall>r \<in> set rs. rc ! r \<noteq> 4" "distinct rs"
  shows "groups (group_loop rc ranks rs (-1, pa, p2)) =
    Some (first_rank (\<lambda>x. rc ! x = 3) rs,
      if pa = -1 then first_rank (\<lambda>x. (rc ! x = 2 \<or> rc ! x = 3) \<and> int x \<noteq> first_rank (\<lambda>x. rc ! x = 3) rs) rs else pa)"
  using assms
proof (induction rs arbitrary: pa p2)
  case (Cons r rs)
  have four: "\<forall>r \<in> set rs. rc ! r \<noteq> 4" "rc ! r \<noteq> 4" using Cons.prems(1) by simp_all
  show ?case
  proof (cases "rc ! r = 3")
    case True
    have "first_rank (\<lambda>x. (rc ! x = 2 \<or> rc ! x = 3) \<and> int x \<noteq> int r) rs = first_rank (\<lambda>x. rc ! x = 2 \<or> rc ! x = 3) rs"
      using Cons.prems(2) by (intro first_rank_cong) auto
    then show ?thesis using True group_loop_three [OF four(1), of "int r" ranks pa p2] by (simp add: Let_def)
  next
    case False
    have ne: "first_rank (\<lambda>x. rc ! x = 3) rs \<noteq> int r" using first_rank_cases [of "\<lambda>x. rc ! x = 3" rs] False by auto
    show ?thesis using False four(2) ne Cons.IH [OF four(1)] Cons.prems(2) by (auto simp: Let_def)
  qed
qed (simp add: groups_def)

lemma group_loop_pairs:
  assumes "\<forall>r \<in> set rs. rc ! r \<noteq> 4 \<and> rc ! r \<noteq> 3" "distinct rs" "pa = -1 \<longrightarrow> p2 = -1"
  shows "group_loop rc ranks rs (-1, pa, p2) =
    Inr (-1, if pa = -1 then first_rank (\<lambda>x. rc ! x = 2) rs else pa,
         if pa = -1 then first_rank (\<lambda>x. rc ! x = 2 \<and> int x \<noteq> first_rank (\<lambda>x. rc ! x = 2) rs) rs
         else if p2 = -1 then first_rank (\<lambda>x. rc ! x = 2) rs else p2)"
  using assms
proof (induction rs arbitrary: pa p2)
  case (Cons r rs)
  have IH: "group_loop rc ranks rs (-1, pa, p2) =
    Inr (-1, if pa = -1 then first_rank (\<lambda>x. rc ! x = 2) rs else pa,
         if pa = -1 then first_rank (\<lambda>x. rc ! x = 2 \<and> int x \<noteq> first_rank (\<lambda>x. rc ! x = 2) rs) rs
         else if p2 = -1 then first_rank (\<lambda>x. rc ! x = 2) rs else p2)" if "pa = -1 \<longrightarrow> p2 = -1" for pa p2
    using Cons.IH [of pa p2] Cons.prems(1,2) that by simp
  have c: "first_rank (\<lambda>x. rc ! x = 2 \<and> int x \<noteq> int r) rs = first_rank (\<lambda>x. rc ! x = 2) rs"
    using Cons.prems(2) by (intro first_rank_cong) auto
  show ?case using Cons.prems IH c by (auto simp: Let_def)
qed simp

lemma ranks_set: "set ranks_12_0 = {..<13}" "distinct ranks_12_0" "sorted_wrt (>) ranks_12_0"
  by code_simp+

lemma find_top: "find P ranks_12_0 = (if \<exists>r<13. P r then Some (top_rank P) else None)"
proof -
  have "find P xs = Some h" if "sorted_wrt (>) xs" "h \<in> set xs" "P h" "\<forall>k \<in> set xs. P k \<longrightarrow> k \<le> h" for h and xs :: "nat list"
    using that by (induction xs) auto
  note f = this [OF ranks_set(3)]
  show ?thesis
  proof (cases "\<exists>r<13. P r")
    case True
    then have "find P ranks_12_0 = Some (top_rank P)"
      using top_rank_holds [OF True] top_rank_max [of _ P] by (intro f) (auto simp only: ranks_set(1) lessThan_iff)
    then show ?thesis using True by simp
  next
    case False
    then have "find P ranks_12_0 = None" unfolding find_None_iff ranks_set(1) by auto
    then show ?thesis using False by simp
  qed
qed

lemma first_rank_top: "first_rank P ranks_12_0 = (if \<exists>r<13. P r then int (top_rank P) else -1)"
  unfolding first_rank_def find_top by simp

section \<open>The suit of a straight flush\<close>

lemma row_in_suit_straight:
  assumes same: "same_cards c cs" and cs: "distinct cs" "\<forall>x \<in> set cs. x < 52" and f: "f < 4" and h: "3 \<le> h" "h \<le> 12"
  shows "row_in_suit (map (\<lambda>x. (int (rankOfCard x), int (suitOfCard x))) cs) (int f) (int h) = 5 \<longleftrightarrow> straight_at (bit (bySuit c f)) h"
proof -
  define R where "R = (if h = 3 then {0, 1, 2, 3, 12} else {h - 4, h - 3, h - 2, h - 1, h})"
  have inR: "r \<in> R \<longleftrightarrow> (int r \<ge> int h - 4 \<and> int r \<le> int h \<or> int h - 4 = -1 \<and> int r = 12)" if "r < 13" for r
    using h that unfolding R_def by auto
  have R: "finite R" "card R = 5" "R \<subseteq> {..<13}"
  proof -
    show "finite R" "R \<subseteq> {..<13}" using h by (auto simp: R_def)
    show "card R = 5"
    proof (cases "h = 3")
      case False
      then have "4 \<le> h" using h(1) by linarith
      then obtain k where "h = k + 4" by (metis add.commute le_Suc_ex)
      then show ?thesis by (simp add: R_def)
    qed (simp add: R_def)
  qed
  let ?q = "bit (bySuit c f)"
  have q: "?q r \<longleftrightarrow> makeCard r f \<in> set cs" if "r < 13" for r using same f that by (simp add: same_cards_def)
  let ?P = "\<lambda>x. suitOfCard x = f \<and> rankOfCard x \<in> R"
  have rank: "rankOfCard x < 13" if "x \<in> set cs" for x using cs(2) that by (auto simp: rankOfCard_def)
  have "row_in_suit (map (\<lambda>x. (int (rankOfCard x), int (suitOfCard x))) cs) (int f) (int h) = length (filter ?P cs)"
    unfolding row_in_suit_def Let_def filter_map length_map using inR rank by (intro arg_cong [of _ _ length] filter_cong) auto
  also have "\<dots> = card {x \<in> set cs. ?P x}" using distinct_length_filter [OF cs(1), of ?P] by (simp add: Int_def conj_commute)
  also have "{x \<in> set cs. ?P x} = (\<lambda>r. makeCard r f) ` {r \<in> R. ?q r}"
  proof (rule set_eqI)
    fix x
    show "x \<in> {x \<in> set cs. ?P x} \<longleftrightarrow> x \<in> (\<lambda>r. makeCard r f) ` {r \<in> R. ?q r}"
      using q R(3) f by (auto simp: image_iff) (metis lessThan_iff rank_suit_unique(2) subsetD)+
  qed
  also have "card \<dots> = card {r \<in> R. ?q r}" by (intro card_image) (auto simp: inj_on_def makeCard_def)
  finally have "row_in_suit (map (\<lambda>x. (int (rankOfCard x), int (suitOfCard x))) cs) (int f) (int h) = card {r \<in> R. ?q r}" .
  moreover have "card {r \<in> R. ?q r} = 5 \<longleftrightarrow> (\<forall>r \<in> R. ?q r)"
  proof
    assume "card {r \<in> R. ?q r} = 5"
    then have "{r \<in> R. ?q r} = R" using R(1,2) by (intro card_subset_eq) auto
    then show "\<forall>r \<in> R. ?q r" by blast
  next
    assume "\<forall>r \<in> R. ?q r"
    then have "{r \<in> R. ?q r} = R" by blast
    then show "card {r \<in> R. ?q r} = 5" using R(2) by simp
  qed
  moreover have "(\<forall>r \<in> R. ?q r) \<longleftrightarrow> straight_at ?q h" using h by (auto simp: R_def straight_at_def)
  ultimately show ?thesis by simp
qed


section \<open>A hand as the list of its cards\<close>

definition dealt :: "Cardset \<Rightarrow> nat list \<Rightarrow> bool" where
  "dealt c cs \<longleftrightarrow> same_cards c cs \<and> distinct cs \<and> (\<forall>x \<in> set cs. x < 52) \<and> 5 \<le> length cs \<and> length cs \<le> 7"

lemma dealtD:
  assumes "dealt c cs"
  shows "same_cards c cs" "distinct cs" "\<forall>x \<in> set cs. x < 52" "hand_size c = length cs" "5 \<le> length cs" "length cs \<le> 7"
    "hand_size c \<le> 9" "\<forall>x \<in> set cs. rankOfCard x < 13"
  using assms same_cards_size [of c cs] by (auto simp: dealt_def rankOfCard_def)

lemma dealt_ranked:
  assumes "dealt c cs" "\<not> has_straight_flush c"
  shows "\<exists>s0 s1 s2 s3. ranked_hand c s0 s1 s2 s3"
  using assms dealtD [OF assms(1)] same_cards_valid [of c cs] by (cases "rank_sets c") (auto simp: ranked_hand_def)

lemma dealt_has: "dealt c cs \<Longrightarrow> r < 13 \<Longrightarrow> has c 1 r \<longleftrightarrow> r \<in> rankOfCard ` set cs"
  using same_cards_has [of c cs r] dealtD [of c cs] by auto

text \<open>What the counting loop leaves.\<close>

definition hand_pairs :: "nat list \<Rightarrow> (int \<times> int) list" where
  "hand_pairs cs = map (\<lambda>x. (int (rankOfCard x), int (suitOfCard x))) cs"

abbreviation card_ranks :: "nat list \<Rightarrow> int list" where
  "card_ranks cs \<equiv> map (\<lambda>x. int (rankOfCard x)) cs"

lemma find_flush_suit:
  assumes "hand_size c \<le> 9" "\<forall>k<4. sc ! k = int (suit_size c k)"
  shows "find_flush sc [0, 1, 2, 3] = (if has_flush c then int (flush_suit c) else -1)"
proof -
  have four: "set [0, 1, 2, 3 :: nat] = {k. k < 4}" by auto
  have flush: "has_flush c \<longleftrightarrow> (\<exists>k \<in> set [0, 1, 2, 3]. 5 \<le> suit_size c k)"
    unfolding four by (simp add: has_flush_def popcount_def uint_ranks suit_size_def)
  have "find_flush sc ks = (if \<exists>k \<in> set ks. 5 \<le> suit_size c k then int (hd (filter (\<lambda>k. 5 \<le> suit_size c k) ks)) else -1)"
    if "\<forall>k \<in> set ks. k < 4" for ks
    using that assms(2) by (induction ks) auto
  from this [of "[0, 1, 2, 3]"] show ?thesis unfolding flush flush_suit_def four by simp
qed

lemma Evaluate_run:
  assumes "dealt c cs"
  shows "\<exists>rc. (\<forall>r<13. rc ! r = int (rank_count c r)) \<and>
    Evaluate 4 (map int cs) (length cs) =
      (let f = (if has_flush c then int (flush_suit c) else -1) in
       Some (case straight_loop rc (hand_pairs cs) f 12 (-1) of
            Inl v \<Rightarrow> v
          | Inr straight_rank \<Rightarrow>
              (case group_loop rc (card_ranks cs) ranks_12_0 (-1, -1, -1) of
                 Inl v \<Rightarrow> v
               | Inr g \<Rightarrow> group_value (length cs) (card_ranks cs) (hand_pairs cs) f straight_rank g)))"
proof -
  note d = dealtD [OF assms]
  let ?h = "\<lparr>h_ranks = replicate 7 0, h_suits = replicate 7 0, h_rank_counts = replicate 13 0, h_suit_counts = replicate 4 0\<rparr> :: counted"
  obtain h where h: "count_cards 4 (map int cs) 0 (length cs) ?h = Some h"
    "take (length cs) (h_ranks h) = card_ranks cs" "take (length cs) (h_suits h) = map (\<lambda>x. int (suitOfCard x)) cs"
    "\<forall>r<13. h_rank_counts h ! r = int (count_by rankOfCard r cs)" "\<forall>k<4. h_suit_counts h ! k = int (count_by suitOfCard k cs)"
    using count_cards_run [OF d(3), of 0 ?h] d(6) by auto
  have rc: "\<forall>r<13. h_rank_counts h ! r = int (rank_count c r)" using h(4) same_cards_rank [OF d(1,2)] by simp
  have "\<forall>k<4. h_suit_counts h ! k = int (suit_size c k)" using h(5) same_cards_suit [OF d(1-3)] by simp
  then have fl: "find_flush (h_suit_counts h) [0, 1, 2, 3] = (if has_flush c then int (flush_suit c) else -1)"
    by (rule find_flush_suit [OF d(7)])
  have z: "zip (card_ranks cs) (map (\<lambda>x. int (suitOfCard x)) cs) = hand_pairs cs"
    unfolding hand_pairs_def by (induction cs) auto
  have "length cs \<noteq> 2" "length cs \<noteq> 3" "length cs \<noteq> 4" using d(5) by auto
  then have "Evaluate 4 (map int cs) (length cs) =
      (let f = (if has_flush c then int (flush_suit c) else -1) in
       Some (case straight_loop (h_rank_counts h) (hand_pairs cs) f 12 (-1) of
            Inl v \<Rightarrow> v
          | Inr straight_rank \<Rightarrow>
              (case group_loop (h_rank_counts h) (card_ranks cs) ranks_12_0 (-1, -1, -1) of
                 Inl v \<Rightarrow> v
               | Inr g \<Rightarrow> group_value (length cs) (card_ranks cs) (hand_pairs cs) f straight_rank g)))"
    unfolding Evaluate_def h(1) Option.bind.simps Let_def h(2,3) fl z by simp
  then show ?thesis using rc by blast
qed


section \<open>Straights of the hand\<close>

lemma suit_has:
  assumes "k < 4" "bit (bySuit c k) r"
  shows "has c 1 r"
proof -
  have "finite {k. k < 4 \<and> bit (bySuit c k) r}" "k \<in> {k. k < 4 \<and> bit (bySuit c k) r}" using assms by simp_all
  then have "0 < card {k. k < 4 \<and> bit (bySuit c k) r}" by (metis card_gt_0_iff empty_iff)
  then show ?thesis by (simp add: rank_count_def Suc_le_eq)
qed

lemma flush_suit_less: "hand_size c \<le> 9 \<Longrightarrow> has_flush c \<Longrightarrow> flush_suit c < 4 \<and> 5 \<le> suit_size c (flush_suit c)"
  using flush_suit_eq [of c] by (auto simp: has_flush_def popcount_def uint_ranks suit_size_def)

lemma dealt_straights:
  assumes "dealt c cs" "\<forall>r<13. rc ! r = int (rank_count c r)"
  shows "\<not> has_flush c \<Longrightarrow> straight_loop rc (hand_pairs cs) (-1) 12 (-1) = Inr (case straight_high (has c 1) of Some h \<Rightarrow> int h | None \<Rightarrow> -1)"
    "has_flush c \<Longrightarrow> case straight_high (bit (bySuit c (flush_suit c))) of
       Some h \<Rightarrow> straight_loop rc (hand_pairs cs) (int (flush_suit c)) 12 (-1) = Inl (kStraightFlush + int h)
     | None \<Rightarrow> \<exists>x. straight_loop rc (hand_pairs cs) (int (flush_suit c)) 12 (-1) = Inr x"
proof -
  note d = dealtD [OF assms(1)]
  have rc: "\<forall>r<13. rc ! r > 0 \<longleftrightarrow> has c 1 r" using assms(2) by auto
  have top: "\<forall>h. 12 < h \<and> h \<le> 12 \<longrightarrow> \<not> straight_at p h" for p by auto
  show "straight_loop rc (hand_pairs cs) (-1) 12 (-1) = Inr (case straight_high (has c 1) of Some h \<Rightarrow> int h | None \<Rightarrow> -1)"
    using straight_loop_plain [OF rc _ _ top, of "hand_pairs cs" "-1"] by simp
  assume "has_flush c"
  then have f: "flush_suit c < 4" using flush_suit_less [OF d(7)] by blast
  have sub: "straight_at (has c 1) h" if "straight_at (bit (bySuit c (flush_suit c))) h" for h
    using that suit_has [OF f] by (auto simp: straight_at_def split: if_splits)
  have suit: "row_in_suit (hand_pairs cs) (int (flush_suit c)) (int h) = 5 \<longleftrightarrow> straight_at (bit (bySuit c (flush_suit c))) h"
    if "3 \<le> h" "h \<le> 12" for h
    unfolding hand_pairs_def by (rule row_in_suit_straight [OF d(1-3) f that])
  show "case straight_high (bit (bySuit c (flush_suit c))) of
       Some h \<Rightarrow> straight_loop rc (hand_pairs cs) (int (flush_suit c)) 12 (-1) = Inl (kStraightFlush + int h)
     | None \<Rightarrow> \<exists>x. straight_loop rc (hand_pairs cs) (int (flush_suit c)) 12 (-1) = Inr x"
    using straight_loop_flush [OF rc sub suit _ _ _ top, of "-1", unfolded of_nat_numeral] by simp
qed

section \<open>Kickers of the hand\<close>

lemma count_distinct: "\<forall>x \<in> set xs. count_by f (f x) xs \<le> 1 \<Longrightarrow> distinct (map f xs)"
proof (induction xs)
  case (Cons x xs)
  have "f x \<notin> f ` set xs"
  proof
    assume "f x \<in> f ` set xs"
    then have "filter (\<lambda>y. f y = f x) xs \<noteq> []" by (force simp: filter_empty_conv)
    then show False using Cons.prems by (simp add: count_by_def)
  qed
  moreover have "\<forall>y \<in> set xs. count_by f (f y) xs \<le> 1" using Cons.prems by (fastforce simp: count_by_def split: if_splits)
  ultimately show ?case using Cons.IH by simp
qed simp

lemma highest_kickers:
  assumes "dealt c cs" "\<And>r. r < 13 \<Longrightarrow> r \<notin> out \<Longrightarrow> rank_count c r \<le> 1" "n \<le> card {r. r < 13 \<and> has c 1 r \<and> r \<notin> out}"
  shows "highest n (filter (\<lambda>r. nat r \<notin> out) (card_ranks cs)) = map int (top_ranks n (\<lambda>r. has c 1 r \<and> r \<notin> out))"
proof -
  note d = dealtD [OF assms(1)]
  define ys where "ys = map rankOfCard (filter (\<lambda>x. rankOfCard x \<notin> out) cs)"
  have "distinct ys" unfolding ys_def
  proof (rule count_distinct, rule ballI)
    fix x assume "x \<in> set (filter (\<lambda>x. rankOfCard x \<notin> out) cs)"
    then have x: "rankOfCard x < 13" "rankOfCard x \<notin> out" using d(8) by auto
    have "count_by rankOfCard (rankOfCard x) (filter (\<lambda>x. rankOfCard x \<notin> out) cs) = count_by rankOfCard (rankOfCard x) cs"
      unfolding count_by_def filter_filter using x(2) by (metis (mono_tags, lifting) filter_cong)
    then show "count_by rankOfCard (rankOfCard x) (filter (\<lambda>x. rankOfCard x \<notin> out) cs) \<le> 1"
      using assms(2) [OF x] same_cards_rank [OF d(1,2) x(1)] by simp
  qed
  moreover have mem: "r \<in> set ys \<longleftrightarrow> has c 1 r \<and> r \<notin> out" if "r < 13" for r
    using dealt_has [OF assms(1) that] by (auto simp: ys_def)
  moreover have less: "\<forall>y \<in> set ys. y < 13" using d(8) by (auto simp: ys_def)
  moreover have "n \<le> length ys"
  proof -
    have "set ys = {r. r < 13 \<and> has c 1 r \<and> r \<notin> out}" using mem less by auto
    then show ?thesis using assms(3) distinct_card [OF \<open>distinct ys\<close>] by simp
  qed
  ultimately have "highest n (map int ys) = map int (top_ranks n (\<lambda>r. r \<in> set ys))" by (intro highest_top) auto
  moreover have "top_ranks n (\<lambda>r. r \<in> set ys) = top_ranks n (\<lambda>r. has c 1 r \<and> r \<notin> out)" using mem by (rule top_ranks_cong)
  moreover have "filter (\<lambda>r. nat r \<notin> out) (card_ranks cs) = map int ys" by (simp add: ys_def filter_map comp_def)
  ultimately show ?thesis by simp
qed

lemma best_kicker:
  assumes "dealt c cs" "\<exists>r<13. has c 1 r \<and> r \<notin> set out"
  shows "best_other (map int out) (card_ranks cs) (-1) = int (top_rank (\<lambda>r. has c 1 r \<and> r \<notin> set out))"
proof -
  note d = dealtD [OF assms(1)]
  let ?ys = "map rankOfCard cs"
  have mem: "r \<in> set ?ys \<longleftrightarrow> has c 1 r" if "r < 13" for r using dealt_has [OF assms(1) that] by simp
  have "best_other (map int out) (map int ?ys) (-1) = int (top_rank (\<lambda>r. r \<in> set ?ys \<and> int r \<notin> set (map int out)))"
  proof (rule best_other_top)
    obtain r where r: "r < 13" "has c 1 r" "r \<notin> set out" using assms(2) by blast
    then have "r \<in> set ?ys" "int r \<notin> set (map int out)" using mem by auto
    then show "\<exists>r \<in> set ?ys. int r \<notin> set (map int out)" by blast
  qed (use d(8) in auto)
  moreover have "ranks_down 13 (\<lambda>r. r \<in> set ?ys \<and> int r \<notin> set (map int out)) = ranks_down 13 (\<lambda>r. has c 1 r \<and> r \<notin> set out)"
    using mem by (intro ranks_down_cong) auto
  ultimately show ?thesis by (simp add: top_rank_def comp_def)
qed

lemma highest_flush:
  assumes "dealt c cs" "has_flush c"
  shows "highest 5 (map fst (filter (\<lambda>(r, s). s = int (flush_suit c)) (hand_pairs cs))) =
    map int (top_ranks 5 (bit (bySuit c (flush_suit c))))"
proof -
  note d = dealtD [OF assms(1)]
  let ?f = "flush_suit c"
  have f: "?f < 4" "5 \<le> suit_size c ?f" using flush_suit_less [OF d(7) assms(2)] by auto
  define ys where "ys = map rankOfCard (filter (\<lambda>x. suitOfCard x = ?f) cs)"
  have "distinct ys" unfolding ys_def distinct_map
    using d(2) by (auto simp: inj_on_def) (metis rank_suit_unique(2))
  moreover have "5 \<le> length ys" using f same_cards_suit [OF d(1-3) f(1)] by (simp add: ys_def count_by_def)
  moreover have "\<forall>y \<in> set ys. y < 13" using d(8) by (auto simp: ys_def)
  ultimately have "highest 5 (map int ys) = map int (top_ranks 5 (\<lambda>r. r \<in> set ys))" by (intro highest_top) auto
  moreover have "r \<in> set ys \<longleftrightarrow> bit (bySuit c ?f) r" if "r < 13" for r
  proof -
    have "bit (bySuit c ?f) r \<longleftrightarrow> makeCard r ?f \<in> set cs" using d(1) f(1) that by (simp add: same_cards_def)
    then show ?thesis using f(1) by (auto simp: ys_def image_iff) (metis rank_suit_unique(2) rankOfCard_makeCard suitOfCard_makeCard)+
  qed
  then have "top_ranks 5 (\<lambda>r. r \<in> set ys) = top_ranks 5 (bit (bySuit c ?f))" by (rule top_ranks_cong)
  moreover have "map fst (filter (\<lambda>(r, s). s = int ?f) (hand_pairs cs)) = map int ys"
    unfolding hand_pairs_def ys_def by (induction cs) auto
  ultimately show ?thesis by simp
qed


section \<open>Groups of the hand\<close>

lemma first_rank_eq:
  assumes "\<forall>r<13. P r = Q r"
  shows "first_rank P ranks_12_0 = (if \<exists>r<13. Q r then int (top_rank Q) else -1)"
  unfolding first_rank_top using assms top_rank_cong [of P Q] by auto

lemma dealt_quads:
  assumes "\<forall>r<13. rc ! r = int (rank_count c r)" "has_quads c"
  shows "group_loop rc ranks ranks_12_0 g =
    Inl (kQuads + int (top_rank (has c 4)) * 13 + best_other [int (top_rank (has c 4))] ranks (-1))"
proof (rule group_loop_quads)
  have "top_rank (\<lambda>r. rc ! r = 4) = top_rank (has c 4)" using assms(1) has4 [of c] by (intro top_rank_cong) auto
  moreover have "\<exists>r<13. rc ! r = 4" using assms by (auto simp: has_quads_def)
  ultimately show "find (\<lambda>r. rc ! r = 4) ranks_12_0 = Some (top_rank (has c 4))" unfolding find_top by simp
qed

lemma dealt_trips:
  assumes rc: "\<forall>r<13. rc ! r = int (rank_count c r)" and c: "\<not> has_quads c" "has_trips c"
  defines "t \<equiv> top_rank (has c 3)"
  shows "\<exists>p2. group_loop rc ranks ranks_12_0 (-1, -1, -1) =
    Inr (int t, if has_full_house c then int (top_rank (\<lambda>r. has c 2 r \<and> r \<noteq> t)) else -1, p2)"
proof -
  have le3: "rank_count c r \<le> 3" if "r < 13" for r using c(1) that rank_count_le [of c r] by (auto simp: has_quads_def le_less)
  have rc': "rc ! r = int (rank_count c r)" if "r < 13" for r using rc that by blast
  have four: "\<forall>r \<in> set ranks_12_0. rc ! r \<noteq> 4"
    unfolding ranks_set(1)
  proof
    fix r :: nat assume "r \<in> {..<13}"
    then show "rc ! r \<noteq> 4" using rc' [of r] le3 [of r] by simp
  qed
  have e3: "\<forall>r<13. (rc ! r = 3 \<longleftrightarrow> has c 3 r)"
  proof (intro allI impI)
    fix r :: nat assume "r < 13"
    then show "rc ! r = 3 \<longleftrightarrow> has c 3 r" using rc' [of r] le3 [of r] by auto
  qed
  have e2: "\<forall>r<13. ((rc ! r = 2 \<or> rc ! r = 3) \<and> int r \<noteq> int t \<longleftrightarrow> has c 2 r \<and> r \<noteq> t)"
  proof (intro allI impI)
    fix r :: nat assume "r < 13"
    then show "(rc ! r = 2 \<or> rc ! r = 3) \<and> int r \<noteq> int t \<longleftrightarrow> has c 2 r \<and> r \<noteq> t" using rc' [of r] le3 [of r] by auto
  qed
  have three: "first_rank (\<lambda>x. rc ! x = 3) ranks_12_0 = int t"
    unfolding first_rank_eq [of "\<lambda>r. rc ! r = 3" "has c 3", OF e3] using c(2) by (simp add: has_trips_def t_def)
  have "groups (group_loop rc ranks ranks_12_0 (-1, -1, -1)) =
      Some (int t, if has_full_house c then int (top_rank (\<lambda>r. has c 2 r \<and> r \<noteq> t)) else -1)"
    unfolding group_loop_groups [OF four ranks_set(2)] three 
      first_rank_eq [of "\<lambda>r. (rc ! r = 2 \<or> rc ! r = 3) \<and> int r \<noteq> int t" "\<lambda>r. has c 2 r \<and> r \<noteq> t", OF e2] full_house_top [OF c(2)] t_def [symmetric] by simp
  then show ?thesis unfolding groups_Some .
qed

lemma dealt_pairs:
  assumes rc: "\<forall>r<13. rc ! r = int (rank_count c r)" and c: "\<not> has_trips c"
  defines "p \<equiv> top_rank (has c 2)"
  shows "group_loop rc ranks ranks_12_0 (-1, -1, -1) =
    Inr (-1, if has_pair c then int p else -1, if has_two_pair c then int (top_rank (\<lambda>r. has c 2 r \<and> r \<noteq> p)) else -1)"
proof -
  have le2: "rank_count c r \<le> 2" if "r < 13" for r using c that by (force simp: has_trips_def not_le)
  have rc': "rc ! r = int (rank_count c r)" if "r < 13" for r using rc that by blast
  have none: "\<forall>r \<in> set ranks_12_0. rc ! r \<noteq> 4 \<and> rc ! r \<noteq> 3"
    unfolding ranks_set(1)
  proof
    fix r :: nat assume "r \<in> {..<13}"
    then show "rc ! r \<noteq> 4 \<and> rc ! r \<noteq> 3" using rc' [of r] le2 [of r] by simp
  qed
  have e: "\<forall>r<13. (rc ! r = 2 \<longleftrightarrow> has c 2 r)"
  proof (intro allI impI)
    fix r :: nat assume "r < 13"
    then show "rc ! r = 2 \<longleftrightarrow> has c 2 r" using rc' [of r] le2 [of r] by auto
  qed
  have e2: "\<forall>r<13. (rc ! r = 2 \<and> int r \<noteq> int p \<longleftrightarrow> has c 2 r \<and> r \<noteq> p)" using e by simp
  have e1: "\<forall>r<13. (rc ! r = 2 \<and> int r \<noteq> -1 \<longleftrightarrow> has c 2 r)" using e by simp
  have pair: "first_rank (\<lambda>x. rc ! x = 2) ranks_12_0 = (if has_pair c then int p else -1)"
    unfolding first_rank_eq [of "\<lambda>r. rc ! r = 2" "has c 2", OF e] by (simp add: has_pair_def p_def)
  have loop: "group_loop rc ranks ranks_12_0 (-1, -1, -1) = Inr (-1, if has_pair c then int p else -1,
      first_rank (\<lambda>x. rc ! x = 2 \<and> int x \<noteq> (if has_pair c then int p else -1)) ranks_12_0)"
    using group_loop_pairs [OF none ranks_set(2), of "-1" "-1"] unfolding pair by (simp only: simp_thms if_True)
  show ?thesis
  proof (cases "has_pair c")
    case True
    then show ?thesis unfolding loop if_P [OF True] 
      first_rank_eq [of "\<lambda>r. rc ! r = 2 \<and> int r \<noteq> int p" "\<lambda>r. has c 2 r \<and> r \<noteq> p", OF e2] two_pair_top [OF True] p_def [symmetric] by simp
  next
    case False
    then have "\<not> has_two_pair c" "\<not> (\<exists>r<13. has c 2 r)" by (auto simp: has_two_pair_def has_pair_def)
    then show ?thesis unfolding loop if_not_P [OF False] first_rank_eq [of "\<lambda>r. rc ! r = 2 \<and> int r \<noteq> -1" "has c 2", OF e1] by simp
  qed
qed


section \<open>The value of the hand\<close>

lemma digits_nth:
  "length xs = 2 \<Longrightarrow> digits xs = int (xs ! 0) * 13 + int (xs ! 1)"
  "length xs = 3 \<Longrightarrow> digits xs = int (xs ! 0) * 169 + int (xs ! 1) * 13 + int (xs ! 2)"
  "length xs = 5 \<Longrightarrow> digits xs = int (xs ! 0) * 28561 + int (xs ! 1) * 2197 + int (xs ! 2) * 169 + int (xs ! 3) * 13 + int (xs ! 4)"
  by (auto simp: numeral_eq_Suc length_Suc_conv)

lemma has_subset: "has_full_house c \<Longrightarrow> has_trips c" "has_two_pair c \<Longrightarrow> has_pair c" "has_quads c \<Longrightarrow> has_trips c" "has_trips c \<Longrightarrow> has_pair c"
  by (auto simp: has_full_house_def has_trips_def has_two_pair_def has_pair_def has_quads_def intro: order_trans [of 2 3])

text \<open>The ranks that are neither of the trips nor of the pairs occur once.\<close>

lemma single_others:
  "has_trips c \<Longrightarrow> \<not> has_full_house c \<Longrightarrow> r < 13 \<Longrightarrow> r \<noteq> top_rank (has c 3) \<Longrightarrow> rank_count c r \<le> 1"
  "has_pair c \<Longrightarrow> \<not> has_two_pair c \<Longrightarrow> r < 13 \<Longrightarrow> r \<noteq> top_rank (has c 2) \<Longrightarrow> rank_count c r \<le> 1"
  "\<not> has_pair c \<Longrightarrow> r < 13 \<Longrightarrow> rank_count c r \<le> 1"
proof -
  have two: "rank_count c r \<le> 1" if "\<not> has c 2 r" using that by linarith
  show "has_trips c \<Longrightarrow> \<not> has_full_house c \<Longrightarrow> r < 13 \<Longrightarrow> r \<noteq> top_rank (has c 3) \<Longrightarrow> rank_count c r \<le> 1"
    using two full_house_top [of c] by blast
  show "has_pair c \<Longrightarrow> \<not> has_two_pair c \<Longrightarrow> r < 13 \<Longrightarrow> r \<noteq> top_rank (has c 2) \<Longrightarrow> rank_count c r \<le> 1"
    using two two_pair_top [of c] by blast
  show "\<not> has_pair c \<Longrightarrow> r < 13 \<Longrightarrow> rank_count c r \<le> 1" using two unfolding has_pair_def by blast
qed

lemma group_value_trips:
  assumes d: "dealt c cs" and rh: "ranked_hand c s0 s1 s2 s3" and c: "\<not> has_quads c" "\<not> has_full_house c" "has_trips c"
  shows "group_value (length cs) (card_ranks cs) hand (-1) (-1) (int (top_rank (has c 3)), -1, p2) =
    kThreeOfAKind + digits (top_rank (has c 3) # top_ranks 2 (\<lambda>r. has c 1 r \<and> r \<noteq> top_rank (has c 3)))"
proof -
  let ?t = "top_rank (has c 3)"
  note k = trips_key(4) [OF rh c(3,1,2)]
  have "highest 2 (filter (\<lambda>r. nat r \<notin> {?t}) (card_ranks cs)) = map int (top_ranks 2 (\<lambda>r. has c 1 r \<and> r \<notin> {?t}))"
    using single_others(1) [OF c(3,2)] k by (intro highest_kickers [OF d]) simp_all
  moreover have "filter (\<lambda>r. nat r \<notin> {?t}) (card_ranks cs) = filter (\<lambda>r. r \<noteq> int ?t) (card_ranks cs)" by (intro filter_cong) auto
  ultimately show ?thesis using top_ranks_facts(1) [OF k] digits_nth(1) by (simp add: group_value_def)
qed

lemma group_value_pair:
  assumes d: "dealt c cs" and rh: "ranked_hand c s0 s1 s2 s3" and c: "\<not> has_trips c" "\<not> has_two_pair c" "has_pair c"
  shows "group_value (length cs) (card_ranks cs) hand (-1) (-1) (-1, int (top_rank (has c 2)), -1) =
    kPair + digits (top_rank (has c 2) # top_ranks 3 (\<lambda>r. has c 1 r \<and> r \<noteq> top_rank (has c 2)))"
proof -
  let ?p = "top_rank (has c 2)"
  note k = pairs_key(4) [OF rh c(3,1,2)]
  have "highest 3 (filter (\<lambda>r. nat r \<notin> {?p}) (card_ranks cs)) = map int (top_ranks 3 (\<lambda>r. has c 1 r \<and> r \<notin> {?p}))"
    using single_others(2) [OF c(3,2)] k by (intro highest_kickers [OF d]) simp_all
  moreover have "filter (\<lambda>r. nat r \<notin> {?p}) (card_ranks cs) = filter (\<lambda>r. r \<noteq> int ?p) (card_ranks cs)" by (intro filter_cong) auto
  ultimately show ?thesis using top_ranks_facts(1) [OF k] digits_nth(2) by (simp add: group_value_def)
qed

lemma group_value_single:
  assumes d: "dealt c cs" and rh: "ranked_hand c s0 s1 s2 s3" and c: "\<not> has_pair c"
  shows "group_value (length cs) (card_ranks cs) hand (-1) (-1) (-1, -1, -1) = kNoPair + digits (top_ranks 5 (has c 1))"
proof -
  note k = single_ranks [OF rh c]
  have "highest 5 (filter (\<lambda>r. nat r \<notin> {}) (card_ranks cs)) = map int (top_ranks 5 (\<lambda>r. has c 1 r \<and> r \<notin> {}))"
    using single_others(3) [OF c] k by (intro highest_kickers [OF d]) simp_all
  then show ?thesis using top_ranks_facts(1) [OF k] digits_nth(3) by (simp add: group_value_def)
qed

lemma group_value_flush:
  assumes "dealt c cs" "has_flush c" "\<not> (0 \<le> three \<and> 0 \<le> pair)"
  shows "group_value (length cs) ranks (hand_pairs cs) (int (flush_suit c)) sr (three, pair, pair2) =
    kFlush + digits (top_ranks 5 (bit (bySuit c (flush_suit c))))"
proof -
  have "length (top_ranks 5 (bit (bySuit c (flush_suit c)))) = 5" using flush_facts(1) [OF dealtD(7) assms(2)] assms(1) by simp
  then show ?thesis using highest_flush [OF assms(1,2)] digits_nth(3) assms(3) by (auto simp: group_value_def)
qed

lemma group_value_two_pair:
  assumes d: "dealt c cs" and rh: "ranked_hand c s0 s1 s2 s3" and c: "\<not> has_trips c" "has_two_pair c"
  defines "p \<equiv> top_rank (has c 2)"
  defines "q \<equiv> top_rank (\<lambda>r. has c 2 r \<and> r \<noteq> p)"
  shows "group_value (length cs) (card_ranks cs) hand (-1) (-1) (-1, int p, int q) =
    kTwoPair + digits [p, q, top_rank (\<lambda>r. has c 1 r \<and> r \<noteq> p \<and> r \<noteq> q)]"
proof -
  note pr = has_subset(2) [OF c(2)]
  have le2: "rank_count c r \<le> 2" if "r < 13" for r using c(1) that by (force simp: has_trips_def not_le)
  have p: "p < 13" using top_rank_holds [of "has c 2"] pr by (auto simp: has_pair_def p_def)
  have "\<exists>r<13. has c 2 r \<and> r \<noteq> p" using two_pair_top [OF pr] c(2) by (simp add: p_def)
  then have q: "q < 13" "q \<noteq> p" using top_rank_holds [of "\<lambda>r. has c 2 r \<and> r \<noteq> p"] by (auto simp: q_def)
  have "\<exists>r<13. has c 1 r \<and> r \<notin> set [p, q]"
    using p q ranked_sets(13) [OF rh] le2 [OF p] le2 [OF q(1)] by (intro kicker_exists) auto
  from best_kicker [OF d this] show ?thesis using dealtD(5) [OF d] by (simp add: group_value_def)
qed


lemma Evaluate_flush:
  assumes d: "dealt c cs" and rc: "\<forall>r<13. rc ! r = int (rank_count c r)" and fl: "has_flush c" "\<not> has_quads c" "\<not> has_full_house c"
  shows "(case group_loop rc (card_ranks cs) ranks_12_0 (-1, -1, -1) of
       Inl v \<Rightarrow> v
     | Inr g \<Rightarrow> group_value (length cs) (card_ranks cs) (hand_pairs cs) (int (flush_suit c)) sr g) =
    kFlush + digits (top_ranks 5 (bit (bySuit c (flush_suit c))))"
proof (cases "has_trips c")
  case True
  then show ?thesis using dealt_trips [OF rc fl(2), of "card_ranks cs"] group_value_flush [OF d fl(1)] fl(3)
    by (auto simp del: group_loop.simps)
next
  case False
  then show ?thesis using dealt_pairs [OF rc, of "card_ranks cs"] group_value_flush [OF d fl(1)] by (simp del: group_loop.simps)
qed

lemma Evaluate_no_sf:
  assumes d: "dealt c cs" and nsf: "\<not> has_straight_flush c"
  shows "Evaluate 4 (map int cs) (length cs) = Some (holdem_val (hand_key c))"
proof -
  obtain s0 s1 s2 s3 where rh: "ranked_hand c s0 s1 s2 s3" using dealt_ranked [OF assms] by blast
  obtain rc where rc: "\<forall>r<13. rc ! r = int (rank_count c r)" and run: "Evaluate 4 (map int cs) (length cs) =
      (let f = (if has_flush c then int (flush_suit c) else -1) in
       Some (case straight_loop rc (hand_pairs cs) f 12 (-1) of
            Inl v \<Rightarrow> v
          | Inr straight_rank \<Rightarrow>
              (case group_loop rc (card_ranks cs) ranks_12_0 (-1, -1, -1) of
                 Inl v \<Rightarrow> v
               | Inr g \<Rightarrow> group_value (length cs) (card_ranks cs) (hand_pairs cs) f straight_rank g)))"
    using Evaluate_run [OF d] by blast
  define f where "f = (if has_flush c then int (flush_suit c) else -1)"
  obtain sr where sr: "straight_loop rc (hand_pairs cs) f 12 (-1) = Inr sr"
    "\<not> has_flush c \<Longrightarrow> sr = (case straight_high (has c 1) of Some h \<Rightarrow> int h | None \<Rightarrow> -1)"
    using dealt_straights [OF d rc] straight_flush_suit [OF dealtD(7) [OF d]] nsf by (cases "has_flush c") (auto simp: f_def)
  define G where "G = group_loop rc (card_ranks cs) ranks_12_0 (-1, -1, -1)"
  have run: "Evaluate 4 (map int cs) (length cs) =
      Some (case G of Inl v \<Rightarrow> v | Inr g \<Rightarrow> group_value (length cs) (card_ranks cs) (hand_pairs cs) f sr g)"
    unfolding run f_def [symmetric] Let_def sr(1) G_def by simp
  note st = ranked_sets(12) [OF rh]
  note key = hand_key_def holdem_val_def Let_def
  note pairs = dealt_pairs [OF rc, of "card_ranks cs", folded G_def]
  have nf: "f = -1" if "\<not> has_flush c" using that by (simp add: f_def)
  have no: "sr = -1" if "\<not> has_flush c" "\<not> has_straight c" using sr(2) that st by simp
  show ?thesis
  proof (cases "category_of c")
    case StraightFlush
    then show ?thesis using category_cases(1) nsf by blast
  next
    case Quads
    then have q: "has_quads c" using category_cases(2) by blast
    let ?q = "top_rank (has c 4)"
    have "?q < 13" using top_rank_holds(1) [of "has c 4"] q has4 [of c] by (auto simp: has_quads_def)
    then have "\<exists>r<13. has c 1 r \<and> r \<notin> set [?q]"
      using rank_count_le [of c ?q] ranked_sets(13) [OF rh] by (intro kicker_exists) auto
    from best_kicker [OF d this] show ?thesis using dealt_quads [OF rc q, of "card_ranks cs" "(-1, -1, -1)", folded G_def] Quads unfolding run by (simp add: key)
  next
    case FullHouse
    note cc = category_cases(3) [OF this]
    then show ?thesis using dealt_trips [OF rc, of "card_ranks cs", folded G_def] has_subset(1) [of c] FullHouse unfolding run
      by (auto simp: key group_value_def)
  next
    case Flush
    note cc = category_cases(4) [OF this]
    then show ?thesis using Evaluate_flush [OF d rc, of sr, folded G_def] Flush unfolding run f_def by (simp add: key)
  next
    case Straight
    note cc = category_cases(5) [OF this]
    then obtain h where h: "straight_high (has c 1) = Some h" using st by blast
    have "(case G of Inl v \<Rightarrow> v | Inr g \<Rightarrow> group_value (length cs) (card_ranks cs) (hand_pairs cs) f sr g) = kStraight + int h"
      using dealt_trips [OF rc, of "card_ranks cs", folded G_def] pairs cc nf sr(2) h by (cases "has_trips c") (auto simp: group_value_def)
    then show ?thesis using Straight h unfolding run by (simp add: key)
  next
    case Trips
    note cc = category_cases(6) [OF this]
    obtain p2 where "G = Inr (int (top_rank (has c 3)), -1, p2)"
      using dealt_trips [OF rc, of "card_ranks cs", folded G_def] cc by auto
    then show ?thesis using group_value_trips [OF d rh, of "hand_pairs cs" p2] cc nf no Trips unfolding run by (simp add: key)
  next
    case TwoPair
    note cc = category_cases(7) [OF this]
    then have "G = Inr (-1, int (top_rank (has c 2)), int (top_rank (\<lambda>r. has c 2 r \<and> r \<noteq> top_rank (has c 2))))"
      using pairs has_subset(2) [of c] by simp
    then show ?thesis using group_value_two_pair [OF d rh, of "hand_pairs cs"] cc nf no TwoPair unfolding run by (simp add: key)
  next
    case Pair
    note cc = category_cases(8) [OF this]
    then have "G = Inr (-1, int (top_rank (has c 2)), -1)" using pairs by simp
    then show ?thesis using group_value_pair [OF d rh, of "hand_pairs cs"] cc nf no Pair unfolding run by (simp add: key)
  next
    case SingleCard
    note cc = category_cases(9) [OF this]
    then have "\<not> has_trips c" "\<not> has_two_pair c" "\<not> has_pair c" using has_subset(2,4) [of c] by blast+
    then have "G = Inr (-1, -1, -1)" using pairs by simp
    then show ?thesis using group_value_single [OF d rh, of "hand_pairs cs"] cc nf no SingleCard unfolding run by (simp add: key)
  qed
qed

lemma Evaluate_key:
  assumes "dealt c cs"
  shows "Evaluate 4 (map int cs) (length cs) = Some (holdem_val (hand_key c))"
proof (cases "has_straight_flush c")
  case True
  then obtain h where h: "has_flush c" "straight_high (bit (bySuit c (flush_suit c))) = Some h"
    using straight_flush_suit [OF dealtD(7) [OF assms]] by blast
  obtain rc where rc: "\<forall>r<13. rc ! r = int (rank_count c r)" "Evaluate 4 (map int cs) (length cs) =
      (let f = (if has_flush c then int (flush_suit c) else -1) in
       Some (case straight_loop rc (hand_pairs cs) f 12 (-1) of
            Inl v \<Rightarrow> v
          | Inr straight_rank \<Rightarrow>
              (case group_loop rc (card_ranks cs) ranks_12_0 (-1, -1, -1) of
                 Inl v \<Rightarrow> v
               | Inr g \<Rightarrow> group_value (length cs) (card_ranks cs) (hand_pairs cs) f straight_rank g)))"
    using Evaluate_run [OF assms] by blast
  have "straight_loop rc (hand_pairs cs) (int (flush_suit c)) 12 (-1) = Inl (kStraightFlush + int h)"
    using dealt_straights(2) [OF assms rc(1) h(1)] h(2) by simp
  moreover have "category_of c = StraightFlush" using True by (simp add: category_of_def)
  ultimately show ?thesis using h unfolding rc(2) by (simp add: hand_key_def holdem_val_def Let_def)
next
  case False
  then show ?thesis by (rule Evaluate_no_sf [OF assms])
qed

end
