(* ===== verification/Showdown.thy ===== *)
theory Showdown
  imports Complex_Main Betting_Machine Hand_Eval
begin

text \<open>
  Showdown: \<open>rankHand\<close> and \<open>valueOfState\<close> of \<open>game.c\<close>.  The \<open>double\<close> results are exact rationals.  \<open>None\<close> is a
  failed assertion, an index outside an array (a player without chips in the pot has no \<open>playerIdx\<close>) or an
  overflow of the \<open>int32_t\<close> product.  The abstract account of a showdown splits the pot chip by chip: each
  level of the bet is a pot of its own, contested by the players who paid it.
\<close>

section \<open>The code\<close>

primrec add_card_loop :: "(nat \<Rightarrow> nat option) \<Rightarrow> nat \<Rightarrow> Cardset \<Rightarrow> Cardset option" where
  "add_card_loop cards 0 c = Some c"
| "add_card_loop cards (Suc i) c =
     do {
       c' \<leftarrow> add_card_loop cards i c;
       card \<leftarrow> cards i;
       addCardToCardset c' (suitOfCard card) (rankOfCard card)
     }"

definition rankHand :: "Game \<Rightarrow> State \<Rightarrow> nat \<Rightarrow> int option" where
  "rankHand g s player =
     do {
       c1 \<leftarrow> add_card_loop (\<lambda>i. do { row \<leftarrow> rd (holeCards s) player; rd row i }) (numHoleCards g) emptyCardset;
       c2 \<leftarrow> add_card_loop (\<lambda>i. rd (boardCards s) i) (sumBoardCards g (round_no s)) c1;
       rankCardset c2
     }"

text \<open>The list of players of a showdown, with the index of \<open>player\<close> in it, \<open>-1\<close> when absent.\<close>

primrec list_players :: "Game \<Rightarrow> State \<Rightarrow> nat \<Rightarrow> nat \<Rightarrow> ((int \<times> int) list \<times> int) option" where
  "list_players g s player 0 = Some ([], -1)"
| "list_players g s player (Suc p) =
     do {
       (ps, playerIdx) \<leftarrow> list_players g s player p;
       if spent s ! p = 0 then Some (ps, playerIdx)
       else if playerFolded s ! p then Some (ps @ [(spent s ! p, -1)], playerIdx)
       else do {
         r \<leftarrow> rankHand g s p;
         Some (ps @ [(spent s ! p, r)], if p = player then int (length ps) else playerIdx)
       }
     }"

text \<open>The smallest remaining contribution, the best rank and how many players have it.\<close>

fun pot_scan :: "(int \<times> int) list \<Rightarrow> int \<times> int \<times> nat \<Rightarrow> (int \<times> int \<times> nat) option" where
  "pot_scan [] acc = Some acc"
| "pot_scan ((sp, rk) # ps) (sz, winRank, numWinners) =
     (if sp > 0
      then pot_scan ps
             (if sp < sz then sp else sz,
              if rk > winRank then rk else winRank,
              if rk > winRank then 1 else if rk = winRank then numWinners + 1 else numWinners)
      else None)"

text \<open>The players of the next side pot; \<open>None\<close> when \<open>playerIdx\<close> is not among them.\<close>

fun next_pot :: "(int \<times> int) list \<Rightarrow> int \<Rightarrow> int \<Rightarrow> int \<Rightarrow> (int \<times> int) list \<Rightarrow> ((int \<times> int) list \<times> int) option" where
  "next_pot [] sz p playerIdx acc = Some (acc, playerIdx)"
| "next_pot ((sp, rk) # ps) sz p playerIdx acc =
     (if sp - sz = 0
      then (if p = playerIdx then None else next_pot ps sz (p + 1) playerIdx acc)
      else next_pot ps sz (p + 1) (if p = playerIdx then int (length acc) else playerIdx)
             (acc @ [(sp - sz, rk)]))"

primrec sidepots :: "nat \<Rightarrow> (int \<times> int) list \<Rightarrow> int \<Rightarrow> rat \<Rightarrow> rat option" where
  "sidepots 0 ps playerIdx val = None"
| "sidepots (Suc fuel) ps playerIdx val =
     do {
       (sz, winRank, numWinners) \<leftarrow> pot_scan ps (INT32_MAX, 0, 0);
       me \<leftarrow> (if playerIdx < 0 then None else rd ps (nat playerIdx));
       val' \<leftarrow>
         (if snd me = winRank
          then do {
            m \<leftarrow> chk32 (sz * (int (length ps) - int numWinners));
            Some (val + of_int m / of_nat numWinners)
          }
          else Some (val - of_int sz));
       (case next_pot ps sz 0 playerIdx [] of
          None \<Rightarrow> Some val'
        | Some (ps', playerIdx') \<Rightarrow> sidepots fuel ps' playerIdx' val')
     }"

text \<open>Every round of the loop drops a player, so \<open>MAX_PLAYERS\<close> rounds are enough.\<close>

definition valueOfState :: "Game \<Rightarrow> State \<Rightarrow> nat \<Rightarrow> rat option" where
  "valueOfState g s player =
     do {
       folded \<leftarrow> rd (playerFolded s) player;
       if folded then do { v \<leftarrow> chk32 (- (spent s ! player)); Some (of_int v) }
       else if numFolded g s + 1 = numPlayers g
       then Some (\<Sum>p\<leftarrow>[0..<numPlayers g]. if p = player then 0 else of_int (spent s ! p))
       else do {
         (ps, playerIdx) \<leftarrow> list_players g s player (numPlayers g);
         if length ps > 1 then sidepots MAX_PLAYERS ps playerIdx 0 else None
       }
     }"

section \<open>The pot, chip by chip\<close>

definition in_pot :: "nat \<Rightarrow> (nat \<Rightarrow> int) \<Rightarrow> int \<Rightarrow> nat set" where
  "in_pot N sp t = {q. q < N \<and> t \<le> sp q}"

definition winners :: "nat \<Rightarrow> (nat \<Rightarrow> int) \<Rightarrow> (nat \<Rightarrow> int) \<Rightarrow> int \<Rightarrow> nat set" where
  "winners N sp rk t = {q \<in> in_pot N sp t. 0 \<le> rk q \<and> (\<forall>x \<in> in_pot N sp t. rk x \<le> rk q)}"

text \<open>What level \<open>t\<close> of the bet is worth to a player who paid it: one chip lost, or an equal share of the
  chips of those who do not win it.\<close>

definition share :: "nat \<Rightarrow> (nat \<Rightarrow> int) \<Rightarrow> (nat \<Rightarrow> int) \<Rightarrow> nat \<Rightarrow> int \<Rightarrow> rat" where
  "share N sp rk p t =
     (if p \<in> winners N sp rk t
      then (of_nat (card (in_pot N sp t)) - of_nat (card (winners N sp rk t))) / of_nat (card (winners N sp rk t))
      else - 1)"

definition payoff :: "nat \<Rightarrow> (nat \<Rightarrow> int) \<Rightarrow> (nat \<Rightarrow> int) \<Rightarrow> nat \<Rightarrow> rat" where
  "payoff N sp rk p = (\<Sum>t \<in> {1..sp p}. share N sp rk p t)"

lemma finite_in_pot [simp]: "finite (in_pot N sp t)"
  by (simp add: in_pot_def)

lemma winners_sub: "winners N sp rk t \<subseteq> in_pot N sp t"
  by (auto simp: winners_def)

lemma finite_winners [simp]: "finite (winners N sp rk t)"
  by (rule finite_subset [OF winners_sub]) simp

lemma level_zero_sum:
  assumes "winners N sp rk t \<noteq> {}"
  shows "(\<Sum>p \<in> in_pot N sp t. share N sp rk p t) = 0"
proof -
  let ?I = "in_pot N sp t" and ?W = "winners N sp rk t"
  let ?c = "(of_nat (card ?I) - of_nat (card ?W)) / of_nat (card ?W) :: rat"
  have pos: "card ?W > 0" using assms by (simp add: card_gt_0_iff)
  have "(\<Sum>p \<in> ?I. share N sp rk p t) = (\<Sum>p \<in> ?W. share N sp rk p t) + (\<Sum>p \<in> ?I - ?W. share N sp rk p t)"
    using sum.subset_diff [OF winners_sub, of N sp t "\<lambda>p. share N sp rk p t" rk] by simp
  also have "(\<Sum>p \<in> ?W. share N sp rk p t) = of_nat (card ?W) * ?c" by (simp add: share_def)
  also have "(\<Sum>p \<in> ?I - ?W. share N sp rk p t) = - of_nat (card (?I - ?W))" by (simp add: share_def)
  also have "card (?I - ?W) = card ?I - card ?W" by (rule card_Diff_subset [OF finite_winners winners_sub])
  finally show ?thesis using pos assms card_mono [OF finite_in_pot winners_sub, of N sp rk t]
    by (simp add: of_nat_diff)
qed

lemma winners_nonempty:
  assumes "q \<in> in_pot N sp t" "0 \<le> rk q"
  shows "winners N sp rk t \<noteq> {}"
proof -
  have "finite (rk ` in_pot N sp t)" "rk ` in_pot N sp t \<noteq> {}" using assms(1) by auto
  then obtain w where "w \<in> in_pot N sp t" "rk w = Max (rk ` in_pot N sp t)" by (metis Max_in imageE)
  moreover have "rk x \<le> Max (rk ` in_pot N sp t)" if "x \<in> in_pot N sp t" for x using that by simp
  moreover have "0 \<le> rk w" using calculation assms by (metis order_trans)
  ultimately have "w \<in> winners N sp rk t" by (simp add: winners_def)
  then show ?thesis by blast
qed

text \<open>The levels of all players, swapped: each level that somebody wins adds up to zero, the others are lost.\<close>

lemma payoff_sum:
  assumes top: "\<And>p. p < N \<Longrightarrow> sp p \<le> M"
  shows "(\<Sum>p<N. payoff N sp rk p) =
    (\<Sum>t \<in> {1..M}. if winners N sp rk t = {} then - of_nat (card (in_pot N sp t)) else 0)"
proof -
  have "(\<Sum>p<N. payoff N sp rk p) = (\<Sum>p<N. \<Sum>t \<in> {1..M}. if t \<le> sp p then share N sp rk p t else 0)"
  proof (rule sum.cong [OF refl])
    fix p assume "p \<in> {..<N}"
    then have "{t \<in> {1..M}. t \<le> sp p} = {1..sp p}" using top [of p] by auto
    then show "payoff N sp rk p = (\<Sum>t \<in> {1..M}. if t \<le> sp p then share N sp rk p t else 0)"
      by (simp add: payoff_def sum.inter_filter [symmetric])
  qed
  also have "\<dots> = (\<Sum>t \<in> {1..M}. \<Sum>p<N. if t \<le> sp p then share N sp rk p t else 0)"
    by (rule sum.swap)
  also have "\<dots> = (\<Sum>t \<in> {1..M}. \<Sum>p \<in> in_pot N sp t. share N sp rk p t)"
    by (rule sum.cong [OF refl]) (simp add: sum.inter_filter [symmetric] in_pot_def lessThan_def)
  also have "\<dots> = (\<Sum>t \<in> {1..M}. if winners N sp rk t = {} then - of_nat (card (in_pot N sp t)) else 0)"
    by (rule sum.cong [OF refl]) (auto simp: level_zero_sum, simp add: share_def)
  finally show ?thesis .
qed

lemma payoff_zero_sum:
  assumes top: "q < N" "0 \<le> rk q" "\<And>p. p < N \<Longrightarrow> sp p \<le> sp q"
  shows "(\<Sum>p<N. payoff N sp rk p) = 0"
proof -
  have "winners N sp rk t \<noteq> {}" if "t \<in> {1..sp q}" for t
    using winners_nonempty [of q N sp t rk] that top(1,2) by (simp add: in_pot_def)
  then have "(\<Sum>t \<in> {1..sp q}. if winners N sp rk t = {} then - of_nat (card (in_pot N sp t)) else 0) = (0 :: rat)"
    by (intro sum.neutral) auto
  then show ?thesis using payoff_sum [of N sp "sp q" rk] top(3) by simp
qed

section \<open>The side-pot loop\<close>

text \<open>The players with more than \<open>b\<close> chips in, as the loop holds them once \<open>b\<close> chips of each are settled.\<close>

definition seats :: "nat \<Rightarrow> (nat \<Rightarrow> int) \<Rightarrow> int \<Rightarrow> nat list" where
  "seats N sp b = filter (\<lambda>q. b < sp q) [0..<N]"

definition seat_idx :: "(nat \<Rightarrow> int) \<Rightarrow> int \<Rightarrow> nat \<Rightarrow> int" where
  "seat_idx sp b p = int (length (filter (\<lambda>q. b < sp q) [0..<p]))"

abbreviation pot_entry :: "(nat \<Rightarrow> int) \<Rightarrow> (nat \<Rightarrow> int) \<Rightarrow> int \<Rightarrow> nat \<Rightarrow> int \<times> int" where
  "pot_entry sp rk b q \<equiv> (sp q - b, rk q)"

lemma seat_idx_ge: "0 \<le> seat_idx sp b p"
  by (simp add: seat_idx_def)

lemma seats_split:
  assumes "p < N" "b < sp p"
  shows "seats N sp b = filter (\<lambda>q. b < sp q) [0..<p] @ p # filter (\<lambda>q. b < sp q) [Suc p..<N]"
proof -
  have "[0..<N] = [0..<p] @ p # [Suc p..<N]"
    using assms(1) upt_add_eq_append [of 0 p "N - p"] by (simp add: upt_conv_Cons)
  then show ?thesis using assms(2) by (simp add: seats_def)
qed

lemma set_seats: "set (seats N sp b) = {q. q < N \<and> b < sp q}"
  by (auto simp: seats_def)

lemma pot_scan_eq:
  assumes "\<forall>(sp, rk) \<in> set ps. 0 < sp"
  shows "pot_scan ps (sz, wk, nw) =
    (let wk' = Max (insert wk (snd ` set ps))
     in Some (Min (insert sz (fst ` set ps)), wk',
              (if wk' = wk then nw else 0) + length (filter (\<lambda>x. snd x = wk') ps)))"
  using assms
proof (induction ps arbitrary: sz wk nw)
  case (Cons x ps)
  obtain sp rk where x: "x = (sp, rk)" by (cases x)
  let ?wk = "if rk > wk then rk else wk" and ?sz = "if sp < sz then sp else sz"
  have mn: "Min (insert ?sz (fst ` set ps)) = Min (insert sz (fst ` set (x # ps)))"
    by (cases "ps = []") (auto simp: x min_def)
  have mx: "Max (insert ?wk (snd ` set ps)) = Max (insert wk (snd ` set (x # ps)))"
    by (cases "ps = []") (auto simp: x max_def)
  have ge: "?wk \<le> Max (insert wk (snd ` set (x # ps)))" by (intro Max_ge) (auto simp: x)
  have "pot_scan (x # ps) (sz, wk, nw) = pot_scan ps
    (?sz, ?wk, if rk > wk then 1 else if rk = wk then nw + 1 else nw)"
    using Cons.prems by (simp add: x)
  also have "\<dots> = (let wk' = Max (insert wk (snd ` set (x # ps)))
     in Some (Min (insert sz (fst ` set (x # ps))), wk',
              (if wk' = ?wk then (if rk > wk then 1 else if rk = wk then nw + 1 else nw) else 0) +
              length (filter (\<lambda>x. snd x = wk') ps)))"
    using Cons.IH [of ?sz ?wk "if rk > wk then 1 else if rk = wk then nw + 1 else nw"] Cons.prems
    unfolding mn mx by simp
  finally show ?case using ge by (auto simp: x Let_def split: if_splits)
qed simp

lemma next_pot_past:
  "idx < p \<Longrightarrow> next_pot (map (pot_entry sp rk b) xs) m p idx acc =
     Some (acc @ map (pot_entry sp rk (b + m)) (filter (\<lambda>q. sp q - b \<noteq> m) xs), idx)"
  by (induction xs arbitrary: p acc) (auto simp: algebra_simps)

lemma next_pot_player:
  "int (length acc) \<le> p \<Longrightarrow>
   next_pot (map (pot_entry sp rk b) (xs @ player # ys)) m p (p + int (length xs)) acc =
     (if sp player - b = m then None
      else Some (acc @ map (pot_entry sp rk (b + m)) (filter (\<lambda>q. sp q - b \<noteq> m) (xs @ player # ys)),
                 int (length acc) + int (length (filter (\<lambda>q. sp q - b \<noteq> m) xs))))"
proof (induction xs arbitrary: p acc)
  case Nil
  then show ?case by (simp add: next_pot_past algebra_simps)
next
  case (Cons x xs)
  show ?case
    using Cons.IH [of acc "p + 1"] Cons.IH [of "acc @ [(sp x - b - m, rk x)]" "p + 1"] Cons.prems
    by (auto simp: algebra_simps)
qed

text \<open>A level of the bet that all remaining players have paid.\<close>

lemma level_of_seats:
  assumes m: "m = Min ((\<lambda>q. sp q - b) ` set (seats N sp b))" and p: "p \<in> set (seats N sp b)"
    and t: "b < t" "t \<le> b + m"
  shows "in_pot N sp t = set (seats N sp b)"
proof -
  have "m \<le> sp q - b" if "q \<in> set (seats N sp b)" for q using that m by simp
  then show ?thesis using t by (force simp: in_pot_def set_seats)
qed

lemma length_filter_seats: "length (filter P (seats N sp b)) = card {q \<in> set (seats N sp b). P q}"
  by (simp add: seats_def distinct_length_filter Int_def conj_ac)

lemma filter_max_winners:
  assumes "in_pot N sp t = set (seats N sp b)" "\<And>q. q \<in> set (seats N sp b) \<Longrightarrow> -1 \<le> rk q"
  shows "{q \<in> set (seats N sp b). rk q = Max (insert 0 (rk ` set (seats N sp b)))} = winners N sp rk t"
proof (intro equalityI subsetI)
  fix q assume "q \<in> {q \<in> set (seats N sp b). rk q = Max (insert 0 (rk ` set (seats N sp b)))}"
  then have q: "q \<in> set (seats N sp b)" "rk q = Max (insert 0 (rk ` set (seats N sp b)))" by auto
  moreover have "0 \<le> rk q" "\<And>x. x \<in> set (seats N sp b) \<Longrightarrow> rk x \<le> rk q" unfolding q(2) by (auto intro: Max_ge)
  ultimately show "q \<in> winners N sp rk t" by (simp add: winners_def assms(1))
next
  fix q assume "q \<in> winners N sp rk t"
  then have q: "q \<in> set (seats N sp b)" "0 \<le> rk q" "\<And>x. x \<in> set (seats N sp b) \<Longrightarrow> rk x \<le> rk q"
    by (auto simp: winners_def assms(1))
  then have "Max (insert 0 (rk ` set (seats N sp b))) = rk q" by (intro Max_eqI) auto
  then show "q \<in> {q \<in> set (seats N sp b). rk q = Max (insert 0 (rk ` set (seats N sp b)))}" using q(1) by simp
qed

lemma sum_const_levels:
  assumes "\<And>t. b < t \<Longrightarrow> t \<le> b + m \<Longrightarrow> f t = c" "0 \<le> m" "b + m \<le> e"
  shows "(\<Sum>t \<in> {b + 1..e}. f t) = of_int m * (c :: rat) + (\<Sum>t \<in> {b + m + 1..e}. f t)"
proof -
  have "{b + 1..e} = {b + 1..b + m} \<union> {b + m + 1..e}" using assms(2,3) by auto
  then have "(\<Sum>t \<in> {b + 1..e}. f t) = (\<Sum>t \<in> {b + 1..b + m}. f t) + (\<Sum>t \<in> {b + m + 1..e}. f t)"
    by (simp add: sum.union_disjoint)
  also have "(\<Sum>t \<in> {b + 1..b + m}. f t) = (\<Sum>t \<in> {b + 1..b + m}. c)"
    by (rule sum.cong) (use assms(1) in auto)
  finally show ?thesis using assms(2) by simp
qed

text \<open>One round of the loop, as a step from \<open>b\<close> to \<open>b + m\<close>.\<close>

lemma sidepots_step:
  assumes p: "p < N" "b < sp p" and rk: "\<And>q. q < N \<Longrightarrow> -1 \<le> rk q"
    and fit: "\<And>q. q < N \<Longrightarrow> (sp q - b) * int N \<le> INT32_MAX"
    and m: "m = Min ((\<lambda>q. sp q - b) ` set (seats N sp b))"
  shows "sidepots (Suc fuel) (map (pot_entry sp rk b) (seats N sp b)) (seat_idx sp b p) val =
    (let val' = val + of_int m * share N sp rk p (b + 1)
     in if sp p - b = m then Some val'
        else sidepots fuel (map (pot_entry sp rk (b + m)) (seats N sp (b + m))) (seat_idx sp (b + m) p) val')"
    "0 < m" "m \<le> sp p - b"
proof -
  let ?S = "seats N sp b" and ?ps = "map (pot_entry sp rk b) (seats N sp b)"
  have pS: "p \<in> set ?S" using p by (simp add: set_seats)
  have "m \<in> (\<lambda>q. sp q - b) ` set ?S" unfolding m using pS by (intro Min_in) auto
  then obtain q where q: "q < N" "b < sp q" "m = sp q - b" by (auto simp: set_seats)
  show pos: "0 < m" using q by simp
  show le: "m \<le> sp p - b" unfolding m using pS by (intro Min_le) auto
  have mN: "m * int N \<le> INT32_MAX" using fit [OF q(1)] q(3) by simp
  have "m * 1 \<le> m * int N" by (rule mult_left_mono) (use pos p(1) in auto)
  then have cap: "m \<le> INT32_MAX" using mN by simp
  let ?wk = "Max (insert 0 (rk ` set ?S))"
  have lvl: "in_pot N sp (b + 1) = set ?S" by (rule level_of_seats [OF m pS]) (use pos in auto)
  have nw: "length (filter (\<lambda>x. snd x = ?wk) ?ps) = card (winners N sp rk (b + 1))"
    using filter_max_winners [OF lvl, of rk] rk
    by (simp add: filter_map o_def length_filter_seats set_seats)
  have cardI: "length ?ps = card (in_pot N sp (b + 1))"
    unfolding lvl using distinct_card [of ?S] by (simp add: seats_def del: set_filter)
  have scan: "pot_scan ?ps (INT32_MAX, 0, 0) = Some (m, ?wk, card (winners N sp rk (b + 1)))"
  proof -
    have "Min (insert INT32_MAX (fst ` set ?ps)) = m"
    proof (rule Min_eqI)
      show "m \<in> insert INT32_MAX (fst ` set ?ps)" using q by (auto simp: image_image set_seats)
      show "m \<le> y" if "y \<in> insert INT32_MAX (fst ` set ?ps)" for y
        using that cap by (auto simp: m)
    qed simp
    moreover have "snd ` set ?ps = rk ` set ?S" by (simp add: image_image)
    moreover have "\<forall>(sp, rk) \<in> set ?ps. 0 < sp" by (auto simp: set_seats)
    ultimately show ?thesis using nw by (simp add: pot_scan_eq Let_def)
  qed
  have split: "?S = filter (\<lambda>q. b < sp q) [0..<p] @ p # filter (\<lambda>q. b < sp q) [Suc p..<N]"
    by (rule seats_split) (use p in auto)
  have me: "rd ?ps (nat (seat_idx sp b p)) = Some (sp p - b, rk p)"
    unfolding split seat_idx_def by (simp add: rd_def nth_append)
  have win: "rk p = ?wk \<longleftrightarrow> p \<in> winners N sp rk (b + 1)"
    using filter_max_winners [OF lvl, of rk] rk pS by (auto simp: set_seats)
  have val': "(if rk p = ?wk
      then do { k \<leftarrow> chk32 (m * (int (length ?ps) - int (card (winners N sp rk (b + 1)))));
                Some (val + of_int k / of_nat (card (winners N sp rk (b + 1)))) }
      else Some (val - of_int m)) = Some (val + of_int m * share N sp rk p (b + 1))"
  proof (cases "p \<in> winners N sp rk (b + 1)")
    case True
    let ?d = "int (length ?ps) - int (card (winners N sp rk (b + 1)))"
    have d: "0 \<le> ?d" "?d \<le> int N"
      using card_mono [OF finite_in_pot winners_sub, of N sp rk "b + 1"] length_filter_le [of "\<lambda>q. b < sp q" "[0..<N]"]
      unfolding cardI by (auto simp: cardI [symmetric] seats_def)
    then have "0 \<le> m * ?d" "m * ?d \<le> m * int N" using pos by (auto simp: mult_left_mono)
    then have "chk32 (m * ?d) = Some (m * ?d)" using mN by (intro chk32_fits) linarith+
    then show ?thesis using True win cardI by (simp add: share_def)
  next
    case False
    then show ?thesis using win by (simp add: share_def)
  qed
  have nxt: "next_pot ?ps m 0 (seat_idx sp b p) [] =
    (if sp p - b = m then None
     else Some (map (pot_entry sp rk (b + m)) (seats N sp (b + m)), seat_idx sp (b + m) p))"
  proof -
    have key: "b < sp q \<and> sp q - b \<noteq> m \<longleftrightarrow> b + m < sp q" if "q < N" for q
    proof -
      have "m \<le> sp q - b" if "b < sp q" unfolding m using \<open>q < N\<close> that by (intro Min_le) (auto simp: set_seats)
      then show ?thesis using pos by auto
    qed
    have flt: "filter (\<lambda>q. sp q - b \<noteq> m) (filter (\<lambda>q. b < sp q) [0..<n]) = filter (\<lambda>q. b + m < sp q) [0..<n]"
      if "n \<le> N" for n
      unfolding filter_filter by (rule filter_cong) (use key that in auto)
    have f: "filter (\<lambda>q. sp q - b \<noteq> m) ?S = seats N sp (b + m)"
      "filter (\<lambda>q. sp q - b \<noteq> m) (filter (\<lambda>q. b < sp q) [0..<p]) = filter (\<lambda>q. b + m < sp q) [0..<p]"
      unfolding seats_def by (rule flt, use p(1) in simp)+
    show ?thesis
      using next_pot_player [of "[]" 0 sp b rk "filter (\<lambda>q. b < sp q) [0..<p]" p "filter (\<lambda>q. b < sp q) [Suc p..<N]" m]
      unfolding split [symmetric] f by (simp add: seat_idx_def)
  qed
  show "sidepots (Suc fuel) ?ps (seat_idx sp b p) val =
    (let val' = val + of_int m * share N sp rk p (b + 1)
     in if sp p - b = m then Some val'
        else sidepots fuel (map (pot_entry sp rk (b + m)) (seats N sp (b + m))) (seat_idx sp (b + m) p) val')"
    using val' seat_idx_ge [of sp b p] by (simp add: scan me nxt Let_def)
qed

lemma sidepots_payoff:
  assumes p: "p < N" "b < sp p" and rk: "\<And>q. q < N \<Longrightarrow> -1 \<le> rk q"
    and fit: "\<And>q. q < N \<Longrightarrow> (sp q - b) * int N \<le> INT32_MAX" and fuel: "length (seats N sp b) \<le> fuel"
  shows "sidepots fuel (map (pot_entry sp rk b) (seats N sp b)) (seat_idx sp b p) val =
    Some (val + (\<Sum>t \<in> {b + 1..sp p}. share N sp rk p t))"
  using p(2) fit fuel
proof (induction fuel arbitrary: b val)
  case 0
  have "p \<in> set (seats N sp b)" using p(1) "0.prems"(1) by (simp add: set_seats)
  then show ?case using "0.prems"(3) by simp
next
  case (Suc fuel)
  define m where "m = Min ((\<lambda>q. sp q - b) ` set (seats N sp b))"
  have step: "sidepots (Suc fuel) (map (pot_entry sp rk b) (seats N sp b)) (seat_idx sp b p) val =
    (let val' = val + of_int m * share N sp rk p (b + 1)
     in if sp p - b = m then Some val'
        else sidepots fuel (map (pot_entry sp rk (b + m)) (seats N sp (b + m))) (seat_idx sp (b + m) p) val')"
    by (rule sidepots_step(1) [OF p(1) Suc.prems(1) _ _ m_def]) (use rk Suc.prems(2) in auto)
  have pos: "0 < m"
    by (rule sidepots_step(2) [OF p(1) Suc.prems(1) _ _ m_def]) (use rk Suc.prems(2) in auto)
  have le: "m \<le> sp p - b"
    by (rule sidepots_step(3) [OF p(1) Suc.prems(1) _ _ m_def]) (use rk Suc.prems(2) in auto)
  have pS: "p \<in> set (seats N sp b)" using p(1) Suc.prems(1) by (simp add: set_seats)
  have "share N sp rk p t = share N sp rk p (b + 1)" if "b < t" "t \<le> b + m" for t
  proof -
    have "in_pot N sp t = in_pot N sp (b + 1)"
      using level_of_seats [OF m_def pS that] level_of_seats [OF m_def pS, of "b + 1"] pos by simp
    then show ?thesis by (simp add: share_def winners_def)
  qed
  then have sum: "(\<Sum>t \<in> {b + 1..sp p}. share N sp rk p t) =
    of_int m * share N sp rk p (b + 1) + (\<Sum>t \<in> {b + m + 1..sp p}. share N sp rk p t)"
    by (rule sum_const_levels) (use pos le in auto)
  show ?case
  proof (cases "sp p - b = m")
    case True
    then have "{b + m + 1..sp p} = {}" by auto
    then show ?thesis using step True sum by (simp add: Let_def)
  next
    case False
    have "m \<in> (\<lambda>q. sp q - b) ` set (seats N sp b)" unfolding m_def using pS by (intro Min_in) auto
    then obtain q where "q < N" "b < sp q" "m = sp q - b" by (auto simp: set_seats)
    then have "q \<in> set (seats N sp b)" "q \<notin> set (seats N sp (b + m))" by (auto simp: set_seats)
    moreover have "set (seats N sp (b + m)) \<subseteq> set (seats N sp b)" using pos by (auto simp: set_seats)
    ultimately have "card (set (seats N sp (b + m))) < card (set (seats N sp b))"
      by (intro psubset_card_mono) auto
    moreover have "card (set (seats N sp c)) = length (seats N sp c)" for c
      by (rule distinct_card) (simp add: seats_def)
    ultimately have len: "length (seats N sp (b + m)) \<le> fuel" using Suc.prems(3) by simp
    have "(sp q - (b + m)) * int N \<le> INT32_MAX" if "q < N" for q
      using Suc.prems(2) [OF that] mult_right_mono [of "sp q - (b + m)" "sp q - b" "int N"] pos by linarith
    then show ?thesis using step le False sum Suc.IH [of "b + m"] len by (simp add: Let_def)
  qed
qed

section \<open>The value of a finished hand\<close>

text \<open>The rank the loop assigns to a player: -1 for a folded one.\<close>

definition hand_rank :: "Game \<Rightarrow> State \<Rightarrow> nat \<Rightarrow> int" where
  "hand_rank g s p = (if playerFolded s ! p then -1 else the (rankHand g s p))"

text \<open>The hands of the players who have not folded can be ranked.\<close>

definition ranked :: "Game \<Rightarrow> State \<Rightarrow> bool" where
  "ranked g s \<longleftrightarrow> (\<forall>p<numPlayers g. \<not> playerFolded s ! p \<longrightarrow> (\<exists>r\<ge>0. rankHand g s p = Some r))"

lemma list_players_eq:
  assumes "ranked g s" "n \<le> numPlayers g" "\<forall>p<n. 0 \<le> spent s ! p"
  shows "list_players g s player n = Some (map (pot_entry ((!) (spent s)) (hand_rank g s) 0) (seats n ((!) (spent s)) 0),
    if player < n \<and> \<not> playerFolded s ! player \<and> 0 < spent s ! player
    then seat_idx ((!) (spent s)) 0 player else -1)"
  using assms(2,3)
proof (induction n)
  case (Suc p)
  have st: "seats (Suc p) f 0 = seats p f 0 @ (if 0 < f p then [p] else [])" for f by (simp add: seats_def)
  have idx: "int (length (seats p f 0)) = seat_idx f 0 p" for f by (simp add: seats_def seat_idx_def)
  show ?case
  proof (cases "playerFolded s ! p")
    case True
    then show ?thesis using Suc by (auto simp: st hand_rank_def less_Suc_eq)
  next
    case False
    then obtain r where "rankHand g s p = Some r" using assms(1) Suc.prems(1) by (auto simp: ranked_def Suc_le_eq)
    then show ?thesis using Suc False by (auto simp: st hand_rank_def less_Suc_eq idx)
  qed
qed (simp add: seats_def)

text \<open>The conditions under which a showdown is decided: nobody has put in more than fits, two players are in
  the hand, and they have chips in the pot.\<close>

definition showdown :: "Game \<Rightarrow> State \<Rightarrow> bool" where
  "showdown g s \<longleftrightarrow> numPlayers g \<le> MAX_PLAYERS \<and> length (playerFolded s) = MAX_PLAYERS \<and> ranked g s \<and>
     (\<forall>p<numPlayers g. 0 \<le> spent s ! p \<and> spent s ! p * int (numPlayers g) \<le> INT32_MAX) \<and>
     (\<forall>p<numPlayers g. \<not> playerFolded s ! p \<longrightarrow> 0 < spent s ! p) \<and>
     numFolded g s + 1 < numPlayers g"

lemma two_in:
  assumes "showdown g s"
  shows "1 < length (seats (numPlayers g) ((!) (spent s)) 0)"
proof -
  let ?N = "numPlayers g" and ?F = "{p. p < numPlayers g \<and> playerFolded s ! p}"
  have N: "?N < 256" and few: "numFolded g s + 1 < ?N" using assms by (auto simp: showdown_def)
  have "card ?F = numFolded g s" using N by (simp add: numFolded_def count8_card)
  moreover have "card ({..<?N} - ?F) = ?N - card ?F" by (subst card_Diff_subset) auto
  ultimately have "1 < card ({..<?N} - ?F)" using few by simp
  also have "\<dots> \<le> card (set (seats ?N ((!) (spent s)) 0))"
    by (rule card_mono) (use assms in \<open>auto simp: showdown_def set_seats\<close>)
  also have "\<dots> = length (seats ?N ((!) (spent s)) 0)" by (rule distinct_card) (simp add: seats_def)
  finally show ?thesis .
qed

lemma hand_rank_ge: "ranked g s \<Longrightarrow> p < numPlayers g \<Longrightarrow> -1 \<le> hand_rank g s p"
  by (force simp: ranked_def hand_rank_def)

lemma folded_payoff:
  assumes "playerFolded s ! p" "0 \<le> spent s ! p"
  shows "payoff N ((!) (spent s)) (hand_rank g s) p = - of_int (spent s ! p)"
proof -
  have "share N ((!) (spent s)) (hand_rank g s) p t = -1" for t
    using assms(1) by (simp add: share_def winners_def hand_rank_def)
  then show ?thesis using assms(2) by (simp add: payoff_def)
qed

text \<open>At a showdown the loop over side pots computes the chip-by-chip account.\<close>

lemma showdown_value:
  assumes "showdown g s" "p < numPlayers g"
  shows "valueOfState g s p = Some (payoff (numPlayers g) ((!) (spent s)) (hand_rank g s) p)"
proof -
  note sd = assms(1) [unfolded showdown_def]
  have len: "p < length (playerFolded s)" using sd assms(2) by simp
  have fit: "(spent s ! q - 0) * int (numPlayers g) \<le> INT32_MAX" if "q < numPlayers g" for q using sd that by simp
  have nonneg: "0 \<le> spent s ! p" and cap: "spent s ! p * int (numPlayers g) \<le> INT32_MAX" using sd assms(2) by auto
  show ?thesis
  proof (cases "playerFolded s ! p")
    case True
    have "spent s ! p * 1 \<le> spent s ! p * int (numPlayers g)" by (rule mult_left_mono) (use nonneg assms(2) in auto)
    then have "chk32 (- (spent s ! p)) = Some (- (spent s ! p))" using nonneg cap by (intro chk32_fits) linarith+
    then show ?thesis using True len folded_payoff [OF True nonneg] by (simp add: valueOfState_def)
  next
    case False
    then have pos: "0 < spent s ! p" using sd assms(2) by blast
    have "length (seats (numPlayers g) ((!) (spent s)) 0) \<le> MAX_PLAYERS"
      using length_filter_le [of "\<lambda>q. 0 < spent s ! q" "[0..<numPlayers g]"] sd by (simp add: seats_def)
    note pots = sidepots_payoff [OF assms(2) pos _ fit this, of "hand_rank g s" 0]
    have "list_players g s p (numPlayers g) = Some (map (pot_entry ((!) (spent s)) (hand_rank g s) 0)
        (seats (numPlayers g) ((!) (spent s)) 0), seat_idx ((!) (spent s)) 0 p)"
      using list_players_eq [of g s "numPlayers g" p] sd assms(2) False pos by simp
    then show ?thesis
      using False len two_in [OF assms(1)] pots sd hand_rank_ge by (simp add: valueOfState_def payoff_def)
  qed
qed

lemma showdown_zero_sum:
  assumes "showdown g s" "q < numPlayers g" "\<not> playerFolded s ! q" "\<forall>p<numPlayers g. spent s ! p \<le> spent s ! q"
  shows "(\<Sum>p<numPlayers g. the (valueOfState g s p)) = 0"
proof -
  have "0 \<le> hand_rank g s q" using assms(1-3) by (force simp: showdown_def ranked_def hand_rank_def)
  then have "(\<Sum>p<numPlayers g. payoff (numPlayers g) ((!) (spent s)) (hand_rank g s) p) = 0"
    using payoff_zero_sum [OF assms(2)] assms(4) by simp
  then show ?thesis using showdown_value [OF assms(1)] by simp
qed

end
