(* ===== verification/Showdown_Props.thy ===== *)
theory Showdown_Props
  imports Showdown Hand_Class Betting_Props
begin

unbundle bit_operations_syntax

text \<open>
  The properties of a showdown: which cards \<open>rankHand\<close> ranks, the account of the chips of a hand, and a
  four-player hand in which chips are lost.
\<close>

section \<open>The cards of a hand\<close>

lemma bit_bySuit: "r < 16 \<Longrightarrow> k < 4 \<Longrightarrow> bit (bySuit c k) r \<longleftrightarrow> bit c (16 * k + r)"
  by (simp add: bySuit_def bit_ucast_iff bit_drop_bit_eq)

lemma suit_rank_inj: "r < 16 \<Longrightarrow> q < 16 \<Longrightarrow> 16 * k + r = m * 16 + q \<longleftrightarrow> k = m \<and> r = (q :: nat)"
proof -
  assume "r < 16" "q < 16"
  then have "(16 * k + r) div 16 = k" "(16 * k + r) mod 16 = r" "(m * 16 + q) div 16 = m" "(m * 16 + q) mod 16 = q"
    by simp_all
  then show ?thesis by (metis mult.commute)
qed

lemma addCard_bits:
  assumes "suit < 4" "rank < 13"
  shows "\<exists>c'. addCardToCardset c suit rank = Some c' \<and>
    (\<forall>k<4. \<forall>r<16. bit (bySuit c' k) r \<longleftrightarrow> bit (bySuit c k) r \<or> (k = suit \<and> r = rank))"
proof -
  have n: "suit * 16 + rank < 64" using assms by linarith
  have "bit (bySuit (c OR push_bit (suit * 16 + rank) 1) k) r \<longleftrightarrow> bit (bySuit c k) r \<or> (k = suit \<and> r = rank)"
    if "k < 4" "r < 16" for k r
    using that n suit_rank_inj [OF that(2), of rank k suit] assms(2) by (simp add: bit_bySuit bit_or_iff bit_exp_iff)
  then show ?thesis using n by (simp add: addCardToCardset_def Let_def)
qed

lemma add_card_loop_bits:
  assumes "\<forall>i<n. \<exists>x<52. cards i = Some x"
  shows "\<exists>c'. add_card_loop cards n c = Some c' \<and>
    (\<forall>k<4. \<forall>r<16. bit (bySuit c' k) r \<longleftrightarrow> bit (bySuit c k) r \<or> (\<exists>i<n. cards i = Some (makeCard r k) \<and> r < 13))"
  using assms
proof (induction n)
  case (Suc n)
  obtain c1 where c1: "add_card_loop cards n c = Some c1"
    "\<forall>k<4. \<forall>r<16. bit (bySuit c1 k) r \<longleftrightarrow> bit (bySuit c k) r \<or> (\<exists>i<n. cards i = Some (makeCard r k) \<and> r < 13)"
    using Suc by auto
  obtain x where x: "cards n = Some x" "x < 52" using Suc.prems by auto
  have rs: "rankOfCard x < 13" "suitOfCard x < 4" using x(2) rankOfCard_less [of x] by auto
  obtain c2 where c2: "addCardToCardset c1 (suitOfCard x) (rankOfCard x) = Some c2"
    "\<forall>k<4. \<forall>r<16. bit (bySuit c2 k) r \<longleftrightarrow> bit (bySuit c1 k) r \<or> (k = suitOfCard x \<and> r = rankOfCard x)"
    using addCard_bits [OF rs(2,1)] by blast
  have "k = suitOfCard x \<and> r = rankOfCard x \<longleftrightarrow> cards n = Some (makeCard r k) \<and> r < 13" if "k < 4" for k r
    using that x rs(1) makeCard_inj [of k "suitOfCard x" r "rankOfCard x"] by auto
  then have "\<forall>k<4. \<forall>r<16. bit (bySuit c2 k) r \<longleftrightarrow> bit (bySuit c k) r \<or> (\<exists>i<Suc n. cards i = Some (makeCard r k) \<and> r < 13)"
    using c1(2) c2(2) by (auto simp: less_Suc_eq)
  then show ?case using c1(1) c2(1) x(1) by auto
qed simp

text \<open>The cards a player can use: the hole cards and the board cards of the rounds played.\<close>

definition usable_cards :: "Game \<Rightarrow> State \<Rightarrow> nat \<Rightarrow> nat set" where
  "usable_cards g s p = (\<lambda>i. holeCards s ! p ! i) ` {..<numHoleCards g} \<union>
     (\<lambda>i. boardCards s ! i) ` {..<sumBoardCards g (round_no s)}"

lemma small_valid: "(\<forall>k<4. \<forall>r<16. bit (bySuit c k) r \<longrightarrow> r < 13) \<Longrightarrow> valid_cardset c"
  unfolding valid_cardset_def using small_iff [unfolded small_def] bit16_less by blast

text \<open>\<open>rankHand\<close> ranks the set of exactly these cards.\<close>

lemma rankHand_cardset:
  assumes "shape_state s" "p < MAX_PLAYERS" "numHoleCards g \<le> MAX_HOLE_CARDS"
    "sumBoardCards g (round_no s) \<le> MAX_BOARD_CARDS" "\<forall>x \<in> usable_cards g s p. x < 52"
  shows "\<exists>c. rankHand g s p = rankCardset c \<and>
    (\<forall>k<4. \<forall>r<16. bit (bySuit c k) r \<longleftrightarrow> r < 13 \<and> makeCard r k \<in> usable_cards g s p)"
proof -
  let ?h = "\<lambda>i. do { row \<leftarrow> rd (holeCards s) p; rd row i }" and ?bd = "\<lambda>i. rd (boardCards s) i"
  have h: "?h i = Some (holeCards s ! p ! i)" if "i < numHoleCards g" for i
    using that assms(2,3) shape_stateD(10,11) [OF assms(1)] by simp
  have b: "?bd i = Some (boardCards s ! i)" if "i < sumBoardCards g (round_no s)" for i
    using that assms(4) shape_stateD(9) [OF assms(1)] by simp
  obtain c1 where c1: "add_card_loop ?h (numHoleCards g) emptyCardset = Some c1"
    "\<forall>k<4. \<forall>r<16. bit (bySuit c1 k) r \<longleftrightarrow> (\<exists>i<numHoleCards g. ?h i = Some (makeCard r k) \<and> r < 13)"
    using add_card_loop_bits [of "numHoleCards g" ?h emptyCardset] h assms(5)
    by (auto simp: usable_cards_def emptyCardset_def bit_bySuit)
  obtain c2 where c2: "add_card_loop ?bd (sumBoardCards g (round_no s)) c1 = Some c2"
    "\<forall>k<4. \<forall>r<16. bit (bySuit c2 k) r \<longleftrightarrow> bit (bySuit c1 k) r \<or>
       (\<exists>i. i < sumBoardCards g (round_no s) \<and> ?bd i = Some (makeCard r k) \<and> r < 13)"
    using add_card_loop_bits [of "sumBoardCards g (round_no s)" ?bd c1] b assms(5)
    by (auto simp: usable_cards_def)
  have mem: "x \<in> usable_cards g s p \<longleftrightarrow>
    (\<exists>i<numHoleCards g. ?h i = Some x) \<or> (\<exists>i. i < sumBoardCards g (round_no s) \<and> ?bd i = Some x)" for x
    using h b by (auto simp: usable_cards_def image_iff)
  have bits: "\<forall>k<4. \<forall>r<16. bit (bySuit c2 k) r \<longleftrightarrow> r < 13 \<and> makeCard r k \<in> usable_cards g s p"
    unfolding mem using c1(2) c2(2) by blast
  then show ?thesis using c1(1) c2(1) by (auto simp: rankHand_def)
qed

lemma rankHand_ranked:
  assumes "shape_state s" "p < MAX_PLAYERS" "numHoleCards g \<le> MAX_HOLE_CARDS"
    "sumBoardCards g (round_no s) \<le> MAX_BOARD_CARDS" "\<forall>x \<in> usable_cards g s p. x < 52"
  shows "\<exists>v c. rankHand g s p = Some v \<and> 0 \<le> v \<and> category_of_value v = category_of c \<and>
    (\<forall>k<4. \<forall>r<16. bit (bySuit c k) r \<longleftrightarrow> r < 13 \<and> makeCard r k \<in> usable_cards g s p)"
proof -
  obtain c where c: "rankHand g s p = rankCardset c"
    "\<forall>k<4. \<forall>r<16. bit (bySuit c k) r \<longleftrightarrow> r < 13 \<and> makeCard r k \<in> usable_cards g s p"
    using rankHand_cardset [OF assms] by blast
  then show ?thesis using rankCardset_category [OF small_valid, of c] by auto
qed

definition cards_2p :: State where
  "cards_2p = zero_state\<lparr>boardCards := [0, 5, 10, 15, 20, 0, 0],
     holeCards := [51, 50, 0] # [12, 8, 0] # replicate 8 [0, 0, 0]\<rparr>"

definition dealt_2p :: State where
  "dealt_2p = the (initState nolimit_2p 7 cards_2p)"

lemma reachable_dealt_2p: "reachable nolimit_2p dealt_2p"
proof (rule reachable.start, unfold hand_start_def, intro exI conjI)
  show "shape_state cards_2p" by code_simp
  show "\<forall>r<numRounds nolimit_2p. roundSpent cards_2p ! r = 0" by code_simp
  show "initState nolimit_2p 7 cards_2p = Some dealt_2p" unfolding dealt_2p_def by code_simp
qed

section \<open>The account of a hand\<close>

text \<open>When all but one have folded, the last player wins what the others put in.\<close>

lemma last_player_zero_sum:
  assumes "numPlayers g \<le> MAX_PLAYERS" "length (playerFolded s) = MAX_PLAYERS" "numFolded g s + 1 = numPlayers g"
    "\<forall>p<numPlayers g. 0 \<le> spent s ! p \<and> spent s ! p \<le> INT32_MAX"
  shows "\<exists>v. (\<forall>p<numPlayers g. valueOfState g s p = Some (v p)) \<and> (\<Sum>p<numPlayers g. v p) = 0"
proof -
  let ?N = "numPlayers g" and ?F = "{p. p < numPlayers g \<and> playerFolded s ! p}"
  have "card ?F + 1 = ?N" using assms(1,3) by (simp add: numFolded_def count8_card)
  moreover have "card ({..<?N} - ?F) = ?N - card ?F" by (subst card_Diff_subset) auto
  ultimately have "card ({..<?N} - ?F) = 1" by simp
  then obtain q where "{..<?N} - ?F = {q}" by (auto simp: card_1_singleton_iff)
  then have q: "q < ?N" "\<not> playerFolded s ! q" "\<And>p. p < ?N \<Longrightarrow> p \<noteq> q \<Longrightarrow> playerFolded s ! p" by auto
  let ?v = "\<lambda>p. if p = q then (\<Sum>x \<in> {..<?N} - {q}. of_int (spent s ! x)) else - of_int (spent s ! p) :: rat"
  have sum: "(\<Sum>p\<leftarrow>[0..<?N]. if p = q then 0 else of_int (spent s ! p)) = (\<Sum>x \<in> {..<?N} - {q}. of_int (spent s ! x) :: rat)"
  proof -
    have "(\<Sum>p\<leftarrow>[0..<?N]. if p = q then 0 else of_int (spent s ! p)) =
      (\<Sum>p \<in> {..<?N}. if p = q then 0 else of_int (spent s ! p) :: rat)"
      by (simp add: sum_list_distinct_conv_sum_set lessThan_atLeast0)
    also have "\<dots> = (\<Sum>p \<in> {..<?N} - {q}. if p = q then 0 else of_int (spent s ! p))"
      by (rule sum.mono_neutral_right) auto
    also have "\<dots> = (\<Sum>x \<in> {..<?N} - {q}. of_int (spent s ! x))" by (rule sum.cong) auto
    finally show ?thesis .
  qed
  have "valueOfState g s p = Some (?v p)" if p: "p < ?N" for p
  proof (cases "p = q")
    case True
    then show ?thesis using q(1,2) assms(1-3) sum by (simp add: valueOfState_def)
  next
    case False
    have "chk32 (- (spent s ! p)) = Some (- (spent s ! p))" using assms(4) p by (intro chk32_fits) auto
    then show ?thesis using False q(3) [OF p] p assms(1,2) by (simp add: valueOfState_def)
  qed
  moreover have "(\<Sum>p<?N. ?v p) = ?v q + (\<Sum>p \<in> {..<?N} - {q}. ?v p)"
    by (rule sum.remove) (use q(1) in auto)
  moreover have "(\<Sum>p \<in> {..<?N} - {q}. ?v p) = (\<Sum>p \<in> {..<?N} - {q}. - of_int (spent s ! p))"
    by (rule sum.cong) auto
  ultimately have "(\<forall>p<?N. valueOfState g s p = Some (?v p)) \<and> (\<Sum>p<?N. ?v p) = 0" by (simp add: sum_negf)
  then have "\<exists>v. (\<forall>p<?N. valueOfState g s p = Some (v p)) \<and> (\<Sum>p<?N. v p) = 0" by (rule exI [of _ ?v])
  then show ?thesis .
qed

lemma card_le_insert: "A \<subseteq> insert x B \<Longrightarrow> finite B \<Longrightarrow> card A \<le> Suc (card B)"
  using card_mono [of "insert x B" A] card_insert_le_m1 [of "Suc (card B)" B x] by (auto simp: card_insert_if split: if_splits)

lemma numFolded_le:
  assumes "playable g" "reachable g s"
  shows "numFolded g s + 1 \<le> numPlayers g"
  using assms(2)
proof cases
  case start
  then obtain hid s0 where "initState g hid s0 = Some s" "shape_state s0" by (auto simp: hand_start_def)
  moreover have wf: "wf_game g" using assms(1) by (simp add: playable_def)
  ultimately have "{p. p < numPlayers g \<and> playerFolded s ! p} = {}" using initState_fields(6) by blast
  then have "numFolded g s = 0" unfolding numFolded_card [OF wf] by (simp only: card.empty)
  then show ?thesis using wf_gameD(1) [OF wf] by simp
next
  case (step s0)
  obtain fx a a' e where v: "isValidAction g s0 fx a = Some (True, a')" and d: "doAction g a' s0 = Some (s, e)"
    using step(2) by (rule bet_stepE)
  note f = reachable_facts [OF step(1) assms(1)]
  have run: "numFolded g s0 + 1 < numPlayers g"
    using binvD(6) [OF f(2) isValidAction_type(1) [OF v]] by (simp add: turn_inv_def)
  obtain s3 where mv: "moved g s0 (currentPlayer g s0) (act_type a') s3" and s3: "playerFolded s = playerFolded s3"
    using step_stages [OF assms(1) step(1) v d] by metis
  have "{p. p < numPlayers g \<and> playerFolded s ! p} \<subseteq>
      insert (currentPlayer g s0) {p. p < numPlayers g \<and> playerFolded s0 ! p}"
    using mv unfolding s3 by (auto simp: moved_def)
  then have "numFolded g s \<le> Suc (numFolded g s0)"
    unfolding numFolded_card [OF f(1)] by (rule card_le_insert) simp
  then show ?thesis using run by simp
qed

text \<open>C21: at a showdown \<open>valueOfState\<close>, which walks over shrinking lists of side pots, gives every player the
  sum over the levels of the bet the player paid: minus one chip for each level lost, an equal share of the
  losers' chips for each level won.\<close>

theorem valueOfState_payoff:
  assumes "showdown g s" "p < numPlayers g"
  shows "valueOfState g s p = Some (payoff (numPlayers g) ((!) (spent s)) (hand_rank g s) p)"
  by (rule showdown_value [OF assms])

lemma showdown_dealt_2p: "showdown nolimit_2p dealt_2p"
proof -
  have r: "\<exists>v\<ge>0. rankHand nolimit_2p dealt_2p p = Some v" if "p < 2" for p
  proof -
    have "p = 0 \<or> p = 1" using that by linarith
    moreover have "numHoleCards nolimit_2p \<le> MAX_HOLE_CARDS" "sumBoardCards nolimit_2p (round_no dealt_2p) \<le> MAX_BOARD_CARDS"
      "\<forall>x \<in> usable_cards nolimit_2p dealt_2p 0. x < 52" "\<forall>x \<in> usable_cards nolimit_2p dealt_2p 1. x < 52"
      "shape_state dealt_2p"
      unfolding dealt_2p_def by code_simp+
    ultimately show ?thesis using rankHand_ranked [of dealt_2p p nolimit_2p] by auto
  qed
  have "numPlayers nolimit_2p = 2" "length (playerFolded dealt_2p) = MAX_PLAYERS"
    "\<forall>p<2. 0 < spent dealt_2p ! p \<and> spent dealt_2p ! p * 2 \<le> INT32_MAX" "numFolded nolimit_2p dealt_2p = 0"
    unfolding dealt_2p_def by code_simp+
  then show ?thesis using r by (auto simp: showdown_def ranked_def order.strict_implies_order)
qed

theorem valueOfState_payoff_witness:
  "valueOfState nolimit_2p dealt_2p 1 = Some (payoff 2 ((!) (spent dealt_2p)) (hand_rank nolimit_2p dealt_2p) 1)"
  using valueOfState_payoff [OF showdown_dealt_2p, of 1] by (simp add: nolimit_2p_def)

text \<open>C22: when a heads-up hand is finished, both players have chips in the pot and their hands can be ranked,
  the values of the two players are defined and add up to zero, however the hand ended.
  The game is playable; each player's chips, doubled, fit into 32 bits.\<close>

theorem heads_up_zero_sum:
  assumes "playable g" "reachable g s" "numPlayers g = 2" "ranked g s"
    "\<forall>p<2. 0 < spent s ! p \<and> spent s ! p * 2 \<le> INT32_MAX"
  shows "\<exists>v0 v1. valueOfState g s 0 = Some v0 \<and> valueOfState g s 1 = Some v1 \<and> v0 + v1 = 0"
proof -
  have len: "length (playerFolded s) = MAX_PLAYERS"
    using shape_stateD(2) [OF binvD(1) [OF reachable_facts(2) [OF assms(2,1)]]] .
  have two: "(\<Sum>p<numPlayers g. f p) = f 0 + f 1" for f :: "nat \<Rightarrow> rat" using assms(3) by (simp add: numeral_2_eq_2)
  show ?thesis
  proof (cases "numFolded g s + 1 = numPlayers g")
    case True
    then obtain v where "\<forall>p<numPlayers g. valueOfState g s p = Some (v p)" "(\<Sum>p<numPlayers g. v p) = 0"
      using last_player_zero_sum [of g s] len assms(3,5) by fastforce
    then show ?thesis using two [of v] assms(3) by auto
  next
    case False
    then have nf: "numFolded g s = 0" using numFolded_le [OF assms(1,2)] assms(3) by simp
    have "\<not> playerFolded s ! p" if "p < 2" for p
      using nf that assms(3) numFolded_card [OF reachable_facts(1) [OF assms(2,1)], of s] by auto
    moreover define q where "q = (if spent s ! 0 \<le> spent s ! 1 then 1 else 0 :: nat)"
    have "q < 2" "\<forall>p<2. spent s ! p \<le> spent s ! q" by (auto simp: q_def less_2_cases_iff)
    moreover have sd: "showdown g s"
      using assms(3-5) len nf by (auto simp: showdown_def order.strict_implies_order)
    ultimately have "(\<Sum>p<numPlayers g. the (valueOfState g s p)) = 0"
      using showdown_zero_sum [of g s q] assms(3) by simp
    then show ?thesis using showdown_value [OF sd] assms(3) two by auto
  qed
qed

theorem heads_up_zero_sum_witness:
  "\<exists>v0 v1. valueOfState nolimit_2p dealt_2p 0 = Some v0 \<and> valueOfState nolimit_2p dealt_2p 1 = Some v1 \<and> v0 + v1 = 0"
proof -
  have "numPlayers nolimit_2p = 2" "\<forall>p<2. 0 < spent dealt_2p ! p \<and> spent dealt_2p ! p * 2 \<le> INT32_MAX"
    unfolding dealt_2p_def by code_simp+
  moreover have "ranked nolimit_2p dealt_2p" using showdown_dealt_2p by (simp add: showdown_def)
  ultimately show ?thesis using heads_up_zero_sum [OF playable_nolimit_2p reachable_dealt_2p] by blast
qed

section \<open>Chips that vanish\<close>

text \<open>Four players, two of them with short stacks.  The short ones are all-in, the other two call a higher
  bet before the flop and then both fold, which \<open>isValidAction\<close> allows although neither faces a bet.\<close>

definition short_4p :: Game where
  "short_4p = nolimit_2p\<lparr>numPlayers := 4, stack := [1000, 1000, 200, 200, 0, 0, 0, 0, 0, 0],
     blind := [50, 100, 0, 0, 0, 0, 0, 0, 0, 0], firstPlayer := [2, 0, 0, 0]\<rparr>"

definition cards_4p :: State where
  "cards_4p = zero_state\<lparr>boardCards := [0, 5, 10, 15, 20, 0, 0],
     holeCards := [51, 50, 0] # [12, 8, 0] # [49, 45, 0] # [31, 27, 0] # replicate 6 [0, 0, 0]\<rparr>"

fun play :: "Game \<Rightarrow> Action list \<Rightarrow> State \<Rightarrow> State option" where
  "play g [] s = Some s"
| "play g (a # as) s =
     do {
       (ok, a') \<leftarrow> isValidAction g s False a;
       if ok then do { (s', e) \<leftarrow> doAction g a' s; play g as s' } else None
     }"

lemma play_reachable: "play g as s = Some t \<Longrightarrow> reachable g s \<Longrightarrow> reachable g t"
proof (induction g as s rule: play.induct)
  case (2 g a as s)
  then obtain a' s' e where "isValidAction g s False a = Some (True, a')" "doAction g a' s = Some (s', e)"
    "play g as s' = Some t"
    by (auto simp: bind_eq_Some_conv split: if_splits)
  then show ?case using 2 by (metis bet_step.act reachable.step)
qed simp

definition raise_to :: "int \<Rightarrow> Action" where "raise_to n = \<lparr>act_type = a_raise, act_size = n\<rparr>"
definition call_it :: Action where "call_it = \<lparr>act_type = a_call, act_size = 0\<rparr>"
definition fold_it :: Action where "fold_it = \<lparr>act_type = a_fold, act_size = 0\<rparr>"

definition vanish_4p :: State where
  "vanish_4p = the (do { s \<leftarrow> initState short_4p 7 cards_4p;
     play short_4p [raise_to 200, call_it, raise_to 400, call_it, fold_it, fold_it] s })"

lemma hand_rank_nonneg:
  "showdown g s \<Longrightarrow> p < numPlayers g \<Longrightarrow> \<not> playerFolded s ! p \<Longrightarrow> 0 \<le> hand_rank g s p"
  by (force simp: showdown_def ranked_def hand_rank_def)

lemma vanish_4p_facts:
  "spent vanish_4p = [400, 400, 200, 200, 0, 0, 0, 0, 0, 0]"
  "playerFolded vanish_4p = [True, True, False, False, False, False, False, False, False, False]"
  "shape_state vanish_4p" "round_no vanish_4p = 3"
  "boardCards vanish_4p = boardCards cards_4p" "holeCards vanish_4p = holeCards cards_4p"
  unfolding vanish_4p_def by code_simp+

lemma showdown_vanish_4p: "showdown short_4p vanish_4p"
proof -
  have g: "sumBoardCards short_4p 3 \<le> 7" "numHoleCards short_4p \<le> 3" "numPlayers short_4p = 4" by code_simp+
  have nf: "numFolded short_4p vanish_4p = 2" and
    u: "\<forall>p \<in> {0, 1, 2, 3}. \<forall>x \<in> usable_cards short_4p vanish_4p p. x < 52"
    unfolding vanish_4p_def by code_simp+
  have four: "q \<in> {0, 1, 2, 3}" if "q < 4" for q :: nat using that by auto
  have "\<exists>r\<ge>0. rankHand short_4p vanish_4p p = Some r" if "p < 4" for p
    using rankHand_ranked [OF vanish_4p_facts(3), of p short_4p] u four [OF that] that g vanish_4p_facts(4) by auto
  then have "ranked short_4p vanish_4p" by (simp add: ranked_def g(3))
  moreover have "\<forall>q \<in> {0, 1, 2, 3}. 0 < spent vanish_4p ! q \<and> spent vanish_4p ! q * 4 \<le> INT32_MAX"
    by (simp add: vanish_4p_facts)
  ultimately show ?thesis
    using g nf four by (force simp: showdown_def vanish_4p_facts(2))
qed

lemma vanish_4p_sum: "(\<Sum>p<4. the (valueOfState short_4p vanish_4p p)) = - 400"
proof -
  have N: "numPlayers short_4p = 4" by code_simp
  let ?sp = "(!) (spent vanish_4p)" and ?rk = "hand_rank short_4p vanish_4p"
  have sp: "spent vanish_4p ! 0 = 400" "spent vanish_4p ! 1 = 400" "spent vanish_4p ! 2 = 200" "spent vanish_4p ! 3 = 200"
    and rk: "?rk 0 = -1" "?rk 1 = -1" using vanish_4p_facts by (simp_all add: hand_rank_def)
  have four: "q = 0 \<or> q = 1 \<or> q = 2 \<or> q = 3" if "q < 4" for q :: nat using that by linarith
  have "(\<Sum>p<4. the (valueOfState short_4p vanish_4p p)) = (\<Sum>p<4. payoff 4 ?sp ?rk p)"
    by (rule sum.cong) (use showdown_value [OF showdown_vanish_4p, unfolded N] in auto)
  also have "\<dots> = (\<Sum>t \<in> {1..400}. if winners 4 ?sp ?rk t = {} then - of_nat (card (in_pot 4 ?sp t)) else 0)"
  proof (rule payoff_sum)
    show "spent vanish_4p ! p \<le> 400" if "p < 4" for p using four [OF that] sp by auto
  qed
  also have "\<dots> = (\<Sum>t \<in> {1..400 :: int}. if t \<le> 200 then 0 else - 2)"
  proof (rule sum.cong [OF refl])
    fix t :: int assume t: "t \<in> {1..400}"
    show "(if winners 4 ?sp ?rk t = {} then - of_nat (card (in_pot 4 ?sp t)) else 0) = (if t \<le> 200 then 0 else - 2 :: rat)"
    proof (cases "t \<le> 200")
      case True
      have "0 \<le> ?rk 2" using hand_rank_nonneg [OF showdown_vanish_4p, of 2] vanish_4p_facts(2) N by simp
      then have "winners 4 ?sp ?rk t \<noteq> {}" using winners_nonempty [of 2 4 ?sp t ?rk] True sp by (simp add: in_pot_def)
      then show ?thesis using True by simp
    next
      case False
      have pot: "in_pot 4 ?sp t = {0, 1}" 
      proof (intro equalityI subsetI)
        fix q assume "q \<in> in_pot 4 ?sp t"
        then have "q < 4" "t \<le> ?sp q" by (auto simp: in_pot_def)
        then show "q \<in> {0, 1}" using four [of q] sp False by auto
      qed (use sp t in \<open>auto simp: in_pot_def\<close>)
      have "q \<notin> winners 4 ?sp ?rk t" for q
      proof
        assume "q \<in> winners 4 ?sp ?rk t"
        then have "q = 0 \<or> q = 1" "0 \<le> ?rk q" using pot by (auto simp: winners_def)
        then show False using rk by (elim disjE) simp_all
      qed
      then have "winners 4 ?sp ?rk t = {}" by blast
      then show ?thesis using pot False by simp
    qed
  qed
  also have "\<dots> = (\<Sum>t \<in> {201..400 :: int}. - 2)"
    by (rule sum.mono_neutral_cong_right) auto
  also have "\<dots> = - 400" by simp
  finally show ?thesis .
qed

text \<open>C23: with four players the values of a finished hand need not add up to zero: in this hand of valid
  actions 400 chips are lost, because both players with the largest bet have folded and nobody left has paid
  the upper levels of the pot.\<close>

theorem showdown_chips_vanish:
  "playable short_4p \<and> reachable short_4p vanish_4p \<and> finished vanish_4p \<and>
   (\<Sum>p<4. the (valueOfState short_4p vanish_4p p)) = - 400"
proof -
  have "playable short_4p" by code_simp
  moreover define s where "s = the (initState short_4p 7 cards_4p)"
  have start: "reachable short_4p s"
  proof (rule reachable.start, unfold hand_start_def, intro exI conjI)
    show "shape_state cards_4p" by code_simp
    show "\<forall>r<numRounds short_4p. roundSpent cards_4p ! r = 0" by code_simp
    show "initState short_4p 7 cards_4p = Some s" unfolding s_def by code_simp
  qed
  have "play short_4p [raise_to 200, call_it, raise_to 400, call_it, fold_it, fold_it] s = Some vanish_4p"
    unfolding vanish_4p_def s_def by code_simp
  then have "reachable short_4p vanish_4p" using start by (rule play_reachable)
  moreover have "finished vanish_4p" unfolding vanish_4p_def by code_simp
  ultimately show ?thesis using vanish_4p_sum by blast
qed

end
