(* ===== verification/Hand_Order.thy ===== *)
theory Hand_Order
  imports Holdem_Order Showdown_Props
begin

text \<open>
  The order of hands at the showdown: the values of \<open>rankHand\<close> are ordered as the keys of the hands, and the evaluator of
  \<open>SBotInterface\<close> orders hands as the one of \<open>acpc_play\<close> does.
\<close>

section \<open>Comparing two hands\<close>

lemma same_cards_list: "finite A \<Longrightarrow> (\<forall>k<4. \<forall>r<16. bit (bySuit c k) r \<longleftrightarrow> r < 13 \<and> makeCard r k \<in> A) \<Longrightarrow>
    same_cards c (sorted_list_of_set A)"
  by (simp add: same_cards_def)

lemma finite_usable [simp]: "finite (usable_cards g s p)"
  by (simp add: usable_cards_def)

text \<open>The value of \<open>rankHand\<close> for five to nine different cards.\<close>

lemma rankHand_key:
  assumes "shape_state s" "p < MAX_PLAYERS" "numHoleCards g \<le> MAX_HOLE_CARDS"
    "sumBoardCards g (round_no s) \<le> MAX_BOARD_CARDS" "\<forall>x \<in> usable_cards g s p. x < 52"
    "5 \<le> card (usable_cards g s p)" "card (usable_cards g s p) \<le> 9"
  shows "\<exists>c. rankHand g s p = Some (acpc_val (hand_key c)) \<and> valid_key (hand_key c) \<and>
    (\<forall>k<4. \<forall>r<16. bit (bySuit c k) r \<longleftrightarrow> r < 13 \<and> makeCard r k \<in> usable_cards g s p)"
proof -
  obtain c where c: "rankHand g s p = rankCardset c"
    "\<forall>k<4. \<forall>r<16. bit (bySuit c k) r \<longleftrightarrow> r < 13 \<and> makeCard r k \<in> usable_cards g s p"
    using rankHand_cardset [OF assms(1-5)] by blast
  let ?cs = "sorted_list_of_set (usable_cards g s p)"
  have same: "same_cards c ?cs" by (rule same_cards_list [OF finite_usable c(2)])
  have "hand_size c = length ?cs" by (rule same_cards_size [OF same]) (use assms(5) in simp_all)
  then have "5 \<le> hand_size c" "hand_size c \<le> 9" using assms(6,7) by simp_all
  then show ?thesis using rankCardset_key [OF same_cards_valid [OF same]] c by metis
qed

text \<open>C19: with five to nine different cards of the deck for each of two players, \<open>rankHand\<close> compares the players as the
  rules of poker do: it ranks exactly the hole cards and the visible board cards of each, and the order of the values is
  the order of the keys of the hands, the category first and then the ranks of the groups and of the kickers.\<close>

theorem rankHand_order:
  assumes "shape_state s" "numHoleCards g \<le> MAX_HOLE_CARDS" "sumBoardCards g (round_no s) \<le> MAX_BOARD_CARDS"
    "\<forall>i \<in> {p, q}. i < MAX_PLAYERS \<and> (\<forall>x \<in> usable_cards g s i. x < 52) \<and>
       5 \<le> card (usable_cards g s i) \<and> card (usable_cards g s i) \<le> 9"
  shows "\<exists>v w c d. rankHand g s p = Some v \<and> rankHand g s q = Some w \<and>
    (\<forall>k<4. \<forall>r<16. bit (bySuit c k) r \<longleftrightarrow> r < 13 \<and> makeCard r k \<in> usable_cards g s p) \<and>
    (\<forall>k<4. \<forall>r<16. bit (bySuit d k) r \<longleftrightarrow> r < 13 \<and> makeCard r k \<in> usable_cards g s q) \<and>
    (v < w \<longleftrightarrow> hand_key c < hand_key d) \<and> (v = w \<longleftrightarrow> hand_key c = hand_key d)"
proof -
  obtain c where c: "rankHand g s p = Some (acpc_val (hand_key c))" "valid_key (hand_key c)"
    "\<forall>k<4. \<forall>r<16. bit (bySuit c k) r \<longleftrightarrow> r < 13 \<and> makeCard r k \<in> usable_cards g s p"
    using rankHand_key [OF assms(1) _ assms(2,3), of p] assms(4) by blast
  obtain d where d: "rankHand g s q = Some (acpc_val (hand_key d))" "valid_key (hand_key d)"
    "\<forall>k<4. \<forall>r<16. bit (bySuit d k) r \<longleftrightarrow> r < 13 \<and> makeCard r k \<in> usable_cards g s q"
    using rankHand_key [OF assms(1) _ assms(2,3), of q] assms(4) by blast
  show ?thesis using c d acpc.less_iff [OF c(2) d(2)] acpc.eq_iff [OF c(2) d(2)] by blast
qed

definition river_2p :: State where
  "river_2p = dealt_2p\<lparr>round_no := 3\<rparr>"

theorem rankHand_order_witness:
  "\<exists>v w c d. rankHand nolimit_2p river_2p 0 = Some v \<and> rankHand nolimit_2p river_2p 1 = Some w \<and>
    (\<forall>k<4. \<forall>r<16. bit (bySuit c k) r \<longleftrightarrow> r < 13 \<and> makeCard r k \<in> usable_cards nolimit_2p river_2p 0) \<and>
    (\<forall>k<4. \<forall>r<16. bit (bySuit d k) r \<longleftrightarrow> r < 13 \<and> makeCard r k \<in> usable_cards nolimit_2p river_2p 1) \<and>
    (v < w \<longleftrightarrow> hand_key c < hand_key d) \<and> (v = w \<longleftrightarrow> hand_key c = hand_key d)"
proof -
  have g: "shape_state river_2p" "numHoleCards nolimit_2p \<le> MAX_HOLE_CARDS" "sumBoardCards nolimit_2p (round_no river_2p) \<le> MAX_BOARD_CARDS"
    unfolding river_2p_def dealt_2p_def by code_simp+
  have u: "usable_cards nolimit_2p river_2p 0 = {0, 5, 10, 15, 20, 50, 51}" "usable_cards nolimit_2p river_2p (Suc 0) = {0, 5, 8, 10, 12, 15, 20}"
    unfolding river_2p_def dealt_2p_def by code_simp+
  have "\<forall>i \<in> {0, 1}. i < MAX_PLAYERS \<and> (\<forall>x \<in> usable_cards nolimit_2p river_2p i. x < 52) \<and>
       5 \<le> card (usable_cards nolimit_2p river_2p i) \<and> card (usable_cards nolimit_2p river_2p i) \<le> 9"
    by (simp add: u)
  from rankHand_order [OF g this] show ?thesis .
qed

section \<open>The two evaluators\<close>

lemma list_cardset:
  assumes "\<forall>x \<in> set cs. x < 52"
  shows "\<exists>c. add_card_loop (rd cs) (length cs) emptyCardset = Some c \<and> same_cards c cs"
proof -
  obtain c where c: "add_card_loop (rd cs) (length cs) emptyCardset = Some c"
    "\<forall>k<4. \<forall>r<16. bit (bySuit c k) r \<longleftrightarrow> bit (bySuit emptyCardset k) r \<or> (\<exists>i<length cs. rd cs i = Some (makeCard r k) \<and> r < 13)"
    using add_card_loop_bits [of "length cs" "rd cs" emptyCardset] assms by auto
  have "(\<exists>i<length cs. rd cs i = Some x \<and> r < 13) \<longleftrightarrow> r < 13 \<and> x \<in> set cs" for x r :: nat by (auto simp: in_set_conv_nth)
  then have "same_cards c cs" using c(2) by (simp add: same_cards_def emptyCardset_def bit_bySuit)
  then show ?thesis using c(1) by blast
qed

text \<open>The cards of a hand of hold'em after the flop.\<close>

definition holdem_hand :: "nat list \<Rightarrow> bool" where
  "holdem_hand cs \<longleftrightarrow> distinct cs \<and> (\<forall>x \<in> set cs. x < 52) \<and> 5 \<le> length cs \<and> length cs \<le> 7"

lemma evaluated_hand:
  assumes "holdem_hand cs"
  shows "\<exists>c. add_card_loop (rd cs) (length cs) emptyCardset = Some c \<and> valid_key (hand_key c) \<and>
    rankCardset c = Some (acpc_val (hand_key c)) \<and> Evaluate 4 (map int cs) (length cs) = Some (holdem_val (hand_key c))"
proof -
  obtain c where c: "add_card_loop (rd cs) (length cs) emptyCardset = Some c" "same_cards c cs"
    using list_cardset [of cs] assms by (auto simp: holdem_hand_def)
  have d: "dealt c cs" using c(2) assms by (simp add: dealt_def holdem_hand_def)
  then have "5 \<le> hand_size c" "hand_size c \<le> 9" using dealtD [OF d] by simp_all
  then show ?thesis using rankCardset_key [OF same_cards_valid [OF c(2)]] Evaluate_key [OF d] c(1) by metis
qed

text \<open>C20: for hands of five to seven different cards, \<open>HoldemHandEvaluator::Evaluate\<close> and \<open>rankCardset\<close> both return a value
  and order the hands in the same way, ties included.\<close>

theorem evaluators_agree:
  assumes "holdem_hand a" "holdem_hand b"
  shows "\<exists>ca cb va vb ea eb. add_card_loop (rd a) (length a) emptyCardset = Some ca \<and>
    add_card_loop (rd b) (length b) emptyCardset = Some cb \<and> rankCardset ca = Some va \<and> rankCardset cb = Some vb \<and>
    Evaluate 4 (map int a) (length a) = Some ea \<and> Evaluate 4 (map int b) (length b) = Some eb \<and>
    (va < vb \<longleftrightarrow> ea < eb) \<and> (va = vb \<longleftrightarrow> ea = eb)"
proof -
  obtain c where c: "add_card_loop (rd a) (length a) emptyCardset = Some c" "valid_key (hand_key c)"
    "rankCardset c = Some (acpc_val (hand_key c))" "Evaluate 4 (map int a) (length a) = Some (holdem_val (hand_key c))"
    using evaluated_hand [OF assms(1)] by blast
  obtain d where d: "add_card_loop (rd b) (length b) emptyCardset = Some d" "valid_key (hand_key d)"
    "rankCardset d = Some (acpc_val (hand_key d))" "Evaluate 4 (map int b) (length b) = Some (holdem_val (hand_key d))"
    using evaluated_hand [OF assms(2)] by blast
  show ?thesis using c d acpc.less_iff [OF c(2) d(2)] acpc.eq_iff [OF c(2) d(2)] holdem.less_iff [OF c(2) d(2)]
      holdem.eq_iff [OF c(2) d(2)] by (intro exI conjI) (assumption | simp)+
qed

definition quads_of_aces :: "nat list" where
  "quads_of_aces = [48, 5, 49, 15, 50, 51, 20]"

definition low_straight :: "nat list" where
  "low_straight = [51, 0, 5, 10, 15]"

theorem evaluators_agree_witness:
  "\<exists>ca cb va vb ea eb. add_card_loop (rd low_straight) (length low_straight) emptyCardset = Some ca \<and>
    add_card_loop (rd quads_of_aces) (length quads_of_aces) emptyCardset = Some cb \<and> rankCardset ca = Some va \<and> rankCardset cb = Some vb \<and>
    Evaluate 4 (map int low_straight) (length low_straight) = Some ea \<and>
    Evaluate 4 (map int quads_of_aces) (length quads_of_aces) = Some eb \<and> (va < vb \<longleftrightarrow> ea < eb) \<and> (va = vb \<longleftrightarrow> ea = eb)"
proof -
  have "holdem_hand low_straight" "holdem_hand quads_of_aces" by code_simp+
  then show ?thesis by (rule evaluators_agree)
qed

end
