(* ===== verification/Hash_Nodes.thy ===== *)
theory Hash_Nodes
  imports Prelude "HOL-Library.Word"
begin

text \<open>
  The part that the two hash maps of \<open>shstd\<close> (\<open>shhashmap.h\<close>, \<open>shhashmap1.h\<close>) have in common: nodes in memory,
  linked by \<open>next\<close> pointers into one chain per bucket, and the loops over these chains.  A pointer is the
  index of a node, or \<open>None\<close> for \<open>NULL\<close>; the nodes that \<open>Init\<close> allocates are a list.  The records of the two
  classes extend \<open>hashmap\<close> by their free lists.  The outer \<open>option\<close> is \<open>None\<close> when a \<open>NULL\<close> or wild pointer is
  followed, the hash divides by zero, or a loop does not come to an end within the number of nodes.
\<close>

record ('k, 'v) CHNode =
  n_key :: 'k
  n_val :: 'v
  n_next :: "nat option"
  n_prev :: "nat option"

record ('k, 'v) hashmap =
  nodes :: "('k, 'v) CHNode list"
  m_pBucket :: "nat option list option"
  m_nUseSize :: "32 word"
  m_nTotalSize :: "32 word"
  m_nBuckets :: "32 word"
  m_pMyHash :: "('k \<Rightarrow> 32 word) option"
  m_nCurBucket :: "32 word"
  m_pNextNode :: "nat option"

section \<open>Operations on nodes and chains\<close>

definition Hash :: "('k, 'v, 'z) hashmap_scheme \<Rightarrow> 'k \<Rightarrow> nat option" where
  "Hash m k =
     do { f \<leftarrow> m_pMyHash m; if m_nBuckets m = 0 then None else Some (unat (f k mod m_nBuckets m)) }"

definition upd_node ::
  "nat \<Rightarrow> (('k, 'v) CHNode \<Rightarrow> ('k, 'v) CHNode) \<Rightarrow> ('k, 'v, 'z) hashmap_scheme \<Rightarrow> ('k, 'v, 'z) hashmap_scheme option" where
  "upd_node i f m = do { n \<leftarrow> rd (nodes m) i; Some (m\<lparr>nodes := (nodes m)[i := f n]\<rparr>) }"

text \<open>The search loop of \<open>Get\<close>, \<open>Add\<close> and \<open>Set\<close>: the node with the key, or the number of nodes in the chain.\<close>

fun scan :: "nat \<Rightarrow> 'k \<Rightarrow> ('k, 'v) CHNode list \<Rightarrow> nat option \<Rightarrow> int \<Rightarrow> (nat + int) option" where
  "scan 0 k ns p nKCnt = None"
| "scan (Suc fuel) k ns None nKCnt = Some (Inr nKCnt)"
| "scan (Suc fuel) k ns (Some i) nKCnt =
     do { n \<leftarrow> rd ns i; if n_key n = k then Some (Inl i) else scan fuel k ns (n_next n) (nKCnt + 1) }"

definition bucket_of :: "('k, 'v, 'z) hashmap_scheme \<Rightarrow> nat \<Rightarrow> nat option option" where
  "bucket_of m h = do { bs \<leftarrow> m_pBucket m; rd bs h }"

definition set_bucket :: "nat \<Rightarrow> nat option \<Rightarrow> ('k, 'v, 'z) hashmap_scheme \<Rightarrow> ('k, 'v, 'z) hashmap_scheme option" where
  "set_bucket h p m = do { bs \<leftarrow> m_pBucket m; bs' \<leftarrow> wr bs h p; Some (m\<lparr>m_pBucket := Some bs'\<rparr>) }"

abbreviation fuel_of :: "('k, 'v, 'z) hashmap_scheme \<Rightarrow> nat" where
  "fuel_of m \<equiv> Suc (length (nodes m))"

text \<open>The node for \<open>k\<close> in the chain of bucket \<open>h\<close>.\<close>

definition scan_bucket :: "'k \<Rightarrow> nat \<Rightarrow> ('k, 'v, 'z) hashmap_scheme \<Rightarrow> (nat + int) option" where
  "scan_bucket k h m = do { p \<leftarrow> bucket_of m h; scan (fuel_of m) k (nodes m) p 0 }"

text \<open>\<open>Get\<close>: the address of the node whose value is returned.\<close>

definition Get :: "'k \<Rightarrow> ('k, 'v, 'z) hashmap_scheme \<Rightarrow> nat option option" where
  "Get k m =
     do {
       h \<leftarrow> Hash m k;
       if m_pBucket m = None then Some None
       else do {
         r \<leftarrow> scan_bucket k h m;
         Some (case r of Inl i \<Rightarrow> Some i | Inr c \<Rightarrow> None)
       }
     }"

text \<open>A node in front of the chain of bucket \<open>h\<close>: the end of \<open>Add\<close> and \<open>Set\<close>.\<close>

definition link_front :: "nat \<Rightarrow> nat \<Rightarrow> ('k, 'v, 'z) hashmap_scheme \<Rightarrow> ('k, 'v, 'z) hashmap_scheme option" where
  "link_front i h m =
     do { b \<leftarrow> bucket_of m h; m' \<leftarrow> upd_node i (\<lambda>n. n\<lparr>n_next := b\<rparr>) m; set_bucket h (Some i) m' }"

text \<open>A node of the free list, filled by \<open>u\<close> and linked into bucket \<open>h\<close>; \<open>pop\<close> is \<open>PopNode\<close> of the class.\<close>

definition take_node ::
  "(('k, 'v, 'z) hashmap_scheme \<Rightarrow> (nat option \<times> ('k, 'v, 'z) hashmap_scheme) option) \<Rightarrow>
   (('k, 'v) CHNode \<Rightarrow> ('k, 'v) CHNode) \<Rightarrow> nat \<Rightarrow> ('k, 'v, 'z) hashmap_scheme \<Rightarrow>
   (nat option \<times> ('k, 'v, 'z) hashmap_scheme) option" where
  "take_node pop u h m =
     do {
       (p, m1) \<leftarrow> pop m;
       (case p of
          None \<Rightarrow> Some (None, m1)
        | Some i \<Rightarrow> do { m2 \<leftarrow> upd_node i u m1; m3 \<leftarrow> link_front i h m2; Some (Some i, m3) })
     }"

text \<open>The loop of \<open>Del\<close> behind the first node: take the node with the key out of the chain.\<close>

fun unlink_loop ::
  "nat \<Rightarrow> 'k \<Rightarrow> nat \<Rightarrow> nat option \<Rightarrow> ('k, 'v, 'z) hashmap_scheme \<Rightarrow> (nat option \<times> ('k, 'v, 'z) hashmap_scheme) option" where
  "unlink_loop 0 k pre del m = None"
| "unlink_loop (Suc fuel) k pre None m = Some (None, m)"
| "unlink_loop (Suc fuel) k pre (Some d) m =
     do {
       n \<leftarrow> rd (nodes m) d;
       if n_key n = k
       then do {
         m1 \<leftarrow> upd_node pre (\<lambda>x. x\<lparr>n_next := n_next n\<rparr>) m;
         m2 \<leftarrow> upd_node d (\<lambda>x. x\<lparr>n_next := None\<rparr>) m1;
         Some (Some d, m2)
       }
       else unlink_loop fuel k d (n_next n) m
     }"

text \<open>Both parts of \<open>Del\<close> up to \<open>PushNode\<close>: the node taken out of bucket \<open>h\<close>, if the key is there.\<close>

definition unlink ::
  "'k \<Rightarrow> nat \<Rightarrow> ('k, 'v, 'z) hashmap_scheme \<Rightarrow> (nat option \<times> ('k, 'v, 'z) hashmap_scheme) option" where
  "unlink k h m =
     do {
       p \<leftarrow> bucket_of m h;
       (case p of
          None \<Rightarrow> Some (None, m)
        | Some i \<Rightarrow> do {
            n \<leftarrow> rd (nodes m) i;
            if n_key n = k
            then do {
              m1 \<leftarrow> set_bucket h (n_next n) m;
              m2 \<leftarrow> upd_node i (\<lambda>x. x\<lparr>n_next := None\<rparr>) m1;
              Some (Some i, m2)
            }
            else unlink_loop (fuel_of m) k i (n_next n) m
          })
     }"

text \<open>The loops of \<open>Clear\<close>; \<open>push\<close> is \<open>PushNode\<close> of the class.\<close>

fun clear_chain ::
  "nat \<Rightarrow> (nat \<Rightarrow> ('k, 'v, 'z) hashmap_scheme \<Rightarrow> ('k, 'v, 'z) hashmap_scheme option) \<Rightarrow> nat option \<Rightarrow>
   ('k, 'v, 'z) hashmap_scheme \<Rightarrow> ('k, 'v, 'z) hashmap_scheme option" where
  "clear_chain 0 push p m = None"
| "clear_chain (Suc fuel) push None m = Some m"
| "clear_chain (Suc fuel) push (Some d) m =
     do {
       n \<leftarrow> rd (nodes m) d;
       m1 \<leftarrow> upd_node d (\<lambda>x. x\<lparr>n_next := None\<rparr>) m;
       m2 \<leftarrow> push d m1;
       clear_chain fuel push (n_next n) m2
     }"

fun clear_buckets ::
  "(nat \<Rightarrow> ('k, 'v, 'z) hashmap_scheme \<Rightarrow> ('k, 'v, 'z) hashmap_scheme option) \<Rightarrow> nat list \<Rightarrow>
   ('k, 'v, 'z) hashmap_scheme \<Rightarrow> ('k, 'v, 'z) hashmap_scheme option" where
  "clear_buckets push [] m = Some m"
| "clear_buckets push (h # hs) m =
     do {
       p \<leftarrow> bucket_of m h;
       m1 \<leftarrow> clear_chain (fuel_of m) push p m;
       m2 \<leftarrow> set_bucket h None m1;
       clear_buckets push hs m2
     }"

definition clear_with ::
  "(nat \<Rightarrow> ('k, 'v, 'z) hashmap_scheme \<Rightarrow> ('k, 'v, 'z) hashmap_scheme option) \<Rightarrow>
   ('k, 'v, 'z) hashmap_scheme \<Rightarrow> ('k, 'v, 'z) hashmap_scheme option" where
  "clear_with push m = clear_buckets push [0..<unat (m_nBuckets m)] (m\<lparr>m_pNextNode := None\<rparr>)"

definition Size :: "('k, 'v, 'z) hashmap_scheme \<Rightarrow> 32 word" where
  "Size m = m_nUseSize m"

definition Free :: "('k, 'v, 'z) hashmap_scheme \<Rightarrow> 32 word" where
  "Free m = m_nTotalSize m - m_nUseSize m"

section \<open>Walking over all nodes\<close>

text \<open>The first bucket with a node, from bucket \<open>h\<close> of \<open>n\<close> on.\<close>

fun seek :: "nat list \<Rightarrow> ('k, 'v, 'z) hashmap_scheme \<Rightarrow> (nat option \<times> ('k, 'v, 'z) hashmap_scheme) option" where
  "seek [] m = Some (None, m)"
| "seek (h # hs) m =
     do {
       p \<leftarrow> bucket_of m h;
       let m1 = m\<lparr>m_nCurBucket := of_nat h\<rparr>;
       (case p of
          None \<Rightarrow> seek hs (m1\<lparr>m_nCurBucket := of_nat h + 1\<rparr>)
        | Some i \<Rightarrow> do { n \<leftarrow> rd (nodes m) i; Some (Some i, m1\<lparr>m_pNextNode := n_next n\<rparr>) })
     }"

definition Begin :: "('k, 'v, 'z) hashmap_scheme \<Rightarrow> (nat option \<times> ('k, 'v, 'z) hashmap_scheme) option" where
  "Begin m = seek [0..<unat (m_nBuckets m)] (m\<lparr>m_nCurBucket := 0\<rparr>)"

definition Next :: "('k, 'v, 'z) hashmap_scheme \<Rightarrow> (nat option \<times> ('k, 'v, 'z) hashmap_scheme) option" where
  "Next m =
     (case m_pNextNode m of
        Some i \<Rightarrow> do { n \<leftarrow> rd (nodes m) i; Some (Some i, m\<lparr>m_pNextNode := n_next n\<rparr>) }
      | None \<Rightarrow>
          let c = m_nCurBucket m + 1 in
          seek [unat c..<unat (m_nBuckets m)] (m\<lparr>m_nCurBucket := c\<rparr>))"

section \<open>The destructors\<close>

text \<open>The loop over the free list and then over every bucket: the nodes in the order in which they are deleted.  A node that is read or deleted after its
  deletion makes the run undefined.\<close>

fun delete_chain :: "nat \<Rightarrow> ('k, 'v) CHNode list \<Rightarrow> nat option \<Rightarrow> nat list \<Rightarrow> nat list option" where
  "delete_chain 0 ns p dead = None"
| "delete_chain (Suc fuel) ns None dead = Some dead"
| "delete_chain (Suc fuel) ns (Some p) dead =
     (if p \<in> set dead then None else do { n \<leftarrow> rd ns p; delete_chain fuel ns (n_next n) (dead @ [p]) })"

fun delete_chains :: "nat \<Rightarrow> ('k, 'v) CHNode list \<Rightarrow> nat option list \<Rightarrow> nat list \<Rightarrow> nat list option" where
  "delete_chains fuel ns [] dead = Some dead"
| "delete_chains fuel ns (p # ps) dead = do { d \<leftarrow> delete_chain fuel ns p dead; delete_chains fuel ns ps d }"

definition delete_nodes :: "nat option \<Rightarrow> ('k, 'v, 'z) hashmap_scheme \<Rightarrow> nat list option" where
  "delete_nodes free_head m =
     do {
       d \<leftarrow> delete_chain (fuel_of m) (nodes m) free_head [];
       (case m_pBucket m of None \<Rightarrow> Some d | Some bs \<Rightarrow> delete_chains (fuel_of m) (nodes m) bs d)
     }"

section \<open>Chains\<close>

fun chain :: "('k, 'v) CHNode list \<Rightarrow> nat option \<Rightarrow> nat list \<Rightarrow> bool" where
  "chain ns p [] \<longleftrightarrow> p = None"
| "chain ns p (i # is) \<longleftrightarrow> p = Some i \<and> i < length ns \<and> chain ns (n_next (ns ! i)) is"

lemma chain_cong:
  assumes "length ns' = length ns" "\<And>i. i \<in> set is \<Longrightarrow> n_next (ns' ! i) = n_next (ns ! i)"
  shows "chain ns' p is = chain ns p is"
  using assms(2)
proof (induction "is" arbitrary: p)
  case (Cons i "is")
  have e: "n_next (ns' ! i) = n_next (ns ! i)" by (rule Cons.prems) simp
  have "chain ns' q is = chain ns q is" for q by (rule Cons.IH, rule Cons.prems) simp
  then show ?case by (simp only: chain.simps assms(1) e)
qed simp

lemma scan_chain:
  assumes "chain ns p is" "length is < fuel"
  shows "scan fuel k ns p c =
    Some (case find (\<lambda>i. n_key (ns ! i) = k) is of Some i \<Rightarrow> Inl i | None \<Rightarrow> Inr (c + int (length is)))"
  using assms
proof (induction "is" arbitrary: fuel p c)
  case Nil
  then show ?case by (cases fuel) auto
next
  case (Cons i "is")
  then obtain f where "fuel = Suc f" by (cases fuel) auto
  then show ?case using Cons by (auto simp: algebra_simps split: option.split)
qed

lemma find_SomeD: "find P xs = Some x \<Longrightarrow> x \<in> set xs \<and> P x"
  by (induction xs) (auto split: if_splits)

lemma find_exists: "x \<in> set xs \<Longrightarrow> P x \<Longrightarrow> \<exists>y. find P xs = Some y"
  by (induction xs) auto

lemma find_key_eq:
  assumes "inj_on (\<lambda>i. n_key (ns ! i)) (set is)" "i \<in> set is" "n_key (ns ! i) = k"
  shows "find (\<lambda>i. n_key (ns ! i) = k) is = Some i"
proof -
  obtain j where j: "find (\<lambda>i. n_key (ns ! i) = k) is = Some j" using find_exists [where P = "\<lambda>i. n_key (ns ! i) = k", OF assms(2,3)] ..
  note d = find_SomeD [OF j]
  have "n_key (ns ! j) = n_key (ns ! i)" using d [THEN conjunct2] assms(3) by (metis (full_types))
  then have "j = i" by (rule inj_onD [OF assms(1) _ d [THEN conjunct1] assms(2)])
  then show ?thesis using j by simp
qed

lemma delete_chain_all:
  "chain ns p is \<Longrightarrow> distinct (dead @ is) \<Longrightarrow> length is < fuel \<Longrightarrow> delete_chain fuel ns p dead = Some (dead @ is)"
proof (induction "is" arbitrary: fuel p dead)
  case Nil
  then show ?case by (cases fuel) auto
next
  case (Cons i "is")
  then obtain f where "fuel = Suc f" by (cases fuel) auto
  then show ?case using Cons.IH [of "n_next (ns ! i)" "dead @ [i]" f] Cons.prems by auto
qed

lemma delete_chains_all:
  "list_all2 (chain ns) ps bs \<Longrightarrow> distinct (dead @ concat bs) \<Longrightarrow> \<forall>b \<in> set bs. length b < fuel \<Longrightarrow>
   delete_chains fuel ns ps dead = Some (dead @ concat bs)"
proof (induction ps bs arbitrary: dead rule: list_all2_induct)
  case (Cons p ps b bs)
  have "distinct (dead @ b)" "distinct ((dead @ b) @ concat bs)" using Cons.prems(1) by auto
  then show ?case using delete_chain_all [OF Cons.hyps(1), of dead fuel] Cons.IH [of "dead @ b"] Cons.prems(2) by simp
qed simp

end
