(* ===== verification/Hash_Store.thy ===== *)
theory Hash_Store
  imports Hash_Nodes "HOL-Library.Multiset"
begin

text \<open>
  What the chains of a hash map mean: a finite map from keys to values.  The free list of a class is an
  interface, the locale \<open>node_pool\<close>; the effect of the operations on the chains is proved once over it.
\<close>

section \<open>Buckets\<close>

text \<open>The memory of \<open>m\<close> holds the chains \<open>bs\<close>, one per bucket.\<close>

definition buckets :: "('k, 'v, 'z) hashmap_scheme \<Rightarrow> nat list list \<Rightarrow> bool" where
  "buckets m bs \<longleftrightarrow>
     (\<exists>B. m_pBucket m = Some B \<and> length B = length bs \<and> (\<forall>h<length bs. chain (nodes m) (B ! h) (bs ! h))) \<and>
     length bs = unat (m_nBuckets m) \<and> bs \<noteq> [] \<and>
     (\<forall>h<length bs. \<forall>i \<in> set (bs ! h). Hash m (n_key (nodes m ! i)) = Some h) \<and>
     distinct (concat bs) \<and> inj_on (\<lambda>i. n_key (nodes m ! i)) (set (concat bs)) \<and>
     set (concat bs) \<subseteq> {..<length (nodes m)} \<and> m_pMyHash m \<noteq> None"

lemma bucketsD:
  assumes "buckets m bs"
  shows "length bs = unat (m_nBuckets m)" "bs \<noteq> []" "distinct (concat bs)"
    "inj_on (\<lambda>i. n_key (nodes m ! i)) (set (concat bs))" "set (concat bs) \<subseteq> {..<length (nodes m)}"
    "h < length bs \<Longrightarrow> i \<in> set (bs ! h) \<Longrightarrow> Hash m (n_key (nodes m ! i)) = Some h"
  using assms unfolding buckets_def by blast+

lemma buckets_obtain:
  assumes "buckets m bs"
  obtains B where "m_pBucket m = Some B" "length B = length bs" "\<forall>h<length bs. chain (nodes m) (B ! h) (bs ! h)"
  using assms unfolding buckets_def by blast

lemma Hash_defined:
  assumes "buckets m bs"
  obtains h where "Hash m k = Some h" "h < length bs"
proof -
  obtain f where f: "m_pMyHash m = Some f" using assms by (auto simp: buckets_def)
  have n: "m_nBuckets m \<noteq> 0" using bucketsD(1) [OF assms] bucketsD(2) [OF assms, folded length_greater_0_conv] by auto
  have "unat (f k mod m_nBuckets m) < unat (m_nBuckets m)" using n by (simp add: unat_mod unat_gt_0)
  then show thesis using that [of "unat (f k mod m_nBuckets m)"] f n bucketsD(1) [OF assms] by (simp add: Hash_def)
qed

lemma chain_in: "chain ns p is \<Longrightarrow> i \<in> set is \<Longrightarrow> i < length ns"
  by (induction "is" arbitrary: p) auto

lemma distinct_length: "distinct (xs :: nat list) \<Longrightarrow> set xs \<subseteq> {..<n} \<Longrightarrow> length xs \<le> n"
  by (metis card_lessThan card_mono distinct_card finite_lessThan)

lemma bucket_facts:
  assumes "buckets m bs" "h < length bs"
  shows "distinct (bs ! h)" "set (bs ! h) \<subseteq> set (concat bs)" "length (bs ! h) < fuel_of m"
proof -
  have m: "bs ! h \<in> set bs" using assms(2) by simp
  have "set (bs ! h) \<subseteq> \<Union> (set ` set bs)" using m by blast
  then show s: "set (bs ! h) \<subseteq> set (concat bs)" by (simp only: set_concat)
  show d: "distinct (bs ! h)" using bucketsD(3) [OF assms(1)] m by (simp add: distinct_concat_iff)
  show "length (bs ! h) < fuel_of m"
    using distinct_length [OF d subset_trans [OF s bucketsD(5) [OF assms(1)]]] by simp
qed

lemma concat_nth: "i \<in> set (concat bs) \<longleftrightarrow> (\<exists>h<length bs. i \<in> set (bs ! h))"
  by (auto simp: set_conv_nth [of bs])

text \<open>The map that the chains stand for.\<close>

definition entries :: "('k, 'v) CHNode list \<Rightarrow> nat list list \<Rightarrow> 'k \<rightharpoonup> 'v" where
  "entries ns bs k = map_option (\<lambda>i. n_val (ns ! i)) (find (\<lambda>i. n_key (ns ! i) = k) (concat bs))"

text \<open>The search in one bucket finds the same node as a search in all of them.\<close>

lemma find_in_bucket:
  assumes "buckets m bs" "Hash m k = Some h"
  shows "find (\<lambda>i. n_key (nodes m ! i) = k) (bs ! h) = find (\<lambda>i. n_key (nodes m ! i) = k) (concat bs)"
proof -
  obtain h' where h': "Hash m k = Some h'" "h' < length bs" by (rule Hash_defined [OF assms(1)])
  then have h: "h < length bs" using assms(2) by simp
  note inj = bucketsD(4) [OF assms(1)]
  show ?thesis
  proof (cases "find (\<lambda>i. n_key (nodes m ! i) = k) (concat bs)")
    case None
    then have "\<forall>i \<in> set (concat bs). n_key (nodes m ! i) \<noteq> k" by (simp only: find_None_iff) blast
    then have "\<forall>i \<in> set (bs ! h). n_key (nodes m ! i) \<noteq> k" using bucket_facts(2) [OF assms(1) h] by blast
    then have "find (\<lambda>i. n_key (nodes m ! i) = k) (bs ! h) = None" by (simp only: find_None_iff) blast
    then show ?thesis using None by (simp only:)
  next
    case (Some i)
    note d = find_SomeD [OF Some]
    obtain h'' where h'': "h'' < length bs" "i \<in> set (bs ! h'')" using d [THEN conjunct1] unfolding concat_nth by blast
    have "Hash m k = Some h''" using bucketsD(6) [OF assms(1) h''] d [THEN conjunct2] by (simp only:)
    then have i: "i \<in> set (bs ! h)" using h''(2) assms(2) by (simp only: option.inject)
    have "find (\<lambda>i. n_key (nodes m ! i) = k) (bs ! h) = Some i"
      by (rule find_key_eq [OF inj_on_subset [OF inj bucket_facts(2) [OF assms(1) h]] i d [THEN conjunct2]])
    then show ?thesis using Some by (simp only:)
  qed
qed

lemma scan_bucket_entries:
  assumes "buckets m bs" "Hash m k = Some h"
  shows "scan_bucket k h m =
    Some (case find (\<lambda>i. n_key (nodes m ! i) = k) (concat bs) of Some i \<Rightarrow> Inl i | None \<Rightarrow> Inr (int (length (bs ! h))))"
proof -
  obtain B where B: "m_pBucket m = Some B" "length B = length bs" "\<forall>h<length bs. chain (nodes m) (B ! h) (bs ! h)"
    by (rule buckets_obtain [OF assms(1)])
  obtain h' where "Hash m k = Some h'" "h' < length bs" by (rule Hash_defined [OF assms(1)])
  then have h: "h < length bs" using assms(2) by simp
  have "bucket_of m h = Some (B ! h)" using B h by (simp add: bucket_of_def)
  then show ?thesis
    using scan_chain [OF B(3) [rule_format, OF h] bucket_facts(3) [OF assms(1) h], of k 0] find_in_bucket [OF assms]
    by (simp add: scan_bucket_def split: option.split)
qed

lemma Get_entries:
  assumes "buckets m bs"
  shows "Get k m = Some (find (\<lambda>i. n_key (nodes m ! i) = k) (concat bs))"
proof -
  obtain h where h: "Hash m k = Some h" "h < length bs" by (rule Hash_defined [OF assms])
  have "m_pBucket m \<noteq> None" using assms by (auto simp: buckets_def)
  then show ?thesis using scan_bucket_entries [OF assms h(1)] h
    by (simp add: Get_def split: option.split)
qed

section \<open>Changes of the chains\<close>

text \<open>Two maps with the same set-up: hash function, number of buckets and of nodes.\<close>

definition same_setup :: "('k, 'v, 'z) hashmap_scheme \<Rightarrow> ('k, 'v, 'z) hashmap_scheme \<Rightarrow> bool" where
  "same_setup m m' \<longleftrightarrow> length (nodes m') = length (nodes m) \<and> m_nBuckets m' = m_nBuckets m \<and>
     m_pMyHash m' = m_pMyHash m \<and> m_nTotalSize m' = m_nTotalSize m"

lemma same_setup_trans: "same_setup m m' \<Longrightarrow> same_setup m' m'' \<Longrightarrow> same_setup m m''"
  by (simp add: same_setup_def)

lemma same_setup_Hash: "same_setup m m' \<Longrightarrow> Hash m' k = Hash m k"
  by (cases "m_pMyHash m") (auto simp: same_setup_def Hash_def)

text \<open>The memory outside \<open>S\<close> is as before, and so are all keys and values.\<close>

definition frame :: "nat set \<Rightarrow> ('k, 'v, 'z) hashmap_scheme \<Rightarrow> ('k, 'v, 'z) hashmap_scheme \<Rightarrow> bool" where
  "frame S m m' \<longleftrightarrow> same_setup m m' \<and> m_pBucket m' = m_pBucket m \<and>
     (\<forall>i. i \<notin> S \<longrightarrow> nodes m' ! i = nodes m ! i) \<and>
     (\<forall>i. n_key (nodes m' ! i) = n_key (nodes m ! i) \<and> n_val (nodes m' ! i) = n_val (nodes m ! i))"

text \<open>The chains only depend on their own nodes.\<close>

lemma buckets_outside:
  assumes b: "buckets m bs" and ss: "same_setup m m'" and pb: "m_pBucket m' = m_pBucket m"
    and same: "\<And>i. i \<in> set (concat bs) \<Longrightarrow> nodes m' ! i = nodes m ! i"
  shows "buckets m' bs"
proof -
  obtain B where B: "m_pBucket m = Some B" "length B = length bs" "\<forall>h<length bs. chain (nodes m) (B ! h) (bs ! h)"
    by (rule buckets_obtain [OF b])
  have l: "length (nodes m') = length (nodes m)" using ss by (simp add: same_setup_def)
  have in_b: "nodes m' ! i = nodes m ! i" if "h < length bs" "i \<in> set (bs ! h)" for h i
    using same that bucket_facts(2) [OF b that(1)] by blast
  have "chain (nodes m') (B ! h) (bs ! h)" if h: "h < length bs" for h
  proof -
    have "chain (nodes m') (B ! h) (bs ! h) = chain (nodes m) (B ! h) (bs ! h)" using in_b [OF h] by (intro chain_cong [OF l]) simp
    then show ?thesis using B(3) h by blast
  qed
  moreover have "Hash m' (n_key (nodes m' ! i)) = Some h" if "h < length bs" "i \<in> set (bs ! h)" for h i
    using in_b [OF that] bucketsD(6) [OF b that] same_setup_Hash [OF ss] by simp
  moreover have "inj_on (\<lambda>i. n_key (nodes m' ! i)) (set (concat bs))"
    using bucketsD(4) [OF b] same by (simp only: inj_on_def) metis
  ultimately show ?thesis
    using b B pb l ss bucketsD(1-3,5) [OF b] unfolding buckets_def same_setup_def by (simp del: set_concat)
qed

lemma buckets_frame:
  assumes "buckets m bs" "frame S m m'" "S \<inter> set (concat bs) = {}"
  shows "buckets m' bs"
proof (rule buckets_outside [OF assms(1)])
  fix i assume "i \<in> set (concat bs)"
  then have "i \<notin> S" using assms(3) by blast
  then show "nodes m' ! i = nodes m ! i" using assms(2) by (simp add: frame_def)
qed (use assms(2) in \<open>simp_all add: frame_def\<close>)

lemma upd_node_in: "i < length (nodes m) \<Longrightarrow> upd_node i f m = Some (m\<lparr>nodes := (nodes m)[i := f (nodes m ! i)]\<rparr>)"
  by (simp add: upd_node_def)

lemma nth_list_update': "xs[i := x] ! j = (if i = j \<and> j < length xs then x else xs ! j)"
  by (cases "i < length xs") (auto simp: nth_list_update list_update_beyond)

lemma mset_concat_update: "h < length bs \<Longrightarrow> mset (concat (bs[h := xs])) + mset (bs ! h) = mset xs + mset (concat bs)"
proof (induction bs arbitrary: h)
  case (Cons b bs)
  then show ?case by (cases h) (auto simp: ac_simps)
qed simp

text \<open>A new node in front of a chain.\<close>

lemma link_front_buckets:
  assumes b: "buckets m bs" and i: "i < length (nodes m)" "i \<notin> set (concat bs)" and h: "Hash m (n_key (nodes m ! i)) = Some h"
    and new: "\<forall>j \<in> set (concat bs). n_key (nodes m ! j) \<noteq> n_key (nodes m ! i)"
  shows "\<exists>b B. link_front i h m = Some (m\<lparr>nodes := (nodes m)[i := (nodes m ! i)\<lparr>n_next := b\<rparr>], m_pBucket := Some B\<rparr>) \<and>
    buckets (m\<lparr>nodes := (nodes m)[i := (nodes m ! i)\<lparr>n_next := b\<rparr>], m_pBucket := Some B\<rparr>) (bs[h := i # bs ! h])"
proof -
  obtain B where B: "m_pBucket m = Some B" "length B = length bs" "\<forall>h<length bs. chain (nodes m) (B ! h) (bs ! h)"
    by (rule buckets_obtain [OF b])
  obtain h' where "Hash m (n_key (nodes m ! i)) = Some h'" "h' < length bs" by (rule Hash_defined [OF b])
  then have hl: "h < length bs" using h by simp
  let ?ns = "(nodes m)[i := (nodes m ! i)\<lparr>n_next := B ! h\<rparr>]" and ?B = "B[h := Some i]" and ?bs = "bs[h := i # bs ! h]"
  let ?m = "m\<lparr>nodes := ?ns, m_pBucket := Some ?B\<rparr>"
  have run: "link_front i h m = Some ?m"
    using B i hl by (simp add: link_front_def bucket_of_def set_bucket_def upd_node_in)
  have keys: "n_key (?ns ! j) = n_key (nodes m ! j)" for j by (cases "j = i") (use i in auto)
  have ch: "chain ?ns p is = chain (nodes m) p is" if "i \<notin> set is" for p "is"
    by (rule chain_cong) (use that in \<open>auto simp: nth_list_update'\<close>)
  have notin: "i \<notin> set (bs ! q)" if "q < length bs" for q using i(2) bucket_facts(2) [OF b that] by blast
  have "chain ?ns (?B ! q) (?bs ! q)" if q: "q < length bs" for q
    using q hl B i ch notin by (cases "q = h") auto
  moreover have "Hash ?m (n_key (?ns ! j)) = Some q" if "q < length bs" "j \<in> set (?bs ! q)" for q j
  proof -
    have "Hash ?m (n_key (?ns ! j)) = Hash m (n_key (nodes m ! j))"
      unfolding keys by (rule same_setup_Hash) (simp add: same_setup_def)
    then show ?thesis using that h hl bucketsD(6) [OF b, of q j] by (cases "q = h") auto
  qed
  moreover have st: "set (concat ?bs) = insert i (set (concat bs))"
  proof -
    have "j \<in> set (concat ?bs) \<longleftrightarrow> j = i \<or> j \<in> set (concat bs)" for j
      unfolding concat_nth using hl by (auto simp: nth_list_update split: if_splits)
    then show ?thesis by blast
  qed
  moreover have "distinct (concat ?bs)"
  proof -
    have "mset (concat ?bs) = mset (i # concat bs)"
      using mset_concat_update [OF hl, of "i # bs ! h"] by simp
    then show ?thesis using bucketsD(3) [OF b] i(2) mset_eq_imp_distinct_iff [of "concat ?bs" "i # concat bs"] by simp
  qed
  moreover have "inj_on (\<lambda>j. n_key (?ns ! j)) (set (concat ?bs))"
    unfolding st keys using bucketsD(4) [OF b] new i(2) by (auto simp: inj_on_insert simp del: set_concat)
  ultimately have "buckets ?m ?bs"
    using b i(1) B hl bucketsD(1,2,5) [OF b] unfolding buckets_def by (simp del: set_concat)
  then show ?thesis using run by blast
qed

text \<open>A node taken out of a chain, behind the node \<open>pre\<close>.\<close>

lemma unlink_loop_chain:
  assumes "chain (nodes m) (n_next (nodes m ! pre)) is" "pre < length (nodes m)" "pre \<notin> set is" "distinct is" "length is < fuel"
  shows "case find (\<lambda>i. n_key (nodes m ! i) = k) is of
      None \<Rightarrow> unlink_loop fuel k pre (n_next (nodes m ! pre)) m = Some (None, m)
    | Some d \<Rightarrow> \<exists>ns. unlink_loop fuel k pre (n_next (nodes m ! pre)) m = Some (Some d, m\<lparr>nodes := ns\<rparr>) \<and>
        frame (insert pre (set is)) m (m\<lparr>nodes := ns\<rparr>) \<and> chain ns (n_next (ns ! pre)) (remove1 d is)"
  using assms
proof (induction "is" arbitrary: pre fuel)
  case Nil
  then show ?case by (cases fuel) auto
next
  case (Cons d "is")
  then obtain f where f: "fuel = Suc f" by (cases fuel) auto
  have d: "n_next (nodes m ! pre) = Some d" "d < length (nodes m)" "chain (nodes m) (n_next (nodes m ! d)) is"
    "d \<noteq> pre" "pre \<notin> set is" "d \<notin> set is" "distinct is" using Cons.prems by auto
  show ?case
  proof (cases "n_key (nodes m ! d) = k")
    case True
    let ?ns = "(nodes m)[pre := (nodes m ! pre)\<lparr>n_next := n_next (nodes m ! d)\<rparr>, d := (nodes m ! d)\<lparr>n_next := None\<rparr>]"
    have "unlink_loop fuel k pre (n_next (nodes m ! pre)) m = Some (Some d, m\<lparr>nodes := ?ns\<rparr>)"
      using True d Cons.prems(2) by (simp add: f upd_node_in)
    moreover have "frame (insert pre (set (d # is))) m (m\<lparr>nodes := ?ns\<rparr>)"
      unfolding frame_def by (auto simp: same_setup_def nth_list_update')
    moreover have "chain ?ns (n_next (nodes m ! d)) is"
    proof -
      have "n_next (?ns ! i) = n_next (nodes m ! i)" if "i \<in> set is" for i
      proof -
        have "i \<noteq> pre" "i \<noteq> d" using that d by auto
        then show ?thesis by (simp add: nth_list_update')
      qed
      then show ?thesis using chain_cong [of ?ns "nodes m" "is" "n_next (nodes m ! d)"] d(3) by simp
    qed
    then have "chain ?ns (n_next (?ns ! pre)) is" using d(4) Cons.prems(2) by (simp add: nth_list_update')
    ultimately show ?thesis using True by auto
  next
    case False
    have step: "unlink_loop fuel k pre (n_next (nodes m ! pre)) m = unlink_loop f k d (n_next (nodes m ! d)) m"
      using False d(1,2) by (simp add: f)
    note IH = Cons.IH [OF d(3,2,6,7), of f]
    show ?thesis
    proof (cases "find (\<lambda>i. n_key (nodes m ! i) = k) is")
      case None
      then show ?thesis using IH False step Cons.prems(5) f by simp
    next
      case (Some e)
      then obtain ns where ns: "unlink_loop f k d (n_next (nodes m ! d)) m = Some (Some e, m\<lparr>nodes := ns\<rparr>)"
        "frame (insert d (set is)) m (m\<lparr>nodes := ns\<rparr>)" "chain ns (n_next (ns ! d)) (remove1 e is)"
        using IH Cons.prems(5) f by auto
      have e: "e \<noteq> d" using find_SomeD [OF Some] d(6) by auto
      have pre: "ns ! pre = nodes m ! pre" "length ns = length (nodes m)" using ns(2) d(4,5) by (auto simp: frame_def same_setup_def)
      have "frame (insert pre (set (d # is))) m (m\<lparr>nodes := ns\<rparr>)" using ns(2) by (auto simp: frame_def)
      moreover have "chain ns (n_next (ns ! pre)) (remove1 e (d # is))" using ns(3) pre d(1,2) e by simp
      ultimately show ?thesis using Some False step ns(1) by auto
    qed
  qed
qed

lemma concat_disjoint_less:
  "distinct (concat bs) \<Longrightarrow> p < q \<Longrightarrow> q < length bs \<Longrightarrow> set (bs ! p) \<inter> set (bs ! q) = {}"
proof (induction bs arbitrary: p q)
  case (Cons b bs)
  obtain q' where q: "q = Suc q'" "q' < length bs" using Cons.prems by (cases q) auto
  show ?case
  proof (cases p)
    case 0
    have "set (bs ! q') \<subseteq> set (concat bs)" using q(2) unfolding concat_nth subset_iff by blast
    moreover have "set b \<inter> set (concat bs) = {}" using Cons.prems(1) by simp
    ultimately have "set b \<inter> set (bs ! q') = {}" by blast
    then show ?thesis using 0 q(1) by simp
  next
    case (Suc p')
    then show ?thesis using Cons.IH [of p' q'] Cons.prems q by simp
  qed
qed simp

lemma concat_disjoint:
  assumes "distinct (concat bs)" "p < length bs" "q < length bs" "p \<noteq> q"
  shows "set (bs ! p) \<inter> set (bs ! q) = {}"
proof (cases "p < q")
  case True
  then show ?thesis using concat_disjoint_less assms by blast
next
  case False
  then have "set (bs ! q) \<inter> set (bs ! p) = {}" using concat_disjoint_less [OF assms(1) _ assms(2), of q] assms(4) by simp
  then show ?thesis by (simp only: Int_commute)
qed

lemma mset_remove_from_bucket:
  assumes "h < length bs" "d \<in> set (bs ! h)"
  shows "mset (d # concat (bs[h := remove1 d (bs ! h)])) = mset (concat bs)"
proof -
  let ?R = "mset (remove1 d (bs ! h))"
  have "mset (bs ! h) = add_mset d ?R" using assms(2) by simp
  then have "mset (concat (bs[h := remove1 d (bs ! h)])) + add_mset d ?R = ?R + mset (concat bs)"
    using mset_concat_update [OF assms(1), of "remove1 d (bs ! h)"] by (simp only:)
  then have "add_mset d (mset (concat (bs[h := remove1 d (bs ! h)]))) + ?R = mset (concat bs) + ?R"
    by (metis union_commute union_mset_add_mset_left union_mset_add_mset_right)
  then show ?thesis by (simp only: mset.simps add_right_cancel)
qed

lemma concat_update_subset:
  assumes "h < length bs" "set xs \<subseteq> set (bs ! h)"
  shows "set (concat (bs[h := xs])) \<subseteq> set (concat bs)"
proof (rule subsetI)
  fix i assume "i \<in> set (concat (bs[h := xs]))"
  then obtain q where q: "q < length bs" "i \<in> set (bs[h := xs] ! q)" using concat_nth [of i "bs[h := xs]"] by auto
  have "i \<in> set (bs ! q)"
  proof (cases "q = h")
    case True
    then show ?thesis using q assms by auto
  next
    case False
    then show ?thesis using q(2) by simp
  qed
  then show "i \<in> set (concat bs)" using q(1) concat_nth [of i bs] by auto
qed

lemma distinct_concat_update:
  "distinct (concat bs) \<Longrightarrow> h < length bs \<Longrightarrow> distinct xs \<Longrightarrow> set xs \<subseteq> set (bs ! h) \<Longrightarrow> distinct (concat (bs[h := xs]))"
proof (induction bs arbitrary: h)
  case (Cons b bs)
  show ?case
  proof (cases h)
    case 0
    have "set b \<inter> set (concat bs) = {}" "distinct (concat bs)" using Cons.prems(1) by simp_all
    moreover have "set xs \<subseteq> set b" using Cons.prems(4) 0 by simp
    ultimately have "set xs \<inter> set (concat bs) = {}" by blast
    then show ?thesis using Cons.prems 0 by simp
  next
    case (Suc q)
    then have "set (concat (bs[q := xs])) \<subseteq> set (concat bs)" using concat_update_subset Cons.prems by simp
    moreover have "set b \<inter> set (concat bs) = {}" using Cons.prems(1) by simp
    ultimately have "set b \<inter> set (concat (bs[q := xs])) = {}" by blast
    then show ?thesis using Cons Suc by simp
  qed
qed simp

text \<open>A chain of one bucket replaced by a part of it.\<close>

lemma buckets_replace:
  assumes b: "buckets m bs" and h: "h < length bs" and B: "m_pBucket m = Some B" "length B = length bs"
    and ss: "same_setup m m'" and B': "m_pBucket m' = Some (B[h := p])"
    and ch: "chain (nodes m') p xs" and xs: "distinct xs" "set xs \<subseteq> set (bs ! h)"
    and key: "\<And>i. n_key (nodes m' ! i) = n_key (nodes m ! i)"
    and out: "\<And>i. i \<in> set (concat bs) \<Longrightarrow> i \<notin> set (bs ! h) \<Longrightarrow> nodes m' ! i = nodes m ! i"
  shows "buckets m' (bs[h := xs])"
proof -
  let ?bs = "bs[h := xs]"
  have l: "length (nodes m') = length (nodes m)" using ss by (simp add: same_setup_def)
  have chains: "\<forall>q<length bs. chain (nodes m) (B ! q) (bs ! q)" using b B unfolding buckets_def by auto
  have "chain (nodes m') (B[h := p] ! q) (?bs ! q)" if q: "q < length bs" for q
  proof (cases "q = h")
    case True
    then show ?thesis using ch h B by simp
  next
    case False
    have "n_next (nodes m' ! i) = n_next (nodes m ! i)" if i: "i \<in> set (bs ! q)" for i
    proof -
      have "i \<notin> set (bs ! h)" using i concat_disjoint [OF bucketsD(3) [OF b] q h False] by blast
      moreover have "i \<in> set (concat bs)" using i bucket_facts(2) [OF b q] by blast
      ultimately show ?thesis using out by simp
    qed
    then have "chain (nodes m') (B ! q) (bs ! q) = chain (nodes m) (B ! q) (bs ! q)" by (rule chain_cong [OF l])
    then show ?thesis using False chains q by simp
  qed
  moreover have "Hash m' (n_key (nodes m' ! i)) = Some q" if "q < length bs" "i \<in> set (?bs ! q)" for q i
  proof -
    have "i \<in> set (bs ! q)" using that h xs(2) by (cases "q = h") auto
    then show ?thesis using bucketsD(6) [OF b that(1)] same_setup_Hash [OF ss] key by simp
  qed
  moreover have sub: "set (concat ?bs) \<subseteq> set (concat bs)" by (rule concat_update_subset [OF h xs(2)])
  moreover have "inj_on (\<lambda>j. n_key (nodes m' ! j)) (set (concat ?bs))"
    unfolding key by (rule inj_on_subset [OF bucketsD(4) [OF b] sub])
  ultimately show ?thesis
    using b B B' h ss bucketsD(1,2) [OF b] l subset_trans [OF sub bucketsD(5) [OF b]]
      distinct_concat_update [OF bucketsD(3) [OF b] h xs]
    unfolding buckets_def same_setup_def by (simp del: set_concat)
qed

lemma buckets_shrink:
  assumes b: "buckets m bs" and h: "h < length bs" and B: "m_pBucket m = Some B" "length B = length bs" and d: "d \<in> set (bs ! h)"
    and fr: "frame (set (bs ! h)) m (m\<lparr>nodes := ns\<rparr>)" and ch: "chain ns p (remove1 d (bs ! h))"
  shows "buckets (m\<lparr>nodes := ns, m_pBucket := Some (B[h := p])\<rparr>) (bs[h := remove1 d (bs ! h)])"
  by (rule buckets_replace [OF b h B])
    (use fr ch bucket_facts(1) [OF b h] set_remove1_subset [of d "bs ! h"] in \<open>auto simp: frame_def same_setup_def\<close>)

lemma unlink_bucket:
  assumes b: "buckets m bs" and k: "Hash m k = Some h"
  shows "case find (\<lambda>i. n_key (nodes m ! i) = k) (concat bs) of
      None \<Rightarrow> unlink k h m = Some (None, m)
    | Some d \<Rightarrow> d \<in> set (bs ! h) \<and> (\<exists>ns B. unlink k h m = Some (Some d, m\<lparr>nodes := ns, m_pBucket := Some B\<rparr>) \<and>
        frame (set (bs ! h)) m (m\<lparr>nodes := ns\<rparr>) \<and>
        buckets (m\<lparr>nodes := ns, m_pBucket := Some B\<rparr>) (bs[h := remove1 d (bs ! h)]))"
proof -
  obtain B where B: "m_pBucket m = Some B" "length B = length bs" "\<forall>h<length bs. chain (nodes m) (B ! h) (bs ! h)"
    by (rule buckets_obtain [OF b])
  obtain h' where "Hash m k = Some h'" "h' < length bs" by (rule Hash_defined [OF b])
  then have hl: "h < length bs" using k by simp
  have bo: "bucket_of m h = Some (B ! h)" using B hl by (simp add: bucket_of_def)
  have ch: "chain (nodes m) (B ! h) (bs ! h)" using B(3) hl by blast
  note fb = find_in_bucket [OF b k] and bf = bucket_facts [OF b hl]
  show ?thesis
  proof (cases "bs ! h")
    case Nil
    then show ?thesis using ch bo fb by (simp add: unlink_def)
  next
    case (Cons i "is")
    have i: "B ! h = Some i" "i < length (nodes m)" "chain (nodes m) (n_next (nodes m ! i)) is" "i \<notin> set is" "distinct is"
      "length is < fuel_of m"
      using ch bf unfolding Cons by auto
    show ?thesis
    proof (cases "n_key (nodes m ! i) = k")
      case True
      let ?ns = "(nodes m)[i := (nodes m ! i)\<lparr>n_next := None\<rparr>]" and ?p = "n_next (nodes m ! i)"
      have fd: "find (\<lambda>i. n_key (nodes m ! i) = k) (concat bs) = Some i" using fb True unfolding Cons by simp
      have run: "unlink k h m = Some (Some i, m\<lparr>nodes := ?ns, m_pBucket := Some (B[h := ?p])\<rparr>)"
        using bo i True B hl by (simp add: unlink_def set_bucket_def upd_node_in)
      have fr: "frame (set (bs ! h)) m (m\<lparr>nodes := ?ns\<rparr>)"
        unfolding Cons frame_def by (auto simp: same_setup_def nth_list_update')
      have "chain ?ns ?p is = chain (nodes m) ?p is"
      proof (rule chain_cong)
        fix j assume "j \<in> set is"
        then have "j \<noteq> i" using i(4) by auto
        then show "n_next (?ns ! j) = n_next (nodes m ! j)" by (simp add: nth_list_update')
      qed simp
      then have "chain ?ns ?p (remove1 i (bs ! h))" using i(3) by (simp add: Cons)
      then have "buckets (m\<lparr>nodes := ?ns, m_pBucket := Some (B[h := ?p])\<rparr>) (bs[h := remove1 i (bs ! h)])"
        by (intro buckets_shrink [OF b hl B(1,2) _ fr]) (simp add: Cons)
      then show ?thesis using fd run fr by (auto simp: Cons)
    next
      case False
      have run: "unlink k h m = unlink_loop (fuel_of m) k i (n_next (nodes m ! i)) m"
        using bo i False by (simp add: unlink_def)
      note ul = unlink_loop_chain [OF i(3,2,4,5,6), of k]
      have fd: "find (\<lambda>i. n_key (nodes m ! i) = k) (concat bs) = find (\<lambda>i. n_key (nodes m ! i) = k) is"
        using fb False unfolding Cons by simp
      show ?thesis
      proof (cases "find (\<lambda>i. n_key (nodes m ! i) = k) is")
        case None
        then show ?thesis using ul run fd by simp
      next
        case (Some d)
        then obtain ns where ns: "unlink_loop (fuel_of m) k i (n_next (nodes m ! i)) m = Some (Some d, m\<lparr>nodes := ns\<rparr>)"
          "frame (set (bs ! h)) m (m\<lparr>nodes := ns\<rparr>)" "chain ns (n_next (ns ! i)) (remove1 d is)"
          using ul unfolding Cons by auto
        have d: "d \<in> set (bs ! h)" "d \<noteq> i" using find_SomeD [OF Some] i(4) by (auto simp: Cons)
        have "length ns = length (nodes m)" using ns(2) by (simp add: frame_def same_setup_def)
        then have "chain ns (B ! h) (remove1 d (bs ! h))" using ns(3) i(1,2) d(2) by (simp add: Cons)
        then have "buckets (m\<lparr>nodes := ns, m_pBucket := Some (B[h := B ! h])\<rparr>) (bs[h := remove1 d (bs ! h)])"
          by (intro buckets_shrink [OF b hl B(1,2) d(1) ns(2)])
        moreover have "unlink k h m = Some (Some d, m\<lparr>nodes := ns, m_pBucket := Some (B[h := B ! h])\<rparr>)"
          using run ns(1) B(1) by simp
        ultimately have "\<exists>ns B. unlink k h m = Some (Some d, m\<lparr>nodes := ns, m_pBucket := Some B\<rparr>) \<and>
            frame (set (bs ! h)) m (m\<lparr>nodes := ns\<rparr>) \<and>
            buckets (m\<lparr>nodes := ns, m_pBucket := Some B\<rparr>) (bs[h := remove1 d (bs ! h)])"
          using ns(2) by blast
        then show ?thesis using d(1) unfolding fd Some by simp
      qed
    qed
  qed
qed

section \<open>Entries\<close>

lemma entries_None: "entries ns bs k = None \<longleftrightarrow> find (\<lambda>i. n_key (ns ! i) = k) (concat bs) = None"
  by (simp add: entries_def)

lemma entries_frame: "frame S m m' \<Longrightarrow> entries (nodes m') bs = entries (nodes m) bs"
  by (rule ext) (simp add: entries_def frame_def)

lemma entries_Some:
  assumes "inj_on (\<lambda>i. n_key (ns ! i)) (set (concat bs))" "i \<in> set (concat bs)"
  shows "entries ns bs (n_key (ns ! i)) = Some (n_val (ns ! i))"
  using find_key_eq [OF assms refl] by (simp add: entries_def)

text \<open>Chains of the same nodes stand for the same map.\<close>

lemma entries_unique:
  assumes inj: "inj_on (\<lambda>i. n_key (ns ! i)) (set (concat bs))"
    and dom: "\<And>i. i \<in> set (concat bs) \<Longrightarrow> e (n_key (ns ! i)) = Some (n_val (ns ! i))"
    and out: "\<And>k. (\<forall>i \<in> set (concat bs). n_key (ns ! i) \<noteq> k) \<Longrightarrow> e k = None"
  shows "entries ns bs = e"
proof
  fix k
  show "entries ns bs k = e k"
  proof (cases "\<exists>i \<in> set (concat bs). n_key (ns ! i) = k")
    case True
    then obtain i where "i \<in> set (concat bs)" "n_key (ns ! i) = k" by blast
    then show ?thesis using entries_Some [OF inj] dom by metis
  next
    case False
    then have "find (\<lambda>i. n_key (ns ! i) = k) (concat bs) = None" by (simp only: find_None_iff) blast
    then show ?thesis using out [of k] False by (simp add: entries_def)
  qed
qed

end
