(* ===== verification/Hash_Pool.thy ===== *)
theory Hash_Pool
  imports Hash_Store
begin

text \<open>
  The free list of a hash map as an interface, and the effect of the map operations on the entries, proved over
  that interface for both classes.
\<close>

section \<open>The invariant\<close>

text \<open>Every node is in exactly one chain or free, and the counters count.\<close>

definition store ::
  "(('k, 'v, 'z) hashmap_scheme \<Rightarrow> nat set \<Rightarrow> bool) \<Rightarrow> ('k, 'v, 'z) hashmap_scheme \<Rightarrow> nat list list \<Rightarrow> nat set \<Rightarrow> bool" where
  "store free m bs F \<longleftrightarrow> buckets m bs \<and> free m F \<and> F \<inter> set (concat bs) = {} \<and>
     F \<union> set (concat bs) = {..<length (nodes m)} \<and> m_nUseSize m = of_nat (length (concat bs)) \<and>
     m_nTotalSize m = of_nat (length (nodes m)) \<and> length (nodes m) < 2 ^ 32"

text \<open>The map holds the entries \<open>e\<close> and has room for \<open>cap\<close> of them.\<close>

definition holds ::
  "(('k, 'v, 'z) hashmap_scheme \<Rightarrow> nat set \<Rightarrow> bool) \<Rightarrow> ('k, 'v, 'z) hashmap_scheme \<Rightarrow> ('k \<rightharpoonup> 'v) \<times> nat \<Rightarrow> bool" where
  "holds free m = (\<lambda>(e, cap). (\<exists>bs F. store free m bs F \<and> entries (nodes m) bs = e) \<and> cap = length (nodes m))"

lemma storeD:
  assumes "store free m bs F"
  shows "buckets m bs" "free m F" "F \<inter> set (concat bs) = {}" "F \<union> set (concat bs) = {..<length (nodes m)}"
    "m_nUseSize m = of_nat (length (concat bs))" "m_nTotalSize m = of_nat (length (nodes m))" "length (nodes m) < 2 ^ 32"
    "finite F"
proof -
  show "finite F" using assms unfolding store_def by (metis finite_Un finite_lessThan)
qed (use assms in \<open>unfold store_def, blast+\<close>)

lemma entries_dom: "dom (entries ns bs) = (\<lambda>i. n_key (ns ! i)) ` set (concat bs)"
proof (rule set_eqI)
  fix k
  have "k \<notin> dom (entries ns bs) \<longleftrightarrow> find (\<lambda>i. n_key (ns ! i) = k) (concat bs) = None"
    unfolding domIff not_not entries_None ..
  also have "\<dots> \<longleftrightarrow> k \<notin> (\<lambda>i. n_key (ns ! i)) ` set (concat bs)" by (simp only: find_None_iff) blast
  finally show "k \<in> dom (entries ns bs) \<longleftrightarrow> k \<in> (\<lambda>i. n_key (ns ! i)) ` set (concat bs)" by blast
qed

lemma entries_card: "buckets m bs \<Longrightarrow> card (dom (entries (nodes m) bs)) = length (concat bs)"
  unfolding entries_dom using bucketsD(3,4) [of m bs] by (simp add: card_image distinct_card del: set_concat length_concat)

lemma store_card:
  assumes "store free m bs F"
  shows "card (dom (entries (nodes m) bs)) + card F = length (nodes m)"
proof -
  note d = storeD [OF assms]
  have "card (F \<union> set (concat bs)) = card F + card (set (concat bs))"
    using d(3,8) by (intro card_Un_disjoint) (simp_all del: set_concat)
  then show ?thesis
    using entries_card [OF d(1)] d(4) distinct_card [OF bucketsD(3) [OF d(1)]] by (simp del: set_concat length_concat)
qed

lemma entries_insert:
  assumes b: "buckets m bs" and inj: "inj_on (\<lambda>j. n_key (ns ! j)) (set (concat bs'))"
    and st: "set (concat bs') = insert i (set (concat bs))" and i: "i \<notin> set (concat bs)"
    and new: "n_key (ns ! i) = k" "n_val (ns ! i) = v"
    and old: "\<And>j. j \<in> set (concat bs) \<Longrightarrow> n_key (ns ! j) = n_key (nodes m ! j) \<and> n_val (ns ! j) = n_val (nodes m ! j)"
    and other: "\<forall>j \<in> set (concat bs). n_key (nodes m ! j) \<noteq> k"
  shows "entries ns bs' = (entries (nodes m) bs)(k \<mapsto> v)"
proof (rule entries_unique [OF inj])
  fix j assume j: "j \<in> set (concat bs')"
  show "((entries (nodes m) bs)(k \<mapsto> v)) (n_key (ns ! j)) = Some (n_val (ns ! j))"
  proof (cases "j = i")
    case False
    then have j': "j \<in> set (concat bs)" using j st by blast
    moreover have "n_key (nodes m ! j) \<noteq> k" using other j' by blast
    ultimately show ?thesis using old [OF j'] entries_Some [OF bucketsD(4) [OF b] j'] by simp
  qed (simp add: new)
next
  fix q assume "\<forall>j \<in> set (concat bs'). n_key (ns ! j) \<noteq> q"
  then have "k \<noteq> q" "\<forall>j \<in> set (concat bs). n_key (nodes m ! j) \<noteq> q" using st new(1) old by (blast, metis insertCI)
  then show "((entries (nodes m) bs)(k \<mapsto> v)) q = None"
    by (simp add: entries_None find_None_iff del: set_concat)
qed

text \<open>Lookups and the size, which are the same for both classes.\<close>

lemma holds_Get:
  assumes "holds free m (e, cap)"
  shows "\<exists>p. Get k m = Some p \<and> (case p of None \<Rightarrow> e k = None | Some i \<Rightarrow> i < length (nodes m) \<and> e k = Some (n_val (nodes m ! i)))"
proof -
  obtain bs F where st: "store free m bs F" and e: "entries (nodes m) bs = e" using assms by (auto simp: holds_def)
  note b = storeD(1) [OF st]
  show ?thesis
  proof (cases "find (\<lambda>i. n_key (nodes m ! i) = k) (concat bs)")
    case None
    then show ?thesis using Get_entries [OF b, of k] e by (auto simp: entries_def)
  next
    case (Some i)
    then have "i \<in> set (concat bs)" using find_SomeD [OF Some] by blast
    then have "i < length (nodes m)" using bucketsD(5) [OF b] by blast
    then show ?thesis using Some Get_entries [OF b, of k] e by (auto simp: entries_def)
  qed
qed

lemma holds_Size:
  assumes "holds free m (e, cap)"
  shows "unat (Size m) = card (dom e)"
proof -
  obtain bs F where st: "store free m bs F" and e: "entries (nodes m) bs = e" using assms by (auto simp: holds_def)
  note d = storeD [OF st]
  have "length (concat bs) \<le> length (nodes m)" by (rule distinct_length [OF bucketsD(3,5) [OF d(1)]])
  then have "unat (of_nat (length (concat bs)) :: 32 word) = length (concat bs)"
    using d(7) unfolding unat_of_nat by (simp del: length_concat)
  then show ?thesis using d(5) entries_card [OF d(1)] e by (simp add: Size_def del: length_concat)
qed

section \<open>Free lists\<close>

locale node_pool =
  fixes pop :: "('k, 'v, 'z) hashmap_scheme \<Rightarrow> (nat option \<times> ('k, 'v, 'z) hashmap_scheme) option"
    and push :: "nat \<Rightarrow> ('k, 'v, 'z) hashmap_scheme \<Rightarrow> ('k, 'v, 'z) hashmap_scheme option"
    and free :: "('k, 'v, 'z) hashmap_scheme \<Rightarrow> nat set \<Rightarrow> bool"
  assumes pop_empty: "free m {} \<Longrightarrow> pop m = Some (None, m)"
    and pop_node: "free m F \<Longrightarrow> F \<noteq> {} \<Longrightarrow>
      \<exists>p m'. pop m = Some (Some p, m') \<and> p \<in> F \<and> free m' (F - {p}) \<and> frame F m m' \<and> m_nUseSize m' = m_nUseSize m + 1"
    and push_node: "free m F \<Longrightarrow> p \<notin> F \<Longrightarrow> p < length (nodes m) \<Longrightarrow>
      \<exists>m'. push p m = Some m' \<and> free m' (insert p F) \<and> frame (insert p F) m m' \<and> m_nUseSize m' = m_nUseSize m - 1"
    and free_frame: "free m F \<Longrightarrow> length ns = length (nodes m) \<Longrightarrow> \<forall>i \<in> F. ns ! i = nodes m ! i \<Longrightarrow>
      free (m\<lparr>nodes := ns, m_pBucket := B, m_nCurBucket := c, m_pNextNode := q\<rparr>) F"
begin

lemma free_nodes: "free m F \<Longrightarrow> length ns = length (nodes m) \<Longrightarrow> \<forall>i \<in> F. ns ! i = nodes m ! i \<Longrightarrow>
    free (m\<lparr>nodes := ns, m_pBucket := B\<rparr>) F"
  using free_frame [where m = m and F = F and ns = ns and B = B and c = "m_nCurBucket m" and q = "m_pNextNode m"] by simp

lemma free_only_nodes: "free m F \<Longrightarrow> length ns = length (nodes m) \<Longrightarrow> \<forall>i \<in> F. ns ! i = nodes m ! i \<Longrightarrow> free (m\<lparr>nodes := ns\<rparr>) F"
  using free_nodes [where m = m and F = F and ns = ns and B = "m_pBucket m"] by simp

lemma take_node_full: "store free m bs {} \<Longrightarrow> take_node pop u h m = Some (None, m)"
  using pop_empty [OF storeD(2) [of free m bs "{}"]] by (simp add: take_node_def)

lemma take_node_new:
  assumes st: "store free m bs F" and F: "F \<noteq> {}" and h: "Hash m k = Some h" and new: "entries (nodes m) bs k = None"
    and u: "\<And>n. n_key (u n) = k"
  shows "\<exists>i m' n. take_node pop u h m = Some (Some i, m') \<and> store free m' (bs[h := i # bs ! h]) (F - {i}) \<and>
    entries (nodes m') (bs[h := i # bs ! h]) = (entries (nodes m) bs)(k \<mapsto> n_val (u n)) \<and>
    n_val (nodes m' ! i) = n_val (u n) \<and> n_key (nodes m' ! i) = k \<and> i \<in> F \<and> same_setup m m'"
proof -
  note d = storeD [OF st]
  obtain i m1 where 1: "pop m = Some (Some i, m1)" "i \<in> F" "free m1 (F - {i})" "frame F m m1" "m_nUseSize m1 = m_nUseSize m + 1"
    using pop_node [OF d(2) F] by blast
  have ss1: "same_setup m m1" and l1: "length (nodes m1) = length (nodes m)" using 1(4) by (simp_all add: frame_def same_setup_def)
  have il: "i < length (nodes m)" "i \<notin> set (concat bs)" using 1(2) d(3,4) by blast+
  have b1: "buckets m1 bs" by (rule buckets_frame [OF d(1) 1(4) d(3)])
  let ?n = "u (nodes m1 ! i)" let ?m2 = "m1\<lparr>nodes := (nodes m1)[i := ?n]\<rparr>"
  have up: "upd_node i u m1 = Some ?m2" using il l1 by (simp add: upd_node_in)
  have same: "nodes ?m2 ! j = nodes m1 ! j" if "j \<noteq> i" for j using that by (simp add: nth_list_update')
  have ni: "nodes ?m2 ! i = ?n" using il l1 by simp
  have b2: "buckets ?m2 bs"
  proof (rule buckets_outside [OF b1])
    fix j assume "j \<in> set (concat bs)"
    then have "j \<noteq> i" using il(2) by blast
    then show "nodes ?m2 ! j = nodes m1 ! j" by (rule same)
  qed (simp_all add: same_setup_def)
  have h2: "Hash ?m2 (n_key (nodes ?m2 ! i)) = Some h"
    using h same_setup_Hash [OF ss1, of k] same_setup_Hash [of m1 ?m2 k] u ni by (simp add: same_setup_def)
  have keys: "n_key (nodes ?m2 ! j) = n_key (nodes m ! j)" "n_val (nodes ?m2 ! j) = n_val (nodes m ! j)" if "j \<in> set (concat bs)" for j
    using same [of j] that il(2) 1(4) by (metis frame_def)+
  have other: "\<forall>j \<in> set (concat bs). n_key (nodes m ! j) \<noteq> k"
    using new unfolding entries_None find_None_iff by blast
  then have fresh: "\<forall>j \<in> set (concat bs). n_key (nodes ?m2 ! j) \<noteq> n_key (nodes ?m2 ! i)"
    using keys(1) u ni by simp
  let ?bs = "bs[h := i # bs ! h]"
  obtain b B where lf: "link_front i h ?m2 = Some (?m2\<lparr>nodes := (nodes ?m2)[i := (nodes ?m2 ! i)\<lparr>n_next := b\<rparr>], m_pBucket := Some B\<rparr>)"
    "buckets (?m2\<lparr>nodes := (nodes ?m2)[i := (nodes ?m2 ! i)\<lparr>n_next := b\<rparr>], m_pBucket := Some B\<rparr>) ?bs"
    using link_front_buckets [OF b2 _ il(2) h2 fresh] il(1) l1 by auto
  let ?m3 = "m1\<lparr>nodes := (nodes m1)[i := ?n\<lparr>n_next := b\<rparr>], m_pBucket := Some B\<rparr>"
  have m3: "?m2\<lparr>nodes := (nodes ?m2)[i := (nodes ?m2 ! i)\<lparr>n_next := b\<rparr>], m_pBucket := Some B\<rparr> = ?m3"
    using il l1 by simp
  have run: "take_node pop u h m = Some (Some i, ?m3)" using 1(1) up lf(1) m3 by (simp add: take_node_def)
  have hl: "h < length bs" using Hash_defined [OF d(1), of k] h by (metis option.inject)
  have cs: "set (concat ?bs) = insert i (set (concat bs))" "length (concat ?bs) = Suc (length (concat bs))"
  proof -
    have ms: "mset (concat ?bs) = mset (i # concat bs)" using mset_concat_update [OF hl, of "i # bs ! h"] by simp
    show "set (concat ?bs) = insert i (set (concat bs))" using mset_eq_setD [OF ms] by (simp del: set_concat)
    show "length (concat ?bs) = Suc (length (concat bs))" using mset_eq_length [OF ms] by (simp del: length_concat)
  qed
  have "free ?m3 (F - {i})" by (rule free_nodes [OF 1(3)]) (auto simp: nth_list_update')
  moreover have "(F - {i}) \<inter> set (concat ?bs) = {}" "(F - {i}) \<union> set (concat ?bs) = {..<length (nodes ?m3)}"
    using d(3,4) 1(2) cs(1) l1 by (auto simp del: set_concat)
  moreover have "m_nUseSize ?m3 = of_nat (length (concat ?bs))" using 1(5) d(5) cs(2) by (simp del: length_concat)
  moreover have "m_nTotalSize ?m3 = of_nat (length (nodes ?m3))" "length (nodes ?m3) < 2 ^ 32"
    using ss1 d(6,7) by (simp_all add: same_setup_def)
  ultimately have "store free ?m3 ?bs (F - {i})" using lf(2) m3 unfolding store_def by (simp del: set_concat length_concat)
  moreover have "entries (nodes ?m3) ?bs = (entries (nodes m) bs)(k \<mapsto> n_val ?n)"
  proof (rule entries_insert [OF d(1) bucketsD(4) [OF lf(2) [unfolded m3]] cs(1) il(2)])
    show "n_key (nodes ?m3 ! i) = k" "n_val (nodes ?m3 ! i) = n_val ?n" using il l1 u by simp_all
    show "n_key (nodes ?m3 ! j) = n_key (nodes m ! j) \<and> n_val (nodes ?m3 ! j) = n_val (nodes m ! j)" if "j \<in> set (concat bs)" for j
      using keys [OF that] that il(2) by (cases "j = i") (simp_all add: nth_list_update')
  qed (rule other)
  moreover have "same_setup m ?m3" using ss1 by (simp add: same_setup_def)
  ultimately show ?thesis using run 1(2) il l1 u by (intro exI [of _ i] exI [of _ ?m3] exI [of _ "nodes m1 ! i"]) simp
qed

text \<open>A value written through the pointer that \<open>Add\<close> or \<open>Get\<close> returned.\<close>

lemma write_value:
  assumes st: "store free m bs F" and i: "i \<in> set (concat bs)"
  shows "\<exists>m'. upd_node i (\<lambda>n. n\<lparr>n_val := v\<rparr>) m = Some m' \<and> store free m' bs F \<and>
    entries (nodes m') bs = (entries (nodes m) bs)(n_key (nodes m ! i) \<mapsto> v) \<and> same_setup m m'"
proof -
  note d = storeD [OF st]
  have il: "i < length (nodes m)" "i \<notin> F" using d(3,4) i by blast+
  let ?ns = "(nodes m)[i := (nodes m ! i)\<lparr>n_val := v\<rparr>]" let ?m = "m\<lparr>nodes := ?ns\<rparr>"
  have run: "upd_node i (\<lambda>n. n\<lparr>n_val := v\<rparr>) m = Some ?m" using il by (simp add: upd_node_in)
  have fields: "n_key (?ns ! j) = n_key (nodes m ! j)" "n_next (?ns ! j) = n_next (nodes m ! j)" for j
    by (simp_all add: nth_list_update')
  have ch: "chain ?ns p is = chain (nodes m) p is" for p "is" by (rule chain_cong) (simp_all add: fields)
  have hs: "Hash ?m k = Hash m k" for k by (rule same_setup_Hash) (simp add: same_setup_def)
  have "buckets ?m bs = buckets m bs" unfolding buckets_def by (simp add: ch fields hs del: set_concat)
  then have b: "buckets ?m bs" using d(1) by simp
  have "free ?m F" by (rule free_only_nodes [OF d(2)]) (use il in \<open>auto simp: nth_list_update'\<close>)
  then have "store free ?m bs F" using b d unfolding store_def by (simp del: set_concat length_concat)
  moreover have "entries (nodes ?m) bs = (entries (nodes m) bs)(n_key (nodes m ! i) \<mapsto> v)"
  proof (rule entries_unique [OF bucketsD(4) [OF b]])
    fix j assume j: "j \<in> set (concat bs)"
    show "((entries (nodes m) bs)(n_key (nodes m ! i) \<mapsto> v)) (n_key (nodes ?m ! j)) = Some (n_val (nodes ?m ! j))"
    proof (cases "j = i")
      case False
      then have "n_key (nodes m ! j) \<noteq> n_key (nodes m ! i)" using inj_onD [OF bucketsD(4) [OF d(1)] _ j i] by blast
      then show ?thesis using False fields entries_Some [OF bucketsD(4) [OF d(1)] j] by (simp add: nth_list_update')
    qed (use il fields in simp)
  next
    fix q assume "\<forall>j \<in> set (concat bs). n_key (nodes ?m ! j) \<noteq> q"
    then have "\<forall>j \<in> set (concat bs). n_key (nodes m ! j) \<noteq> q" by (simp add: fields del: set_concat)
    then show "((entries (nodes m) bs)(n_key (nodes m ! i) \<mapsto> v)) q = None"
      using i by (auto simp: entries_None find_None_iff simp del: set_concat)
  qed
  ultimately show ?thesis using run by (intro exI [of _ ?m]) (simp add: same_setup_def)
qed

lemma remove_missing:
  assumes "store free m bs F" "Hash m k = Some h" "entries (nodes m) bs k = None"
  shows "unlink k h m = Some (None, m)"
  using unlink_bucket [OF storeD(1) [OF assms(1)] assms(2)] assms(3) unfolding entries_None by simp

lemma remove_found:
  assumes st: "store free m bs F" and h: "Hash m k = Some h" and e: "entries (nodes m) bs k = Some v"
  shows "\<exists>d m1 m' bs'. unlink k h m = Some (Some d, m1) \<and> n_val (nodes m1 ! d) = v \<and> d < length (nodes m1) \<and> push d m1 = Some m' \<and>
    store free m' bs' (insert d F) \<and> entries (nodes m') bs' = (entries (nodes m) bs)(k := None) \<and> same_setup m m'"
proof -
  note s = storeD [OF st]
  obtain d where fd: "find (\<lambda>i. n_key (nodes m ! i) = k) (concat bs) = Some d" and v: "n_val (nodes m ! d) = v"
    using e by (auto simp: entries_def)
  have hl: "h < length bs" using Hash_defined [OF s(1), of k] h by (metis option.inject)
  let ?bs = "bs[h := remove1 d (bs ! h)]"
  obtain ns B where d: "d \<in> set (bs ! h)" and ul: "unlink k h m = Some (Some d, m\<lparr>nodes := ns, m_pBucket := Some B\<rparr>)"
    "frame (set (bs ! h)) m (m\<lparr>nodes := ns\<rparr>)" "buckets (m\<lparr>nodes := ns, m_pBucket := Some B\<rparr>) ?bs"
    using unlink_bucket [OF s(1) h] unfolding fd by auto
  let ?m1 = "m\<lparr>nodes := ns, m_pBucket := Some B\<rparr>"
  have l: "length ns = length (nodes m)" and kv: "\<And>j. n_key (ns ! j) = n_key (nodes m ! j) \<and> n_val (ns ! j) = n_val (nodes m ! j)"
    and out: "\<And>j. j \<notin> set (bs ! h) \<Longrightarrow> ns ! j = nodes m ! j" using ul(2) by (simp_all add: frame_def same_setup_def)
  have dc: "d \<in> set (concat bs)" "n_key (nodes m ! d) = k" using find_SomeD [OF fd] by blast+
  have dF: "d \<notin> F" "d < length (nodes m)" using dc(1) s(3,4) by blast+
  have "\<forall>j \<in> F. ns ! j = nodes m ! j" using out s(3) bucket_facts(2) [OF s(1) hl] by blast
  then have "free ?m1 F" by (rule free_nodes [OF s(2) l])
  then obtain m' where m': "push d ?m1 = Some m'" "free m' (insert d F)" "frame (insert d F) ?m1 m'" "m_nUseSize m' = m_nUseSize ?m1 - 1"
    using push_node [of ?m1 F d] dF l by auto
  have ms: "mset (d # concat ?bs) = mset (concat bs)" by (rule mset_remove_from_bucket [OF hl d])
  have dis: "d \<notin> set (concat ?bs)" "insert d (set (concat ?bs)) = set (concat bs)" "length (concat bs) = Suc (length (concat ?bs))"
    using mset_eq_imp_distinct_iff [OF ms] bucketsD(3) [OF s(1)] mset_eq_setD [OF ms] mset_eq_length [OF ms]
    by (simp_all del: set_concat length_concat)
  have b': "buckets m' ?bs" by (rule buckets_frame [OF ul(3) m'(3)]) (use dis s(3) in blast)
  have len: "length (nodes m') = length (nodes m)" "m_nTotalSize m' = m_nTotalSize m" and ss: "same_setup m m'"
    using m'(3) l by (simp_all add: frame_def same_setup_def)
  have "store free m' ?bs (insert d F)"
    using b' m'(2,4) dis s(3,4,5,6,7) len unfolding store_def by (auto simp del: set_concat length_concat)
  moreover have "entries (nodes m') ?bs = (entries (nodes m) bs)(k := None)"
  proof (rule entries_unique [OF bucketsD(4) [OF b']])
    have kv': "n_key (nodes m' ! j) = n_key (nodes m ! j)" "n_val (nodes m' ! j) = n_val (nodes m ! j)" for j
      using m'(3) kv by (simp_all add: frame_def)
    fix j assume j: "j \<in> set (concat ?bs)"
    then have j': "j \<in> set (concat bs)" "j \<noteq> d" using dis by blast+
    then have "n_key (nodes m ! j) \<noteq> k" using inj_onD [OF bucketsD(4) [OF s(1)] _ j'(1) dc(1)] dc(2) by auto
    then show "((entries (nodes m) bs)(k := None)) (n_key (nodes m' ! j)) = Some (n_val (nodes m' ! j))"
      using kv' entries_Some [OF bucketsD(4) [OF s(1)] j'(1)] by simp
  next
    fix q assume q: "\<forall>j \<in> set (concat ?bs). n_key (nodes m' ! j) \<noteq> q"
    have kv': "n_key (nodes m' ! j) = n_key (nodes m ! j)" for j using m'(3) kv by (simp add: frame_def)
    show "((entries (nodes m) bs)(k := None)) q = None"
    proof (cases "q = k")
      case False
      then have "\<forall>j \<in> set (concat bs). n_key (nodes m ! j) \<noteq> q" 
        using q dc(2) unfolding kv' dis(2) [symmetric] by (metis insert_iff)
      then show ?thesis using False by (simp add: entries_None find_None_iff del: set_concat)
    qed simp
  qed
  ultimately show ?thesis using ul(1) m'(1) ss v kv dF l
    by (intro exI [of _ d] exI [of _ ?m1] exI [of _ m'] exI [of _ ?bs]) simp
qed

lemma clear_chain_free:
  assumes "free m F" "chain (nodes m) p is" "distinct is" "set is \<inter> F = {}" "length is < fuel"
  shows "\<exists>m'. clear_chain fuel push p m = Some m' \<and> free m' (F \<union> set is) \<and> frame (F \<union> set is) m m' \<and>
    m_nUseSize m' = m_nUseSize m - of_nat (length is)"
  using assms
proof (induction "is" arbitrary: m F p fuel)
  case Nil
  then show ?case by (cases fuel) (auto simp: frame_def same_setup_def)
next
  case (Cons d "is")
  then obtain f where f: "fuel = Suc f" by (cases fuel) auto
  have d: "p = Some d" "d < length (nodes m)" "chain (nodes m) (n_next (nodes m ! d)) is" "d \<notin> F" "d \<notin> set is" "set is \<inter> F = {}" "distinct is"
    using Cons.prems by auto
  let ?m1 = "m\<lparr>nodes := (nodes m)[d := (nodes m ! d)\<lparr>n_next := None\<rparr>]\<rparr>"
  have fr1: "frame {d} m ?m1" by (auto simp: frame_def same_setup_def nth_list_update')
  have "\<forall>i \<in> F. nodes ?m1 ! i = nodes m ! i" using d(4) by (auto simp: nth_list_update')
  then have "free ?m1 F" by (intro free_only_nodes [OF Cons.prems(1)]) simp_all
  then obtain m2 where m2: "push d ?m1 = Some m2" "free m2 (insert d F)" "frame (insert d F) ?m1 m2" "m_nUseSize m2 = m_nUseSize m - 1"
    using push_node [of ?m1 F d] d by auto
  have fr2: "frame (insert d F) m m2" using fr1 m2(3) by (auto simp: frame_def same_setup_def)
  have "chain (nodes m2) (n_next (nodes m ! d)) is = chain (nodes m) (n_next (nodes m ! d)) is"
  proof (rule chain_cong)
    fix i assume "i \<in> set is"
    then have "i \<notin> insert d F" using d by blast
    then show "n_next (nodes m2 ! i) = n_next (nodes m ! i)" using fr2 by (simp add: frame_def)
  qed (use fr2 in \<open>simp add: frame_def same_setup_def\<close>)
  then obtain m' where m': "clear_chain f push (n_next (nodes m ! d)) m2 = Some m'" "free m' (insert d F \<union> set is)"
    "frame (insert d F \<union> set is) m2 m'" "m_nUseSize m' = m_nUseSize m2 - of_nat (length is)"
    using Cons.IH [OF m2(2), of "n_next (nodes m ! d)" f] d Cons.prems(5) f by auto
  have "clear_chain fuel push p m = Some m'" using m'(1) m2(1) d(1,2) by (simp add: f upd_node_in)
  moreover have "frame (F \<union> set (d # is)) m m'" using fr2 m'(3) by (auto simp: frame_def same_setup_def)
  ultimately show ?case using m'(2,4) m2(4) by (simp add: algebra_simps)
qed

lemma clear_bucket:
  assumes st: "store free m bs F" and h: "h < length bs"
  shows "\<exists>p m1 m'. bucket_of m h = Some p \<and> clear_chain (fuel_of m) push p m = Some m1 \<and> set_bucket h None m1 = Some m' \<and>
    store free m' (bs[h := []]) (F \<union> set (bs ! h)) \<and> same_setup m m'"
proof -
  note d = storeD [OF st]
  obtain B where B: "m_pBucket m = Some B" "length B = length bs" "\<forall>h<length bs. chain (nodes m) (B ! h) (bs ! h)"
    by (rule buckets_obtain [OF d(1)])
  note bf = bucket_facts [OF d(1) h]
  have disj: "set (bs ! h) \<inter> F = {}" using bf(2) d(3) by blast
  obtain m1 where m1: "clear_chain (fuel_of m) push (B ! h) m = Some m1" "free m1 (F \<union> set (bs ! h))" "frame (F \<union> set (bs ! h)) m m1"
    "m_nUseSize m1 = m_nUseSize m - of_nat (length (bs ! h))"
    using clear_chain_free [OF d(2) _ bf(1) disj bf(3)] B(3) h by blast
  let ?m = "m1\<lparr>m_pBucket := Some (B[h := None])\<rparr>" let ?bs = "bs[h := []]"
  have run: "set_bucket h None m1 = Some ?m" using m1(3) B h by (simp add: set_bucket_def frame_def)
  have ss: "same_setup m ?m" using m1(3) by (simp add: frame_def same_setup_def)
  have b: "buckets ?m ?bs"
  proof (rule buckets_replace [OF d(1) h B(1,2) ss])
    show "n_key (nodes ?m ! i) = n_key (nodes m ! i)" for i using m1(3) by (simp add: frame_def)
    show "nodes ?m ! i = nodes m ! i" if "i \<in> set (concat bs)" "i \<notin> set (bs ! h)" for i
    proof -
      have "i \<notin> F \<union> set (bs ! h)" using that d(3) by blast
      then show ?thesis using m1(3) by (simp add: frame_def)
    qed
  qed simp_all
  have ms: "mset (concat ?bs) + mset (bs ! h) = mset (concat bs)" using mset_concat_update [OF h, of "[]"] by simp
  have len: "length (concat bs) = length (concat ?bs) + length (bs ! h)"
    using arg_cong [OF ms, of size] by (simp only: size_union size_mset)
  have un: "set (concat bs) = set (concat ?bs) \<union> set (bs ! h)"
    using arg_cong [OF ms, of set_mset] by (simp only: set_mset_union set_mset_mset)
  have dis: "set (concat ?bs) \<inter> set (bs ! h) = {}"
  proof (rule equals0I)
    fix i assume "i \<in> set (concat ?bs) \<inter> set (bs ! h)"
    then obtain q where q: "q < length bs" "i \<in> set (?bs ! q)" "i \<in> set (bs ! h)" using concat_nth [of i ?bs] by auto
    then have "q \<noteq> h" using h by auto
    then show False using q concat_disjoint [OF bucketsD(3) [OF d(1)] q(1) h] by auto
  qed
  have "free ?m (F \<union> set (bs ! h))" using free_nodes [OF m1(2), of "nodes m1"] by simp
  moreover have "(F \<union> set (bs ! h)) \<inter> set (concat ?bs) = {}" "(F \<union> set (bs ! h)) \<union> set (concat ?bs) = {..<length (nodes m)}"
    using d(3,4) un dis by blast+
  moreover have "m_nUseSize ?m = of_nat (length (concat ?bs))" using m1(4) d(5) len by (simp del: length_concat)
  ultimately have "store free ?m ?bs (F \<union> set (bs ! h))"
    using b d(6,7) ss unfolding store_def same_setup_def by (simp del: set_concat length_concat)
  then show ?thesis using run m1(1) B h ss by (auto simp: bucket_of_def)
qed

lemma clear_buckets_store:
  assumes "store free m bs F" "set hs \<subseteq> {..<length bs}"
  shows "\<exists>m' bs' F'. clear_buckets push hs m = Some m' \<and> store free m' bs' F' \<and> length bs' = length bs \<and> same_setup m m' \<and>
    (\<forall>h<length bs. h \<in> set hs \<or> bs ! h = [] \<longrightarrow> bs' ! h = [])"
  using assms
proof (induction hs arbitrary: m bs F)
  case Nil
  then show ?case by (intro exI [of _ m] exI [of _ bs] exI [of _ F]) (simp add: same_setup_def)
next
  case (Cons h hs)
  obtain p m1 m2 where 1: "bucket_of m h = Some p" "clear_chain (fuel_of m) push p m = Some m1" "set_bucket h None m1 = Some m2"
    "store free m2 (bs[h := []]) (F \<union> set (bs ! h))" "same_setup m m2"
    using clear_bucket [OF Cons.prems(1), of h] Cons.prems(2) by auto
  obtain m' bs' F' where 2: "clear_buckets push hs m2 = Some m'" "store free m' bs' F'" "length bs' = length bs" "same_setup m2 m'"
    "\<forall>q<length bs. q \<in> set hs \<or> bs[h := []] ! q = [] \<longrightarrow> bs' ! q = []"
    using Cons.IH [OF 1(4)] Cons.prems(2) by auto
  have "\<forall>q<length bs. q \<in> set (h # hs) \<or> bs ! q = [] \<longrightarrow> bs' ! q = []" using 2(5) by (auto simp: nth_list_update')
  moreover have "clear_buckets push (h # hs) m = Some m'" using 1 2(1) by simp
  ultimately show ?case using 2(2,3) same_setup_trans [OF 1(5) 2(4)] by blast
qed

lemma clear_all:
  assumes "store free m bs F"
  shows "\<exists>m' bs' F'. clear_with push m = Some m' \<and> store free m' bs' F' \<and> entries (nodes m') bs' = Map.empty \<and> same_setup m m'"
proof -
  note d = storeD [OF assms]
  let ?m = "m\<lparr>m_pNextNode := None\<rparr>"
  have b: "buckets ?m bs" by (rule buckets_outside [OF d(1)]) (simp_all add: same_setup_def)
  have "free ?m F"
    using free_frame [OF d(2), where ns = "nodes m" and B = "m_pBucket m" and c = "m_nCurBucket m" and q = None] by simp
  then have "store free ?m bs F" using b d unfolding store_def by (simp del: set_concat length_concat)
  moreover have sub: "set [0..<unat (m_nBuckets m)] \<subseteq> {..<length bs}" using bucketsD(1) [OF d(1)] by auto
  ultimately obtain m' bs' F' where m': "clear_buckets push [0..<unat (m_nBuckets m)] ?m = Some m'" "store free m' bs' F'"
    "length bs' = length bs" "same_setup ?m m'" "\<forall>h<length bs. h \<in> set [0..<unat (m_nBuckets m)] \<or> bs ! h = [] \<longrightarrow> bs' ! h = []"
    using clear_buckets_store [of ?m bs F "[0..<unat (m_nBuckets m)]"] sub by blast
  have "concat bs' = []"
    using m'(3,5) bucketsD(1) [OF d(1)] by (auto simp: in_set_conv_nth)
  then have "entries (nodes m') bs' = Map.empty" by (intro ext) (simp add: entries_def del: concat_eq_Nil_conv)
  then show ?thesis using m' by (auto simp: clear_with_def same_setup_def)
qed

end

section \<open>Walking\<close>

text \<open>\<open>for (p = Begin(); p; p = Next()) ...\<close>: the nodes visited.\<close>

fun walk :: "nat \<Rightarrow> nat option \<times> ('k, 'v, 'z) hashmap_scheme \<Rightarrow> nat list option" where
  "walk 0 r = None"
| "walk (Suc fuel) (None, m) = Some []"
| "walk (Suc fuel) (Some i, m) = do { r \<leftarrow> Next m; is \<leftarrow> walk fuel r; Some (i # is) }"

lemma buckets_cursor: "buckets (m\<lparr>m_nCurBucket := c\<rparr>) bs = buckets m bs" "buckets (m\<lparr>m_pNextNode := q\<rparr>) bs = buckets m bs"
proof -
  show "buckets (m\<lparr>m_nCurBucket := c\<rparr>) bs = buckets m bs"
    by (rule iffI; rule buckets_outside, assumption) (simp_all add: same_setup_def)
  show "buckets (m\<lparr>m_pNextNode := q\<rparr>) bs = buckets m bs"
    by (rule iffI; rule buckets_outside, assumption) (simp_all add: same_setup_def)
qed

lemma seek_buckets:
  assumes "buckets m bs" "h \<le> length bs"
  shows "\<exists>p m'. seek [h..<length bs] m = Some (p, m') \<and> buckets m' bs \<and> m_nBuckets m' = m_nBuckets m \<and>
    (case p of None \<Rightarrow> concat (drop h bs) = []
     | Some x \<Rightarrow> \<exists>c xs. c < length bs \<and> m_nCurBucket m' = of_nat c \<and> chain (nodes m') (m_pNextNode m') xs \<and>
         concat (drop h bs) = x # xs @ concat (drop (Suc c) bs))"
  using assms
proof (induction "length bs - h" arbitrary: h m)
  case 0
  then show ?case by simp
next
  case (Suc n)
  then have h: "h < length bs" "[h..<length bs] = h # [Suc h..<length bs]" by (auto simp: upt_conv_Cons)
  obtain B where B: "m_pBucket m = Some B" "length B = length bs" "\<forall>h<length bs. chain (nodes m) (B ! h) (bs ! h)"
    by (rule buckets_obtain [OF Suc.prems(1)])
  have bo: "bucket_of m h = Some (B ! h)" using B h by (simp add: bucket_of_def)
  have ch: "chain (nodes m) (B ! h) (bs ! h)" using B h by blast
  have dr: "drop h bs = bs ! h # drop (Suc h) bs" using h(1) by (simp add: Cons_nth_drop_Suc)
  show ?case
  proof (cases "bs ! h")
    case Nil
    then have p: "B ! h = None" using ch by simp
    let ?m = "m\<lparr>m_nCurBucket := of_nat h + 1\<rparr>"
    have "seek [h..<length bs] m = seek [Suc h..<length bs] ?m" unfolding h(2) using bo p by (simp add: Let_def)
    moreover have "buckets ?m bs" using Suc.prems(1) by (simp only: buckets_cursor)
    moreover have cd: "concat (drop h bs) = concat (drop (Suc h) bs)" using dr Nil by simp
    moreover have "n = length bs - Suc h" "Suc h \<le> length bs" using Suc.hyps(2) h(1) by auto
    ultimately show ?thesis using Suc.hyps(1) [of "Suc h" ?m] unfolding cd by simp
  next
    case (Cons x xs)
    then have x: "B ! h = Some x" "x < length (nodes m)" "chain (nodes m) (n_next (nodes m ! x)) xs" using ch by auto
    let ?m = "m\<lparr>m_nCurBucket := of_nat h, m_pNextNode := n_next (nodes m ! x)\<rparr>"
    have "seek [h..<length bs] m = Some (Some x, ?m)" unfolding h(2) using bo x by (simp add: Let_def)
    moreover have "buckets ?m bs" using Suc.prems(1) by (simp only: buckets_cursor)
    ultimately show ?thesis using x(3) h(1) dr Cons by (auto intro!: exI [of _ h] exI [of _ xs])
  qed
qed

lemma walk_from:
  assumes "buckets m bs" "c < length bs" "m_nCurBucket m = of_nat c" "chain (nodes m) (m_pNextNode m) xs"
  shows "\<exists>r. Next m = Some r \<and> walk (Suc (length (xs @ concat (drop (Suc c) bs)))) r = Some (xs @ concat (drop (Suc c) bs))"
  using assms
proof (induction "length (xs @ concat (drop (Suc c) bs))" arbitrary: m c xs rule: less_induct)
  case less
  show ?case
  proof (cases xs)
    case (Cons y ys)
    let ?m = "m\<lparr>m_pNextNode := n_next (nodes m ! y)\<rparr>"
    have y: "m_pNextNode m = Some y" "y < length (nodes m)" "chain (nodes ?m) (m_pNextNode ?m) ys" using less.prems(4) Cons by auto
    have b: "buckets ?m bs" using less.prems(1) by (simp only: buckets_cursor)
    obtain r where "Next ?m = Some r" "walk (Suc (length (ys @ concat (drop (Suc c) bs)))) r = Some (ys @ concat (drop (Suc c) bs))"
      using less.hyps [OF _ b less.prems(2) _ y(3)] less.prems(3) Cons by auto
    then show ?thesis using y(1,2) Cons by (simp add: Next_def del: length_concat)
  next
    case Nil
    let ?h = "Suc c" and ?m = "m\<lparr>m_nCurBucket := m_nCurBucket m + 1\<rparr>"
    have n: "length bs = unat (m_nBuckets m)" by (rule bucketsD(1) [OF less.prems(1)])
    have cur: "m_nCurBucket m + 1 = of_nat ?h" using less.prems(3) by simp
    have "unat (m_nBuckets m) < 2 ^ LENGTH(32)" by (rule unsigned_less)
    then have u: "unat (m_nCurBucket m + 1) = ?h" unfolding cur unat_of_nat using less.prems(2) n by simp
    have b: "buckets ?m bs" using less.prems(1) by (simp only: buckets_cursor)
    obtain p m' where sk: "seek [?h..<length bs] ?m = Some (p, m')" "buckets m' bs"
      "case p of None \<Rightarrow> concat (drop ?h bs) = []
       | Some x \<Rightarrow> \<exists>c xs. c < length bs \<and> m_nCurBucket m' = of_nat c \<and> chain (nodes m') (m_pNextNode m') xs \<and>
           concat (drop ?h bs) = x # xs @ concat (drop (Suc c) bs)"
      using seek_buckets [OF b, of ?h] less.prems(2) by auto
    have nx: "Next m = Some (p, m')" using less.prems(4) Nil sk(1) n u by (simp add: Next_def Let_def)
    show ?thesis
    proof (cases p)
      case None
      then show ?thesis using nx sk(3) Nil by (simp del: length_concat concat_eq_Nil_conv)
    next
      case (Some x)
      then obtain d ys where d: "d < length bs" "m_nCurBucket m' = of_nat d" "chain (nodes m') (m_pNextNode m') ys"
        "concat (drop ?h bs) = x # ys @ concat (drop (Suc d) bs)" using sk(3) by auto
      obtain r where "Next m' = Some r" "walk (Suc (length (ys @ concat (drop (Suc d) bs)))) r = Some (ys @ concat (drop (Suc d) bs))"
        using less.hyps [OF _ sk(2) d(1-3)] d(4) Nil by auto
      then show ?thesis using nx Some Nil d(4) by (simp del: length_concat)
    qed
  qed
qed

lemma walk_all:
  assumes "buckets m bs"
  shows "\<exists>r. Begin m = Some r \<and> walk (Suc (length (concat bs))) r = Some (concat bs)"
proof -
  let ?m = "m\<lparr>m_nCurBucket := 0\<rparr>"
  have b: "buckets ?m bs" using assms by (simp only: buckets_cursor)
  obtain p m' where sk: "seek [0..<length bs] ?m = Some (p, m')" "buckets m' bs"
    "case p of None \<Rightarrow> concat bs = []
     | Some x \<Rightarrow> \<exists>c xs. c < length bs \<and> m_nCurBucket m' = of_nat c \<and> chain (nodes m') (m_pNextNode m') xs \<and>
         concat bs = x # xs @ concat (drop (Suc c) bs)"
    using seek_buckets [OF b, of 0, unfolded drop_0] by auto
  have bg: "Begin m = Some (p, m')" using sk(1) bucketsD(1) [OF assms] by (simp add: Begin_def)
  show ?thesis
  proof (cases p)
    case None
    then show ?thesis using bg sk(3) by (simp del: length_concat concat_eq_Nil_conv)
  next
    case (Some x)
    then obtain d ys where d: "d < length bs" "m_nCurBucket m' = of_nat d" "chain (nodes m') (m_pNextNode m') ys"
      "concat bs = x # ys @ concat (drop (Suc d) bs)" using sk(3) by auto
    show ?thesis using walk_from [OF sk(2) d(1-3)] bg Some d(4) by (auto simp del: length_concat)
  qed
qed

text \<open>Every entry is visited exactly once.\<close>

lemma walk_entries:
  assumes "holds free m (e, cap)"
  shows "\<exists>r is. Begin m = Some r \<and> walk (Suc (card (dom e))) r = Some is \<and>
    distinct (map (\<lambda>i. n_key (nodes m ! i)) is) \<and> set (map (\<lambda>i. n_key (nodes m ! i)) is) = dom e"
proof -
  obtain bs F where st: "store free m bs F" and e: "entries (nodes m) bs = e" using assms by (auto simp: holds_def)
  note b = storeD(1) [OF st]
  obtain r where r: "Begin m = Some r" "walk (Suc (length (concat bs))) r = Some (concat bs)" using walk_all [OF b] by blast
  have "length (concat bs) = card (dom e)" using entries_card [OF b] e by simp
  moreover have "distinct (map (\<lambda>i. n_key (nodes m ! i)) (concat bs))"
    unfolding distinct_map using bucketsD(3,4) [OF b] by blast
  moreover have "set (map (\<lambda>i. n_key (nodes m ! i)) (concat bs)) = dom e" unfolding e [symmetric] entries_dom set_map ..
  ultimately show ?thesis using r by (intro exI [of _ r] exI [of _ "concat bs"]) (simp del: set_concat length_concat)
qed

end
