(* ===== verification/Hash_Spec.thy ===== *)
theory Hash_Spec
  imports Main
begin

text \<open>
  What a hash map of \<open>shstd\<close> promises: a finite map with a fixed capacity.  The two classes differ in what they do
  when a key is already there: \<open>SHHaspMap::Add\<close> refuses it, \<open>CTHaspMap::Set\<close> overwrites the value.
\<close>

datatype ('k, 'v) hm_op = Put 'k 'v | Look 'k | Drop 'k | Wipe | Count

datatype 'v hm_result = Code int | Found "'v option" | Num nat

abbreviation HM_OK :: int where "HM_OK \<equiv> 0"
abbreviation HM_NO_RECORD :: int where "HM_NO_RECORD \<equiv> 1081"
abbreviation HM_NO_MEMORY :: int where "HM_NO_MEMORY \<equiv> 1082"
abbreviation HM_NOT_INIT :: int where "HM_NOT_INIT \<equiv> 1083"
abbreviation HM_HASH_MAX_CNT :: int where "HM_HASH_MAX_CNT \<equiv> 1084"
abbreviation HM_RECORD_EXIST :: int where "HM_RECORD_EXIST \<equiv> 1085"
abbreviation HM_INTERNAL_ERR :: int where "HM_INTERNAL_ERR \<equiv> 1086"

definition spec_step :: "bool \<Rightarrow> ('k, 'v) hm_op \<Rightarrow> ('k \<rightharpoonup> 'v) \<times> nat \<Rightarrow> 'v hm_result \<times> (('k \<rightharpoonup> 'v) \<times> nat)" where
  "spec_step overwrite op = (\<lambda>(e, cap).
     case op of
       Put k v \<Rightarrow>
         if e k \<noteq> None
         then (if overwrite then (Code HM_OK, (e(k \<mapsto> v), cap)) else (Code HM_RECORD_EXIST, (e, cap)))
         else if card (dom e) \<ge> cap then (Code HM_NO_MEMORY, (e, cap))
         else (Code HM_OK, (e(k \<mapsto> v), cap))
     | Look k \<Rightarrow> (Found (e k), (e, cap))
     | Drop k \<Rightarrow> if e k = None then (Code HM_NO_RECORD, (e, cap)) else (Code HM_OK, (e(k := None), cap))
     | Wipe \<Rightarrow> (Code HM_OK, (Map.empty, cap))
     | Count \<Rightarrow> (Num (card (dom e)), (e, cap)))"

text \<open>Sequences of operations, on the specification and on an implementation.\<close>

fun spec_run :: "('op \<Rightarrow> 'a \<Rightarrow> 'r \<times> 'a) \<Rightarrow> 'op list \<Rightarrow> 'a \<Rightarrow> 'r list \<times> 'a" where
  "spec_run step [] a = ([], a)"
| "spec_run step (op # ops) a =
     (let (r, a1) = step op a; (rs, a2) = spec_run step ops a1 in (r # rs, a2))"

fun impl_run :: "('op \<Rightarrow> 's \<Rightarrow> ('r \<times> 's) option) \<Rightarrow> 'op list \<Rightarrow> 's \<Rightarrow> ('r list \<times> 's) option" where
  "impl_run step [] s = Some ([], s)"
| "impl_run step (op # ops) s =
     (case step op s of None \<Rightarrow> None | Some (r, s1) \<Rightarrow>
      case impl_run step ops s1 of None \<Rightarrow> None | Some (rs, s2) \<Rightarrow> Some (r # rs, s2))"

text \<open>
  A data refinement: one step of the implementation is defined, gives the result of the specification and leads
  to related states again, for the operations that \<open>ok\<close> admits.
\<close>

locale guarded_refinement =
  fixes impl :: "'op \<Rightarrow> 's \<Rightarrow> ('r \<times> 's) option" and spec :: "'op \<Rightarrow> 'a \<Rightarrow> 'r \<times> 'a" and rel :: "'s \<Rightarrow> 'a \<Rightarrow> bool"
    and ok :: "'op \<Rightarrow> bool"
  assumes guarded_step: "ok op \<Longrightarrow> rel s a \<Longrightarrow> \<exists>s'. impl op s = Some (fst (spec op a), s') \<and> rel s' (snd (spec op a))"
begin

lemma guarded_run:
  "\<forall>op \<in> set ops. ok op \<Longrightarrow> rel s a \<Longrightarrow>
   \<exists>s'. impl_run impl ops s = Some (fst (spec_run spec ops a), s') \<and> rel s' (snd (spec_run spec ops a))"
proof (induction ops arbitrary: s a)
  case (Cons op ops)
  have "ok op" "\<forall>op \<in> set ops. ok op" using Cons.prems(1) by simp_all
  obtain s1 where 1: "impl op s = Some (fst (spec op a), s1)" "rel s1 (snd (spec op a))"
    using guarded_step [OF \<open>ok op\<close> Cons.prems(2)] by blast
  obtain s2 where "impl_run impl ops s1 = Some (fst (spec_run spec ops (snd (spec op a))), s2)"
    "rel s2 (snd (spec_run spec ops (snd (spec op a))))"
    using Cons.IH [OF \<open>\<forall>op \<in> set ops. ok op\<close> 1(2)] by blast
  then show ?case using 1(1) by (simp add: Let_def split_beta)
qed simp

end

text \<open>The same for all operations.\<close>

locale refinement =
  fixes impl :: "'op \<Rightarrow> 's \<Rightarrow> ('r \<times> 's) option" and spec :: "'op \<Rightarrow> 'a \<Rightarrow> 'r \<times> 'a" and rel :: "'s \<Rightarrow> 'a \<Rightarrow> bool"
  assumes step: "rel s a \<Longrightarrow> \<exists>s'. impl op s = Some (fst (spec op a), s') \<and> rel s' (snd (spec op a))"

sublocale refinement \<subseteq> guarded_refinement impl spec rel "\<lambda>op. True"
  by unfold_locales (rule step)

context refinement
begin

lemma run: "rel s a \<Longrightarrow> \<exists>s'. impl_run impl ops s = Some (fst (spec_run spec ops a), s') \<and> rel s' (snd (spec_run spec ops a))"
  using guarded_run [of ops s a] by simp

lemma results: "rel s a \<Longrightarrow> map_option fst (impl_run impl ops s) = Some (fst (spec_run spec ops a))"
  using run [of s a ops] by auto

end

end
