(* ===== verification/Hash_Map.thy ===== *)
theory Hash_Map
  imports Hash_Pool Hash_Spec
begin

text \<open>
  \<open>SHHaspMap\<close> of \<open>shhashmap.h\<close>: the free nodes are a doubly linked list, taken from its tail and put back at its
  head.  \<open>Add\<close> returns the address of a value that the caller then fills in.
\<close>

record ('k, 'v) SHHaspMap = "('k, 'v) hashmap" +
  lst_head :: "nat option"
  lst_tail :: "nat option"

section \<open>The free list\<close>

definition PopNode :: "('k, 'v) SHHaspMap \<Rightarrow> (nat option \<times> ('k, 'v) SHHaspMap) option" where
  "PopNode m =
     (case lst_tail m of
        None \<Rightarrow> Some (None, m)
      | Some p \<Rightarrow> do {
          n \<leftarrow> rd (nodes m) p;
          m1 \<leftarrow> upd_node p (\<lambda>x. x\<lparr>n_next := None, n_prev := None\<rparr>) (m\<lparr>lst_tail := n_prev n\<rparr>);
          let m2 = (if lst_tail m1 = None then m1\<lparr>lst_head := None\<rparr> else m1);
          Some (Some p, m2\<lparr>m_nUseSize := m_nUseSize m2 + 1\<rparr>)
        })"

definition PushNode :: "nat option \<Rightarrow> ('k, 'v) SHHaspMap \<Rightarrow> ('k, 'v) SHHaspMap option" where
  "PushNode node m =
     (case node of
        None \<Rightarrow> Some m
      | Some p \<Rightarrow> do {
          m1 \<leftarrow>
            (case lst_head m of
               None \<Rightarrow> upd_node p (\<lambda>x. x\<lparr>n_next := None, n_prev := None\<rparr>) (m\<lparr>lst_head := Some p, lst_tail := Some p\<rparr>)
             | Some h \<Rightarrow> do {
                 m1 \<leftarrow> upd_node p (\<lambda>x. x\<lparr>n_next := Some h, n_prev := None\<rparr>) m;
                 m2 \<leftarrow> upd_node h (\<lambda>x. x\<lparr>n_prev := Some p\<rparr>) m1;
                 Some (m2\<lparr>lst_head := Some p\<rparr>)
               });
          Some (m1\<lparr>m_nUseSize := m_nUseSize m1 - 1\<rparr>)
        })"

section \<open>The map\<close>

text \<open>The constructor sets what it sets and leaves the rest of the object's memory.\<close>

definition SHHaspMap_new :: "('k, 'v) SHHaspMap \<Rightarrow> ('k, 'v) SHHaspMap" where
  "SHHaspMap_new mem = mem\<lparr>m_pMyHash := None, m_pBucket := None, m_nBuckets := 0, lst_head := None, lst_tail := None\<rparr>"

fun push_all :: "nat list \<Rightarrow> ('k, 'v) SHHaspMap \<Rightarrow> ('k, 'v) SHHaspMap option" where
  "push_all [] m = Some m"
| "push_all (p # ps) m = do { m1 \<leftarrow> PushNode (Some p) m; push_all ps m1 }"

text \<open>\<open>Init\<close>; \<open>fresh\<close> is what a newly allocated node holds.  \<open>size < 0\<close> never holds for an unsigned \<open>size\<close>.\<close>

definition Init ::
  "32 word \<Rightarrow> ('k \<Rightarrow> 32 word) option \<Rightarrow> 32 word \<Rightarrow> ('k, 'v) CHNode \<Rightarrow> ('k, 'v) SHHaspMap \<Rightarrow> (int \<times> ('k, 'v) SHHaspMap) option" where
  "Init sz pHash bucketCnt fresh m =
     (if sz > 5 * bucketCnt then Some (-2, m)
      else if pHash = None then Some (-3, m)
      else do {
        let m1 = m\<lparr>m_nTotalSize := sz, m_nBuckets := bucketCnt, m_pMyHash := pHash,
                   nodes := nodes m @ replicate (unat sz) fresh\<rparr>;
        m2 \<leftarrow> push_all [length (nodes m)..<length (nodes m) + unat sz] m1;
        Some (0, m2\<lparr>m_nUseSize := 0, m_pBucket := Some (replicate (unat bucketCnt) None)\<rparr>)
      })"

text \<open>\<open>Add\<close>: the code, the pointer, the map.  The second bound on the length of the chain is never reached, because
  the first one is tested before it.\<close>

definition add_node :: "'k \<Rightarrow> nat \<Rightarrow> ('k, 'v) SHHaspMap \<Rightarrow> (int \<times> nat option \<times> ('k, 'v) SHHaspMap) option" where
  "add_node k h m =
     do {
       (p, m') \<leftarrow> take_node PopNode (\<lambda>n. n\<lparr>n_key := k\<rparr>) h m;
       (case p of None \<Rightarrow> Some (HM_NO_MEMORY, None, m') | Some i \<Rightarrow> Some (HM_OK, Some i, m'))
     }"

definition Add :: "'k \<Rightarrow> nat option \<Rightarrow> ('k, 'v) SHHaspMap \<Rightarrow> (int \<times> nat option \<times> ('k, 'v) SHHaspMap) option" where
  "Add k pVal m =
     do {
       h \<leftarrow> Hash m k;
       if m_pBucket m = None then Some (HM_NOT_INIT, pVal, m)
       else if pVal \<noteq> None then Some (HM_INTERNAL_ERR, pVal, m)
       else do {
         r \<leftarrow> scan_bucket k h m;
         (case r of
            Inl i \<Rightarrow> Some (HM_RECORD_EXIST, pVal, m)
          | Inr nKCnt \<Rightarrow>
              if nKCnt > 100 then add_node k h m
              else if nKCnt > 1000 then Some (HM_HASH_MAX_CNT, pVal, m)
              else add_node k h m)
       }
     }"

definition Del :: "'k \<Rightarrow> ('k, 'v) SHHaspMap \<Rightarrow> (int \<times> ('k, 'v) SHHaspMap) option" where
  "Del k m =
     do {
       h \<leftarrow> Hash m k;
       (d, m1) \<leftarrow> unlink k h m;
       (case d of
          None \<Rightarrow> Some (HM_NO_RECORD, m1)
        | Some i \<Rightarrow> do { m2 \<leftarrow> PushNode (Some i) m1; Some (HM_OK, m2) })
     }"

definition Clear :: "('k, 'v) SHHaspMap \<Rightarrow> ('k, 'v) SHHaspMap option" where
  "Clear m = clear_with (\<lambda>p. PushNode (Some p)) m"

text \<open>The operations as a client uses them: a value is written through the pointer that \<open>Add\<close> returns and read
  through the one that \<open>Get\<close> returns.\<close>

definition SHHaspMap_delete :: "('k, 'v) SHHaspMap \<Rightarrow> nat list option" where
  "SHHaspMap_delete m = delete_nodes (lst_head m) m"

definition sh_step :: "('k, 'v) hm_op \<Rightarrow> ('k, 'v) SHHaspMap \<Rightarrow> ('v hm_result \<times> ('k, 'v) SHHaspMap) option" where
  "sh_step op m =
     (case op of
        Put k v \<Rightarrow> do {
          (c, p, m') \<leftarrow> Add k None m;
          (case p of
             None \<Rightarrow> Some (Code c, m')
           | Some i \<Rightarrow> do { m'' \<leftarrow> upd_node i (\<lambda>n. n\<lparr>n_val := v\<rparr>) m'; Some (Code c, m'') })
        }
      | Look k \<Rightarrow> do {
          p \<leftarrow> Get k m;
          (case p of
             None \<Rightarrow> Some (Found None, m)
           | Some i \<Rightarrow> do { n \<leftarrow> rd (nodes m) i; Some (Found (Some (n_val n)), m) })
        }
      | Drop k \<Rightarrow> do { (c, m') \<leftarrow> Del k m; Some (Code c, m') }
      | Wipe \<Rightarrow> do { m' \<leftarrow> Clear m; Some (Code HM_OK, m') }
      | Count \<Rightarrow> Some (Num (unat (Size m)), m))"

section \<open>The free list is a pool of nodes\<close>

fun back_chain :: "('k, 'v) CHNode list \<Rightarrow> nat option \<Rightarrow> nat list \<Rightarrow> bool" where
  "back_chain ns p [] \<longleftrightarrow> p = None"
| "back_chain ns p (i # is) \<longleftrightarrow> p = Some i \<and> i < length ns \<and> back_chain ns (n_prev (ns ! i)) is"

definition sh_free :: "('k, 'v) SHHaspMap \<Rightarrow> nat set \<Rightarrow> bool" where
  "sh_free m F \<longleftrightarrow> (\<exists>fl. distinct fl \<and> set fl = F \<and> back_chain (nodes m) (lst_tail m) (rev fl) \<and>
     lst_head m = (if fl = [] then None else Some (hd fl)))"

lemma back_chain_cong:
  assumes "length ns' = length ns" "\<And>i. i \<in> set is \<Longrightarrow> n_prev (ns' ! i) = n_prev (ns ! i)"
  shows "back_chain ns' p is = back_chain ns p is"
  using assms(2)
proof (induction "is" arbitrary: p)
  case (Cons i "is")
  have e: "n_prev (ns' ! i) = n_prev (ns ! i)" by (rule Cons.prems) simp
  have "back_chain ns' q is = back_chain ns q is" for q by (rule Cons.IH, rule Cons.prems) simp
  then show ?case by (simp only: back_chain.simps assms(1) e)
qed simp

lemma back_chain_in: "back_chain ns p is \<Longrightarrow> i \<in> set is \<Longrightarrow> i < length ns"
  by (induction "is" arbitrary: p) auto

text \<open>A new last node of a chain that ends in \<open>h\<close>.\<close>

lemma back_chain_extend:
  assumes "back_chain ns p (xs @ [h])" "distinct (xs @ [h])" "q \<notin> set (xs @ [h])" "q < length ns" "length ns' = length ns"
    and "\<And>i. i \<in> set xs \<Longrightarrow> n_prev (ns' ! i) = n_prev (ns ! i)" "n_prev (ns' ! h) = Some q" "n_prev (ns' ! q) = None"
  shows "back_chain ns' p (xs @ [h, q])"
  using assms
proof (induction xs arbitrary: p)
  case (Cons x xs)
  have e: "n_prev (ns' ! x) = n_prev (ns ! x)" by (rule Cons.prems(6)) simp
  have "back_chain ns' (n_prev (ns ! x)) (xs @ [h, q])"
    by (rule Cons.IH) (use Cons.prems in simp_all)
  then show ?case using Cons.prems(1,5) e by simp
qed simp

lemma sh_pop_empty: "sh_free m {} \<Longrightarrow> PopNode m = Some (None, m)"
  by (auto simp: sh_free_def PopNode_def)

lemma sh_pop_node:
  assumes "sh_free m F" "F \<noteq> {}"
  shows "\<exists>p m'. PopNode m = Some (Some p, m') \<and> p \<in> F \<and> sh_free m' (F - {p}) \<and> frame F m m' \<and> m_nUseSize m' = m_nUseSize m + 1"
proof -
  obtain fl where fl: "distinct fl" "set fl = F" "back_chain (nodes m) (lst_tail m) (rev fl)" "lst_head m = (if fl = [] then None else Some (hd fl))"
    using assms(1) by (auto simp: sh_free_def)
  then obtain gl p where gl: "fl = gl @ [p]" using assms(2) by (cases fl rule: rev_cases) auto
  have p: "lst_tail m = Some p" "p < length (nodes m)" "back_chain (nodes m) (n_prev (nodes m ! p)) (rev gl)" using fl(3) gl by auto
  let ?ns = "(nodes m)[p := (nodes m ! p)\<lparr>n_next := None, n_prev := None\<rparr>]"
  let ?m1 = "m\<lparr>nodes := ?ns, lst_tail := n_prev (nodes m ! p)\<rparr>"
  let ?m2 = "if n_prev (nodes m ! p) = None then ?m1\<lparr>lst_head := None\<rparr> else ?m1"
  let ?m = "?m2\<lparr>m_nUseSize := m_nUseSize m + 1\<rparr>"
  have run: "PopNode m = Some (Some p, ?m)" using p by (simp add: PopNode_def upd_node_in Let_def)
  have nodes: "nodes ?m = ?ns" "lst_tail ?m = n_prev (nodes m ! p)" by simp_all
  have "back_chain ?ns (n_prev (nodes m ! p)) (rev gl) = back_chain (nodes m) (n_prev (nodes m ! p)) (rev gl)"
  proof (rule back_chain_cong)
    fix i assume "i \<in> set (rev gl)"
    then have "i \<noteq> p" using fl(1) gl by auto
    then show "n_prev (?ns ! i) = n_prev (nodes m ! i)" by simp
  qed simp
  moreover have "lst_head ?m = (if gl = [] then None else Some (hd gl))"
    using fl(4) gl p(3) by (cases gl rule: rev_cases) (auto simp: hd_append)
  ultimately have "sh_free ?m (F - {p})"
    unfolding sh_free_def nodes using p(3) fl(1,2) gl by (intro exI [of _ gl]) auto
  moreover have "frame F m ?m" using fl(2) gl by (auto simp: frame_def same_setup_def nth_list_update')
  moreover have "p \<in> F" "m_nUseSize ?m = m_nUseSize m + 1" using fl(2) gl by auto
  ultimately show ?thesis using run by blast
qed

lemma sh_push_node:
  assumes "sh_free m F" "p \<notin> F" "p < length (nodes m)"
  shows "\<exists>m'. PushNode (Some p) m = Some m' \<and> sh_free m' (insert p F) \<and> frame (insert p F) m m' \<and> m_nUseSize m' = m_nUseSize m - 1"
proof -
  obtain fl where fl: "distinct fl" "set fl = F" "back_chain (nodes m) (lst_tail m) (rev fl)" "lst_head m = (if fl = [] then None else Some (hd fl))"
    using assms(1) by (auto simp: sh_free_def)
  show ?thesis
  proof (cases fl)
    case Nil
    let ?ns = "(nodes m)[p := (nodes m ! p)\<lparr>n_next := None, n_prev := None\<rparr>]"
    let ?m = "m\<lparr>nodes := ?ns, lst_head := Some p, lst_tail := Some p, m_nUseSize := m_nUseSize m - 1\<rparr>"
    have "PushNode (Some p) m = Some ?m" using Nil fl(4) assms(3) by (simp add: PushNode_def upd_node_in)
    moreover have "sh_free ?m (insert p F)"
      unfolding sh_free_def using Nil fl(2) assms(3) by (intro exI [of _ "[p]"]) simp
    moreover have "frame (insert p F) m ?m" by (auto simp: frame_def same_setup_def nth_list_update')
    ultimately show ?thesis by (intro exI [of _ ?m]) simp
  next
    case (Cons h gl)
    have h: "h < length (nodes m)" "h \<noteq> p" "lst_head m = Some h"
      using back_chain_in [OF fl(3)] Cons fl(2,4) assms(2) by auto
    let ?ns = "(nodes m)[p := (nodes m ! p)\<lparr>n_next := Some h, n_prev := None\<rparr>, h := (nodes m ! h)\<lparr>n_prev := Some p\<rparr>]"
    let ?m = "m\<lparr>nodes := ?ns, lst_head := Some p, m_nUseSize := m_nUseSize m - 1\<rparr>"
    have run: "PushNode (Some p) m = Some ?m" using h assms(3) by (simp add: PushNode_def upd_node_in)
    have "back_chain ?ns (lst_tail m) (rev gl @ [h, p])"
    proof (rule back_chain_extend)
      show "back_chain (nodes m) (lst_tail m) (rev gl @ [h])" using fl(3) Cons by simp
      fix i assume "i \<in> set (rev gl)"
      then have "i \<noteq> h" "i \<noteq> p" using fl(1,2) Cons assms(2) by auto
      then show "n_prev (?ns ! i) = n_prev (nodes m ! i)" by simp
    qed (use fl(1,2) Cons assms(2,3) h in auto)
    then have "sh_free ?m (insert p F)"
      unfolding sh_free_def using Cons fl(1,2) assms(2) by (intro exI [of _ "p # fl"]) simp
    moreover have "frame (insert p F) m ?m" using fl(2) Cons by (auto simp: frame_def same_setup_def nth_list_update')
    ultimately show ?thesis using run by (intro exI [of _ ?m]) simp
  qed
qed

lemma sh_free_frame:
  assumes "sh_free m F" "length ns = length (nodes m)" "\<forall>i \<in> F. ns ! i = nodes m ! i"
  shows "sh_free (m\<lparr>nodes := ns, m_pBucket := B, m_nCurBucket := c, m_pNextNode := q\<rparr>) F"
proof -
  obtain fl where fl: "distinct fl" "set fl = F" "back_chain (nodes m) (lst_tail m) (rev fl)" "lst_head m = (if fl = [] then None else Some (hd fl))"
    using assms(1) by (auto simp: sh_free_def)
  have "back_chain ns (lst_tail m) (rev fl) = back_chain (nodes m) (lst_tail m) (rev fl)"
    by (rule back_chain_cong [OF assms(2)]) (use assms(3) fl(2) in simp)
  then show ?thesis unfolding sh_free_def using fl by (intro exI [of _ fl]) simp
qed

interpretation sh: node_pool PopNode "\<lambda>p. PushNode (Some p)" sh_free
  by unfold_locales (rule sh_pop_empty sh_pop_node sh_push_node sh_free_frame; assumption)+

section \<open>The map refines its specification\<close>

lemma sh_init:
  assumes "nodes m = []" "lst_head m = None" "lst_tail m = None" "bucketCnt \<noteq> 0" "sz \<le> 5 * bucketCnt"
  shows "\<exists>m'. Init sz (Some f) bucketCnt fresh m = Some (0, m') \<and> holds sh_free m' (Map.empty, unat sz)"
proof -
  let ?m1 = "m\<lparr>m_nTotalSize := sz, m_nBuckets := bucketCnt, m_pMyHash := Some f, nodes := replicate (unat sz) fresh\<rparr>"
  have push: "\<exists>m'. push_all ps x = Some m' \<and> sh_free m' (F \<union> set ps) \<and> same_setup x m'"
    if "sh_free x F" "distinct ps" "set ps \<inter> F = {}" "set ps \<subseteq> {..<length (nodes x)}" for ps F and x :: "('a, 'b) SHHaspMap"
    using that
  proof (induction ps arbitrary: x F)
    case (Cons p ps)
    obtain y where y: "PushNode (Some p) x = Some y" "sh_free y (insert p F)" "same_setup x y"
      using sh_push_node [OF Cons.prems(1), of p] Cons.prems by (auto simp: frame_def)
    obtain m' where "push_all ps y = Some m'" "sh_free m' (insert p F \<union> set ps)" "same_setup y m'"
      using Cons.IH [OF y(2)] Cons.prems y(3) by (auto simp: same_setup_def)
    then show ?case using y same_setup_trans by auto
  qed (simp add: same_setup_def)
  have "sh_free ?m1 {}" using assms(2,3) by (simp add: sh_free_def)
  then obtain m2 where m2: "push_all [0..<unat sz] ?m1 = Some m2" "sh_free m2 {..<unat sz}" "same_setup ?m1 m2"
    using push [of ?m1 "{}" "[0..<unat sz]"] by (auto simp: lessThan_atLeast0)
  let ?m = "m2\<lparr>m_nUseSize := 0, m_pBucket := Some (replicate (unat bucketCnt) None)\<rparr>"
  have "Init sz (Some f) bucketCnt fresh m = Some (0, ?m)" using assms m2(1) by (simp add: Init_def Let_def not_less)
  moreover have su: "length (nodes ?m) = unat sz" "m_nBuckets ?m = bucketCnt" "m_pMyHash ?m = Some f" "m_nTotalSize ?m = sz"
    using m2(3) by (simp_all add: same_setup_def)
  moreover have "buckets ?m (replicate (unat bucketCnt) [])"
    using su assms(4) by (auto simp: buckets_def unat_eq_0)
  moreover have "sh_free ?m {..<unat sz}" using m2(2) by (simp add: sh_free_def)
  moreover have "unat sz < 2 ^ LENGTH(32)" by (rule unsigned_less)
  ultimately have "store sh_free ?m (replicate (unat bucketCnt) []) {..<unat sz}"
    unfolding store_def by simp
  moreover have "entries (nodes ?m) (replicate (unat bucketCnt) []) = Map.empty" by (intro ext) (simp add: entries_def)
  ultimately show ?thesis using \<open>Init sz (Some f) bucketCnt fresh m = Some (0, ?m)\<close> su(1)
    unfolding holds_def by (intro exI [of _ ?m]) auto
qed

lemma sh_put:
  assumes "holds sh_free m (e, cap)"
  shows "\<exists>m'. sh_step (Put k v) m = Some (fst (spec_step False (Put k v) (e, cap)), m') \<and>
    holds sh_free m' (snd (spec_step False (Put k v) (e, cap)))"
proof -
  obtain bs F where st: "store sh_free m bs F" and e: "entries (nodes m) bs = e" and cap: "cap = length (nodes m)"
    using assms by (auto simp: holds_def)
  note d = storeD [OF st]
  obtain h where h: "Hash m k = Some h" "h < length bs" by (rule Hash_defined [OF d(1)])
  obtain B where pb: "m_pBucket m = Some B" using d(1) by (auto simp: buckets_def)
  note sc = scan_bucket_entries [OF d(1) h(1)]
  show ?thesis
  proof (cases "e k")
    case (Some w)
    then obtain i where "find (\<lambda>i. n_key (nodes m ! i) = k) (concat bs) = Some i" using e by (auto simp: entries_def)
    then have "Add k None m = Some (HM_RECORD_EXIST, None, m)" using sc h pb by (simp add: Add_def)
    then show ?thesis using Some assms by (simp add: sh_step_def spec_step_def)
  next
    case None
    then have "find (\<lambda>i. n_key (nodes m ! i) = k) (concat bs) = None" using e by (auto simp: entries_None [symmetric])
    then have add: "Add k None m = add_node k h m" using sc h pb by (simp add: Add_def)
    have room: "F = {} \<longleftrightarrow> card (dom e) \<ge> cap" unfolding card_0_eq [OF d(8), symmetric] using store_card [OF st] e cap by auto
    show ?thesis
    proof (cases "F = {}")
      case True
      then have "add_node k h m = Some (HM_NO_MEMORY, None, m)" using sh.take_node_full [of m bs] st by (simp add: add_node_def)
      then show ?thesis using None True room assms add by (simp add: sh_step_def spec_step_def)
    next
      case False
      have new: "entries (nodes m) bs k = None" using None e by simp
      have u: "n_key (n\<lparr>n_key := k\<rparr>) = k" for n :: "('a, 'b) CHNode" by simp
      obtain i m1 and n :: "('a, 'b) CHNode" where m1: "take_node PopNode (\<lambda>n. n\<lparr>n_key := k\<rparr>) h m = Some (Some i, m1)"
        "store sh_free m1 (bs[h := i # bs ! h]) (F - {i})"
        "entries (nodes m1) (bs[h := i # bs ! h]) = (entries (nodes m) bs)(k \<mapsto> n_val (n\<lparr>n_key := k\<rparr>))"
        "n_key (nodes m1 ! i) = k" "same_setup m m1"
        using sh.take_node_new [where u = "\<lambda>n. n\<lparr>n_key := k\<rparr>", OF st False h(1) new u] by blast
      have "i \<in> set (bs[h := i # bs ! h] ! h)" "h < length (bs[h := i # bs ! h])" using h(2) by simp_all
      then have "i \<in> set (concat (bs[h := i # bs ! h]))" unfolding concat_nth by blast
      then obtain m2 where m2: "upd_node i (\<lambda>n. n\<lparr>n_val := v\<rparr>) m1 = Some m2" "store sh_free m2 (bs[h := i # bs ! h]) (F - {i})"
        "entries (nodes m2) (bs[h := i # bs ! h]) = (entries (nodes m1) (bs[h := i # bs ! h]))(k \<mapsto> v)" "same_setup m1 m2"
        using sh.write_value [OF m1(2), of i v] unfolding m1(4) by blast
      have "length (nodes m2) = cap" using m1(5) m2(4) cap by (simp add: same_setup_def)
      then have "holds sh_free m2 (e(k \<mapsto> v), cap)" unfolding holds_def using m2(2,3) m1(3) e by (simp only: prod.case) (metis fun_upd_upd)
      moreover have "sh_step (Put k v) m = Some (Code HM_OK, m2)"
        using add m1(1) m2(1) by (simp add: sh_step_def add_node_def)
      ultimately show ?thesis using None False room by (simp add: spec_step_def)
    qed
  qed
qed

lemma sh_drop:
  assumes "holds sh_free m (e, cap)"
  shows "\<exists>m'. sh_step (Drop k) m = Some (fst (spec_step False (Drop k) (e, cap)), m') \<and>
    holds sh_free m' (snd (spec_step False (Drop k) (e, cap)))"
proof -
  obtain bs F where st: "store sh_free m bs F" and e: "entries (nodes m) bs = e" and cap: "cap = length (nodes m)"
    using assms by (auto simp: holds_def)
  obtain h where h: "Hash m k = Some h" "h < length bs" by (rule Hash_defined [OF storeD(1) [OF st]])
  show ?thesis
  proof (cases "e k")
    case None
    then have "Del k m = Some (HM_NO_RECORD, m)" using sh.remove_missing [OF st h(1)] e h by (simp add: Del_def)
    then show ?thesis using None assms by (simp add: sh_step_def spec_step_def)
  next
    case (Some v)
    then obtain i m1 m' bs' where r: "unlink k h m = Some (Some i, m1)" "PushNode (Some i) m1 = Some m'" "store sh_free m' bs' (insert i F)"
      "entries (nodes m') bs' = e(k := None)" "same_setup m m'"
      using sh.remove_found [OF st h(1), of v] e by auto
    have "holds sh_free m' (e(k := None), cap)" using r(3-5) cap unfolding holds_def by (auto simp: same_setup_def)
    moreover have "Del k m = Some (HM_OK, m')" using r(1,2) h by (simp add: Del_def)
    ultimately show ?thesis using Some by (simp add: sh_step_def spec_step_def)
  qed
qed

lemma sh_wipe:
  assumes "holds sh_free m (e, cap)"
  shows "\<exists>m'. sh_step Wipe m = Some (Code HM_OK, m') \<and> holds sh_free m' (Map.empty, cap)"
proof -
  obtain bs F where st: "store sh_free m bs F" and cap: "cap = length (nodes m)" using assms by (auto simp: holds_def)
  obtain m' bs' F' where r: "clear_with (\<lambda>p. PushNode (Some p)) m = Some m'" "store sh_free m' bs' F'"
    "entries (nodes m') bs' = Map.empty" "same_setup m m'"
    using sh.clear_all [OF st] by auto
  then show ?thesis using cap unfolding holds_def by (auto simp: sh_step_def Clear_def same_setup_def)
qed

interpretation sh_map: refinement sh_step "spec_step False" "holds sh_free"
proof
  fix m :: "('k, 'v) SHHaspMap" and a :: "('k \<rightharpoonup> 'v) \<times> nat" and op
  assume r: "holds sh_free m a"
  obtain e cap where a: "a = (e, cap)" by (cases a) auto
  show "\<exists>m'. sh_step op m = Some (fst (spec_step False op a), m') \<and> holds sh_free m' (snd (spec_step False op a))"
  proof (cases op)
    case (Put k v) then show ?thesis using sh_put [OF r [unfolded a]] a by simp
  next
    case (Drop k) then show ?thesis using sh_drop [OF r [unfolded a]] a by simp
  next
    case Wipe then show ?thesis using sh_wipe [OF r [unfolded a]] a by (simp add: spec_step_def)
  next
    case (Look k)
    then show ?thesis using holds_Get [OF r [unfolded a], of k] r unfolding a
      by (auto simp: sh_step_def spec_step_def split: option.splits)
  next
    case Count
    then show ?thesis using holds_Size [OF r [unfolded a]] r unfolding a by (simp add: sh_step_def spec_step_def)
  qed
qed

section \<open>Properties\<close>

text \<open>C30: after \<open>Init\<close> with at least one bucket, any sequence of insertions, lookups, deletions, \<open>Clear\<close> and \<open>Size\<close> on
  an \<open>SHHaspMap\<close> is defined and returns what a finite map of the given capacity returns: no pointer goes astray,
  no entry is lost, and the nodes are used again.\<close>

theorem sh_map_refines:
  assumes "nodes mem = []" "bucketCnt \<noteq> 0" "sz \<le> 5 * bucketCnt"
  shows "\<exists>m. Init sz (Some f) bucketCnt fresh (SHHaspMap_new mem) = Some (0, m) \<and>
    (\<forall>ops. map_option fst (impl_run sh_step ops m) = Some (fst (spec_run (spec_step False) ops (Map.empty, unat sz))))"
proof -
  obtain m where "Init sz (Some f) bucketCnt fresh (SHHaspMap_new mem) = Some (0, m)" "holds sh_free m (Map.empty, unat sz)"
    using sh_init [of "SHHaspMap_new mem" bucketCnt sz f fresh] assms by (auto simp: SHHaspMap_new_def)
  then show ?thesis using sh_map.results by blast
qed

definition blank_node :: "(nat, nat) CHNode" where
  "blank_node = \<lparr>n_key = 0, n_val = 0, n_next = None, n_prev = None\<rparr>"

definition blank_sh :: "(nat, nat) SHHaspMap" where
  "blank_sh = \<lparr>nodes = [], m_pBucket = None, m_nUseSize = 9, m_nTotalSize = 0, m_nBuckets = 0, m_pMyHash = None,
     m_nCurBucket = 0, m_pNextNode = None, lst_head = None, lst_tail = None\<rparr>"

theorem sh_map_refines_witness:
  "\<exists>m. Init 3 (Some of_nat) 2 blank_node (SHHaspMap_new blank_sh) = Some (0, m) \<and>
    map_option fst (impl_run sh_step [Put (4 :: nat) 40, Put 6 60, Put 4 41, Drop 4, Look 6, Look 4] m) =
      Some [Code 0, Code 0, Code 1085, Code 0, Found (Some 60), Found None]"
proof -
  have "nodes blank_sh = []" "(2 :: 32 word) \<noteq> 0" "(3 :: 32 word) \<le> 5 * 2" by (simp_all add: blank_sh_def)
  note r = sh_map_refines [OF this, of of_nat blank_node]
  have "fst (spec_run (spec_step False) [Put (4 :: nat) 40, Put 6 60, Put 4 41, Drop 4, Look 6, Look 4] (Map.empty, unat (3 :: 32 word))) =
      [Code 0, Code 0, Code 1085, Code 0, Found (Some 60 :: nat option), Found None]"
    by (simp add: spec_step_def Let_def)
  then show ?thesis using r by metis
qed

text \<open>C33: \<open>Begin\<close> and \<open>Next\<close> visit every entry of an \<open>SHHaspMap\<close> exactly once and then return \<open>NULL\<close>.\<close>

theorem sh_walk_entries:
  assumes "holds sh_free m (e, cap)"
  shows "\<exists>r is. Begin m = Some r \<and> walk (Suc (card (dom e))) r = Some is \<and>
    distinct (map (\<lambda>i. n_key (nodes m ! i)) is) \<and> set (map (\<lambda>i. n_key (nodes m ! i)) is) = dom e"
  by (rule walk_entries [OF assms])

theorem sh_walk_entries_witness:
  "\<exists>m r is. map_option snd (impl_run sh_step [Put (4 :: nat) (40 :: nat), Put 6 60]
      (snd (the (Init 3 (Some of_nat) 2 blank_node (SHHaspMap_new blank_sh))))) = Some m \<and>
    Begin m = Some r \<and> walk 3 r = Some is \<and> set (map (\<lambda>i. n_key (nodes m ! i)) is) = {4, 6}"
proof -
  obtain m0 where m0: "Init 3 (Some of_nat) 2 blank_node (SHHaspMap_new blank_sh) = Some (0, m0)" "holds sh_free m0 (Map.empty, unat (3 :: 32 word))"
    using sh_init [of "SHHaspMap_new blank_sh" 2 3 of_nat blank_node] by (auto simp: SHHaspMap_new_def blank_sh_def)
  obtain m where m: "impl_run sh_step [Put (4 :: nat) (40 :: nat), Put 6 60] m0 = Some (fst (spec_run (spec_step False) [Put (4 :: nat) (40 :: nat), Put 6 60] (Map.empty, unat (3 :: 32 word))), m)"
    "holds sh_free m (snd (spec_run (spec_step False) [Put (4 :: nat) (40 :: nat), Put 6 60] (Map.empty, unat (3 :: 32 word))))"
    using sh_map.run [OF m0(2), of "[Put (4 :: nat) (40 :: nat), Put 6 60]"] by blast
  have "snd (spec_run (spec_step False) [Put (4 :: nat) (40 :: nat), Put 6 60] (Map.empty, unat (3 :: 32 word))) = ([4 :: nat \<mapsto> 40, 6 \<mapsto> 60 :: nat], 3)"
    by (simp add: spec_step_def Let_def)
  then have "holds sh_free m ([4 \<mapsto> 40, 6 \<mapsto> 60], 3)" using m(2) by simp
  from sh_walk_entries [OF this] obtain r "is" where r: "Begin m = Some r" "walk 3 r = Some is"
    "set (map (\<lambda>i. n_key (nodes m ! i)) is) = {4, 6}"
    by (auto simp: insert_commute eval_nat_numeral simp del: walk.simps)
  have "map_option snd (impl_run sh_step [Put (4 :: nat) (40 :: nat), Put 6 60]
      (snd (the (Init 3 (Some of_nat) 2 blank_node (SHHaspMap_new blank_sh))))) = Some m"
    unfolding m0(1) option.sel snd_conv m(1) by simp
  then show ?thesis using r by blast
qed

text \<open>Before \<open>Init\<close> every operation calls the \<open>NULL\<close> hash function; the code \<open>SH_HM_NOT_INIT\<close> is never returned.\<close>

theorem sh_not_init: "Add k pVal (SHHaspMap_new mem) = None \<and> Get k (SHHaspMap_new mem) = None \<and> Del k (SHHaspMap_new mem) = None"
  by (simp add: Add_def Get_def Del_def Hash_def SHHaspMap_new_def)

text \<open>C35: \<open>PopNode\<close> leaves the \<open>next\<close> pointer of the new last free node on the node it hands out, so the destructor of a
  map of two nodes that holds one entry follows it from the free list and deletes that node a second time with its bucket.\<close>

theorem sh_delete_twice:
  "\<exists>m rs m'. Init 2 (Some f) 1 fresh (SHHaspMap_new (mem\<lparr>nodes := []\<rparr>)) = Some (0, m) \<and>
    impl_run sh_step [Put k v] m = Some (rs, m') \<and> rs = [Code HM_OK] \<and> SHHaspMap_delete m' = None"
proof -
  let ?n0 = "fresh\<lparr>n_next := None, n_prev := Some (Suc 0)\<rparr>" and ?n1 = "fresh\<lparr>n_next := Some 0, n_prev := None\<rparr>"
  let ?m = "mem\<lparr>m_nTotalSize := 2, m_nBuckets := 1, m_pMyHash := Some f, lst_tail := Some 0, nodes := [?n0, ?n1],
    lst_head := Some (Suc 0), m_nUseSize := 0, m_pBucket := Some [None]\<rparr>"
  let ?m' = "?m\<lparr>lst_tail := Some (Suc 0), nodes := [?n0\<lparr>n_key := k, n_val := v, n_next := None, n_prev := None\<rparr>, ?n1],
    m_nUseSize := 1, m_pBucket := Some [Some 0]\<rparr>"
  have "unat (2 :: 32 word) = Suc (Suc 0)" "unat (1 :: 32 word) = Suc 0" by simp_all
  then have l: "[0..<unat (2 :: 32 word)] = [0, Suc 0]" "replicate (unat (2 :: 32 word)) fresh = [fresh, fresh]"
    "replicate (unat (1 :: 32 word)) (None :: nat option) = [None]"
    by (simp_all only: upt_conv_Cons replicate_Suc replicate_0 upt_0 zero_less_Suc lessI upt_conv_Nil order_refl)
  have r: "replicate 2 fresh = [fresh, fresh]" by (simp add: numeral_2_eq_2)
  have i: "Init 2 (Some f) 1 fresh (SHHaspMap_new (mem\<lparr>nodes := []\<rparr>)) = Some (0, ?m)"
    unfolding Init_def by (simp add: l r SHHaspMap_new_def PushNode_def upd_node_def Let_def)
  have "sh_step (Put k v) ?m = Some (Code HM_OK, ?m')"
    by (simp add: sh_step_def Add_def Hash_def scan_bucket_def bucket_of_def add_node_def take_node_def PopNode_def Let_def
      link_front_def set_bucket_def upd_node_def)
  moreover have "SHHaspMap_delete ?m' = None" by (simp add: SHHaspMap_delete_def delete_nodes_def)
  ultimately show ?thesis using i by (intro exI [of _ ?m] exI [of _ "[Code HM_OK]"] exI [of _ ?m']) simp
qed

end
