(* ===== verification/Hash_Map1.thy ===== *)
theory Hash_Map1
  imports Hash_Pool Hash_Spec
begin

text \<open>
  \<open>CTHaspMap\<close> of \<open>shhashmap1.h\<close>: the free nodes are a singly linked list used as a stack, \<open>Set\<close> copies the value and
  overwrites an old one, and the destructor deletes the nodes one by one.  The operations that the class has in
  common with \<open>SHHaspMap\<close> carry the suffix 1.
\<close>

record ('k, 'v) CTHaspMap = "('k, 'v) hashmap" +
  m_oFreeHead :: "nat option"

section \<open>The free list\<close>

definition PopNode1 :: "('k, 'v) CTHaspMap \<Rightarrow> (nat option \<times> ('k, 'v) CTHaspMap) option" where
  "PopNode1 m =
     (case m_oFreeHead m of
        None \<Rightarrow> Some (None, m)
      | Some p \<Rightarrow> do {
          n \<leftarrow> rd (nodes m) p;
          m1 \<leftarrow> upd_node p (\<lambda>x. x\<lparr>n_next := None\<rparr>) (m\<lparr>m_oFreeHead := n_next n\<rparr>);
          Some (Some p, m1\<lparr>m_nUseSize := m_nUseSize m1 + 1\<rparr>)
        })"

definition PushNode1 :: "nat option \<Rightarrow> ('k, 'v) CTHaspMap \<Rightarrow> ('k, 'v) CTHaspMap option" where
  "PushNode1 node m =
     (case node of
        None \<Rightarrow> Some m
      | Some p \<Rightarrow> do {
          m1 \<leftarrow> upd_node p (\<lambda>x. x\<lparr>n_next := m_oFreeHead m\<rparr>) m;
          Some (m1\<lparr>m_oFreeHead := Some p, m_nUseSize := m_nUseSize m1 - 1\<rparr>)
        })"

section \<open>The map\<close>

definition CTHaspMap_new :: "('k, 'v) CTHaspMap \<Rightarrow> ('k, 'v) CTHaspMap" where
  "CTHaspMap_new mem = mem\<lparr>m_pMyHash := None, m_pBucket := None, m_nBuckets := 0, m_oFreeHead := None\<rparr>"

text \<open>The loop of \<open>Init\<close>: every new node goes to the front of the free list.\<close>

fun link_free :: "nat list \<Rightarrow> ('k, 'v) CTHaspMap \<Rightarrow> ('k, 'v) CTHaspMap option" where
  "link_free [] m = Some m"
| "link_free (p # ps) m =
     do { m1 \<leftarrow> upd_node p (\<lambda>x. x\<lparr>n_next := m_oFreeHead m\<rparr>) m; link_free ps (m1\<lparr>m_oFreeHead := Some p\<rparr>) }"

definition Init1 ::
  "32 word \<Rightarrow> ('k \<Rightarrow> 32 word) option \<Rightarrow> 32 word \<Rightarrow> ('k, 'v) CHNode \<Rightarrow> ('k, 'v) CTHaspMap \<Rightarrow> (int \<times> ('k, 'v) CTHaspMap) option" where
  "Init1 sz pHash bucketCnt fresh m =
     (if sz > 5 * bucketCnt then Some (-2, m)
      else if pHash = None then Some (-3, m)
      else do {
        let m1 = m\<lparr>m_nTotalSize := sz, m_nUseSize := 0, m_nBuckets := bucketCnt, m_pMyHash := pHash,
                   nodes := nodes m @ replicate (unat sz) fresh\<rparr>;
        m2 \<leftarrow> link_free [length (nodes m)..<length (nodes m) + unat sz] m1;
        Some (0, m2\<lparr>m_pBucket := Some (replicate (unat bucketCnt) None)\<rparr>)
      })"

text \<open>\<open>Get\<close> with an output argument: the code and the value.\<close>

definition Get1 :: "'k \<Rightarrow> ('k, 'v) CTHaspMap \<Rightarrow> (int \<times> 'v option) option" where
  "Get1 k m =
     do {
       h \<leftarrow> Hash m k;
       if m_pBucket m = None then Some (HM_NOT_INIT, None)
       else do {
         r \<leftarrow> scan_bucket k h m;
         (case r of
            Inl i \<Rightarrow> do { n \<leftarrow> rd (nodes m) i; Some (HM_OK, Some (n_val n)) }
          | Inr c \<Rightarrow> Some (HM_NO_RECORD, None))
       }
     }"

text \<open>\<open>Set\<close>: the code, the value stored through \<open>cover\<close>, the map.\<close>

definition set_node :: "'k \<Rightarrow> 'v \<Rightarrow> nat \<Rightarrow> ('k, 'v) CTHaspMap \<Rightarrow> (int \<times> 'v option \<times> ('k, 'v) CTHaspMap) option" where
  "set_node k v h m =
     do {
       (p, m') \<leftarrow> take_node PopNode1 (\<lambda>n. n\<lparr>n_val := v, n_key := k, n_next := None\<rparr>) h m;
       (case p of None \<Rightarrow> Some (HM_NO_MEMORY, None, m') | Some i \<Rightarrow> Some (HM_OK, None, m'))
     }"

definition Set1 :: "'k \<Rightarrow> 'v \<Rightarrow> ('k, 'v) CTHaspMap \<Rightarrow> (int \<times> 'v option \<times> ('k, 'v) CTHaspMap) option" where
  "Set1 k v m =
     do {
       h \<leftarrow> Hash m k;
       if m_pBucket m = None then Some (HM_NOT_INIT, None, m)
       else do {
         r \<leftarrow> scan_bucket k h m;
         (case r of
            Inl i \<Rightarrow> do {
              n \<leftarrow> rd (nodes m) i;
              m' \<leftarrow> upd_node i (\<lambda>x. x\<lparr>n_val := v\<rparr>) m;
              Some (HM_OK, Some (n_val n), m')
            }
          | Inr nKCnt \<Rightarrow>
              if nKCnt > 100 then set_node k v h m
              else if nKCnt > 1000 then Some (HM_HASH_MAX_CNT, None, m)
              else set_node k v h m)
       }
     }"

text \<open>\<open>Del\<close>: the code, the value of the deleted node, the map.\<close>

definition Del1 :: "'k \<Rightarrow> ('k, 'v) CTHaspMap \<Rightarrow> (int \<times> 'v option \<times> ('k, 'v) CTHaspMap) option" where
  "Del1 k m =
     do {
       h \<leftarrow> Hash m k;
       if m_pBucket m = None then Some (HM_NOT_INIT, None, m)
       else do {
         (d, m1) \<leftarrow> unlink k h m;
         (case d of
            None \<Rightarrow> Some (HM_NO_RECORD, None, m1)
          | Some i \<Rightarrow> do { n \<leftarrow> rd (nodes m1) i; m2 \<leftarrow> PushNode1 (Some i) m1; Some (HM_OK, Some (n_val n), m2) })
       }
     }"

definition Clear1 :: "('k, 'v) CTHaspMap \<Rightarrow> ('k, 'v) CTHaspMap option" where
  "Clear1 m = clear_with (\<lambda>p. PushNode1 (Some p)) m"

definition CTHaspMap_delete :: "('k, 'v) CTHaspMap \<Rightarrow> nat list option" where
  "CTHaspMap_delete m = delete_nodes (m_oFreeHead m) m"

definition ct_step :: "('k, 'v) hm_op \<Rightarrow> ('k, 'v) CTHaspMap \<Rightarrow> ('v hm_result \<times> ('k, 'v) CTHaspMap) option" where
  "ct_step op m =
     (case op of
        Put k v \<Rightarrow> do { (c, old, m') \<leftarrow> Set1 k v m; Some (Code c, m') }
      | Look k \<Rightarrow> do { (c, v) \<leftarrow> Get1 k m; Some (Found v, m) }
      | Drop k \<Rightarrow> do { (c, old, m') \<leftarrow> Del1 k m; Some (Code c, m') }
      | Wipe \<Rightarrow> do { m' \<leftarrow> Clear1 m; Some (Code HM_OK, m') }
      | Count \<Rightarrow> Some (Num (unat (Size m)), m))"

section \<open>The free list is a pool of nodes\<close>

definition ct_free :: "('k, 'v) CTHaspMap \<Rightarrow> nat set \<Rightarrow> bool" where
  "ct_free m F \<longleftrightarrow> (\<exists>fl. distinct fl \<and> set fl = F \<and> chain (nodes m) (m_oFreeHead m) fl)"

lemma chain_upd_other:
  assumes "chain ns p is" "i \<notin> set is"
  shows "chain (ns[i := x]) p is"
proof -
  have "chain (ns[i := x]) p is = chain ns p is"
  proof (rule chain_cong)
    fix j assume "j \<in> set is"
    then have "j \<noteq> i" using assms(2) by blast
    then show "n_next (ns[i := x] ! j) = n_next (ns ! j)" by simp
  qed simp
  then show ?thesis using assms(1) by simp
qed

lemma ct_pop_empty: "ct_free m {} \<Longrightarrow> PopNode1 m = Some (None, m)"
  by (auto simp: ct_free_def PopNode1_def)

lemma ct_pop_node:
  assumes "ct_free m F" "F \<noteq> {}"
  shows "\<exists>p m'. PopNode1 m = Some (Some p, m') \<and> p \<in> F \<and> ct_free m' (F - {p}) \<and> frame F m m' \<and> m_nUseSize m' = m_nUseSize m + 1"
proof -
  obtain fl where fl: "distinct fl" "set fl = F" "chain (nodes m) (m_oFreeHead m) fl" using assms(1) by (auto simp: ct_free_def)
  then obtain p gl where gl: "fl = p # gl" using assms(2) by (cases fl) auto
  have p: "m_oFreeHead m = Some p" "p < length (nodes m)" "chain (nodes m) (n_next (nodes m ! p)) gl" "p \<notin> set gl" "distinct gl" "set gl = F - {p}"
    using fl gl by auto
  let ?ns = "(nodes m)[p := (nodes m ! p)\<lparr>n_next := None\<rparr>]"
  let ?m = "m\<lparr>nodes := ?ns, m_oFreeHead := n_next (nodes m ! p), m_nUseSize := m_nUseSize m + 1\<rparr>"
  have "PopNode1 m = Some (Some p, ?m)" using p by (simp add: PopNode1_def upd_node_in)
  moreover have "ct_free ?m (F - {p})"
    unfolding ct_free_def using p chain_upd_other [OF p(3,4)] by (intro exI [of _ gl]) simp
  moreover have "frame F m ?m" using fl(2) gl by (auto simp: frame_def same_setup_def nth_list_update')
  ultimately show ?thesis using fl(2) gl by (intro exI [of _ p] exI [of _ ?m]) auto
qed

lemma ct_push_node:
  assumes "ct_free m F" "p \<notin> F" "p < length (nodes m)"
  shows "\<exists>m'. PushNode1 (Some p) m = Some m' \<and> ct_free m' (insert p F) \<and> frame (insert p F) m m' \<and> m_nUseSize m' = m_nUseSize m - 1"
proof -
  obtain fl where fl: "distinct fl" "set fl = F" "chain (nodes m) (m_oFreeHead m) fl" using assms(1) by (auto simp: ct_free_def)
  let ?ns = "(nodes m)[p := (nodes m ! p)\<lparr>n_next := m_oFreeHead m\<rparr>]"
  let ?m = "m\<lparr>nodes := ?ns, m_oFreeHead := Some p, m_nUseSize := m_nUseSize m - 1\<rparr>"
  have "PushNode1 (Some p) m = Some ?m" using assms(3) by (simp add: PushNode1_def upd_node_in)
  moreover have "ct_free ?m (insert p F)"
    unfolding ct_free_def using fl assms(2,3) chain_upd_other [OF fl(3)] by (intro exI [of _ "p # fl"]) simp
  moreover have "frame (insert p F) m ?m" by (auto simp: frame_def same_setup_def nth_list_update')
  ultimately show ?thesis by (intro exI [of _ ?m]) simp
qed

lemma ct_free_frame:
  assumes "ct_free m F" "length ns = length (nodes m)" "\<forall>i \<in> F. ns ! i = nodes m ! i"
  shows "ct_free (m\<lparr>nodes := ns, m_pBucket := B, m_nCurBucket := c, m_pNextNode := q\<rparr>) F"
proof -
  obtain fl where fl: "distinct fl" "set fl = F" "chain (nodes m) (m_oFreeHead m) fl" using assms(1) by (auto simp: ct_free_def)
  have "chain ns (m_oFreeHead m) fl = chain (nodes m) (m_oFreeHead m) fl"
    by (rule chain_cong [OF assms(2)]) (use assms(3) fl(2) in simp)
  then show ?thesis unfolding ct_free_def using fl by (intro exI [of _ fl]) simp
qed

interpretation ct: node_pool PopNode1 "\<lambda>p. PushNode1 (Some p)" ct_free
  by unfold_locales (rule ct_pop_empty ct_pop_node ct_push_node ct_free_frame; assumption)+

section \<open>The map refines its specification\<close>

lemma ct_init:
  assumes "nodes m = []" "m_oFreeHead m = None" "bucketCnt \<noteq> 0" "sz \<le> 5 * bucketCnt"
  shows "\<exists>m'. Init1 sz (Some f) bucketCnt fresh m = Some (0, m') \<and> holds ct_free m' (Map.empty, unat sz)"
proof -
  let ?m1 = "m\<lparr>m_nTotalSize := sz, m_nUseSize := 0, m_nBuckets := bucketCnt, m_pMyHash := Some f, nodes := replicate (unat sz) fresh\<rparr>"
  have link: "\<exists>m'. link_free ps x = Some m' \<and> ct_free m' (F \<union> set ps) \<and> same_setup x m' \<and> m_nUseSize m' = m_nUseSize x"
    if "ct_free x F" "distinct ps" "set ps \<inter> F = {}" "set ps \<subseteq> {..<length (nodes x)}" for ps F and x :: "('a, 'b) CTHaspMap"
    using that
  proof (induction ps arbitrary: x F)
    case (Cons p ps)
    let ?y = "x\<lparr>nodes := (nodes x)[p := (nodes x ! p)\<lparr>n_next := m_oFreeHead x\<rparr>], m_oFreeHead := Some p\<rparr>"
    obtain fl where fl: "distinct fl" "set fl = F" "chain (nodes x) (m_oFreeHead x) fl" using Cons.prems(1) by (auto simp: ct_free_def)
    have "p \<notin> F" and p: "p < length (nodes x)" using Cons.prems by auto
    then have "ct_free ?y (insert p F)"
      unfolding ct_free_def using fl chain_upd_other [OF fl(3)] by (intro exI [of _ "p # fl"]) simp
    then obtain m' where m': "link_free ps ?y = Some m'" "ct_free m' (insert p F \<union> set ps)" "same_setup ?y m'" "m_nUseSize m' = m_nUseSize ?y"
      using Cons.IH [of ?y "insert p F"] Cons.prems by auto
    have "same_setup x m'" using m'(3) by (simp add: same_setup_def)
    moreover have "link_free (p # ps) x = Some m'" using p m'(1) by (simp add: upd_node_in)
    ultimately show ?case using m'(2,4) by auto
  qed (simp add: same_setup_def)
  have "ct_free ?m1 {}" using assms(2) by (simp add: ct_free_def)
  then obtain m2 where m2: "link_free [0..<unat sz] ?m1 = Some m2" "ct_free m2 {..<unat sz}" "same_setup ?m1 m2" "m_nUseSize m2 = 0"
    using link [of ?m1 "{}" "[0..<unat sz]"] by (auto simp: lessThan_atLeast0)
  let ?m = "m2\<lparr>m_pBucket := Some (replicate (unat bucketCnt) None)\<rparr>"
  have run: "Init1 sz (Some f) bucketCnt fresh m = Some (0, ?m)" using assms m2(1) by (simp add: Init1_def Let_def not_less)
  have su: "length (nodes ?m) = unat sz" "m_nBuckets ?m = bucketCnt" "m_pMyHash ?m = Some f" "m_nTotalSize ?m = sz"
    using m2(3) by (simp_all add: same_setup_def)
  moreover have "buckets ?m (replicate (unat bucketCnt) [])"
    using su assms(3) by (auto simp: buckets_def unat_eq_0)
  moreover have "ct_free ?m {..<unat sz}" using m2(2) by (simp add: ct_free_def)
  moreover have "unat sz < 2 ^ LENGTH(32)" by (rule unsigned_less)
  ultimately have "store ct_free ?m (replicate (unat bucketCnt) []) {..<unat sz}"
    unfolding store_def using m2(4) by simp
  moreover have "entries (nodes ?m) (replicate (unat bucketCnt) []) = Map.empty" by (intro ext) (simp add: entries_def)
  ultimately show ?thesis using run su(1) unfolding holds_def by (intro exI [of _ ?m]) auto
qed

lemma ct_put:
  assumes "holds ct_free m (e, cap)"
  shows "\<exists>m'. ct_step (Put k v) m = Some (fst (spec_step True (Put k v) (e, cap)), m') \<and>
    holds ct_free m' (snd (spec_step True (Put k v) (e, cap)))"
proof -
  obtain bs F where st: "store ct_free m bs F" and e: "entries (nodes m) bs = e" and cap: "cap = length (nodes m)"
    using assms by (auto simp: holds_def)
  note d = storeD [OF st]
  obtain h where h: "Hash m k = Some h" "h < length bs" by (rule Hash_defined [OF d(1)])
  obtain B where pb: "m_pBucket m = Some B" using d(1) by (auto simp: buckets_def)
  note sc = scan_bucket_entries [OF d(1) h(1)]
  show ?thesis
  proof (cases "e k")
    case (Some w)
    then obtain i where i: "find (\<lambda>i. n_key (nodes m ! i) = k) (concat bs) = Some i" using e by (auto simp: entries_def)
    note ik = find_SomeD [OF i]
    obtain m' where m': "upd_node i (\<lambda>n. n\<lparr>n_val := v\<rparr>) m = Some m'" "store ct_free m' bs F"
      "entries (nodes m') bs = (entries (nodes m) bs)(k \<mapsto> v)" "same_setup m m'"
      using ct.write_value [OF st ik [THEN conjunct1], of v] unfolding ik [THEN conjunct2] by blast
    have "i < length (nodes m)" using m'(1) by (auto simp: upd_node_def rd_def split: if_splits)
    then have "Set1 k v m = Some (HM_OK, Some (n_val (nodes m ! i)), m')" using sc h pb i m'(1) by (simp add: Set1_def)
    moreover have "holds ct_free m' (e(k \<mapsto> v), cap)" using m'(2-4) e cap unfolding holds_def by (auto simp: same_setup_def)
    ultimately show ?thesis using Some by (simp add: ct_step_def spec_step_def)
  next
    case None
    then have "find (\<lambda>i. n_key (nodes m ! i) = k) (concat bs) = None" using e by (auto simp: entries_None [symmetric])
    then have set1: "Set1 k v m = set_node k v h m" using sc h pb by (simp add: Set1_def)
    have room: "F = {} \<longleftrightarrow> card (dom e) \<ge> cap" unfolding card_0_eq [OF d(8), symmetric] using store_card [OF st] e cap by auto
    show ?thesis
    proof (cases "F = {}")
      case True
      then have "set_node k v h m = Some (HM_NO_MEMORY, None, m)" using ct.take_node_full [of m bs] st by (simp add: set_node_def)
      then show ?thesis using None True room assms set1 by (simp add: ct_step_def spec_step_def)
    next
      case False
      let ?u = "\<lambda>n. n\<lparr>n_val := v, n_key := k, n_next := None\<rparr>"
      have new: "entries (nodes m) bs k = None" using None e by simp
      have u: "n_key (?u n) = k" for n :: "('a, 'b) CHNode" by simp
      obtain i m1 and n :: "('a, 'b) CHNode" where m1: "take_node PopNode1 ?u h m = Some (Some i, m1)"
        "store ct_free m1 (bs[h := i # bs ! h]) (F - {i})"
        "entries (nodes m1) (bs[h := i # bs ! h]) = (entries (nodes m) bs)(k \<mapsto> n_val (?u n))" "same_setup m m1"
        using ct.take_node_new [where u = ?u, OF st False h(1) new u] by blast
      have "holds ct_free m1 (e(k \<mapsto> v), cap)" using m1(2-4) e cap unfolding holds_def by (auto simp: same_setup_def)
      moreover have "ct_step (Put k v) m = Some (Code HM_OK, m1)" using set1 m1(1) by (simp add: ct_step_def set_node_def)
      ultimately show ?thesis using None False room by (simp add: spec_step_def)
    qed
  qed
qed

lemma ct_drop:
  assumes "holds ct_free m (e, cap)"
  shows "\<exists>m'. ct_step (Drop k) m = Some (fst (spec_step True (Drop k) (e, cap)), m') \<and>
    holds ct_free m' (snd (spec_step True (Drop k) (e, cap)))"
proof -
  obtain bs F where st: "store ct_free m bs F" and e: "entries (nodes m) bs = e" and cap: "cap = length (nodes m)"
    using assms by (auto simp: holds_def)
  obtain h where h: "Hash m k = Some h" "h < length bs" by (rule Hash_defined [OF storeD(1) [OF st]])
  obtain B where pb: "m_pBucket m = Some B" using storeD(1) [OF st] by (auto simp: buckets_def)
  show ?thesis
  proof (cases "e k")
    case None
    then have "Del1 k m = Some (HM_NO_RECORD, None, m)" using ct.remove_missing [OF st h(1)] e h pb by (simp add: Del1_def)
    then show ?thesis using None assms by (simp add: ct_step_def spec_step_def)
  next
    case (Some v)
    then obtain i m1 m' bs' where r: "unlink k h m = Some (Some i, m1)" "PushNode1 (Some i) m1 = Some m'" "store ct_free m' bs' (insert i F)"
      "entries (nodes m') bs' = e(k := None)" "same_setup m m'" "i < length (nodes m1)"
      using ct.remove_found [OF st h(1), of v] e by auto
    have "holds ct_free m' (e(k := None), cap)" using r(3-5) cap unfolding holds_def by (auto simp: same_setup_def)
    moreover have "Del1 k m = Some (HM_OK, Some (n_val (nodes m1 ! i)), m')" using r(1,2,6) h pb by (simp add: Del1_def)
    ultimately show ?thesis using Some by (simp add: ct_step_def spec_step_def)
  qed
qed

lemma ct_wipe:
  assumes "holds ct_free m (e, cap)"
  shows "\<exists>m'. ct_step Wipe m = Some (Code HM_OK, m') \<and> holds ct_free m' (Map.empty, cap)"
proof -
  obtain bs F where st: "store ct_free m bs F" and cap: "cap = length (nodes m)" using assms by (auto simp: holds_def)
  obtain m' bs' F' where r: "clear_with (\<lambda>p. PushNode1 (Some p)) m = Some m'" "store ct_free m' bs' F'"
    "entries (nodes m') bs' = Map.empty" "same_setup m m'"
    using ct.clear_all [OF st] by auto
  then show ?thesis using cap unfolding holds_def by (auto simp: ct_step_def Clear1_def same_setup_def)
qed

lemma ct_look:
  assumes "holds ct_free m (e, cap)"
  shows "\<exists>c. Get1 k m = Some (c, e k)"
proof -
  obtain B where pb: "m_pBucket m = Some B" using assms by (auto simp: holds_def store_def buckets_def)
  obtain p where p: "Get k m = Some p"
    "case p of None \<Rightarrow> e k = None | Some i \<Rightarrow> i < length (nodes m) \<and> e k = Some (n_val (nodes m ! i))"
    using holds_Get [OF assms, of k] by blast
  then show ?thesis using pb by (auto simp: Get_def Get1_def split: bind_splits sum.splits)
qed

interpretation ct_map: refinement ct_step "spec_step True" "holds ct_free"
proof
  fix m :: "('k, 'v) CTHaspMap" and a :: "('k \<rightharpoonup> 'v) \<times> nat" and op
  assume r: "holds ct_free m a"
  obtain e cap where a: "a = (e, cap)" by (cases a) auto
  show "\<exists>m'. ct_step op m = Some (fst (spec_step True op a), m') \<and> holds ct_free m' (snd (spec_step True op a))"
  proof (cases op)
    case (Put k v) then show ?thesis using ct_put [OF r [unfolded a]] a by simp
  next
    case (Drop k) then show ?thesis using ct_drop [OF r [unfolded a]] a by simp
  next
    case Wipe then show ?thesis using ct_wipe [OF r [unfolded a]] a by (simp add: spec_step_def)
  next
    case (Look k)
    then show ?thesis using ct_look [OF r [unfolded a], of k] r unfolding a by (auto simp: ct_step_def spec_step_def)
  next
    case Count
    then show ?thesis using holds_Size [OF r [unfolded a]] r unfolding a by (simp add: ct_step_def spec_step_def)
  qed
qed

section \<open>Properties\<close>

text \<open>C31: after \<open>Init\<close> with at least one bucket, any sequence of \<open>Set\<close>, \<open>Get\<close>, \<open>Del\<close>, \<open>Clear\<close> and \<open>Size\<close> on a
  \<open>CTHaspMap\<close> is defined and returns what a finite map of the given capacity returns, where \<open>Set\<close> overwrites.\<close>

theorem ct_map_refines:
  assumes "nodes mem = []" "bucketCnt \<noteq> 0" "sz \<le> 5 * bucketCnt"
  shows "\<exists>m. Init1 sz (Some f) bucketCnt fresh (CTHaspMap_new mem) = Some (0, m) \<and>
    (\<forall>ops. map_option fst (impl_run ct_step ops m) = Some (fst (spec_run (spec_step True) ops (Map.empty, unat sz))))"
proof -
  obtain m where "Init1 sz (Some f) bucketCnt fresh (CTHaspMap_new mem) = Some (0, m)" "holds ct_free m (Map.empty, unat sz)"
    using ct_init [of "CTHaspMap_new mem" bucketCnt sz f fresh] assms by (auto simp: CTHaspMap_new_def)
  then show ?thesis using ct_map.results by blast
qed

definition blank_ct_node :: "(nat, nat) CHNode" where
  "blank_ct_node = \<lparr>n_key = 0, n_val = 0, n_next = None, n_prev = None\<rparr>"

definition blank_ct :: "(nat, nat) CTHaspMap" where
  "blank_ct = \<lparr>nodes = [], m_pBucket = None, m_nUseSize = 9, m_nTotalSize = 0, m_nBuckets = 0, m_pMyHash = None,
     m_nCurBucket = 0, m_pNextNode = None, m_oFreeHead = None\<rparr>"

theorem ct_map_refines_witness:
  "\<exists>m. Init1 2 (Some of_nat) 2 blank_ct_node (CTHaspMap_new blank_ct) = Some (0, m) \<and>
    map_option fst (impl_run ct_step [Put (4 :: nat) 40, Put 6 60, Put 4 41, Put 8 80, Look 4, Drop 6, Look 6] m) =
      Some [Code 0, Code 0, Code 0, Code 1082, Found (Some 41), Code 0, Found None]"
proof -
  have "nodes blank_ct = []" "(2 :: 32 word) \<noteq> 0" "(2 :: 32 word) \<le> 5 * 2" by (simp_all add: blank_ct_def)
  note r = ct_map_refines [OF this, of of_nat blank_ct_node]
  have c: "card {4, 6 :: nat} = 2" "card {6, 4 :: nat} = 2" by simp_all
  have "fst (spec_run (spec_step True) [Put (4 :: nat) 40, Put 6 60, Put 4 41, Put 8 80, Look 4, Drop 6, Look 6] (Map.empty, unat (2 :: 32 word))) =
      [Code 0, Code 0, Code 0, Code 1082, Found (Some 41 :: nat option), Code 0, Found None]"
    by (simp add: spec_step_def Let_def insert_absorb c)
  then show ?thesis using r by metis
qed

text \<open>C34: the destructor of a \<open>CTHaspMap\<close> deletes every node that \<open>Init\<close> allocated, each exactly once, and reads no deleted node.\<close>

theorem ct_delete_once:
  assumes "holds ct_free m (e, cap)"
  shows "\<exists>dead. CTHaspMap_delete m = Some dead \<and> distinct dead \<and> set dead = {..<length (nodes m)}"
proof -
  obtain bs F where st: "store ct_free m bs F" using assms by (auto simp: holds_def)
  note d = storeD [OF st]
  obtain fl where fl: "distinct fl" "set fl = F" "chain (nodes m) (m_oFreeHead m) fl" using d(2) by (auto simp: ct_free_def)
  obtain B where B: "m_pBucket m = Some B" "length B = length bs" "\<forall>h<length bs. chain (nodes m) (B ! h) (bs ! h)"
    by (rule buckets_obtain [OF d(1)])
  have dis: "distinct (fl @ concat bs)" using fl(1,2) d(3) bucketsD(3) [OF d(1)] by (simp del: set_concat)
  have "length fl \<le> length (nodes m)" by (rule distinct_length [OF fl(1)]) (use fl(2) d(4) in blast)
  then have "delete_chain (fuel_of m) (nodes m) (m_oFreeHead m) [] = Some fl" using delete_chain_all [OF fl(3), of "[]"] fl(1) by simp
  moreover have "\<forall>b \<in> set bs. length b < fuel_of m" using bucket_facts(3) [OF d(1)] by (metis in_set_conv_nth)
  then have "delete_chains (fuel_of m) (nodes m) B fl = Some (fl @ concat bs)"
    using B(2,3) dis by (intro delete_chains_all) (auto simp: list_all2_conv_all_nth)
  moreover have "set (fl @ concat bs) = {..<length (nodes m)}" using fl(2) d(4) by (simp del: set_concat)
  ultimately show ?thesis using B(1) dis by (simp add: CTHaspMap_delete_def delete_nodes_def del: set_concat)
qed

theorem ct_delete_once_witness:
  "\<exists>m dead. map_option snd (impl_run ct_step [Put (4 :: nat) (40 :: nat), Put 6 60, Drop 4]
      (snd (the (Init1 3 (Some of_nat) 2 blank_ct_node (CTHaspMap_new blank_ct))))) = Some m \<and>
    CTHaspMap_delete m = Some dead \<and> distinct dead \<and> set dead = {..<length (nodes m)}"
proof -
  obtain m0 where m0: "Init1 3 (Some of_nat) 2 blank_ct_node (CTHaspMap_new blank_ct) = Some (0, m0)" "holds ct_free m0 (Map.empty, unat (3 :: 32 word))"
    using ct_init [of "CTHaspMap_new blank_ct" 2 3 of_nat blank_ct_node] by (auto simp: CTHaspMap_new_def blank_ct_def)
  obtain m rs a where m: "impl_run ct_step [Put (4 :: nat) (40 :: nat), Put 6 60, Drop 4] m0 = Some (rs, m)" "holds ct_free m a"
    using ct_map.run [OF m0(2), of "[Put (4 :: nat) (40 :: nat), Put 6 60, Drop 4]"] by blast
  have "holds ct_free m (fst a, snd a)" using m(2) by simp
  from ct_delete_once [OF this] show ?thesis using m(1) unfolding m0(1) by auto
qed

end
