(* ===== verification/Betting_Tree.thy ===== *)
theory Betting_Tree
  imports Text_IO "HOL-Library.Sublist"
begin

text \<open>
  \<open>CBettingTree\<close> of \<open>BettingTree.cpp\<close>: the file of betting sequences and their successors, read into a hash table
  by a start-up thread and looked up by the action sequence.  \<open>SplitString\<close> is that of \<open>string_utils.cpp\<close>,
  \<open>NodeInfo\<close> that of \<open>Def.h\<close>.

  The \<open>unordered_map\<close> is an association list in the order of insertion.  \<open>None\<close> is an exception, a loop without
  end or other undefined behaviour; the calls of \<open>LOG\<close> and \<open>sleep\<close> are left out.
\<close>

section \<open>Strings\<close>

text \<open>\<open>std::string::find\<close> of a string from a position on.\<close>

definition str_find :: "string \<Rightarrow> string \<Rightarrow> nat \<Rightarrow> nat option" where
  "str_find s c pos = List.find (\<lambda>i. prefix c (drop i s)) [pos..<length s + 1 - length c]"

lemma str_find_Some:
  "str_find s c pos = Some i \<Longrightarrow> pos \<le> i \<and> i + length c \<le> length s \<and> prefix c (drop i s)"
  by (auto simp: str_find_def find_Some_iff)

function split_loop :: "string \<Rightarrow> string \<Rightarrow> nat \<Rightarrow> string list option" where
  "split_loop s c pos1 =
     (if c = [] then None
      else case str_find s c pos1 of
        None \<Rightarrow> Some (if pos1 \<noteq> length s then [drop pos1 s] else [])
      | Some pos2 \<Rightarrow>
          map_option (Cons (take (pos2 - pos1) (drop pos1 s))) (split_loop s c (pos2 + length c)))"
  by pat_completeness auto
termination
proof (relation "measure (\<lambda>(s, c, pos1). length s - pos1)")
  fix s c :: string and pos1 pos2
  assume "c \<noteq> []" "str_find s c pos1 = Some pos2"
  with str_find_Some [OF this(2)] show "((s, c, pos2 + length c), s, c, pos1) \<in> measure (\<lambda>(s, c, pos1). length s - pos1)"
    by (cases c) auto
qed simp

declare split_loop.simps [simp del]

definition SplitString :: "string \<Rightarrow> string \<Rightarrow> string list option" where
  "SplitString s c = split_loop s c 0"

text \<open>The lines that \<open>std::getline\<close> delivers.\<close>

fun getlines :: "string \<Rightarrow> string list" where
  "getlines [] = []"
| "getlines (c # s) =
     (if c = CHR 0x0A then [] # getlines s
      else case getlines s of [] \<Rightarrow> [[c]] | l # ls \<Rightarrow> (c # l) # ls)"

section \<open>Nodes\<close>

record NodeInfo =
  node_street :: nat
  node_acting_player :: nat
  node_id :: int
  node_child :: "string list"

text \<open>The constructor stores the street and the player in an \<open>unsigned char\<close>.\<close>

definition NodeInfo_new :: "int \<Rightarrow> int \<Rightarrow> int \<Rightarrow> string list \<Rightarrow> NodeInfo" where
  "NodeInfo_new nid street pa child =
     \<lparr>node_street = nat (street mod 256), node_acting_player = nat (pa mod 256), node_id = nid, node_child = child\<rparr>"

text \<open>The loop over the four numbers; \<open>Some None\<close> is a field that is no number.\<close>

fun scan_fields :: "string list \<Rightarrow> int list option option" where
  "scan_fields [] = Some (Some [])"
| "scan_fields (t # ts) =
     do {
       r \<leftarrow> sscanf_d32 t;
       (case r of
          None \<Rightarrow> Some None
        | Some (v, n) \<Rightarrow> map_option (map_option (Cons v)) (scan_fields ts))
     }"

definition ParseStrToNode :: "string \<Rightarrow> (int + NodeInfo) option" where
  "ParseStrToNode info_str =
     do {
       split_str \<leftarrow> SplitString info_str '','';
       if length split_str < 4 then Some (Inl (-1))
       else do {
         vals \<leftarrow> scan_fields (take 4 split_str);
         (case vals of
            None \<Rightarrow> Some (Inl (-2))
          | Some vs \<Rightarrow> do {
              let num_succ = vs ! 2;
              n \<leftarrow> chk32 (4 + num_succ);
              if int (length split_str) < n then Some (Inl (-3))
              else if num_succ < 0 then None
              else Some (Inr (NodeInfo_new (vs ! 0) (vs ! 1) (vs ! 3) (take (nat num_succ) (drop 4 split_str))))
            })
       }
     }"

section \<open>The tree\<close>

record CBettingTree =
  m_nBTRecords :: nat
  m_nInitState :: nat
  m_strBTFile :: string
  m_BTHashTable :: "(string \<times> NodeInfo) list"

definition g_strBTKeyPre :: string where
  "g_strBTKeyPre = ''BTK_''"

text \<open>The key of an action sequence in the file and in a query.\<close>

definition bt_key :: "string \<Rightarrow> string" where
  "bt_key seq = g_strBTKeyPre @ (if seq = [] then ''root'' else seq)"

text \<open>\<open>Init\<close>: \<open>started\<close> is the success of \<open>pthread_create\<close>.\<close>

definition CBettingTree_Init :: "nat \<Rightarrow> nat \<Rightarrow> string \<Rightarrow> bool \<Rightarrow> CBettingTree \<Rightarrow> bool \<times> CBettingTree" where
  "CBettingTree_Init nBTRecords nTaskRedisCnt strBTFile started bt =
     (if nBTRecords = 0 \<or> nTaskRedisCnt = 0 \<or> strBTFile = [] then (False, bt)
      else (started, bt\<lparr>m_nBTRecords := nBTRecords, m_nInitState := 0, m_strBTFile := strBTFile\<rparr>))"

text \<open>\<open>unordered_map::insert\<close> keeps an entry that is there.\<close>

definition bt_insert :: "string \<Rightarrow> NodeInfo \<Rightarrow> (string \<times> NodeInfo) list \<Rightarrow> (string \<times> NodeInfo) list" where
  "bt_insert k v tbl = (case map_of tbl k of None \<Rightarrow> tbl @ [(k, v)] | Some w \<Rightarrow> tbl)"

text \<open>The loop over the lines: \<open>Some None\<close> is \<open>_exit\<close> on a line without a separator.\<close>

fun load_lines :: "string list \<Rightarrow> (string \<times> NodeInfo) list \<Rightarrow> (string \<times> NodeInfo) list option option" where
  "load_lines [] tbl = Some (Some tbl)"
| "load_lines (l # ls) tbl =
     (let line = filter (\<lambda>c. c \<noteq> CHR 0x0A) (filter (\<lambda>c. c \<noteq> CHR 0x0D) l) in
      case str_find line '','' 0 of
        None \<Rightarrow> Some None
      | Some pos \<Rightarrow> do {
          r \<leftarrow> ParseStrToNode (drop (pos + 1) line);
          (case r of
             Inl err \<Rightarrow> load_lines ls tbl
           | Inr node \<Rightarrow> load_lines ls (bt_insert (bt_key (take pos line)) node tbl))
        })"

text \<open>One pass of the thread; the file system is a function from names to contents, \<open>Some None\<close> is \<open>_exit\<close>.\<close>

definition InitBTreeIt :: "(string \<Rightarrow> string option) \<Rightarrow> CBettingTree \<Rightarrow> CBettingTree option option" where
  "InitBTreeIt files bt =
     (if m_nInitState bt = 1 then Some (Some bt)
      else case files (m_strBTFile bt) of
        None \<Rightarrow> Some None
      | Some txt \<Rightarrow> do {
          r \<leftarrow> load_lines (getlines txt) (m_BTHashTable bt);
          Some (case r of
             None \<Rightarrow> None
           | Some tbl \<Rightarrow>
               if m_nBTRecords bt \<noteq> length tbl then None
               else Some (bt\<lparr>m_BTHashTable := tbl, m_nInitState := 1\<rparr>))
        })"

definition GetNode :: "string \<Rightarrow> CBettingTree \<Rightarrow> int + NodeInfo" where
  "GetNode strActionSeq bt =
     (if m_nInitState bt = 1
      then (case map_of (m_BTHashTable bt) (bt_key strActionSeq) of None \<Rightarrow> Inl (-106) | Some node \<Rightarrow> Inr node)
      else Inl (-116))"

section \<open>Splitting and joining\<close>

lemma str_find_char:
  "str_find s [c] pos = List.find (\<lambda>i. s ! i = c) [pos..<length s]"
proof -
  have "prefix [c] (drop i s) \<longleftrightarrow> s ! i = c" if "i < length s" for i
    using that by (auto simp: prefix_def Cons_nth_drop_Suc [symmetric])
  then have "List.find (\<lambda>i. prefix [c] (drop i s)) xs = List.find (\<lambda>i. s ! i = c) xs" if "set xs \<subseteq> {..<length s}" for xs
    using that by (induction xs) auto
  from this [of "[pos..<length s]"] show ?thesis by (simp add: str_find_def subset_eq)
qed

lemma str_find_char_append:
  assumes "c \<notin> set t"
  shows "str_find (p @ t @ c # r) [c] (length p) = Some (length p + length t)"
    "str_find (p @ t) [c] (length p) = None"
proof -
  let ?s = "p @ t @ c # r"
  have 1: "?s ! (length p + i) \<noteq> c" if "i < length t" for i using that assms by (auto simp: nth_append set_conv_nth)
  have 2: "?s ! (length p + length t) = c" by (simp add: nth_append)
  have 3: "[length p..<length ?s] ! i = length p + i" if "i \<le> length t" for i using that by (intro nth_upt) simp
  have 4: "length t < length ?s - length p" by simp
  show "str_find ?s [c] (length p) = Some (length p + length t)"
    unfolding str_find_char find_Some_iff by (intro exI [of _ "length t"]) (use 1 2 3 4 in \<open>auto simp del: upt_Suc length_append\<close>)
  show "str_find (p @ t) [c] (length p) = None"
    unfolding str_find_char find_None_iff using assms by (auto simp: nth_append set_conv_nth)
qed

text \<open>The fields joined by commas.\<close>

fun join :: "string list \<Rightarrow> string" where
  "join [] = []"
| "join [t] = t"
| "join (t # ts) = t @ '','' @ join ts"

lemma split_join_at:
  assumes "\<forall>t \<in> set ts. CHR '','' \<notin> set t \<and> t \<noteq> []"
  shows "split_loop (p @ join ts) '','' (length p) = Some ts"
  using assms
proof (induction ts arbitrary: p rule: join.induct)
  case 1
  then show ?case using str_find_char_append(2) [of "CHR '',''" "[]" p] by (subst split_loop.simps) simp
next
  case (2 t)
  then show ?case using str_find_char_append(2) [of "CHR '',''" t p] by (subst split_loop.simps) simp
next
  case (3 t u ts)
  have "split_loop ((p @ t @ '','') @ join (u # ts)) '','' (length (p @ t @ '','')) = Some (u # ts)"
    by (rule 3(1)) (use 3(2) in simp)
  then show ?case using str_find_char_append(1) [of "CHR '',''" t p "join (u # ts)"] 3(2)
    by (subst split_loop.simps) (simp add: algebra_simps)
qed

lemma SplitString_join: "\<forall>t \<in> set ts. CHR '','' \<notin> set t \<and> t \<noteq> [] \<Longrightarrow> SplitString (join ts) '','' = Some ts"
  using split_join_at [of ts "[]"] by (simp add: SplitString_def)

section \<open>A file that is loaded can be looked up\<close>

text \<open>A row of the file: the action sequence, the node, and the line that states them.\<close>

record bt_row =
  row_seq :: string
  row_id :: int
  row_street :: nat
  row_player :: nat
  row_child :: "string list"

definition row_node :: "bt_row \<Rightarrow> NodeInfo" where
  "row_node r = \<lparr>node_street = row_street r, node_acting_player = row_player r, node_id = row_id r, node_child = row_child r\<rparr>"

definition row_fields :: "bt_row \<Rightarrow> string list" where
  "row_fields r = [dec_int (row_id r), dec (row_street r), dec (length (row_child r)), dec (row_player r)] @ row_child r"

definition row_line :: "bt_row \<Rightarrow> string" where
  "row_line r = row_seq r @ '','' @ join (row_fields r)"

text \<open>Rows that the format can hold.\<close>

definition plain_text :: "string \<Rightarrow> bool" where
  "plain_text t \<longleftrightarrow> CHR '','' \<notin> set t \<and> CHR 0x0A \<notin> set t \<and> CHR 0x0D \<notin> set t"

definition good_row :: "bt_row \<Rightarrow> bool" where
  "good_row r \<longleftrightarrow> plain_text (row_seq r) \<and> (\<forall>t \<in> set (row_child r). plain_text t \<and> t \<noteq> []) \<and>
     INT32_MIN \<le> row_id r \<and> row_id r \<le> INT32_MAX \<and> row_street r < 256 \<and> row_player r < 256 \<and> length (row_child r) < 1000"

lemma dec_plain: "plain_text (dec n)" "plain_text (dec_int i)"
proof -
  have "\<not> isdigit (CHR '','') \<and> \<not> isdigit (CHR 0x0A) \<and> \<not> isdigit (CHR 0x0D)" by (simp add: isdigit_def)
  then have d: "plain_text (dec n)" for n unfolding plain_text_def using dec_digits by blast
  show "plain_text (dec n)" by (rule d)
  show "plain_text (dec_int i)" using d by (auto simp: dec_int_def plain_text_def)
qed

lemma dec_int_not_Nil: "dec_int i \<noteq> []"
  by (simp add: dec_int_def)

lemma row_fields_plain: "good_row r \<Longrightarrow> \<forall>t \<in> set (row_fields r). plain_text t \<and> t \<noteq> []"
  using dec_plain dec_int_not_Nil by (auto simp: good_row_def row_fields_def)

lemma sscanf_field: "INT32_MIN \<le> i \<Longrightarrow> i \<le> INT32_MAX \<Longrightarrow> sscanf_d32 (dec_int i) = Some (Some (i, length (dec_int i)))"
  using sscanf_d32_dec_int [of i "[]"] by (simp add: ends_number_def isdigit_def)

lemma sscanf_nat: "n \<le> 1000 \<Longrightarrow> \<exists>m. sscanf_d32 (dec n) = Some (Some (int n, m))"
  using sscanf_field [of "int n"] by (auto simp: dec_int_def)

lemma ParseStrToNode_row:
  assumes "good_row r"
  shows "ParseStrToNode (join (row_fields r)) = Some (Inr (row_node r))"
proof -
  have "SplitString (join (row_fields r)) '','' = Some (row_fields r)"
    by (rule SplitString_join) (use row_fields_plain [OF assms] in \<open>auto simp: plain_text_def\<close>)
  moreover have "scan_fields (take 4 (row_fields r)) =
      Some (Some [row_id r, int (row_street r), int (length (row_child r)), int (row_player r)])"
    using assms sscanf_field [of "row_id r"] sscanf_nat [of "row_street r"] sscanf_nat [of "row_player r"]
      sscanf_nat [of "length (row_child r)"]
    by (auto simp: row_fields_def good_row_def)
  ultimately show ?thesis using assms
    by (simp add: ParseStrToNode_def row_fields_def row_node_def NodeInfo_new_def good_row_def)
qed

lemma getlines_line: "CHR 0x0A \<notin> set l \<Longrightarrow> getlines (l @ [CHR 0x0A] @ s) = l # getlines s"
  by (induction l) auto

lemma getlines_file:
  "\<forall>l \<in> set ls. CHR 0x0A \<notin> set l \<Longrightarrow> getlines (concat (map (\<lambda>l. l @ [CHR 0x0A]) ls)) = ls"
proof (induction ls)
  case (Cons l ls)
  then show ?case using getlines_line [of l "concat (map (\<lambda>l. l @ [CHR 0x0A]) ls)"] by simp
qed simp

lemma join_chars: "set (join ts) \<subseteq> insert (CHR '','') (\<Union> (set ` set ts))"
  by (induction ts rule: join.induct) auto

lemma row_line_chars:
  assumes "good_row r"
  shows "CHR 0x0A \<notin> set (row_line r)" "CHR 0x0D \<notin> set (row_line r)"
proof -
  have "CHR 0x0A \<notin> set (join (row_fields r))" "CHR 0x0D \<notin> set (join (row_fields r))"
    using join_chars [of "row_fields r"] row_fields_plain [OF assms] by (auto simp: plain_text_def)
  then show "CHR 0x0A \<notin> set (row_line r)" "CHR 0x0D \<notin> set (row_line r)"
    using assms by (auto simp: row_line_def good_row_def plain_text_def)
qed

lemma load_line:
  assumes "good_row r"
  shows "load_lines (row_line r # ls) tbl = load_lines ls (bt_insert (bt_key (row_seq r)) (row_node r) tbl)"
proof -
  have "filter (\<lambda>c. c \<noteq> CHR 0x0A) (filter (\<lambda>c. c \<noteq> CHR 0x0D) (row_line r)) = row_line r"
    using row_line_chars [OF assms] unfolding filter_filter filter_id_conv by auto
  moreover have "str_find (row_line r) '','' 0 = Some (length (row_seq r))"
    using str_find_char_append(1) [of "CHR '',''" "row_seq r" "[]" "join (row_fields r)"] assms
    by (simp add: row_line_def good_row_def plain_text_def)
  moreover have "drop (length (row_seq r) + 1) (row_line r) = join (row_fields r)" "take (length (row_seq r)) (row_line r) = row_seq r"
    by (simp_all add: row_line_def)
  ultimately show ?thesis using ParseStrToNode_row [OF assms] by (simp del: filter_filter)
qed

lemma load_rows:
  assumes "\<forall>r \<in> set rows. good_row r" "distinct (map fst tbl @ map (bt_key \<circ> row_seq) rows)"
  shows "load_lines (map row_line rows) tbl = Some (Some (tbl @ map (\<lambda>r. (bt_key (row_seq r), row_node r)) rows))"
  using assms
proof (induction rows arbitrary: tbl)
  case (Cons r rows)
  let ?tbl = "tbl @ [(bt_key (row_seq r), row_node r)]"
  have "map_of tbl (bt_key (row_seq r)) = None" using Cons.prems(2) by (auto simp: map_of_eq_None_iff)
  then have "bt_insert (bt_key (row_seq r)) (row_node r) tbl = ?tbl" by (simp add: bt_insert_def)
  moreover have "load_lines (map row_line rows) ?tbl = Some (Some (?tbl @ map (\<lambda>r. (bt_key (row_seq r), row_node r)) rows))"
    using Cons.prems by (intro Cons.IH) auto
  ultimately show ?case using load_line [of r] Cons.prems(1) by simp
qed simp

lemma bt_key_inj: "s \<noteq> ''root'' \<Longrightarrow> t \<noteq> ''root'' \<Longrightarrow> bt_key s = bt_key t \<longleftrightarrow> s = t"
  by (auto simp: bt_key_def)

section \<open>Properties\<close>

text \<open>C36: a tree file with as many rows as the configuration says, with distinct action sequences, is loaded completely: afterwards
  \<open>GetNode\<close> returns the node of every sequence in the file and the code -106 for every other sequence.
  (The text \<open>root\<close>, under which the empty sequence is stored, is neither a sequence of the file nor asked for.)\<close>

theorem betting_tree_loaded:
  assumes "files (m_strBTFile bt) = Some (concat (map (\<lambda>r. row_line r @ [CHR 0x0A]) rows))"
    "\<forall>r \<in> set rows. good_row r \<and> row_seq r \<noteq> ''root''" "distinct (map row_seq rows)"
    "m_nInitState bt = 0" "m_BTHashTable bt = []" "m_nBTRecords bt = length rows"
  shows "\<exists>bt'. InitBTreeIt files bt = Some (Some bt') \<and>
    (\<forall>r \<in> set rows. GetNode (row_seq r) bt' = Inr (row_node r)) \<and>
    (\<forall>seq. seq \<noteq> ''root'' \<and> seq \<notin> row_seq ` set rows \<longrightarrow> GetNode seq bt' = Inl (-106))"
proof -
  let ?tbl = "map (\<lambda>r. (bt_key (row_seq r), row_node r)) rows"
  have lines: "getlines (concat (map (\<lambda>r. row_line r @ [CHR 0x0A]) rows)) = map row_line rows"
    using getlines_file [of "map row_line rows"] assms(2) row_line_chars(1) by (simp add: comp_def)
  have inj: "inj_on (bt_key \<circ> row_seq) (set rows)"
    using assms(2,3) bt_key_inj by (auto simp: inj_on_def distinct_map)
  then have keys: "distinct (map (bt_key \<circ> row_seq) rows)" using assms(3) by (simp add: distinct_map)
  then have load: "load_lines (map row_line rows) [] = Some (Some ?tbl)" using load_rows [of rows "[]"] assms(2) by simp
  let ?bt = "bt\<lparr>m_BTHashTable := ?tbl, m_nInitState := 1\<rparr>"
  have "InitBTreeIt files bt = Some (Some ?bt)" using assms lines load by (simp add: InitBTreeIt_def)
  moreover have "GetNode (row_seq r) ?bt = Inr (row_node r)" if "r \<in> set rows" for r
  proof -
    have "(bt_key (row_seq r), row_node r) \<in> set ?tbl" "distinct (map fst ?tbl)" using that keys by (auto simp: comp_def)
    then show ?thesis by (simp add: GetNode_def map_of_is_SomeI)
  qed
  moreover have "GetNode seq ?bt = Inl (-106)" if "seq \<noteq> ''root''" "seq \<notin> row_seq ` set rows" for seq
  proof -
    have "bt_key seq \<notin> fst ` set ?tbl" using that assms(2) bt_key_inj by force
    then show ?thesis by (simp add: GetNode_def map_of_eq_None_iff split: option.split)
  qed
  ultimately show ?thesis by blast
qed

definition sample_rows :: "bt_row list" where
  "sample_rows = [\<lparr>row_seq = [], row_id = 0, row_street = 0, row_player = 1, row_child = [''f'', ''c'', ''r300'']\<rparr>,
     \<lparr>row_seq = ''c'', row_id = 1, row_street = 0, row_player = 0, row_child = [''c'', ''r300'']\<rparr>]"

definition sample_tree :: CBettingTree where
  "sample_tree = \<lparr>m_nBTRecords = 2, m_nInitState = 0, m_strBTFile = ''tree'', m_BTHashTable = []\<rparr>"

theorem betting_tree_loaded_witness:
  "\<exists>bt. InitBTreeIt (\<lambda>n. Some (concat (map (\<lambda>r. row_line r @ [CHR 0x0A]) sample_rows))) sample_tree = Some (Some bt) \<and>
    GetNode ''c'' bt = Inr \<lparr>node_street = 0, node_acting_player = 0, node_id = 1, node_child = [''c'', ''r300'']\<rparr> \<and>
    GetNode ''f'' bt = Inl (-106)"
proof -
  have "\<forall>r \<in> set sample_rows. good_row r \<and> row_seq r \<noteq> ''root''" "distinct (map row_seq sample_rows)"
    "m_nInitState sample_tree = 0" "m_BTHashTable sample_tree = []" "m_nBTRecords sample_tree = length sample_rows"
    by (simp_all add: sample_rows_def sample_tree_def good_row_def plain_text_def)
  from betting_tree_loaded [OF refl this] obtain bt where bt:
    "InitBTreeIt (\<lambda>n. Some (concat (map (\<lambda>r. row_line r @ [CHR 0x0A]) sample_rows))) sample_tree = Some (Some bt)"
    "\<forall>r \<in> set sample_rows. GetNode (row_seq r) bt = Inr (row_node r)"
    "\<forall>seq. seq \<noteq> ''root'' \<and> seq \<notin> row_seq ` set sample_rows \<longrightarrow> GetNode seq bt = Inl (-106)"
    by blast
  have "''f'' \<noteq> ''root'' \<and> ''f'' \<notin> row_seq ` set sample_rows" by (simp add: sample_rows_def)
  then have "GetNode ''f'' bt = Inl (-106)" using bt(3) by blast
  moreover have "GetNode ''c'' bt = Inr \<lparr>node_street = 0, node_acting_player = 0, node_id = 1, node_child = [''c'', ''r300'']\<rparr>"
    using bt(2) by (simp add: sample_rows_def row_node_def)
  ultimately show ?thesis using bt(1) by blast
qed

text \<open>A row whose number of successors is negative makes \<open>ParseStrToNode\<close> build a vector from an end before its beginning.\<close>

theorem negative_successors:
  "ParseStrToNode ''7,0,-1,1'' = None \<and> ParseStrToNode ''7,0,1,1'' = Some (Inl (-3)) \<and> ParseStrToNode ''7,0,x,1'' = Some (Inl (-2))"
proof -
  have s: "SplitString ''7,0,-1,1'' '','' = Some [''7'', ''0'', ''-1'', ''1'']" "SplitString ''7,0,1,1'' '','' = Some [''7'', ''0'', ''1'', ''1'']"
    "SplitString ''7,0,x,1'' '','' = Some [''7'', ''0'', ''x'', ''1'']"
    using SplitString_join [of "[''7'', ''0'', ''-1'', ''1'']"] SplitString_join [of "[''7'', ''0'', ''1'', ''1'']"]
      SplitString_join [of "[''7'', ''0'', ''x'', ''1'']"] by simp_all
  have n: "sscanf_d32 ''7'' = Some (Some (7, 1))" "sscanf_d32 ''0'' = Some (Some (0, 1))" "sscanf_d32 ''1'' = Some (Some (1, 1))"
    "sscanf_d32 ''-1'' = Some (Some (-1, 2))" "sscanf_d32 ''x'' = Some None"
    by (simp_all add: sscanf_d32_def scan_number_def isspace_def isdigit_def digits_val_def digit_val_def)
  show ?thesis by (simp add: ParseStrToNode_def s n)
qed

end
