(* ===== verification/Match_Info.thy ===== *)
theory Match_Info
  imports Betting_Machine Text_IO
begin

text \<open>
  What the server tells the strategy about a hand: \<open>ActionInfo\<close> of \<open>Def.h\<close>, filled by \<open>MatchStateConverotr\<close> of
  \<open>matchstate_convertor.cpp\<close>.  The action sequence is the key of the betting tree.
\<close>

abbreviation NUM_HCP :: nat where "NUM_HCP \<equiv> 2"
abbreviation MAX_BOADRD_NUM :: nat where "MAX_BOADRD_NUM \<equiv> 5"

definition STREET_BOARD_CNT :: "nat list" where
  "STREET_BOARD_CNT = [0, 3, 4, 5]"

record ActionInfo =
  board_cards :: "int list"
  hcp_cards :: "int list"
  st :: int
  action_seq :: string
  bet_to :: int
  num_street_bet :: int

definition ActionInfo_new :: ActionInfo where
  "ActionInfo_new = \<lparr>board_cards = replicate MAX_BOADRD_NUM 99, hcp_cards = replicate NUM_HCP 99, st = -1,
     action_seq = ''null'', bet_to = 0, num_street_bet = -1\<rparr>"

definition GetSingleActionStr :: "Action \<Rightarrow> string" where
  "GetSingleActionStr a =
     (case act_type a of
        a_fold \<Rightarrow> ''f''
      | a_call \<Rightarrow> ''c''
      | a_raise \<Rightarrow> ''r'' @ dec_int (act_size a)
      | a_invalid \<Rightarrow> [])"

text \<open>The inner loop over the actions of a street.\<close>

definition seq_step :: "Action \<Rightarrow> string \<times> int \<Rightarrow> string \<times> int" where
  "seq_step a = (\<lambda>(txt, bt). (txt @ GetSingleActionStr a,
     if act_type a = a_raise \<and> act_size a > bt then act_size a else bt))"

fun seq_street :: "State \<Rightarrow> nat \<Rightarrow> nat \<Rightarrow> string \<times> int \<Rightarrow> string \<times> int" where
  "seq_street s r 0 acc = acc"
| "seq_street s r (Suc i) acc = seq_step (action s ! r ! i) (seq_street s r i acc)"

fun seq_loop :: "State \<Rightarrow> nat \<Rightarrow> string \<times> int" where
  "seq_loop s 0 = ([], 2)"
| "seq_loop s (Suc r) =
     (let (txt, bt) = seq_loop s r;
          n = numActions s ! r
      in seq_street s r n (if n > 0 \<and> r > 0 then txt @ '' '' else txt, bt))"

definition GetActionSeq :: "MatchState \<Rightarrow> ActionInfo \<Rightarrow> ActionInfo" where
  "GetActionSeq ms info =
     (let (txt, bt) = seq_loop (ms_state ms) (round_no (ms_state ms) + 1) in info\<lparr>action_seq := txt, bet_to := bt\<rparr>)"

definition GetCards :: "MatchState \<Rightarrow> ActionInfo \<Rightarrow> ActionInfo option" where
  "GetCards ms info =
     do {
       hole \<leftarrow> rd (holeCards (ms_state ms)) (viewingPlayer ms);
       n \<leftarrow> rd STREET_BOARD_CNT (round_no (ms_state ms));
       Some (info\<lparr>hcp_cards := fill (\<lambda>i. int (hole ! i)) NUM_HCP (hcp_cards info),
                  board_cards := fill (\<lambda>i. int (boardCards (ms_state ms) ! i)) n (board_cards info)\<rparr>)
     }"

definition GetActionInfo :: "MatchState \<Rightarrow> ActionInfo \<Rightarrow> ActionInfo option" where
  "GetActionInfo ms info = GetCards ms (GetActionSeq ms (info\<lparr>st := int (round_no (ms_state ms))\<rparr>))"

end
