(* ===== verification/Card_IO.thy ===== *)
theory Card_IO
  imports Betting Text_IO
begin

text \<open>
  Cards as text: \<open>readCard\<close>, \<open>readCards\<close>, \<open>printCard\<close>, \<open>printCards\<close>, \<open>toPythonCards\<close> and
  \<open>printAllCards\<close> of \<open>game.c\<close>.
\<close>

section \<open>The code\<close>

definition suitChars :: string where
  "suitChars = ''cdhs''"

definition rankChars :: string where
  "rankChars = ''23456789TJQKA''"

text \<open>\<open>None\<close> is the return value \<open>-1\<close>; otherwise the return value and the card.\<close>

definition readCard :: "string \<Rightarrow> (nat \<times> nat) option" where
  "readCard s =
     (if char_at s 0 = NUL then None
      else case strchr rankChars (toupper (char_at s 0)) of
        None \<Rightarrow> None
      | Some c \<Rightarrow>
          if char_at s 1 = NUL then None
          else case strchr suitChars (tolower (char_at s 1)) of
            None \<Rightarrow> None
          | Some d \<Rightarrow> Some (2, makeCard c d))"

text \<open>The characters consumed and the cards stored; the return value is the number of the cards.\<close>

primrec readCards :: "nat \<Rightarrow> string \<Rightarrow> nat \<times> nat list" where
  "readCards 0 s = (0, [])"
| "readCards (Suc maxCards) s =
     (case readCard s of
        None \<Rightarrow> (0, [])
      | Some (r, cd) \<Rightarrow> (case readCards maxCards (drop r s) of (c, cards) \<Rightarrow> (r + c, cd # cards)))"

text \<open>The strings have a terminator, which the index 13 of \<open>rankChars\<close> would read.\<close>

definition printCard :: "nat \<Rightarrow> int \<Rightarrow> (int \<times> string) option" where
  "printCard cd maxLen =
     (if 3 > maxLen then Some (-1, [])
      else do {
        a \<leftarrow> rd (rankChars @ [NUL]) (rankOfCard cd);
        b \<leftarrow> rd (suitChars @ [NUL]) (suitOfCard cd);
        Some (2, [a, b])
      })"

fun printCards :: "nat list \<Rightarrow> int \<Rightarrow> (int \<times> string) option" where
  "printCards [] maxLen = Some (0, [])"
| "printCards (cd # cards) maxLen =
     do {
       (r, t) \<leftarrow> printCard cd maxLen;
       if r < 0 then Some (-1, [])
       else do {
         (c, ts) \<leftarrow> printCards cards (maxLen - r);
         if c < 0 then Some (-1, []) else Some (r + c, t @ ts)
       }
     }"

text \<open>\<open>string[c] = ch\<close> at the end of the text written so far.\<close>

definition put :: "int \<Rightarrow> string \<Rightarrow> char \<Rightarrow> string option" where
  "put maxLen t ch = (if int (length t) < maxLen then Some (t @ [ch]) else None)"

text \<open>One card of \<open>toPythonCards\<close>; \<open>Inl\<close> is an early return with its code.\<close>

definition pythonCard :: "int \<Rightarrow> int \<Rightarrow> nat \<Rightarrow> string \<Rightarrow> (int + string) option" where
  "pythonCard len code cd t =
     do {
       (r, tx) \<leftarrow> printCard cd (len - int (length t));
       if r < 0 then Some (Inl code) else Some (Inr (t @ tx))
     }"

primrec pythonBoard :: "State \<Rightarrow> int \<Rightarrow> nat \<Rightarrow> (int + string) option" where
  "pythonBoard s len 0 = Some (Inr [])"
| "pythonBoard s len (Suc i) =
     do {
       x \<leftarrow> pythonBoard s len i;
       (case x of
          Inl e \<Rightarrow> Some (Inl e)
        | Inr t \<Rightarrow> do {
            t1 \<leftarrow> (if i > 0 then put len t CHR ''-'' else Some t);
            cd \<leftarrow> rd (boardCards s) i;
            pythonCard len (-1) cd t1
          })
     }"

primrec pythonHole :: "nat list \<Rightarrow> int \<Rightarrow> string \<Rightarrow> nat \<Rightarrow> (int + string) option" where
  "pythonHole row len t 0 = Some (Inr t)"
| "pythonHole row len t (Suc i) =
     do {
       x \<leftarrow> pythonHole row len t i;
       (case x of
          Inl e \<Rightarrow> Some (Inl e)
        | Inr t' \<Rightarrow> do {
            t1 \<leftarrow> put len t' CHR ''-'';
            cd \<leftarrow> rd row i;
            pythonCard len (-12) cd t1
          })
     }"

definition toPythonCards :: "Game \<Rightarrow> State \<Rightarrow> nat \<Rightarrow> int \<Rightarrow> (int \<times> string) option" where
  "toPythonCards g s player len =
     (if player \<ge> numPlayers g then Some (-11, [])
      else do {
        x \<leftarrow> pythonBoard s len (sumBoardCards g (round_no s));
        (case x of
           Inl e \<Rightarrow> Some (e, [])
         | Inr t \<Rightarrow> do {
             row \<leftarrow> rd (holeCards s) player;
             y \<leftarrow> pythonHole row len t (numHoleCards g);
             (case y of Inl e \<Rightarrow> Some (e, []) | Inr t' \<Rightarrow> Some (0, t'))
           })
      })"

text \<open>
  \<open>printAllCards\<close> has no return value and an unbounded buffer.  \<open>sumBoardCards\<close> is called with \<open>numRounds\<close> and
  adds the entries up to that index, which lies outside \<open>numBoardCards\<close> when all rounds are used.
\<close>

definition printAllCards :: "Game \<Rightarrow> State \<Rightarrow> string option" where
  "printAllCards g s =
     (if numRounds g \<ge> MAX_ROUNDS then None
      else
        let holes = concat (map (\<lambda>i. map (\<lambda>j. holeCards s ! i ! j) [0..<numHoleCards g]) [0..<numPlayers g]);
            board = map (\<lambda>j. boardCards s ! j) [0..<sumBoardCards g (numRounds g)];
            txt = concat (map (\<lambda>c. dec c @ '', '') (holes @ board))
        in if length txt < 2 then None else Some (take (length txt - 2) txt))"

section \<open>Cards survive the trip\<close>

definition card_text :: "nat \<Rightarrow> string" where
  "card_text c = [rankChars ! rankOfCard c, suitChars ! suitOfCard c]"

lemma length_chars: "length rankChars = 13" "length suitChars = 4"
  by (simp_all add: rankChars_def suitChars_def)

lemma card_chars:
  "r < 13 \<Longrightarrow> rankChars ! r \<noteq> NUL \<and> strchr rankChars (toupper (rankChars ! r)) = Some r"
  "q < 4 \<Longrightarrow> suitChars ! q \<noteq> NUL \<and> strchr suitChars (tolower (suitChars ! q)) = Some q"
proof -
  have "\<forall>r \<in> set [0..<13]. rankChars ! r \<noteq> NUL \<and> strchr rankChars (toupper (rankChars ! r)) = Some r"
    "\<forall>q \<in> set [0..<4]. suitChars ! q \<noteq> NUL \<and> strchr suitChars (tolower (suitChars ! q)) = Some q"
    by code_simp+
  then show "r < 13 \<Longrightarrow> rankChars ! r \<noteq> NUL \<and> strchr rankChars (toupper (rankChars ! r)) = Some r"
    "q < 4 \<Longrightarrow> suitChars ! q \<noteq> NUL \<and> strchr suitChars (tolower (suitChars ! q)) = Some q"
    by (simp_all del: upt_rec_numeral)
qed

lemma readCard_card_text: "c < 52 \<Longrightarrow> readCard (card_text c @ rest) = Some (2, c)"
  using card_chars(1) [OF rankOfCard_less] card_chars(2) [OF suitOfCard_less]
  by (simp add: readCard_def card_text_def)

interpretation cards: codec card_text readCard "\<lambda>c. c < 52" "\<lambda>_. True"
  by unfold_locales (auto simp: readCard_card_text, simp add: card_text_def)

lemma readCards_decode: "readCards n s = cards.decode_many n s"
  by (induction n arbitrary: s) (auto split: option.split)

definition cards_text :: "nat list \<Rightarrow> string" where
  "cards_text cs = concat (map card_text cs)"

lemma length_cards_text [simp]: "length (cards_text cs) = 2 * length cs"
  by (induction cs) (auto simp: cards_text_def card_text_def)

lemma readCards_text:
  "\<forall>c \<in> set cs. c < 52 \<Longrightarrow> readCards (length cs) (cards_text cs @ rest) = (2 * length cs, cs)"
  using cards.decode_many_encode [of cs rest] length_cards_text [of cs]
  by (simp add: readCards_decode cards_text_def)

lemma printCard_text:
  "c < 52 \<Longrightarrow> printCard c maxLen = Some (if maxLen < 3 then (-1, []) else (2, card_text c))"
proof -
  assume "c < 52"
  moreover have "suitOfCard c < 5" by (rule less_trans [OF suitOfCard_less]) simp
  ultimately show ?thesis
    using rankOfCard_less [of c] by (simp add: printCard_def card_text_def length_chars nth_append less_SucI rd_def)
qed

lemma printCards_text:
  "\<forall>c \<in> set cs. c < 52 \<Longrightarrow>
     printCards cs maxLen = Some (if cs \<noteq> [] \<and> maxLen < 2 * int (length cs) + 1 then (-1, [])
       else (2 * int (length cs), cards_text cs))"
proof (induction cs arbitrary: maxLen)
  case (Cons c cs)
  then show ?case using Cons.IH [of "maxLen - 2"]
    by (cases "cs = []") (auto simp: printCard_text cards_text_def)
qed (simp add: cards_text_def)

text \<open>C25: cards of the deck survive the trip through text: with room for them \<open>printCards\<close> writes two
  characters for each card and returns their number, and \<open>readCards\<close> reads the same cards back, whatever
  follows.\<close>

theorem cards_round_trip:
  assumes "\<forall>c \<in> set cs. c < 52" "2 * int (length cs) < maxLen"
  shows "\<exists>txt. printCards cs maxLen = Some (2 * int (length cs), txt) \<and>
    readCards (length cs) (txt @ rest) = (2 * length cs, cs)"
  using assms by (simp add: printCards_text readCards_text)

theorem cards_round_trip_witness:
  "\<exists>txt. printCards [51, 0, 17] 7 = Some (6, txt) \<and> readCards 3 (txt @ ''|'') = (6, [51, 0, 17])"
  using cards_round_trip [of "[51, 0, 17]" 7 "''|''"]
  by (simp add: eval_nat_numeral del: printCards.simps readCards.simps)

text \<open>A text that does not start with a card of the deck is refused: \<open>readCard\<close> only accepts a rank
  letter and a suit letter, in either case, and then returns two characters and a card of the deck.\<close>

lemma readCard_accepts:
  assumes "readCard s = Some (r, x)"
  shows "r = 2 \<and> x < 52 \<and> 2 \<le> length s \<and> toupper (s ! 0) = rankChars ! rankOfCard x \<and>
    tolower (s ! 1) = suitChars ! suitOfCard x"
proof -
  have sc: "strchr xs c = Some i \<Longrightarrow> i < length xs \<and> xs ! i = c" for xs c i
    by (induction xs c arbitrary: i rule: strchr.induct) (auto split: if_splits)
  obtain c d where cd: "char_at s 0 \<noteq> NUL" "strchr rankChars (toupper (char_at s 0)) = Some c"
    "char_at s 1 \<noteq> NUL" "strchr suitChars (tolower (char_at s 1)) = Some d" "r = 2" "x = makeCard c d"
    using assms by (auto simp: readCard_def split: if_splits option.splits)
  have len: "1 < length s" "s \<noteq> []" using cd(3) by (auto simp: char_at_def split: if_splits)
  have c: "c < 13" "rankChars ! c = toupper (char_at s 0)" and d: "d < 4" "suitChars ! d = tolower (char_at s 1)"
    using sc [OF cd(2)] sc [OF cd(4)] by (auto simp: rankChars_def suitChars_def)
  have "makeCard c d < 52" using c(1) d(1) by (simp add: makeCard_def)
  then show ?thesis using cd(5,6) len c d by (simp add: char_at_def)
qed

end
