(* ===== verification/Betting_IO.thy ===== *)
theory Betting_IO
  imports Betting Text_IO
begin

text \<open>
  Actions and betting sequences as text: \<open>charToAction\<close>, \<open>readAction\<close>, \<open>printAction\<close>, \<open>readBetting\<close>,
  \<open>printBetting\<close>, \<open>printBetting2\<close>, \<open>printActingPlayerAction\<close>, \<open>printDetailedBetting\<close> and \<open>printSpent\<close>
  of \<open>game.c\<close>.  The print functions share two loops, \<open>print_items\<close> and \<open>sections\<close>.
\<close>

section \<open>Reading\<close>

definition charToAction :: "char \<Rightarrow> ActionType" where
  "charToAction c =
     (if c \<in> {CHR ''B'', CHR ''R'', CHR ''b'', CHR ''r''} then a_raise
      else if c \<in> {CHR ''C'', CHR ''K'', CHR ''c'', CHR ''k''} then a_call
      else if c \<in> {CHR ''F'', CHR ''f''} then a_fold
      else a_invalid)"

text \<open>The test \<open>action->type < 0\<close> of the code never holds: an unknown letter gives \<open>a_invalid\<close> and one
  character.\<close>

definition readAction :: "Game \<Rightarrow> string \<Rightarrow> (int \<times> Action) option" where
  "readAction g s =
     (let t = charToAction (char_at s 0) in
      if t = a_raise \<and> bettingType g = noLimitBetting
      then do {
        x \<leftarrow> sscanf_d32 (drop 1 s);
        (case x of
           None \<Rightarrow> Some (-1, \<lparr>act_type = t, act_size = 0\<rparr>)
         | Some (sz, r) \<Rightarrow> Some (1 + int r, \<lparr>act_type = t, act_size = sz\<rparr>))
      }
      else Some (1, \<lparr>act_type = t, act_size = 0\<rparr>))"

lemma readAction_consumes: "readAction g s = Some (r, a) \<Longrightarrow> 0 \<le> r \<Longrightarrow> 1 \<le> r"
  by (auto simp: readAction_def Let_def bind_eq_Some_conv split: if_splits option.splits)

text \<open>\<open>readBetting\<close>, from the current position on; \<open>c\<close> counts the characters consumed before it.\<close>

function readBetting_loop :: "Game \<Rightarrow> string \<Rightarrow> int \<Rightarrow> State \<Rightarrow> (int \<times> State) option" where
  "readBetting_loop g [] c st = Some (c, st)"
| "readBetting_loop g (x # xs) c st =
     (if x = NUL then Some (c, st)
      else if x = CHR '':'' then Some (c + 1, st)
      else if x = CHR ''/'' then readBetting_loop g xs (c + 1) st
      else case readAction g (x # xs) of
        None \<Rightarrow> None
      | Some (r, a) \<Rightarrow>
          if r < 0 then Some (-1, st)
          else case isValidAction g st False a of
            None \<Rightarrow> None
          | Some (ok, a') \<Rightarrow>
              if \<not> ok then Some (-1, st)
              else case doAction g a' st of
                None \<Rightarrow> None
              | Some (st', e) \<Rightarrow> readBetting_loop g (drop (nat r) (x # xs)) (c + r) st')"
  by pat_completeness auto
termination
  by (relation "measure (\<lambda>(g, s, c, st). length s)") (auto dest!: readAction_consumes)

definition readBetting :: "Game \<Rightarrow> string \<Rightarrow> State \<Rightarrow> (int \<times> State) option" where
  "readBetting g s st = readBetting_loop g s 0 st"

section \<open>Printing\<close>

text \<open>The loops of the print functions; \<open>Some None\<close> is the return value \<open>-1\<close>.\<close>

fun print_items :: "('a \<Rightarrow> int \<Rightarrow> (int \<times> string) option) \<Rightarrow> 'a list \<Rightarrow> int \<Rightarrow> string \<Rightarrow> string option option" where
  "print_items f [] maxLen t = Some (Some t)"
| "print_items f (x # xs) maxLen t =
     do {
       (r, tx) \<leftarrow> f x (maxLen - int (length t));
       if r < 0 then Some None else print_items f xs maxLen (t @ tx)
     }"

definition print_all :: "('a \<Rightarrow> int \<Rightarrow> (int \<times> string) option) \<Rightarrow> 'a list \<Rightarrow> int \<Rightarrow> (int \<times> string) option" where
  "print_all f xs maxLen =
     do {
       x \<leftarrow> print_items f xs maxLen [];
       (case x of None \<Rightarrow> Some (-1, []) | Some t \<Rightarrow> Some (int (length t), t))
     }"

fun sections :: "char \<Rightarrow> (nat \<Rightarrow> int \<Rightarrow> (int \<times> string) option) \<Rightarrow> nat list \<Rightarrow> int \<Rightarrow> string \<Rightarrow> string option option" where
  "sections sep body [] maxLen t = Some (Some t)"
| "sections sep body (i # is) maxLen t =
     (if i \<noteq> 0 \<and> int (length t) \<ge> maxLen then Some None
      else let t1 = (if i \<noteq> 0 then t @ [sep] else t) in
        do {
          (r, tx) \<leftarrow> body i (maxLen - int (length t1));
          if r < 0 then Some None else sections sep body is maxLen (t1 @ tx)
        })"

definition terminated :: "string option option \<Rightarrow> int \<Rightarrow> (int \<times> string) option" where
  "terminated x maxLen =
     do {
       y \<leftarrow> x;
       (case y of
          None \<Rightarrow> Some (-1, [])
        | Some t \<Rightarrow> if int (length t) \<ge> maxLen then Some (-1, []) else Some (int (length t), t))
     }"

text \<open>\<open>actionChars\<close> is \<open>"fcr"\<close>; the index \<open>a_invalid\<close> reads its terminator.\<close>

definition action_char :: "ActionType \<Rightarrow> char" where
  "action_char t = (case t of a_fold \<Rightarrow> CHR ''f'' | a_call \<Rightarrow> CHR ''c'' | a_raise \<Rightarrow> CHR ''r'' | a_invalid \<Rightarrow> NUL)"

definition printAction :: "Game \<Rightarrow> Action \<Rightarrow> int \<Rightarrow> (int \<times> string) option" where
  "printAction g a maxLen =
     (if maxLen = 0 then Some (-1, [])
      else if maxLen < 0 then None
      else do {
        (c, t) \<leftarrow>
          (if bettingType g = noLimitBetting \<and> act_type a = a_raise
           then do {
             r \<leftarrow> snprintf (maxLen - 1) (dec_int (act_size a));
             Some (1 + r, action_char (act_type a) # dec_int (act_size a))
           }
           else Some (1, [action_char (act_type a)]));
        if c \<ge> maxLen then Some (-1, []) else Some (c, t)
      })"

definition round_actions :: "State \<Rightarrow> nat \<Rightarrow> Action list" where
  "round_actions s i = map (\<lambda>a. action s ! i ! a) [0..<numActions s ! i]"

definition printBetting2 :: "Game \<Rightarrow> State \<Rightarrow> int \<Rightarrow> char \<Rightarrow> (int \<times> string) option" where
  "printBetting2 g s maxLen cDelimiter =
     terminated (sections cDelimiter (\<lambda>i. print_all (printAction g) (round_actions s i))
                   [0..<round_no s + 1] maxLen []) maxLen"

definition printBetting :: "Game \<Rightarrow> State \<Rightarrow> int \<Rightarrow> (int \<times> string) option" where
  "printBetting g s maxLen =
     terminated (sections CHR ''/'' (\<lambda>i. print_all (printAction g) (round_actions s i))
                   [0..<round_no s + 1] maxLen []) maxLen"

text \<open>Three unchecked writes are covered by the test of \<open>maxLen\<close>; \<open>actingPlayerChars\<close> has ten digits and a
  terminator.\<close>

definition printActingPlayerAction :: "Game \<Rightarrow> Action \<Rightarrow> nat \<Rightarrow> int \<Rightarrow> (int \<times> string) option" where
  "printActingPlayerAction g a acting_player maxLen =
     (if maxLen < 12 then Some (-1, [])
      else do {
        p \<leftarrow> rd (''0123456789'' @ [NUL]) acting_player;
        t \<leftarrow>
          (if bettingType g = noLimitBetting \<and> act_type a = a_raise
           then do {
             r \<leftarrow> snprintf (maxLen - 3) (dec_int (act_size a));
             Some ([CHR ''['', p, action_char (act_type a)] @ dec_int (act_size a))
           }
           else Some [CHR ''['', p, action_char (act_type a)]);
        if int (length t) \<ge> maxLen then None
        else if int (length t) + 1 \<ge> maxLen then Some (-1, [])
        else Some (int (length t) + 1, t @ '']'')
      })"

definition round_acts :: "State \<Rightarrow> nat \<Rightarrow> (Action \<times> nat) list" where
  "round_acts s i = map (\<lambda>a. (action s ! i ! a, actingPlayer s ! i ! a)) [0..<numActions s ! i]"

definition printDetailedBetting :: "Game \<Rightarrow> State \<Rightarrow> int \<Rightarrow> (int \<times> string) option" where
  "printDetailedBetting g s maxLen =
     terminated (sections CHR ''/'' (\<lambda>i. print_all (\<lambda>(a, p). printActingPlayerAction g a p) (round_acts s i))
                   [0..<round_no s + 1] maxLen []) maxLen"

text \<open>\<open>printSpent\<close> writes the separators without a test.\<close>

fun printSpent_loop :: "int list \<Rightarrow> int \<Rightarrow> string \<Rightarrow> string option" where
  "printSpent_loop [] maxLen t = Some t"
| "printSpent_loop (x # xs) maxLen t =
     do {
       r \<leftarrow> snprintf (maxLen - int (length t)) (dec_int x);
       if int (length t) + r < maxLen then printSpent_loop xs maxLen (t @ dec_int x @ ''/'') else None
     }"

definition printSpent :: "Game \<Rightarrow> State \<Rightarrow> int \<Rightarrow> (int \<times> string) option" where
  "printSpent g s maxLen =
     (if maxLen < 100 then Some (0, [])
      else do {
        t \<leftarrow> printSpent_loop (map (\<lambda>i. spent s ! i) [0..<numPlayers g]) maxLen '':'';
        if int (length t) \<ge> maxLen then Some (-1, []) else Some (int (length t), t)
      })"

section \<open>What is printed\<close>

text \<open>A print function writes a text whenever the text and its terminator fit.\<close>

definition prints :: "(int \<Rightarrow> (int \<times> string) option) \<Rightarrow> string \<Rightarrow> bool" where
  "prints f txt \<longleftrightarrow> (\<forall>maxLen. int (length txt) < maxLen \<longrightarrow> f maxLen = Some (int (length txt), txt))"

lemma printsD: "prints f txt \<Longrightarrow> int (length txt) < maxLen \<Longrightarrow> f maxLen = Some (int (length txt), txt)"
  by (simp add: prints_def)

lemma print_items_text:
  assumes "\<forall>x \<in> set xs. prints (f x) (tx x)" "int (length t) + int (length (concat (map tx xs))) < maxLen"
  shows "print_items f xs maxLen t = Some (Some (t @ concat (map tx xs)))"
  using assms
proof (induction xs arbitrary: t)
  case (Cons x xs)
  have "f x (maxLen - int (length t)) = Some (int (length (tx x)), tx x)"
    using Cons.prems by (intro printsD) auto
  then show ?case using Cons.IH [of "t @ tx x"] Cons.prems by simp
qed simp

lemma prints_all: "\<forall>x \<in> set xs. prints (f x) (tx x) \<Longrightarrow> prints (print_all f xs) (concat (map tx xs))"
  by (simp add: prints_def [of "print_all f xs"] print_all_def print_items_text)

definition sections_text :: "char \<Rightarrow> (nat \<Rightarrow> string) \<Rightarrow> nat list \<Rightarrow> string" where
  "sections_text sep tx is = concat (map (\<lambda>i. (if i \<noteq> 0 then [sep] else []) @ tx i) is)"

lemma sections_text_simps [simp]:
  "sections_text sep tx [] = []"
  "sections_text sep tx (i # is) = (if i \<noteq> 0 then [sep] else []) @ tx i @ sections_text sep tx is"
  "sections_text sep tx (is @ js) = sections_text sep tx is @ sections_text sep tx js"
  by (simp_all add: sections_text_def)

lemma sections_print:
  assumes "\<forall>i \<in> set is. prints (body i) (tx i)" "int (length t) + int (length (sections_text sep tx is)) < maxLen"
  shows "sections sep body is maxLen t = Some (Some (t @ sections_text sep tx is))"
  using assms
proof (induction "is" arbitrary: t)
  case (Cons i "is")
  let ?t1 = "if i \<noteq> 0 then t @ [sep] else t"
  have "body i (maxLen - int (length ?t1)) = Some (int (length (tx i)), tx i)"
    using Cons.prems by (intro printsD) (auto split: if_splits)
  then show ?case using Cons.IH [of "?t1 @ tx i"] Cons.prems by (auto simp: Let_def)
qed simp

lemma prints_terminated:
  assumes "\<forall>i \<in> set is. prints (body i) (tx i)"
  shows "prints (\<lambda>maxLen. terminated (sections sep body is maxLen []) maxLen) (sections_text sep tx is)"
  unfolding prints_def by (auto simp: sections_print [OF assms] terminated_def)

definition action_text :: "Game \<Rightarrow> Action \<Rightarrow> string" where
  "action_text g a =
     action_char (act_type a) # (if bettingType g = noLimitBetting \<and> act_type a = a_raise then dec_int (act_size a) else [])"

lemma prints_action: "prints (printAction g a) (action_text g a)"
  by (cases "bettingType g = noLimitBetting \<and> act_type a = a_raise")
    (auto simp: prints_def printAction_def action_text_def snprintf_def)

definition betting_text :: "Game \<Rightarrow> char \<Rightarrow> State \<Rightarrow> string" where
  "betting_text g sep s =
     sections_text sep (\<lambda>i. concat (map (action_text g) (round_actions s i))) [0..<round_no s + 1]"

lemma prints_betting2: "prints (\<lambda>maxLen. printBetting2 g s maxLen sep) (betting_text g sep s)"
  unfolding printBetting2_def betting_text_def
  by (intro prints_terminated ballI prints_all) (rule prints_action)

lemma prints_betting: "prints (printBetting g s) (betting_text g CHR ''/'' s)"
  using prints_betting2 [of g s "CHR ''/''"] by (simp add: prints_def printBetting_def printBetting2_def)

section \<open>Actions survive the trip\<close>

lemma charToAction_char: "t \<noteq> a_invalid \<Longrightarrow> charToAction (action_char t) = t"
  by (cases t) (simp_all add: charToAction_def action_char_def)

text \<open>The actions that text can express: \<open>size\<close> is zero where it is not used.\<close>

definition text_action :: "Game \<Rightarrow> Action \<Rightarrow> bool" where
  "text_action g a \<longleftrightarrow> act_type a \<noteq> a_invalid \<and>
     (if bettingType g = noLimitBetting \<and> act_type a = a_raise
      then INT32_MIN \<le> act_size a \<and> act_size a \<le> INT32_MAX else act_size a = 0)"

lemma readAction_text:
  assumes "text_action g a" "ends_number rest"
  shows "readAction g (action_text g a @ rest) = Some (int (length (action_text g a)), a)"
proof -
  have "charToAction (action_char (act_type a)) = act_type a"
    using assms(1) by (intro charToAction_char) (simp add: text_action_def)
  then show ?thesis
    using assms by (cases a; cases "bettingType g = noLimitBetting \<and> act_type a = a_raise")
      (auto simp: readAction_def action_text_def text_action_def sscanf_d32_dec_int Let_def)
qed

lemma ends_number_action: "act_type a \<noteq> a_invalid \<Longrightarrow> ends_number (action_text g a @ rest)"
  by (cases "act_type a") (simp_all add: action_text_def action_char_def ends_number_def isdigit_def)

definition decode_action :: "Game \<Rightarrow> string \<Rightarrow> (nat \<times> Action) option" where
  "decode_action g s = (case readAction g s of Some (r, a) \<Rightarrow> if r < 0 then None else Some (nat r, a) | None \<Rightarrow> None)"

interpretation actions: codec "action_text g" "decode_action g" "text_action g" ends_number for g
proof
  fix a rest assume a: "text_action g a" "ends_number rest"
  then show "decode_action g (action_text g a @ rest) = Some (length (action_text g a), a)"
    by (simp add: decode_action_def readAction_text)
  show "ends_number (action_text g a @ rest)"
    using a by (intro ends_number_action) (simp add: text_action_def)
qed

end
