(* ===== verification/State_IO.thy ===== *)
theory State_IO
  imports Card_IO Betting_IO
begin

text \<open>
  States of a hand as text: the hole-card, board-card and state readers and printers of \<open>game.c\<close>.  The
  printers are chains of steps \<open>r = f(..., maxLen - c, &string[c]); if (r < 0) return -1; c += r;\<close>, which
  \<open>print_items\<close> models with the list of the steps.
\<close>

section \<open>Reading\<close>

definition write_cards :: "nat list \<Rightarrow> nat \<Rightarrow> nat list \<Rightarrow> nat list option" where
  "write_cards xs i ys =
     (if i + length ys \<le> length xs then Some (take i xs @ ys @ drop (i + length ys) xs) else None)"

text \<open>An optional separator in front of every part but the first.\<close>

definition skip_sep :: "char \<Rightarrow> nat \<Rightarrow> string \<Rightarrow> int \<Rightarrow> string \<times> int" where
  "skip_sep sep i s c = (if i \<noteq> 0 \<and> char_at s 0 = sep then (drop 1 s, c + 1) else (s, c))"

fun readHoleCards_loop :: "Game \<Rightarrow> nat list \<Rightarrow> string \<Rightarrow> int \<Rightarrow> State \<Rightarrow> (int \<times> State) option" where
  "readHoleCards_loop g [] s c st = Some (c, st)"
| "readHoleCards_loop g (p # ps) s c st =
     (case skip_sep CHR ''|'' p s c of (s1, c1) \<Rightarrow>
      case readCards (numHoleCards g) s1 of (r, cs) \<Rightarrow>
        do {
          row \<leftarrow> rd (holeCards st) p;
          row' \<leftarrow> write_cards row 0 cs;
          let st' = st\<lparr>holeCards := (holeCards st)[p := row']\<rparr>;
          if length cs = 0 then readHoleCards_loop g ps s1 c1 st'
          else if length cs \<noteq> numHoleCards g then Some (-1, st')
          else readHoleCards_loop g ps (drop r s1) (c1 + int r) st'
        })"

definition readHoleCards :: "Game \<Rightarrow> string \<Rightarrow> State \<Rightarrow> (int \<times> State) option" where
  "readHoleCards g s st = readHoleCards_loop g [0..<numPlayers g] s 0 st"

fun readBoardCards_loop :: "Game \<Rightarrow> nat list \<Rightarrow> string \<Rightarrow> int \<Rightarrow> State \<Rightarrow> (int \<times> State) option" where
  "readBoardCards_loop g [] s c st = Some (c, st)"
| "readBoardCards_loop g (i # is) s c st =
     (case skip_sep CHR ''/'' i s c of (s1, c1) \<Rightarrow>
      case readCards (numBoardCards g ! i) s1 of (r, cs) \<Rightarrow>
        do {
          bc \<leftarrow> write_cards (boardCards st) (bcStart g i) cs;
          let st' = st\<lparr>boardCards := bc\<rparr>;
          if length cs \<noteq> numBoardCards g ! i then Some (-1, st')
          else readBoardCards_loop g is (drop r s1) (c1 + int r) st'
        })"

definition readBoardCards :: "Game \<Rightarrow> string \<Rightarrow> State \<Rightarrow> (int \<times> State) option" where
  "readBoardCards g s st = readBoardCards_loop g [0..<round_no st + 1] s 0 st"

text \<open>\<open>sscanf\<close> with literal characters in front of the conversion.\<close>

definition sscanf_lit_u :: "string \<Rightarrow> nat \<Rightarrow> string \<Rightarrow> (nat \<times> nat) option option" where
  "sscanf_lit_u lit w s =
     (if take (length lit) s \<noteq> lit then Some None
      else do {
        x \<leftarrow> sscanf_u w (drop (length lit) s);
        Some (map_option (\<lambda>(v, n). (v, length lit + n)) x)
      })"

text \<open>\<open>r = f(&string[c]); if (r < 0) return -1; c += r;\<close>\<close>

definition read_part ::
  "(string \<Rightarrow> State \<Rightarrow> (int \<times> State) option) \<Rightarrow> string \<Rightarrow> int \<times> State \<Rightarrow> (int \<times> State) option" where
  "read_part f s x =
     (case x of (c, st) \<Rightarrow>
        if c < 0 then Some (-1, st)
        else do { (r, st') \<leftarrow> f (drop (nat c) s) st; if r < 0 then Some (-1, st') else Some (c + r, st') })"

definition readStateCommon :: "Game \<Rightarrow> string \<Rightarrow> State \<Rightarrow> (int \<times> State) option" where
  "readStateCommon g s st =
     do {
       x \<leftarrow> sscanf_lit_u '':'' 32 s;
       (case x of
          None \<Rightarrow> Some (-1, st)
        | Some (hid, c) \<Rightarrow> do {
            st0 \<leftarrow> initState g hid st;
            if char_at s c \<noteq> CHR '':'' then Some (-1, st0)
            else do {
              b \<leftarrow> read_part (readBetting g) s (int c + 1, st0);
              h \<leftarrow> read_part (readHoleCards g) s b;
              read_part (readBoardCards g) s h
            }
          })
     }"

definition readState :: "Game \<Rightarrow> string \<Rightarrow> State \<Rightarrow> (int \<times> State) option" where
  "readState g s st =
     (if take 5 s \<noteq> ''STATE'' then Some (-1, st)
      else do {
        (r, st') \<leftarrow> readStateCommon g (drop 5 s) st;
        if r < 0 then Some (-1, st') else Some (5 + r, st')
      })"

definition readMatchState :: "Game \<Rightarrow> string \<Rightarrow> MatchState \<Rightarrow> (int \<times> MatchState) option" where
  "readMatchState g s ms =
     do {
       x \<leftarrow> sscanf_lit_u ''MATCHSTATE:'' 8 s;
       (case x of
          None \<Rightarrow> Some (-1, ms)
        | Some (v, c) \<Rightarrow>
            if v \<ge> numPlayers g then Some (-1, ms\<lparr>viewingPlayer := v\<rparr>)
            else do {
              (r, st') \<leftarrow> readStateCommon g (drop c s) (ms_state ms);
              let ms' = ms\<lparr>viewingPlayer := v, ms_state := st'\<rparr>;
              if r < 0 then Some (-1, ms') else Some (int c + r, ms')
            })
     }"

section \<open>Printing\<close>

definition hole_row :: "Game \<Rightarrow> State \<Rightarrow> nat \<Rightarrow> nat list" where
  "hole_row g s p = map (\<lambda>i. holeCards s ! p ! i) [0..<numHoleCards g]"

definition printAllHoleCards :: "Game \<Rightarrow> State \<Rightarrow> int \<Rightarrow> (int \<times> string) option" where
  "printAllHoleCards g s maxLen =
     terminated (sections CHR ''|'' (\<lambda>p. printCards (hole_row g s p)) [0..<numPlayers g] maxLen []) maxLen"

text \<open>Whether the hole cards of seat \<open>p\<close> are shown to the viewing player.\<close>

definition shown :: "Game \<Rightarrow> State \<Rightarrow> nat \<Rightarrow> nat \<Rightarrow> bool" where
  "shown g s player p \<longleftrightarrow> p = player \<or>
     (finished s \<and> \<not> playerFolded s ! p \<and> numFolded g s + 1 \<noteq> numPlayers g)"

definition printPlayerHoleCards :: "Game \<Rightarrow> State \<Rightarrow> nat \<Rightarrow> int \<Rightarrow> (int \<times> string) option" where
  "printPlayerHoleCards g s player maxLen =
     terminated (sections CHR ''|''
       (\<lambda>p n. if shown g s player p then printCards (hole_row g s p) n else Some (0, []))
       [0..<numPlayers g] maxLen []) maxLen"

definition board_row :: "Game \<Rightarrow> State \<Rightarrow> nat \<Rightarrow> nat list" where
  "board_row g s i = map (\<lambda>k. boardCards s ! (bcStart g i + k)) [0..<numBoardCards g ! i]"

definition printBoardCards :: "Game \<Rightarrow> State \<Rightarrow> int \<Rightarrow> (int \<times> string) option" where
  "printBoardCards g s maxLen =
     terminated (sections CHR ''/'' (\<lambda>i. printCards (board_row g s i)) [0..<round_no s + 1] maxLen []) maxLen"

definition printAllBoardCards :: "Game \<Rightarrow> State \<Rightarrow> int \<Rightarrow> (int \<times> string) option" where
  "printAllBoardCards g s maxLen =
     terminated (sections CHR ''/'' (\<lambda>i. printCards (board_row g s i)) [0..<numRounds g] maxLen []) maxLen"

definition printf_step :: "string \<Rightarrow> int \<Rightarrow> (int \<times> string) option" where
  "printf_step txt n = do { r \<leftarrow> snprintf n txt; Some (r, txt) }"

text \<open>\<open>if (c >= maxLen) return -1; string[c] = ':'; ++c;\<close>\<close>

definition colon_step :: "int \<Rightarrow> (int \<times> string) option" where
  "colon_step n = (if 0 \<ge> n then Some (-1, []) else Some (1, '':''))"

definition printStateCommon :: "Game \<Rightarrow> State \<Rightarrow> int \<Rightarrow> (int \<times> string) option" where
  "printStateCommon g s maxLen =
     print_all (\<lambda>step. step)
       [printf_step ('':'' @ dec (handId s) @ '':''), printBetting g s, colon_step] maxLen"

definition printState :: "Game \<Rightarrow> State \<Rightarrow> int \<Rightarrow> (int \<times> string) option" where
  "printState g s maxLen =
     terminated (print_items (\<lambda>step. step)
       [printf_step ''STATE'', printStateCommon g s, printAllHoleCards g s, printBoardCards g s] maxLen []) maxLen"

definition printStateCommonDetailed :: "Game \<Rightarrow> State \<Rightarrow> int \<Rightarrow> (int \<times> string) option" where
  "printStateCommonDetailed g s maxLen =
     print_all (\<lambda>step. step)
       [printf_step ('':'' @ dec (handId s) @ '':''), printDetailedBetting g s, colon_step] maxLen"

definition printStateDetailed :: "Game \<Rightarrow> State \<Rightarrow> int \<Rightarrow> (int \<times> string) option" where
  "printStateDetailed g s maxLen =
     terminated (print_items (\<lambda>step. step)
       [printf_step ''STATE'', printStateCommonDetailed g s, printAllHoleCards g s, printAllBoardCards g s,
        printSpent g s] maxLen []) maxLen"

definition printMatchState :: "Game \<Rightarrow> MatchState \<Rightarrow> int \<Rightarrow> (int \<times> string) option" where
  "printMatchState g ms maxLen =
     terminated (print_items (\<lambda>step. step)
       [printf_step (''MATCHSTATE:'' @ dec (viewingPlayer ms)), printStateCommon g (ms_state ms),
        printPlayerHoleCards g (ms_state ms) (viewingPlayer ms), printBoardCards g (ms_state ms)] maxLen []) maxLen"

section \<open>What is printed\<close>

lemma prints_step: "prints (printf_step txt) txt"
  by (simp add: prints_def printf_step_def snprintf_def)

lemma prints_colon: "prints colon_step '':''"
  by (simp add: prints_def colon_step_def)

lemma prints_chain:
  assumes "list_all2 prints fs txts"
  shows "prints (print_all (\<lambda>step. step) fs) (concat txts)"
proof -
  have "print_items (\<lambda>step. step) fs n t = Some (Some (t @ concat txts))"
    if "int (length t) + int (length (concat txts)) < n" for n t
    using assms that
  proof (induction arbitrary: t rule: list_all2_induct)
    case (Cons f fs tx txts)
    have "f (n - int (length t)) = Some (int (length tx), tx)" using Cons by (intro printsD) auto
    then show ?case using Cons.IH [of "t @ tx"] Cons.prems by simp
  qed simp
  then show ?thesis by (simp add: prints_def print_all_def)
qed

lemma prints_chain_terminated:
  assumes "list_all2 prints fs txts"
  shows "prints (\<lambda>n. terminated (print_items (\<lambda>step. step) fs n []) n) (concat txts)"
proof -
  have "print_items (\<lambda>step. step) fs n [] = Some (Some (concat txts))" if "int (length (concat txts)) < n" for n
    using prints_chain [OF assms] that
    by (auto simp: prints_def print_all_def bind_eq_Some_conv split: option.splits)
  then show ?thesis by (simp add: prints_def terminated_def)
qed

lemma prints_cards: "\<forall>c \<in> set cs. c < 52 \<Longrightarrow> prints (printCards cs) (cards_text cs)"
  by (simp add: prints_def printCards_text)

text \<open>The cards of the game's positions belong to the deck.\<close>

definition cards_ok :: "Game \<Rightarrow> State \<Rightarrow> bool" where
  "cards_ok g s \<longleftrightarrow> (\<forall>p<numPlayers g. \<forall>c \<in> set (hole_row g s p). c < 52) \<and>
     (\<forall>i<numRounds g. \<forall>c \<in> set (board_row g s i). c < 52)"

definition holes_text :: "Game \<Rightarrow> State \<Rightarrow> string" where
  "holes_text g s = sections_text CHR ''|'' (\<lambda>p. cards_text (hole_row g s p)) [0..<numPlayers g]"

definition board_text :: "Game \<Rightarrow> State \<Rightarrow> nat \<Rightarrow> string" where
  "board_text g s n = sections_text CHR ''/'' (\<lambda>i. cards_text (board_row g s i)) [0..<n]"

definition state_common_text :: "Game \<Rightarrow> State \<Rightarrow> string" where
  "state_common_text g s = '':'' @ dec (handId s) @ '':'' @ betting_text g CHR ''/'' s @ '':''"

definition state_text :: "Game \<Rightarrow> State \<Rightarrow> string" where
  "state_text g s = ''STATE'' @ state_common_text g s @ holes_text g s @ board_text g s (round_no s + 1)"

lemma prints_holes: "cards_ok g s \<Longrightarrow> prints (printAllHoleCards g s) (holes_text g s)"
  unfolding printAllHoleCards_def holes_text_def
  by (intro prints_terminated ballI prints_cards) (simp add: cards_ok_def)

lemma prints_board:
  "cards_ok g s \<Longrightarrow> round_no s < numRounds g \<Longrightarrow> prints (printBoardCards g s) (board_text g s (round_no s + 1))"
  unfolding printBoardCards_def board_text_def
  by (intro prints_terminated ballI prints_cards) (auto simp: cards_ok_def less_Suc_eq dest: less_trans)

lemma prints_state_common: "prints (printStateCommon g s) (state_common_text g s)"
  using prints_chain [of "[printf_step ('':'' @ dec (handId s) @ '':''), printBetting g s, colon_step]"
      "['':'' @ dec (handId s) @ '':'', betting_text g CHR ''/'' s, '':'']"]
  by (simp add: prints_def printStateCommon_def state_common_text_def prints_step [unfolded prints_def]
      prints_betting [unfolded prints_def] prints_colon [unfolded prints_def])

lemma prints_state:
  assumes "cards_ok g s" "round_no s < numRounds g"
  shows "prints (printState g s) (state_text g s)"
proof -
  have "prints (printState g s) (concat [''STATE'', state_common_text g s, holes_text g s, board_text g s (round_no s + 1)])"
    unfolding printState_def
    by (rule prints_chain_terminated)
      (use prints_step prints_state_common prints_holes [OF assms(1)] prints_board [OF assms] in simp)
  then show ?thesis by (simp add: state_text_def)
qed

end
