(* ===== verification/Replay.thy ===== *)
theory Replay
  imports Betting_Machine
begin

text \<open>
  The engine only looks at the part of a state that belongs to the hand: two states that agree on it, whatever
  older hands left in the rest of their arrays, accept the same actions and are changed in the same way.
\<close>

definition same_hand :: "Game \<Rightarrow> State \<Rightarrow> State \<Rightarrow> bool" where
  "same_hand g s t \<longleftrightarrow>
     handId s = handId t \<and> maxSpent s = maxSpent t \<and> minNoLimitRaiseTo s = minNoLimitRaiseTo t \<and>
     round_no s = round_no t \<and> finished s = finished t \<and>
     (\<forall>p<numPlayers g. spent s ! p = spent t ! p \<and> playerFolded s ! p = playerFolded t ! p) \<and>
     (\<forall>r<numRounds g. numActions s ! r = numActions t ! r \<and> roundSpent s ! r = roundSpent t ! r \<and>
        (\<forall>i<numActions s ! r. action s ! r ! i = action t ! r ! i \<and>
           actingPlayer s ! r ! i = actingPlayer t ! r ! i \<and> actingPlayer s ! r ! i < numPlayers g))"

lemma same_handD:
  assumes "same_hand g s t"
  shows "handId s = handId t" "maxSpent s = maxSpent t" "minNoLimitRaiseTo s = minNoLimitRaiseTo t"
    "round_no s = round_no t" "finished s = finished t"
    "p < numPlayers g \<Longrightarrow> spent s ! p = spent t ! p"
    "p < numPlayers g \<Longrightarrow> playerFolded s ! p = playerFolded t ! p"
    "r < numRounds g \<Longrightarrow> numActions s ! r = numActions t ! r"
    "r < numRounds g \<Longrightarrow> roundSpent s ! r = roundSpent t ! r"
    "r < numRounds g \<Longrightarrow> i < numActions t ! r \<Longrightarrow> action s ! r ! i = action t ! r ! i"
    "r < numRounds g \<Longrightarrow> i < numActions t ! r \<Longrightarrow> actingPlayer s ! r ! i = actingPlayer t ! r ! i"
    "r < numRounds g \<Longrightarrow> i < numActions t ! r \<Longrightarrow> actingPlayer t ! r ! i < numPlayers g"
proof -
  have e: "numActions s ! r = numActions t ! r" if "r < numRounds g" for r using assms that by (simp add: same_hand_def)
  show "r < numRounds g \<Longrightarrow> i < numActions t ! r \<Longrightarrow> actingPlayer t ! r ! i < numPlayers g"
    using assms e [of r] unfolding same_hand_def by metis
qed (use assms in \<open>auto simp: same_hand_def\<close>)

section \<open>Counters and turns\<close>

lemma count8_cong: "(\<And>p. p < n \<Longrightarrow> P p = Q p) \<Longrightarrow> count8 P n = count8 Q n"
  by (induction n) auto

lemma same_counters:
  assumes sim: "same_hand g s t" and r: "round_no s < numRounds g"
  shows "numFolded g s = numFolded g t" "numActingPlayers g s = numActingPlayers g t"
    "numRaises s = numRaises t" "numCalled g s = numCalled g t"
proof -
  note d = same_handD [OF sim]
  have r': "round_no t < numRounds g" using r d(4) by simp
  show "numFolded g s = numFolded g t" "numActingPlayers g s = numActingPlayers g t"
    unfolding numFolded_def numActingPlayers_def using d(6,7) by (auto intro!: count8_cong)
  show "numRaises s = numRaises t"
    unfolding numRaises_def d(4) d(8) [OF r'] using d(10) [OF r'] by (intro count8_cong) simp
  have "numCalled_loop g s n ret = numCalled_loop g t n ret" if "n \<le> numActions t ! round_no t" for n ret
    using that
  proof (induction n arbitrary: ret)
    case (Suc n)
    then have "actingPlayer t ! round_no t ! n < numPlayers g" using d(12) [OF r'] by simp
    then show ?case
      using Suc d(10,11) [OF r', of n] d(6) by (simp add: Let_def d(4))
  qed simp
  then show "numCalled g s = numCalled g t" unfolding numCalled_def d(4) d(8) [OF r'] by simp
qed

lemma same_nextPlayer:
  assumes "same_hand g s t" "0 < numPlayers g"
  shows "nextPlayer_loop g s n cnt = nextPlayer_loop g t n cnt"
proof (induction "numPlayers g + 3 - cnt" arbitrary: n cnt rule: less_induct)
  case less
  have n: "(n + 1) mod numPlayers g < numPlayers g" using assms(2) by simp
  show ?case
    using less same_handD(6,7) [OF assms(1) n]
    by (subst (1 2) nextPlayer_loop.simps) (auto simp: Let_def)
qed

lemma same_currentPlayer:
  assumes "same_hand g s t" "0 < numPlayers g" "round_no s < numRounds g"
  shows "currentPlayer g s = currentPlayer g t"
proof -
  note d = same_handD [OF assms(1)]
  have r: "round_no t < numRounds g" using assms(3) d(4) by simp
  show ?thesis unfolding currentPlayer_def Let_def nextPlayer_def same_nextPlayer [OF assms(1,2)] d(4) d(8) [OF r]
    using d(11) [OF r, of "numActions t ! round_no t - 1"] by simp
qed

lemma same_isValid:
  assumes sim: "same_hand g s t" and wf: "wf_game g" and r: "round_no s < numRounds g"
    and sh: "shape_state s" "shape_state t" and p: "currentPlayer g s < numPlayers g"
  shows "isValidAction g s fx a = isValidAction g t fx a"
proof -
  note d = same_handD [OF sim] and c = same_counters [OF sim r]
  have r': "round_no t < numRounds g" and N: "0 < numPlayers g" using r d(4) wf_gameD(1) [OF wf] by auto
  note cur = same_currentPlayer [OF sim N r]
  have p': "currentPlayer g t < numPlayers g" "currentPlayer g t < 10" using p cur wf_gameD(2) [OF wf] by auto
  have sp: "rd (spent s) (currentPlayer g t) = rd (spent t) (currentPlayer g t)"
    using d(6) [OF p'(1)] p'(2) shape_stateD(1) [OF sh(1)] shape_stateD(1) [OF sh(2)] by (simp add: rd_def)
  have rv: "raiseIsValid g s = raiseIsValid g t"
    unfolding raiseIsValid_def c cur d(2-4) d(8) [OF r'] ..
  show ?thesis unfolding isValidAction_def rv cur d(5) sp ..
qed

section \<open>Actions\<close>

lemma same_record:
  assumes sim: "same_hand g s t" and wf: "wf_game g" and r: "round_no s < numRounds g"
    and sh: "shape_state s" "shape_state t" and p: "p < numPlayers g" and rec: "doAction_record a p s = Some s1"
  shows "\<exists>t1. doAction_record a p t = Some t1 \<and> same_hand g s1 t1 \<and> 0 < numActions t1 ! round_no t1"
proof -
  note d = same_handD [OF sim]
  have r': "round_no t < numRounds g" "round_no t < 4" using r d(4) wf_gameD(4) [OF wf] by auto
  let ?r = "round_no t" and ?k = "numActions t ! round_no t"
  have k: "?k < 64" and p256: "p < 256" using rec d(4) d(8) [OF r'(1)] p wf_gameD(2) [OF wf]
    by (auto simp: doAction_record_def Let_def split: if_splits)
  have len: "length (action s) = 4" "length (actingPlayer s) = 4" "length (action t) = 4" "length (actingPlayer t) = 4"
    "length (numActions s) = 4" "length (numActions t) = 4"
    "length (action s ! ?r) = 64" "length (actingPlayer s ! ?r) = 64"
    "length (action t ! ?r) = 64" "length (actingPlayer t ! ?r) = 64"
    using shape_stateD [OF sh(1)] shape_stateD [OF sh(2)] r'(2) by auto
  have s1: "s1 = s\<lparr>action := (action s)[?r := (action s ! ?r)[?k := a]],
      actingPlayer := (actingPlayer s)[?r := (actingPlayer s ! ?r)[?k := p]],
      numActions := (numActions s)[?r := Suc ?k]\<rparr>"
    using rec k p256 by (simp add: doAction_record_def Let_def d(4) d(8) [OF r'(1)])
  let ?t1 = "t\<lparr>action := (action t)[?r := (action t ! ?r)[?k := a]],
      actingPlayer := (actingPlayer t)[?r := (actingPlayer t ! ?r)[?k := p]],
      numActions := (numActions t)[?r := Suc ?k]\<rparr>"
  have "doAction_record a p t = Some ?t1" using k p256 by (simp add: doAction_record_def Let_def)
  moreover have "same_hand g s1 ?t1"
    unfolding same_hand_def s1 using d p k r' len
    by (auto simp: nth_list_update less_Suc_eq)
  ultimately show ?thesis using len r' by auto
qed

lemma same_apply:
  assumes sim: "same_hand g s t" and wf: "wf_game g" and r: "round_no s < numRounds g"
    and sh: "shape_state s" "shape_state t" and p: "p < numPlayers g"
    and k: "0 < numActions t ! round_no t" "numActions t ! round_no t \<le> 64" and ap: "doAction_apply g a p s = Some s1"
  shows "\<exists>t1. doAction_apply g a p t = Some t1 \<and> same_hand g s1 t1"
proof -
  note d = same_handD [OF sim]
  have r': "round_no t < numRounds g" "round_no t < 4" using r d(4) wf_gameD(4) [OF wf] by auto
  have p10: "p < 10" using p wf_gameD(2) [OF wf] by simp
  have len: "length (spent s) = 10" "length (spent t) = 10" "length (playerFolded s) = 10" "length (playerFolded t) = 10"
    "length (stack g) = 10" "length (action s) = 4" "length (action t) = 4"
    "length (action s ! round_no t) = 64" "length (action t ! round_no t) = 64"
    using shape_stateD [OF sh(1)] shape_stateD [OF sh(2)] r'(2) wf_gameD(5) [OF wf] by auto
  show ?thesis
  proof (cases "act_type a")
    case a_fold
    then have "s1 = s\<lparr>playerFolded := (playerFolded s)[p := True]\<rparr>"
      using ap p10 len by (simp add: doAction_apply_def doAction_fold_def)
    moreover have "doAction_apply g a p t = Some (t\<lparr>playerFolded := (playerFolded t)[p := True]\<rparr>)"
      using a_fold p10 len by (simp add: doAction_apply_def doAction_fold_def)
    moreover have "same_hand g (s\<lparr>playerFolded := (playerFolded s)[p := True]\<rparr>) (t\<lparr>playerFolded := (playerFolded t)[p := True]\<rparr>)"
      using d len p10 unfolding same_hand_def by (simp add: nth_list_update)
    ultimately show ?thesis by simp
  next
    case a_call
    let ?r = "round_no t" and ?k = "numActions t ! round_no t - 1"
    let ?am = "if maxSpent t > stack g ! p then stack g ! p else maxSpent t"
    let ?up = "\<lambda>s. s\<lparr>spent := (spent s)[p := ?am],
      action := (action s)[?r := (action s ! ?r)[?k := (action s ! ?r ! ?k)\<lparr>act_size := ?am\<rparr>]]\<rparr>"
    have "s1 = ?up s" using a_call ap p10 len unfolding doAction_apply_def doAction_call_def Let_def d(2,4) d(8) [OF r'(1)]
      by (auto split: if_splits)
    moreover have "doAction_apply g a p t = Some (?up t)"
      using a_call p10 len by (simp add: doAction_apply_def doAction_call_def Let_def)
    moreover have "action s ! ?r ! ?k = action t ! ?r ! ?k" using d(10) [OF r'(1), of ?k] k by simp
    then have "same_hand g (?up s) (?up t)"
      using d len p10 r' k unfolding same_hand_def by (simp add: nth_list_update)
    ultimately show ?thesis by simp
  next
    case a_raise
    have "\<exists>mn m. s1 = s\<lparr>minNoLimitRaiseTo := mn, maxSpent := m, spent := (spent s)[p := m]\<rparr> \<and>
        doAction_apply g a p t = Some (t\<lparr>minNoLimitRaiseTo := mn, maxSpent := m, spent := (spent t)[p := m]\<rparr>)"
    proof (cases "bettingType g = noLimitBetting")
      case True
      then show ?thesis using a_raise ap p10 len
        by (intro exI [of _ "max (minNoLimitRaiseTo t) (2 * act_size a - maxSpent t)"] exI [of _ "act_size a"])
          (auto simp: doAction_apply_def doAction_raise_def d(2,3) bind_eq_Some_conv chk32_Some_iff max_def split: if_splits)
    next
      case False
      moreover have "s\<lparr>minNoLimitRaiseTo := minNoLimitRaiseTo t\<rparr> = s" by (simp add: d(3) [symmetric])
      ultimately show ?thesis using a_raise ap p10 len
        by (intro exI [of _ "minNoLimitRaiseTo t"] exI [of _ "min (stack g ! p) (maxSpent t + raiseSize g ! round_no t)"])
          (auto simp: doAction_apply_def doAction_raise_def d(2,4) bind_eq_Some_conv chk32_Some_iff Let_def min_def
            split: if_splits)
    qed
    moreover have "same_hand g (s\<lparr>minNoLimitRaiseTo := mn, maxSpent := m, spent := (spent s)[p := m]\<rparr>)
        (t\<lparr>minNoLimitRaiseTo := mn, maxSpent := m, spent := (spent t)[p := m]\<rparr>)" for mn m
      using d len p10 unfolding same_hand_def by (simp add: nth_list_update)
    ultimately show ?thesis by blast
  qed (use ap in \<open>simp add: doAction_apply_def\<close>)
qed

lemma same_roundSpent:
  assumes sim: "same_hand g s t" and wf: "wf_game g" and r: "round_no s < numRounds g"
    and sh: "shape_state s" "shape_state t" and st: "doAction_roundSpent a s = Some s1"
  shows "\<exists>t1. doAction_roundSpent a t = Some t1 \<and> same_hand g s1 t1"
proof -
  note d = same_handD [OF sim]
  have r': "round_no t < numRounds g" "round_no t < 4" using r d(4) wf_gameD(4) [OF wf] by auto
  have len: "length (roundSpent s) = 4" "length (roundSpent t) = 4"
    using shape_stateD [OF sh(1)] shape_stateD [OF sh(2)] by auto
  have loop: "i \<le> round_no t \<Longrightarrow> roundSpent_loop s i = roundSpent_loop t i" for i
    using d(9) r' by (induction i) (auto simp: d(2))
  have upd: "same_hand g (s\<lparr>roundSpent := (roundSpent s)[r := v]\<rparr>) (t\<lparr>roundSpent := (roundSpent t)[r := v]\<rparr>)" if "r < 4" for r v
    using d len that unfolding same_hand_def by (simp add: nth_list_update)
  show ?thesis
    using st upd sim r'(2) by (auto simp: doAction_roundSpent_def d(2,4) loop bind_eq_Some_conv split: if_splits)
qed

lemma same_end:
  assumes sim: "same_hand g s t" and r: "round_no s < numRounds g" and st: "doAction_end g s = Some (s1, e)"
  shows "\<exists>t1. doAction_end g t = Some (t1, e) \<and> same_hand g s1 t1"
proof -
  note d = same_handD [OF sim] and c = same_counters [OF sim r]
  have upd: "same_hand g (s\<lparr>finished := b\<rparr>) (t\<lparr>finished := b\<rparr>)"
    "same_hand g (s\<lparr>finished := b, round_no := q\<rparr>) (t\<lparr>finished := b, round_no := q\<rparr>)"
    "same_hand g (s\<lparr>round_no := q, minNoLimitRaiseTo := m\<rparr>) (t\<lparr>round_no := q, minNoLimitRaiseTo := m\<rparr>)" for b q m
    using d unfolding same_hand_def by simp_all
  show ?thesis
    using st upd sim unfolding doAction_end_def c d(2,4) by (auto simp: bind_eq_Some_conv split: if_splits)
qed

lemma record_shape:
  assumes "shape_state s" "round_no s < 4" "doAction_record a p s = Some s1"
  shows "shape_state s1" "round_no s1 = round_no s"
  using assms by (auto simp: doAction_record_def Let_def shape_state_def nth_list_update split: if_splits)

lemma apply_shape:
  assumes "shape_state s" "round_no s < 4" "doAction_apply g a p s = Some s1"
  shows "shape_state s1" "round_no s1 = round_no s"
proof -
  have "shape_state s1 \<and> round_no s1 = round_no s"
    using assms by (cases "act_type a")
      (auto simp: doAction_apply_def doAction_fold_def doAction_call_def doAction_raise_def Let_def shape_state_def
        nth_list_update bind_eq_Some_conv rd_def wr_def split: if_splits)
  then show "shape_state s1" "round_no s1 = round_no s" by auto
qed

lemma roundSpent_shape:
  assumes "shape_state s" "doAction_roundSpent a s = Some s1"
  shows "shape_state s1" "round_no s1 = round_no s"
  using assms by (auto simp: doAction_roundSpent_def shape_state_def bind_eq_Some_conv split: if_splits)

lemma end_shape:
  assumes "shape_state s" "doAction_end g s = Some (s1, e)"
  shows "shape_state s1"
  using assms by (auto simp: doAction_end_def shape_state_def bind_eq_Some_conv split: if_splits)

lemma same_doAction:
  assumes sim: "same_hand g s t" and wf: "wf_game g" and r: "round_no s < numRounds g"
    and sh: "shape_state s" "shape_state t" and p: "currentPlayer g s < numPlayers g"
    and st: "doAction g a s = Some (s', e)"
  shows "\<exists>t'. doAction g a t = Some (t', e) \<and> same_hand g s' t' \<and> shape_state t'"
proof -
  have N: "0 < numPlayers g" and r4: "round_no s < 4" "round_no t < 4"
    using r wf_gameD(1,4) [OF wf] same_handD(4) [OF sim] by auto
  note cur = same_currentPlayer [OF sim N r]
  obtain s1 s2 s3 where s: "doAction_record a (currentPlayer g s) s = Some s1"
    "doAction_apply g a (currentPlayer g s) s1 = Some s2" "doAction_roundSpent a s2 = Some s3"
    "doAction_end g s3 = Some (s', e)"
    using st by (auto simp: doAction_def Let_def bind_eq_Some_conv)
  note shs1 = record_shape [OF sh(1) r4(1) s(1)]
  note shs2 = apply_shape [OF shs1(1) _ s(2)]
  obtain t1 where t1: "doAction_record a (currentPlayer g s) t = Some t1" "same_hand g s1 t1" "0 < numActions t1 ! round_no t1"
    using same_record [OF sim wf r sh p s(1)] by blast
  note sht1 = record_shape [OF sh(2) r4(2) t1(1)]
  have k: "numActions t1 ! round_no t1 \<le> 64"
    using t1(1) shape_stateD [OF sh(2)] r4(2) by (auto simp: doAction_record_def Let_def split: if_splits)
  obtain t2 where t2: "doAction_apply g a (currentPlayer g s) t1 = Some t2" "same_hand g s2 t2"
    using same_apply [OF t1(2) wf _ shs1(1) sht1(1) p t1(3) k s(2)] r shs1(2) by auto
  note sht2 = apply_shape [OF sht1(1) _ t2(1)]
  obtain t3 where t3: "doAction_roundSpent a t2 = Some t3" "same_hand g s3 t3"
    using same_roundSpent [OF t2(2) wf _ shs2(1) sht2(1) s(3)] r shs1 shs2 sht1 sht2 r4 by auto
  have r3: "round_no s3 < numRounds g" using r shs1 shs2 r4 roundSpent_shape [OF shs2(1) s(3)] by auto
  obtain t' where t': "doAction_end g t3 = Some (t', e)" "same_hand g s' t'"
    using same_end [OF t3(2) r3 s(4)] by blast
  have "shape_state t'" using end_shape [OF roundSpent_shape(1) [OF sht2(1) t3(1)] t'(1)] r4 sht1 by simp
  then show ?thesis using t1 t2 t3 t' by (auto simp: doAction_def Let_def cur [symmetric])
qed

section \<open>Two starts of the same hand\<close>

lemma same_start:
  assumes "wf_game g" "shape_state s0" "shape_state t0" "initState g hid s0 = Some s" "\<forall>r<numRounds g. roundSpent s0 ! r = 0"
    "\<forall>r<numRounds g. roundSpent t0 ! r = 0"
  shows "\<exists>t. initState g hid t0 = Some t \<and> same_hand g s t \<and> shape_state t"
proof -
  have b: "numPlayers g \<le> 10" "numRounds g \<le> 4" using wf_gameD [OF assms(1)] by auto
  note l = shape_stateD [OF assms(2)] shape_stateD [OF assms(3)]
  obtain t where t: "initState g hid t0 = Some t" using assms(4) by (auto simp: initState_def Let_def bind_eq_Some_conv)
  moreover have "shape_state t" using t assms(3) by (auto simp: initState_def Let_def bind_eq_Some_conv shape_state_def)
  moreover have "same_hand g s t"
    using assms(4-6) t b l by (auto simp: initState_def Let_def bind_eq_Some_conv same_hand_def nth_fill)
  ultimately show ?thesis by blast
qed

end
