(* ===== verification/Rng.thy ===== *)
theory Rng
  imports Prelude "HOL-Library.Word"
begin

unbundle bit_operations_syntax

text \<open>
  The Mersenne Twister of \<open>rng.c\<close> and \<open>rng.h\<close>.  The state is the array \<open>mt\<close> of 32-bit words and the
  position \<open>mti\<close>.  The constants with suffix \<open>UL\<close> make some intermediate results 64 bits wide, but every
  result is stored in an \<open>uint32_t\<close> after additions, multiplications and exclusive ors only, so that the
  arithmetic is that of \<open>32 word\<close>.  A read of \<open>mt\<close> at a position outside the array (a state that was never
  initialised) is \<open>None\<close>.
\<close>

section \<open>The code\<close>

abbreviation RNG_N :: nat where "RNG_N \<equiv> 624"
abbreviation RNG_M :: nat where "RNG_M \<equiv> 397"

definition MATRIX_A :: "32 word" where "MATRIX_A = 0x9908b0df"
definition UPPER_MASK :: "32 word" where "UPPER_MASK = 0x80000000"
definition LOWER_MASK :: "32 word" where "LOWER_MASK = 0x7fffffff"

record rng_state =
  mt :: "32 word list"
  mti :: nat

definition init_genrand_word :: "32 word \<Rightarrow> nat \<Rightarrow> 32 word" where
  "init_genrand_word prev i = 1812433253 * (prev XOR drop_bit 30 prev) + word_of_nat i"

definition init_genrand :: "rng_state \<Rightarrow> 32 word \<Rightarrow> rng_state" where
  "init_genrand st s =
     (let m0 = (mt st)[0 := s AND 0xffffffff];
          m1 = fold (\<lambda>i m. m[i := init_genrand_word (m ! (i - 1)) i]) [1..<RNG_N] m0
      in st\<lparr>mt := m1, mti := RNG_N\<rparr>)"

text \<open>The two mixing loops of \<open>init_by_array\<close>; \<open>k\<close> counts down, \<open>i\<close> and \<open>j\<close> wrap.\<close>

primrec init_by_array_loop1 ::
  "nat \<Rightarrow> 32 word list \<Rightarrow> 32 word list \<Rightarrow> nat \<Rightarrow> nat \<Rightarrow> (32 word list \<times> nat) option" where
  "init_by_array_loop1 0 init_key m i j = Some (m, i)"
| "init_by_array_loop1 (Suc k) init_key m i j =
     do {
       a \<leftarrow> rd m i;
       b \<leftarrow> rd m (i - 1);
       key \<leftarrow> rd init_key j;
       let m1 = m[i := (a XOR ((b XOR drop_bit 30 b) * 1664525)) + key + word_of_nat j];
       let m2 = (if i + 1 \<ge> RNG_N then m1[0 := m1 ! (RNG_N - 1)] else m1);
       let i2 = (if i + 1 \<ge> RNG_N then 1 else i + 1);
       let j2 = (if j + 1 \<ge> length init_key then 0 else j + 1);
       init_by_array_loop1 k init_key m2 i2 j2
     }"

primrec init_by_array_loop2 :: "nat \<Rightarrow> 32 word list \<Rightarrow> nat \<Rightarrow> 32 word list option" where
  "init_by_array_loop2 0 m i = Some m"
| "init_by_array_loop2 (Suc k) m i =
     do {
       a \<leftarrow> rd m i;
       b \<leftarrow> rd m (i - 1);
       let m1 = m[i := ((a XOR ((b XOR drop_bit 30 b) * 1566083941)) - word_of_nat i) AND 0xffffffff];
       let m2 = (if i + 1 \<ge> RNG_N then m1[0 := m1 ! (RNG_N - 1)] else m1);
       let i2 = (if i + 1 \<ge> RNG_N then 1 else i + 1);
       init_by_array_loop2 k m2 i2
     }"

text \<open>\<open>key_length\<close> is the length of the list \<open>init_key\<close>; an empty key is read out of bounds.\<close>

definition init_by_array :: "rng_state \<Rightarrow> 32 word list \<Rightarrow> rng_state option" where
  "init_by_array st init_key =
     (let st0 = init_genrand st 19650218 in
      do {
        (m1, i) \<leftarrow> init_by_array_loop1 (if RNG_N > length init_key then RNG_N else length init_key)
                     init_key (mt st0) 1 0;
        m2 \<leftarrow> init_by_array_loop2 (RNG_N - 1) m1 i;
        Some (st0\<lparr>mt := m2[0 := m2 ! 0 OR 0x80000000]\<rparr>)
      })"

definition mag01 :: "32 word \<Rightarrow> 32 word" where
  "mag01 b = (if b = 0 then 0 else MATRIX_A)"

definition twist :: "32 word \<Rightarrow> 32 word \<Rightarrow> 32 word \<Rightarrow> 32 word" where
  "twist src hi lo =
     (let y = (hi AND UPPER_MASK) OR (lo AND LOWER_MASK)
      in src XOR drop_bit 1 y XOR mag01 (y AND 1))"

definition generate :: "32 word list \<Rightarrow> 32 word list" where
  "generate m0 =
     (let m1 = fold (\<lambda>kk m. m[kk := twist (m ! (kk + RNG_M)) (m ! kk) (m ! (kk + 1))])
                 [0..<RNG_N - RNG_M] m0;
          m2 = fold (\<lambda>kk m. m[kk := twist (m ! (kk + RNG_M - RNG_N)) (m ! kk) (m ! (kk + 1))])
                 [RNG_N - RNG_M..<RNG_N - 1] m1
      in m2[RNG_N - 1 := twist (m2 ! (RNG_M - 1)) (m2 ! (RNG_N - 1)) (m2 ! 0)])"

definition temper :: "32 word \<Rightarrow> 32 word" where
  "temper y0 =
     (let y1 = y0 XOR drop_bit 11 y0;
          y2 = y1 XOR (push_bit 7 y1 AND 0x9d2c5680);
          y3 = y2 XOR (push_bit 15 y2 AND 0xefc60000)
      in y3 XOR drop_bit 18 y3)"

definition genrand_int32 :: "rng_state \<Rightarrow> (32 word \<times> rng_state) option" where
  "genrand_int32 st =
     (let st1 = (if mti st = RNG_N then st\<lparr>mt := generate (mt st), mti := 0\<rparr> else st) in
      do {
        y \<leftarrow> rd (mt st1) (mti st1);
        Some (temper y, st1\<lparr>mti := mti st1 + 1\<rparr>)
      })"

section \<open>Initialised states\<close>

definition rng_ok :: "rng_state \<Rightarrow> bool" where
  "rng_ok st \<longleftrightarrow> length (mt st) = RNG_N \<and> mti st \<le> RNG_N"

lemma length_fold_update: "length (fold (\<lambda>i m. m[i := f i m]) is m) = length m"
  by (induction "is" arbitrary: m) auto

lemma length_generate [simp]: "length (generate m) = length m"
  by (simp add: generate_def Let_def length_fold_update del: upt_rec_numeral)

lemma init_genrand_fields:
  "length (mt (init_genrand st s)) = length (mt st)" "mti (init_genrand st s) = RNG_N"
  unfolding init_genrand_def Let_def by (simp_all add: length_fold_update del: upt_rec_numeral)

lemma init_genrand_ok: "length (mt st) = RNG_N \<Longrightarrow> rng_ok (init_genrand st s)"
  by (simp add: rng_ok_def init_genrand_fields)

lemma genrand_int32_ok:
  assumes "rng_ok st"
  shows "\<exists>y st'. genrand_int32 st = Some (y, st') \<and> rng_ok st'"
  using assms by (auto simp: genrand_int32_def rng_ok_def rd_def Let_def)

lemma init_by_array_loop1_ok:
  assumes "length m = RNG_N" "0 < i" "i < RNG_N" "j < length init_key"
  shows "\<exists>m' i'. init_by_array_loop1 k init_key m i j = Some (m', i') \<and>
    length m' = RNG_N \<and> 0 < i' \<and> i' < RNG_N"
  using assms
proof (induction k arbitrary: m i j)
  case (Suc k)
  have "0 < length init_key" using Suc.prems(4) by linarith
  then show ?case using Suc.prems by (simp add: rd_def Let_def Suc.IH)
qed simp

lemma init_by_array_loop2_ok:
  assumes "length m = RNG_N" "0 < i" "i < RNG_N"
  shows "\<exists>m'. init_by_array_loop2 k m i = Some m' \<and> length m' = RNG_N"
  using assms by (induction k arbitrary: m i) (simp_all add: rd_def Let_def)

section \<open>The linear recurrence\<close>

text \<open>The sequence of the Mersenne Twister: the first \<open>RNG_N\<close> words are the seed, each further one is
  made from three earlier ones.\<close>

function mt_seq :: "32 word list \<Rightarrow> nat \<Rightarrow> 32 word" where
  "mt_seq seed n =
     (if n < RNG_N then seed ! n
      else twist (mt_seq seed (n - RNG_N + RNG_M)) (mt_seq seed (n - RNG_N)) (mt_seq seed (n - RNG_N + 1)))"
  by pat_completeness auto
termination by (relation "measure snd") auto

declare mt_seq.simps [simp del]

lemma mt_seq_seed: "n < RNG_N \<Longrightarrow> mt_seq seed n = seed ! n"
  by (subst mt_seq.simps) simp

lemma mt_seq_step:
  "mt_seq seed (RNG_N + n) = twist (mt_seq seed (n + RNG_M)) (mt_seq seed n) (mt_seq seed (n + 1))"
  by (subst mt_seq.simps) simp

text \<open>The window of the sequence while \<open>generate\<close> overwrites it in place.\<close>

definition window :: "32 word list \<Rightarrow> nat \<Rightarrow> nat \<Rightarrow> 32 word list \<Rightarrow> bool" where
  "window seed off k m \<longleftrightarrow> length m = RNG_N \<and>
     (\<forall>i<RNG_N. m ! i = mt_seq seed (off + (if i < k then RNG_N + i else i)))"

lemma window_update:
  assumes "window seed off k m" "k < RNG_N" "v = mt_seq seed (off + RNG_N + k)"
  shows "window seed off (Suc k) (m[k := v])"
  using assms by (auto simp: window_def nth_list_update add.assoc)

lemma window_fold:
  assumes "\<And>i m. a \<le> i \<Longrightarrow> i < b \<Longrightarrow> window seed off i m \<Longrightarrow> window seed off (Suc i) (m[i := f i m])"
    "window seed off a m" "a \<le> b"
  shows "window seed off b (fold (\<lambda>i m. m[i := f i m]) [a..<b] m)"
  using assms
proof (induction "b - a" arbitrary: a m)
  case (Suc d)
  then have "[a..<b] = a # [Suc a..<b]" by (simp add: upt_conv_Cons)
  moreover have "window seed off (Suc a) (m[a := f a m])" using Suc by (intro Suc.prems(1)) auto
  ultimately show ?case using Suc.hyps(1) [of "Suc a" "m[a := f a m]"] Suc.hyps(2) Suc.prems by simp
qed simp

lemma generate_window:
  assumes "window seed off 0 m"
  shows "window seed (off + RNG_N) 0 (generate m)"
proof -
  define m1 where "m1 = fold (\<lambda>kk m. m[kk := twist (m ! (kk + RNG_M)) (m ! kk) (m ! (kk + 1))])
                 [0..<RNG_N - RNG_M] m"
  define m2 where "m2 = fold (\<lambda>kk m. m[kk := twist (m ! (kk + RNG_M - RNG_N)) (m ! kk) (m ! (kk + 1))])
                 [RNG_N - RNG_M..<RNG_N - 1] m1"
  have w1: "window seed off (RNG_N - RNG_M) m1" unfolding m1_def
  proof (rule window_fold [OF _ assms])
    fix i m assume i: "i < RNG_N - RNG_M" and w: "window seed off i m"
    show "window seed off (Suc i) (m[i := twist (m ! (i + RNG_M)) (m ! i) (m ! (i + 1))])"
      by (rule window_update [OF w]) (use i w mt_seq_step [of seed "off + i"] in \<open>auto simp: window_def ac_simps\<close>)
  qed simp
  have w2: "window seed off (RNG_N - 1) m2" unfolding m2_def
  proof (rule window_fold [OF _ w1])
    fix i m assume i: "RNG_N - RNG_M \<le> i" "i < RNG_N - 1" and w: "window seed off i m"
    have "i + RNG_M - RNG_N < i" using i by simp
    then show "window seed off (Suc i) (m[i := twist (m ! (i + RNG_M - RNG_N)) (m ! i) (m ! (i + 1))])"
      by (intro window_update [OF w]) (use i w mt_seq_step [of seed "off + i"] in \<open>auto simp: window_def ac_simps\<close>)
  qed simp
  have "generate m = m2[RNG_N - 1 := twist (m2 ! (RNG_M - 1)) (m2 ! (RNG_N - 1)) (m2 ! 0)]"
    unfolding generate_def m2_def m1_def Let_def by (rule refl)
  moreover have "window seed off (Suc (RNG_N - 1)) (m2[RNG_N - 1 := twist (m2 ! (RNG_M - 1)) (m2 ! (RNG_N - 1)) (m2 ! 0)])"
    by (rule window_update [OF w2])
      (use w2 mt_seq_step [of seed "off + 623"] in \<open>auto simp: window_def ac_simps\<close>)
  ultimately show ?thesis by (simp add: window_def add.assoc)
qed

text \<open>The state after \<open>n\<close> numbers have been drawn.\<close>

definition drawn :: "32 word list \<Rightarrow> nat \<Rightarrow> rng_state \<Rightarrow> bool" where
  "drawn seed n st \<longleftrightarrow> (\<exists>off. window seed off 0 (mt st) \<and> mti st \<le> RNG_N \<and> off + mti st = RNG_N + n)"

lemma drawn_genrand:
  assumes "drawn seed n st"
  shows "\<exists>st'. genrand_int32 st = Some (temper (mt_seq seed (RNG_N + n)), st') \<and> drawn seed (Suc n) st'"
proof -
  obtain off where w: "window seed off 0 (mt st)" "mti st \<le> RNG_N" "off + mti st = RNG_N + n"
    using assms by (auto simp: drawn_def)
  show ?thesis
  proof (cases "mti st = RNG_N")
    case True
    note g = generate_window [OF w(1)]
    have "generate (mt st) ! 0 = mt_seq seed (RNG_N + n)"
      using g w(3) True by (simp add: window_def add.commute)
    then have "genrand_int32 st = Some (temper (mt_seq seed (RNG_N + n)), st\<lparr>mt := generate (mt st), mti := 1\<rparr>)"
      using g True by (simp add: genrand_int32_def Let_def rd_def window_def)
    moreover have "drawn seed (Suc n) (st\<lparr>mt := generate (mt st), mti := 1\<rparr>)"
      unfolding drawn_def by (rule exI [of _ "off + RNG_N"]) (use g w True in simp)
    ultimately show ?thesis by blast
  next
    case False
    then have "mt st ! mti st = mt_seq seed (RNG_N + n)" using w by (simp add: window_def)
    then have "genrand_int32 st = Some (temper (mt_seq seed (RNG_N + n)), st\<lparr>mti := mti st + 1\<rparr>)"
      using False w(1,2) by (simp add: genrand_int32_def Let_def rd_def window_def)
    moreover have "drawn seed (Suc n) (st\<lparr>mti := mti st + 1\<rparr>)"
      unfolding drawn_def by (rule exI [of _ off]) (use w False in simp)
    ultimately show ?thesis by blast
  qed
qed

primrec draws :: "nat \<Rightarrow> rng_state \<Rightarrow> (32 word list \<times> rng_state) option" where
  "draws 0 st = Some ([], st)"
| "draws (Suc n) st = do { (y, st1) \<leftarrow> genrand_int32 st; (ys, st2) \<leftarrow> draws n st1; Some (y # ys, st2) }"

lemma drawn_draws:
  "drawn seed k st \<Longrightarrow>
     \<exists>st'. draws n st = Some (map (\<lambda>i. temper (mt_seq seed (RNG_N + i))) [k..<k + n], st')"
proof (induction n arbitrary: k st)
  case (Suc n)
  obtain st1 where st1: "genrand_int32 st = Some (temper (mt_seq seed (RNG_N + k)), st1)" "drawn seed (Suc k) st1"
    using drawn_genrand [OF Suc.prems] by blast
  then show ?case using Suc.IH [OF st1(2)] by (auto simp: upt_conv_Cons simp del: upt_Suc)
qed simp

text \<open>C18: the generator, which rewrites its array in place and in two loops, delivers the tempered words
  of the linear recurrence: after seeding, the \<open>i\<close>-th number drawn is word \<open>RNG_N + i\<close> of the sequence
  that the seeded array starts, for any number of draws.\<close>

theorem genrand_recurrence:
  assumes "length (mt st) = RNG_N"
  shows "\<exists>st'. draws n (init_genrand st s) =
    Some (map (\<lambda>i. temper (mt_seq (mt (init_genrand st s)) (RNG_N + i))) [0..<n], st')"
proof -
  have "length (mt (init_genrand st s)) = RNG_N" "mti (init_genrand st s) = RNG_N"
    by (simp_all add: init_genrand_fields assms)
  then have "drawn (mt (init_genrand st s)) 0 (init_genrand st s)"
    by (auto simp: drawn_def window_def mt_seq_seed intro!: exI [of _ 0])
  from drawn_draws [OF this, of n] show ?thesis by simp
qed

theorem genrand_recurrence_witness:
  "\<exists>y st'. draws 1 (init_genrand \<lparr>mt = replicate 624 0, mti = 0\<rparr> 5489) = Some ([y], st')"
  using genrand_recurrence [of "\<lparr>mt = replicate 624 0, mti = 0\<rparr>" 1 5489] by auto

text \<open>Seeding with a non-empty key stays inside the arrays, and the top bit of the first word is set,
  so the state is not the all-zero fixed point of the recurrence.\<close>

lemma init_by_array_nonzero:
  assumes "length (mt st) = RNG_N" "init_key \<noteq> []"
  shows "\<exists>st'. init_by_array st init_key = Some st' \<and> rng_ok st' \<and> bit (mt st' ! 0) 31"
proof -
  define st0 where "st0 = init_genrand st 19650218"
  have st0: "length (mt st0) = RNG_N" "mti st0 = RNG_N"
    by (simp_all add: st0_def init_genrand_fields assms(1))
  obtain m1 i where 1: "init_by_array_loop1 (if RNG_N > length init_key then RNG_N else length init_key)
      init_key (mt st0) 1 0 = Some (m1, i)" "length m1 = RNG_N" "0 < i" "i < RNG_N"
    using init_by_array_loop1_ok [OF st0(1), of 1 0 init_key
        "if RNG_N > length init_key then RNG_N else length init_key"] assms(2) by auto
  obtain m2 where 2: "init_by_array_loop2 (RNG_N - 1) m1 i = Some m2" "length m2 = RNG_N"
    using init_by_array_loop2_ok [OF 1(2-4)] by blast
  have "bit (0x80000000 :: 32 word) 31" by simp
  then have "bit (m2 ! 0 OR 0x80000000) 31" by (simp add: bit_or_iff)
  moreover have "init_by_array st init_key = Some (st0\<lparr>mt := m2[0 := m2 ! 0 OR 0x80000000]\<rparr>)"
    unfolding init_by_array_def Let_def st0_def [symmetric] 1(1) by (simp add: 2(1) [simplified])
  ultimately show ?thesis using 2(2) st0(2) by (simp add: rng_ok_def)
qed

end
