(* ===== verification/Deal.thy ===== *)
theory Deal
  imports Betting Rng "HOL-Library.Multiset"
begin

text \<open>
  Dealing: \<open>dealCard\<close> and \<open>dealCards\<close> of \<open>game.c\<close>.  The deck shrinks from the top: a random card is taken
  and the last card of the rest fills the gap.  \<open>readGame\<close> limits \<open>numSuits\<close> and \<open>numRanks\<close> to the sizes of
  the full deck, so the subtractions of \<open>deck_of\<close> do not go below zero.  \<open>None\<close> is a write outside \<open>boardCards\<close> or
  \<open>holeCards\<close>, a remainder by zero, or an uninitialised generator.
\<close>

section \<open>The code\<close>

definition dealCard :: "rng_state \<Rightarrow> nat list \<Rightarrow> nat \<Rightarrow> (nat \<times> rng_state \<times> nat list) option" where
  "dealCard rng deck numCards =
     do {
       (y, rng') \<leftarrow> genrand_int32 rng;
       i \<leftarrow> (if numCards = 0 then None else Some (unat y mod numCards));
       ret \<leftarrow> rd deck i;
       lst \<leftarrow> rd deck (numCards - 1);
       deck' \<leftarrow> wr deck i lst;
       Some (ret, rng', deck')
     }"

text \<open>What the dealing loops carry: the generator, the deck with the number of cards left, the index of
  the next board card, and the state that is filled.\<close>

record dealing =
  d_rng :: rng_state
  d_deck :: "nat list"
  d_numCards :: nat
  d_s :: nat
  d_state :: State

definition deck_of :: "Game \<Rightarrow> nat list" where
  "deck_of g = concat (map (\<lambda>s. map (\<lambda>r. makeCard r s) [MAX_RANKS - numRanks g..<MAX_RANKS])
                         [MAX_SUITS - numSuits g..<MAX_SUITS])"

definition deal_hole :: "nat \<Rightarrow> nat \<Rightarrow> dealing \<Rightarrow> dealing option" where
  "deal_hole p i d =
     do {
       (c, rng', deck') \<leftarrow> dealCard (d_rng d) (d_deck d) (d_numCards d);
       row \<leftarrow> rd (holeCards (d_state d)) p;
       row' \<leftarrow> wr row i c;
       hc \<leftarrow> wr (holeCards (d_state d)) p row';
       Some (d\<lparr>d_rng := rng', d_deck := deck', d_numCards := d_numCards d - 1,
               d_state := (d_state d)\<lparr>holeCards := hc\<rparr>\<rparr>)
     }"

primrec deal_holes :: "(nat \<times> nat) list \<Rightarrow> dealing \<Rightarrow> dealing option" where
  "deal_holes [] d = Some d"
| "deal_holes (pi # pis) d = do { d' \<leftarrow> deal_hole (fst pi) (snd pi) d; deal_holes pis d' }"

definition deal_board :: "dealing \<Rightarrow> dealing option" where
  "deal_board d =
     do {
       (c, rng', deck') \<leftarrow> dealCard (d_rng d) (d_deck d) (d_numCards d);
       bc \<leftarrow> wr (boardCards (d_state d)) (d_s d) c;
       Some (d\<lparr>d_rng := rng', d_deck := deck', d_numCards := d_numCards d - 1, d_s := d_s d + 1,
               d_state := (d_state d)\<lparr>boardCards := bc\<rparr>\<rparr>)
     }"

primrec deal_boards :: "nat \<Rightarrow> dealing \<Rightarrow> dealing option" where
  "deal_boards 0 d = Some d"
| "deal_boards (Suc n) d = do { d' \<leftarrow> deal_board d; deal_boards n d' }"

primrec deal_rounds :: "nat list \<Rightarrow> dealing \<Rightarrow> dealing option" where
  "deal_rounds [] d = Some d"
| "deal_rounds (n # ns) d = do { d' \<leftarrow> deal_boards n d; deal_rounds ns d' }"

definition dealCards :: "Game \<Rightarrow> rng_state \<Rightarrow> State \<Rightarrow> (rng_state \<times> State) option" where
  "dealCards g rng s =
     (let deck = deck_of g in
      do {
        d1 \<leftarrow> deal_holes (List.product [0..<numPlayers g] [0..<numHoleCards g])
                \<lparr>d_rng = rng, d_deck = deck, d_numCards = length deck, d_s = 0, d_state = s\<rparr>;
        d2 \<leftarrow> deal_rounds (map (\<lambda>r. numBoardCards g ! r) [0..<numRounds g]) d1;
        Some (d_rng d2, d_state d2)
      })"

section \<open>The deck\<close>

lemma distinct_deck_of: "distinct (deck_of g)"
proof -
  have "distinct (concat (map (\<lambda>s. map (\<lambda>r. makeCard r s) rs) ss))"
    if "distinct rs" "distinct ss" "\<forall>s \<in> set ss. s < MAX_SUITS" for rs ss
    using that
  proof (induction ss)
    case (Cons s ss)
    then show ?case by (auto simp: distinct_map inj_on_def makeCard_inj)
  qed simp
  then show ?thesis unfolding deck_of_def by (simp del: upt_rec_numeral)
qed

lemma set_deck_of:
  "c \<in> set (deck_of g) \<longleftrightarrow>
     (\<exists>r s. c = makeCard r s \<and> MAX_RANKS - numRanks g \<le> r \<and> r < MAX_RANKS \<and> MAX_SUITS - numSuits g \<le> s \<and> s < MAX_SUITS)"
proof -
  have "c \<in> set (deck_of g) \<longleftrightarrow> (\<exists>s \<in> {MAX_SUITS - numSuits g..<MAX_SUITS}.
      \<exists>r \<in> {MAX_RANKS - numRanks g..<MAX_RANKS}. c = makeCard r s)"
    unfolding deck_of_def set_concat by (simp add: image_iff del: upt_rec_numeral)
  then show ?thesis unfolding Bex_def atLeastLessThan_iff by blast
qed

lemma length_deck_of:
  "numSuits g \<le> MAX_SUITS \<Longrightarrow> numRanks g \<le> MAX_RANKS \<Longrightarrow> length (deck_of g) = numSuits g * numRanks g"
  by (simp add: deck_of_def length_concat o_def sum_list_triv del: upt_rec_numeral)

section \<open>One card\<close>

lemma distinct_sub_mset: "mset xs \<subseteq># mset ys \<Longrightarrow> distinct ys \<Longrightarrow> distinct xs"
proof -
  assume sub: "mset xs \<subseteq># mset ys" and "distinct ys"
  obtain zs where "mset zs = mset ys - mset xs" using ex_mset by blast
  then have "mset (xs @ zs) = mset ys" using sub by simp
  then show ?thesis using \<open>distinct ys\<close> mset_eq_imp_distinct_iff by fastforce
qed

lemma swap_out_mset:
  assumes "i < n" "n \<le> length deck"
  shows "mset (take n deck) = add_mset (deck ! i) (mset (take (n - 1) (deck[i := deck ! (n - 1)])))"
proof -
  let ?t = "take n deck"
  have t: "?t = take (n - 1) deck @ [deck ! (n - 1)]"
    using take_Suc_conv_app_nth [of "n - 1" deck] assms by simp
  show ?thesis
  proof (cases "i = n - 1")
    case True
    then show ?thesis using t by simp
  next
    case False
    then have i: "i < n - 1" using assms by simp
    then have "mset (take (n - 1) (deck[i := deck ! (n - 1)])) =
      add_mset (deck ! (n - 1)) (mset (take (n - 1) deck) - {#deck ! i#})"
      using assms by (simp add: take_update_swap mset_update)
    moreover have "deck ! i \<in># mset (take (n - 1) deck)" using i assms by (auto simp: in_set_conv_nth)
    ultimately show ?thesis using t by simp
  qed
qed

lemma dealCard_ok:
  assumes "rng_ok rng" "0 < n" "n \<le> length deck"
  shows "\<exists>c rng' deck'. dealCard rng deck n = Some (c, rng', deck') \<and> rng_ok rng' \<and>
    length deck' = length deck \<and> mset (take n deck) = add_mset c (mset (take (n - 1) deck'))"
proof -
  obtain y rng' where y: "genrand_int32 rng = Some (y, rng')" "rng_ok rng'"
    using genrand_int32_ok [OF assms(1)] by blast
  have i: "unat y mod n < n" using assms(2) by simp
  then have "unat y mod n < length deck" "n - 1 < length deck" using assms by linarith+
  then have "dealCard rng deck n = Some (deck ! (unat y mod n), rng', deck[unat y mod n := deck ! (n - 1)])"
    using y(1) assms(2) by (simp add: dealCard_def)
  then show ?thesis using y(2) swap_out_mset [OF i assms(3)] by simp
qed

section \<open>The loops\<close>

lemma deal_hole_ok:
  assumes "rng_ok (d_rng d)" "0 < d_numCards d" "d_numCards d \<le> length (d_deck d)"
    and "shape_state (d_state d)" "p < MAX_PLAYERS" "i < MAX_HOLE_CARDS"
  shows "\<exists>c d'. deal_hole p i d = Some d' \<and> rng_ok (d_rng d') \<and> d_numCards d' = d_numCards d - 1 \<and>
    length (d_deck d') = length (d_deck d) \<and> d_s d' = d_s d \<and>
    mset (take (d_numCards d) (d_deck d)) = add_mset c (mset (take (d_numCards d') (d_deck d'))) \<and>
    d_state d' = (d_state d)\<lparr>holeCards := (holeCards (d_state d))[p := (holeCards (d_state d) ! p)[i := c]]\<rparr>"
proof -
  obtain c rng' deck' where c: "dealCard (d_rng d) (d_deck d) (d_numCards d) = Some (c, rng', deck')"
    "rng_ok rng'" "length deck' = length (d_deck d)"
    "mset (take (d_numCards d) (d_deck d)) = add_mset c (mset (take (d_numCards d - 1) deck'))"
    using dealCard_ok [OF assms(1-3)] by blast
  have "p < length (holeCards (d_state d))" "i < length (holeCards (d_state d) ! p)"
    using shape_stateD(10,11) [OF assms(4)] assms(5,6) by auto
  then show ?thesis using c by (simp add: deal_hole_def)
qed

lemma shape_hole_update:
  "shape_state s \<Longrightarrow> p < 10 \<Longrightarrow> shape_state (s\<lparr>holeCards := (holeCards s)[p := (holeCards s ! p)[i := c]]\<rparr>)"
  by (auto simp: shape_state_def all_set_conv_all_nth nth_list_update)

lemma deal_holes_ok:
  assumes "rng_ok (d_rng d)" "length pis \<le> d_numCards d" "d_numCards d \<le> length (d_deck d)"
    and "shape_state (d_state d)" "\<forall>(p, i) \<in> set pis. p < MAX_PLAYERS \<and> i < MAX_HOLE_CARDS" "distinct pis"
  shows "\<exists>d' hc. deal_holes pis d = Some d' \<and> rng_ok (d_rng d') \<and> d_numCards d' = d_numCards d - length pis \<and>
    length (d_deck d') = length (d_deck d) \<and> d_s d' = d_s d \<and>
    mset (take (d_numCards d) (d_deck d)) =
      mset (map (\<lambda>(p, i). hc ! p ! i) pis) + mset (take (d_numCards d') (d_deck d')) \<and>
    d_state d' = (d_state d)\<lparr>holeCards := hc\<rparr> \<and> shape_state (d_state d') \<and>
    (\<forall>p<MAX_PLAYERS. \<forall>i<MAX_HOLE_CARDS. (p, i) \<notin> set pis \<longrightarrow> hc ! p ! i = holeCards (d_state d) ! p ! i)"
  using assms
proof (induction pis arbitrary: d)
  case Nil
  then show ?case by (intro exI [of _ d] exI [of _ "holeCards (d_state d)"]) simp
next
  case (Cons x pis)
  obtain p i where x: "x = (p, i)" by (cases x)
  have p: "p < MAX_PLAYERS" "i < MAX_HOLE_CARDS" "0 < d_numCards d" "(p, i) \<notin> set pis"
    using Cons.prems(2,5,6) x by auto
  obtain c d1 where d1: "deal_hole p i d = Some d1" "rng_ok (d_rng d1)" "d_numCards d1 = d_numCards d - 1"
    "length (d_deck d1) = length (d_deck d)" "d_s d1 = d_s d"
    "mset (take (d_numCards d) (d_deck d)) = add_mset c (mset (take (d_numCards d1) (d_deck d1)))"
    "d_state d1 = (d_state d)\<lparr>holeCards := (holeCards (d_state d))[p := (holeCards (d_state d) ! p)[i := c]]\<rparr>"
    using deal_hole_ok [OF Cons.prems(1) p(3) Cons.prems(3,4) p(1,2)] by blast
  have sh: "shape_state (d_state d1)" using shape_hole_update [OF Cons.prems(4) p(1)] d1(7) by simp
  have len: "length (holeCards (d_state d)) = MAX_PLAYERS" "length (holeCards (d_state d) ! p) = MAX_HOLE_CARDS"
    using shape_stateD(10,11) [OF Cons.prems(4)] p(1) by auto
  have pre: "length pis \<le> d_numCards d1" "d_numCards d1 \<le> length (d_deck d1)"
    "\<forall>(p, i) \<in> set pis. p < MAX_PLAYERS \<and> i < MAX_HOLE_CARDS" "distinct pis"
    using Cons.prems d1 by auto
  obtain d' hc where d': "deal_holes pis d1 = Some d'" "rng_ok (d_rng d')"
    "d_numCards d' = d_numCards d1 - length pis" "length (d_deck d') = length (d_deck d1)" "d_s d' = d_s d1"
    "mset (take (d_numCards d1) (d_deck d1)) =
      mset (map (\<lambda>(p, i). hc ! p ! i) pis) + mset (take (d_numCards d') (d_deck d'))"
    "d_state d' = (d_state d1)\<lparr>holeCards := hc\<rparr>" "shape_state (d_state d')"
    "\<forall>q<MAX_PLAYERS. \<forall>j<MAX_HOLE_CARDS. (q, j) \<notin> set pis \<longrightarrow> hc ! q ! j = holeCards (d_state d1) ! q ! j"
    using Cons.IH [OF d1(2) pre(1,2) sh pre(3,4)] by blast
  have "hc ! p ! i = c" using d'(9) len p by (simp add: d1(7))
  moreover have "hc ! q ! j = holeCards (d_state d) ! q ! j"
    if "q < MAX_PLAYERS" "j < MAX_HOLE_CARDS" "(q, j) \<notin> set (x # pis)" for q j
    using d'(9) that len by (cases "q = p"; cases "j = i") (auto simp: d1(7) x)
  ultimately show ?case using d' d1 x by (intro exI [of _ d'] exI [of _ hc]) simp
qed

lemma deal_boards_ok:
  assumes "rng_ok (d_rng d)" "n \<le> d_numCards d" "d_numCards d \<le> length (d_deck d)"
    and "length (boardCards (d_state d)) = MAX_BOARD_CARDS" "d_s d + n \<le> MAX_BOARD_CARDS"
  shows "\<exists>d' bc. deal_boards n d = Some d' \<and> rng_ok (d_rng d') \<and> length bc = MAX_BOARD_CARDS \<and>
    mset (map (\<lambda>k. bc ! k) [d_s d..<d_s d + n]) \<subseteq># mset (take (d_numCards d) (d_deck d)) \<and>
    d_state d' = (d_state d)\<lparr>boardCards := bc\<rparr> \<and> (\<forall>k<d_s d. bc ! k = boardCards (d_state d) ! k)"
  using assms
proof (induction n arbitrary: d)
  case 0
  then show ?case by (intro exI [of _ d] exI [of _ "boardCards (d_state d)"]) simp
next
  case (Suc n)
  obtain c rng' deck' where c: "dealCard (d_rng d) (d_deck d) (d_numCards d) = Some (c, rng', deck')"
    "rng_ok rng'" "length deck' = length (d_deck d)"
    "mset (take (d_numCards d) (d_deck d)) = add_mset c (mset (take (d_numCards d - 1) deck'))"
    using dealCard_ok [OF Suc.prems(1) _ Suc.prems(3)] Suc.prems(2) by auto
  let ?bc = "(boardCards (d_state d))[d_s d := c]"
  let ?d1 = "d\<lparr>d_rng := rng', d_deck := deck', d_numCards := d_numCards d - 1, d_s := d_s d + 1,
    d_state := (d_state d)\<lparr>boardCards := ?bc\<rparr>\<rparr>"
  have d1: "deal_board d = Some ?d1" using c(1) Suc.prems(4,5) by (simp add: deal_board_def)
  have pre: "rng_ok (d_rng ?d1)" "n \<le> d_numCards ?d1" "d_numCards ?d1 \<le> length (d_deck ?d1)"
    "length (boardCards (d_state ?d1)) = MAX_BOARD_CARDS" "d_s ?d1 + n \<le> MAX_BOARD_CARDS"
    using c Suc.prems by auto
  obtain d' bc where d': "deal_boards n ?d1 = Some d'" "rng_ok (d_rng d')" "length bc = MAX_BOARD_CARDS"
    "mset (map (\<lambda>k. bc ! k) [d_s d + 1..<d_s d + 1 + n]) \<subseteq># mset (take (d_numCards d - 1) deck')"
    "d_state d' = (d_state d)\<lparr>boardCards := bc\<rparr>" "\<forall>k<d_s d + 1. bc ! k = ?bc ! k"
    using Suc.IH [OF pre] by (simp del: upt_Suc) blast
  have "bc ! d_s d = c" using d'(6) Suc.prems(4,5) by simp
  then have "mset (map (\<lambda>k. bc ! k) [d_s d..<d_s d + Suc n]) \<subseteq># mset (take (d_numCards d) (d_deck d))"
    using d'(4) c(4) by (simp add: upt_conv_Cons del: upt_Suc)
  then show ?case using d1 d' by auto
qed

lemma deal_boards_add: "deal_boards (m + n) d = do { d' \<leftarrow> deal_boards m d; deal_boards n d' }"
  by (induction m arbitrary: d) auto

lemma deal_rounds_boards: "deal_rounds ns d = deal_boards (sum_list ns) d"
  by (induction ns arbitrary: d) (auto simp: deal_boards_add)

lemma deal_boards_overflow:
  assumes "length (boardCards (d_state d)) = MAX_BOARD_CARDS" "MAX_BOARD_CARDS < d_s d + n" "d_s d \<le> MAX_BOARD_CARDS"
  shows "deal_boards n d = None"
  using assms
proof (induction n arbitrary: d)
  case (Suc n)
  show ?case
  proof (cases "deal_board d")
    case (Some d1)
    then have "d_s d1 = d_s d + 1" "length (boardCards (d_state d1)) = MAX_BOARD_CARDS" "d_s d < MAX_BOARD_CARDS"
      using Suc.prems(1) by (auto simp: deal_board_def wr_Some_iff bind_eq_Some_conv)
    then show ?thesis using Some Suc.IH [of d1] Suc.prems by simp
  qed simp
qed simp

lemma deal_holes_frame:
  "deal_holes pis d = Some d' \<Longrightarrow> d_s d' = d_s d \<and> boardCards (d_state d') = boardCards (d_state d)"
  by (induction pis arbitrary: d) (fastforce simp: deal_hole_def bind_eq_Some_conv)+

section \<open>The deal\<close>

definition board_total :: "Game \<Rightarrow> nat" where
  "board_total g = sum_list (map (\<lambda>r. numBoardCards g ! r) [0..<numRounds g])"

text \<open>The cards in the order in which they were dealt.\<close>

definition dealt_cards :: "Game \<Rightarrow> State \<Rightarrow> nat list" where
  "dealt_cards g s =
     map (\<lambda>(p, i). holeCards s ! p ! i) (List.product [0..<numPlayers g] [0..<numHoleCards g]) @
     map (\<lambda>k. boardCards s ! k) [0..<board_total g]"

lemma board_total_take: "numRounds g \<le> length (numBoardCards g) \<Longrightarrow> board_total g = sum_list (take (numRounds g) (numBoardCards g))"
  by (simp add: board_total_def map_nth take_map [symmetric] flip: take_upt)
   (metis map_nth take_map take_upt add_0 )

text \<open>C16: with a seeded generator and a game that passes the checks of \<open>readGame\<close> and has at most
  \<open>MAX_BOARD_CARDS\<close> board cards, \<open>dealCards\<close> deals pairwise different cards of the game's deck to all hole
  and board positions of the game and changes nothing else.\<close>

theorem dealCards_correct:
  assumes "rng_ok rng" "shape_game g" "game_checked g" "shape_state s" "board_total g \<le> MAX_BOARD_CARDS"
  shows "\<exists>rng' s' hc bc. dealCards g rng s = Some (rng', s') \<and> rng_ok rng' \<and>
    s' = s\<lparr>holeCards := hc, boardCards := bc\<rparr> \<and> shape_state s' \<and>
    distinct (dealt_cards g s') \<and> set (dealt_cards g s') \<subseteq> set (deck_of g)"
proof -
  let ?pis = "List.product [0..<numPlayers g] [0..<numHoleCards g]"
  let ?d = "\<lparr>d_rng = rng, d_deck = deck_of g, d_numCards = length (deck_of g), d_s = 0, d_state = s\<rparr>"
  note chk = assms(3) [unfolded game_checked_def]
  have total: "board_total g = sum_list (take (numRounds g) (numBoardCards g))"
    using board_total_take [of g] assms(2) chk by (simp add: shape_game_def)
  have fit: "length ?pis + board_total g \<le> length (deck_of g)"
    using chk total by (simp add: length_deck_of mult.commute)
  obtain d1 hc where d1: "deal_holes ?pis ?d = Some d1" "rng_ok (d_rng d1)"
    "d_numCards d1 = length (deck_of g) - length ?pis" "length (d_deck d1) = length (deck_of g)" "d_s d1 = 0"
    "mset (deck_of g) = mset (map (\<lambda>(p, i). hc ! p ! i) ?pis) + mset (take (d_numCards d1) (d_deck d1))"
    "d_state d1 = s\<lparr>holeCards := hc\<rparr>" "shape_state (d_state d1)"
    using deal_holes_ok [of ?d ?pis] assms(1,4) fit chk by (auto simp: distinct_product)
  have pre: "board_total g \<le> d_numCards d1" "d_numCards d1 \<le> length (d_deck d1)"
    "length (boardCards (d_state d1)) = MAX_BOARD_CARDS" "d_s d1 + board_total g \<le> MAX_BOARD_CARDS"
    using d1(3-5) fit assms(5) shape_stateD(9) [OF d1(8)] by auto
  obtain d2 bc where d2: "deal_boards (board_total g) d1 = Some d2" "rng_ok (d_rng d2)" "length bc = MAX_BOARD_CARDS"
    "mset (map (\<lambda>k. bc ! k) [0..<board_total g]) \<subseteq># mset (take (d_numCards d1) (d_deck d1))"
    "d_state d2 = (d_state d1)\<lparr>boardCards := bc\<rparr>"
    using deal_boards_ok [OF d1(2) pre] d1(5) by auto
  let ?s = "s\<lparr>holeCards := hc, boardCards := bc\<rparr>"
  have "dealCards g rng s = Some (d_rng d2, ?s)"
    using d1(1,7) d2(1,5) by (simp add: dealCards_def Let_def deal_rounds_boards flip: board_total_def)
  moreover have "shape_state ?s" using d1(7,8) d2(3) by (simp add: shape_state_def)
  moreover have sub: "mset (dealt_cards g ?s) \<subseteq># mset (deck_of g)"
    unfolding d1(6) dealt_cards_def using d2(4) by simp
  moreover have "distinct (dealt_cards g ?s)"
    using sub distinct_deck_of [of g] by (rule distinct_sub_mset)
  moreover have "set (dealt_cards g ?s) \<subseteq> set (deck_of g)"
    using set_mset_mono [OF sub] by simp
  ultimately show ?thesis using d2(2) by blast
qed

text \<open>The deal of the heads-up game with a two-suited deck.\<close>

definition deal_2p :: Game where
  "deal_2p = \<lparr>stack = replicate 10 100, blind = replicate 10 0, raiseSize = replicate 4 0,
     bettingType = noLimitBetting, numPlayers = 2, numRounds = 2, firstPlayer = replicate 4 0,
     maxRaises = replicate 4 3, numSuits = 2, numRanks = 3, numHoleCards = 1, numBoardCards = [0, 1, 0, 0]\<rparr>"

theorem dealCards_correct_witness:
  "\<exists>rng' s'. dealCards deal_2p (init_genrand \<lparr>mt = replicate 624 0, mti = 0\<rparr> 7) zero_state = Some (rng', s') \<and>
     distinct (dealt_cards deal_2p s')"
proof -
  have "shape_game deal_2p" "game_checked deal_2p" "board_total deal_2p \<le> MAX_BOARD_CARDS" by code_simp+
  moreover have "rng_ok (init_genrand \<lparr>mt = replicate 624 0, mti = 0\<rparr> 7)" by (rule init_genrand_ok) simp
  ultimately show ?thesis
    using dealCards_correct [OF _ _ _ shape_zero_state, of _ deal_2p] by blast
qed

text \<open>C17: a game with more than \<open>MAX_BOARD_CARDS\<close> board cards, which \<open>readGame\<close> does not reject, is dealt
  past the end of \<open>boardCards\<close>.\<close>

theorem dealCards_overflow:
  assumes "shape_state s" "MAX_BOARD_CARDS < board_total g"
  shows "dealCards g rng s = None"
proof -
  let ?d = "\<lparr>d_rng = rng, d_deck = deck_of g, d_numCards = length (deck_of g), d_s = 0, d_state = s\<rparr>"
  let ?h = "deal_holes (List.product [0..<numPlayers g] [0..<numHoleCards g]) ?d"
  have "deal_boards (board_total g) d1 = None" if "?h = Some d1" for d1
    using deal_holes_frame [OF that] shape_stateD(9) [OF assms(1)] assms(2) by (intro deal_boards_overflow) simp_all
  then show ?thesis
    by (cases ?h) (simp_all add: dealCards_def Let_def deal_rounds_boards flip: board_total_def)
qed

definition wide_board :: Game where
  "wide_board = deal_2p\<lparr>numSuits := 4, numRanks := 13, numBoardCards := [4, 4, 0, 0]\<rparr>"

theorem dealCards_overflow_witness: 
  "game_checked wide_board \<and> dealCards wide_board (init_genrand \<lparr>mt = replicate 624 0, mti = 0\<rparr> 7) zero_state = None"
proof -
  have "game_checked wide_board" "MAX_BOARD_CARDS < board_total wide_board" by code_simp+
  then show ?thesis using dealCards_overflow [OF shape_zero_state] by blast
qed

end
