(* ===== verification/State_Round_Trip.thy ===== *)
theory State_Round_Trip
  imports State_IO Replay Deal Betting_Props
begin

text \<open>
  A state printed with \<open>printState\<close> and read back with \<open>readState\<close>: the reader replays the betting with
  \<open>doAction\<close> on its own memory and reaches a state that agrees with the printed one.
\<close>

section \<open>The betting\<close>

text \<open>What \<open>doAction\<close> adds to the log: one action, whose text is the text of the action given.\<close>

lemma apply_log:
  assumes "doAction_apply g a p s = Some s1" "0 < numActions s ! round_no s"
  shows "numActions s1 = numActions s" and "round_no s1 = round_no s"
    and "\<exists>n. action s1 = action s \<or> act_type a = a_call \<and>
      action s1 = (action s)[round_no s := (action s ! round_no s)[numActions s ! round_no s - 1 :=
        (action s ! round_no s ! (numActions s ! round_no s - 1))\<lparr>act_size := n\<rparr>]]"
  using assms by (cases "act_type a"; auto simp: doAction_apply_def doAction_fold_def doAction_call_def
      doAction_raise_def Let_def bind_eq_Some_conv split: if_splits)+

lemma doAction_log:
  assumes sh: "shape_state s" and r: "round_no s < numRounds g" "round_no s < 4"
    and act: "doAction g a s = Some (s', e)"
  shows "\<exists>b. action_text g b = action_text g a \<and> round_no s \<le> round_no s' \<and> round_no s' < numRounds g \<and>
    numActions s' = (numActions s)[round_no s := Suc (numActions s ! round_no s)] \<and>
    action s' = (action s)[round_no s := (action s ! round_no s)[numActions s ! round_no s := b]] \<and>
    numActions s ! round_no s < 64"
proof -
  let ?r = "round_no s" and ?k = "numActions s ! round_no s"
  obtain s1 s2 s3 where st: "doAction_record a (currentPlayer g s) s = Some s1"
    "doAction_apply g a (currentPlayer g s) s1 = Some s2" "doAction_roundSpent a s2 = Some s3"
    "doAction_end g s3 = Some (s', e)"
    using act by (auto simp: doAction_def Let_def bind_eq_Some_conv)
  have 1: "numActions s1 = (numActions s)[?r := Suc ?k]" "action s1 = (action s)[?r := (action s ! ?r)[?k := a]]"
    "round_no s1 = ?r" "?k < 64"
    using st(1) by (auto simp: doAction_record_def Let_def split: if_splits)
  have len: "length (action s) = 4" "length (action s ! ?r) = 64" "length (numActions s) = 4"
    using shape_stateD [OF sh] r by auto
  have k1: "numActions s1 ! round_no s1 = Suc ?k" using 1 len r by simp
  obtain n where 2: "action s2 = action s1 \<or> act_type a = a_call \<and>
      action s2 = (action s1)[?r := (action s1 ! ?r)[?k := (action s1 ! ?r ! ?k)\<lparr>act_size := n\<rparr>]]"
    "numActions s2 = numActions s1" "round_no s2 = ?r"
    using apply_log [OF st(2)] k1 1(3) by (auto simp del: One_nat_def)
  have 3: "action s3 = action s2" "numActions s3 = numActions s2" "round_no s3 = round_no s2"
    using st(3) by (auto simp: doAction_roundSpent_def bind_eq_Some_conv split: if_splits)
  have 4: "action s' = action s3" "numActions s' = numActions s3" "round_no s3 \<le> round_no s'" "round_no s' < numRounds g"
    using st(4) r 2(3) 3(3) by (auto simp: doAction_end_def bind_eq_Some_conv split: if_splits)
  show ?thesis
  proof (cases "action s2 = action s1")
    case True
    then show ?thesis using 1 2 3 4 by (intro exI [of _ a]) simp
  next
    case False
    then have "act_type a = a_call" and
      "action s2 = (action s1)[?r := (action s1 ! ?r)[?k := (action s1 ! ?r ! ?k)\<lparr>act_size := n\<rparr>]]" using 2(1) by auto
    then show ?thesis using 1 2(2,3) 3 4 len r
      by (intro exI [of _ "a\<lparr>act_size := n\<rparr>"]) (simp add: action_text_def)
  qed
qed

lemma doAction_handId: "doAction g a s = Some (s', e) \<Longrightarrow> handId s' = handId s"
proof -
  assume "doAction g a s = Some (s', e)"
  then obtain s1 s2 s3 where st: "doAction_record a (currentPlayer g s) s = Some s1"
    "doAction_apply g a (currentPlayer g s) s1 = Some s2" "doAction_roundSpent a s2 = Some s3"
    "doAction_end g s3 = Some (s', e)"
    by (auto simp: doAction_def Let_def bind_eq_Some_conv)
  have "handId s1 = handId s" using st(1) by (auto simp: doAction_record_def Let_def split: if_splits)
  moreover have "handId s2 = handId s1"
    using st(2) by (cases "act_type a") (auto simp: doAction_apply_def doAction_fold_def doAction_call_def
        doAction_raise_def Let_def bind_eq_Some_conv split: if_splits)
  moreover have "handId s3 = handId s2" using st(3) by (auto simp: doAction_roundSpent_def bind_eq_Some_conv split: if_splits)
  moreover have "handId s' = handId s3" using st(4) by (auto simp: doAction_end_def bind_eq_Some_conv split: if_splits)
  ultimately show ?thesis by simp
qed

lemma sections_text_cong:
  "(\<And>i. i \<in> set xs \<Longrightarrow> f i = f' i) \<Longrightarrow> sections_text sep f xs = sections_text sep f' xs"
  by (induction xs) auto

lemma sections_text_empty: "0 \<notin> set xs \<Longrightarrow> sections_text sep (\<lambda>_. []) xs = replicate (length xs) sep"
  by (induction xs) auto

lemma betting_text_step:
  assumes sh: "shape_state s" and r: "round_no s < numRounds g" "numRounds g \<le> 4"
    and later: "\<forall>q<numRounds g. round_no s < q \<longrightarrow> numActions s ! q = 0" and act: "doAction g a s = Some (s', e)"
  shows "\<exists>n. betting_text g sep s' = betting_text g sep s @ action_text g a @ replicate n sep"
proof -
  let ?r = "round_no s" and ?k = "numActions s ! round_no s"
  let ?tx = "\<lambda>s i. concat (map (action_text g) (round_actions s i))"
  have r4: "?r < 4" using r by simp
  obtain b where b: "action_text g b = action_text g a" "?r \<le> round_no s'" "round_no s' < numRounds g"
    "numActions s' = (numActions s)[?r := Suc ?k]" "action s' = (action s)[?r := (action s ! ?r)[?k := b]]" "?k < 64"
    using doAction_log [OF sh r(1) r4 act] by blast
  have len: "length (action s) = 4" "length (action s ! ?r) = 64" "length (numActions s) = 4"
    using shape_stateD [OF sh] r by auto
  have other: "i \<noteq> ?r \<Longrightarrow> round_actions s' i = round_actions s i" for i
    using b(4,5) by (simp add: round_actions_def nth_list_update_neq)
  have this_round: "round_actions s' ?r = round_actions s ?r @ [b]"
    using b(4-6) len r4 by (auto simp: round_actions_def)
  have after: "i \<in> set [?r + 1..<round_no s' + 1] \<Longrightarrow> ?tx s' i = []" for i
    using later b(3) other [of i] by (auto simp: round_actions_def)
  have split: "[0..<round_no s' + 1] = [0..<?r] @ [?r] @ [?r + 1..<round_no s' + 1]"
    using b(2) upt_add_eq_append [of 0 ?r "round_no s' + 1 - ?r"] upt_rec [of ?r "round_no s' + 1"] by simp
  have "betting_text g sep s' = sections_text sep (?tx s') [0..<?r] @ sections_text sep (?tx s') [?r] @
      sections_text sep (\<lambda>_. []) [?r + 1..<round_no s' + 1]"
    unfolding betting_text_def split sections_text_simps(3)
    using sections_text_cong [of "[?r + 1..<round_no s' + 1]" "?tx s'" "\<lambda>_. []" sep] after by blast
  moreover have "sections_text sep (?tx s') [0..<?r] = sections_text sep (?tx s) [0..<?r]"
    by (rule sections_text_cong) (simp add: other)
  moreover have "sections_text sep (?tx s') [?r] = sections_text sep (?tx s) [?r] @ action_text g a"
    by (simp add: this_round b(1))
  moreover have "betting_text g sep s = sections_text sep (?tx s) [0..<?r] @ sections_text sep (?tx s) [?r]"
    by (simp add: betting_text_def)
  moreover have "sections_text sep (\<lambda>_. []) [?r + 1..<round_no s' + 1] = replicate (length [?r + 1..<round_no s' + 1]) sep"
    by (rule sections_text_empty) simp
  ultimately show ?thesis by (metis append.assoc)
qed

lemma skip_slashes: "readBetting_loop g (replicate n CHR ''/'' @ rest) c t = readBetting_loop g rest (c + int n) t"
  by (induction n arbitrary: c) (auto simp: algebra_simps)

lemma readBetting_action:
  assumes "text_action g a" "ends_number rest" "isValidAction g t False a = Some (True, a)" "doAction g a t = Some (t', e)"
  shows "readBetting_loop g (action_text g a @ rest) c t = readBetting_loop g rest (c + int (length (action_text g a))) t'"
proof -
  obtain x xs where x: "action_text g a = x # xs" by (simp add: action_text_def)
  have "x \<noteq> NUL \<and> x \<noteq> CHR '':'' \<and> x \<noteq> CHR ''/''"
    using assms(1) x by (cases "act_type a") (auto simp: action_text_def text_action_def action_char_def)
  moreover have "nat (1 + int (length xs)) = Suc (length xs)" by simp
  ultimately show ?thesis
    using readAction_text [OF assms(1,2)] assms(3,4) unfolding x by simp
qed

text \<open>An accepted action is one that text can express, and it is accepted again without a fix.\<close>

lemma accepted_raise:
  assumes "playable g" "binv g s" "bettingType g = noLimitBetting" "isValidAction g s fx a = Some (True, a')"
    and ra: "act_type a' = a_raise"
  shows "text_action g a' \<and> isValidAction g s False a' = Some (True, a')"
proof -
  have wf: "wf_game g" and fits: "\<forall>p<numPlayers g. stack g ! p < 2 ^ 30"
    using assms(1,3) by (simp_all add: playable_def fits_game_def)
  note ty = isValidAction_type [OF assms(4)]
  note cur = turn_inv_current(1) [OF wf binvD(6) [OF assms(2) ty(1)]]
  obtain mn mx where v: "raiseIsValid g s = Some (Some (mn, mx))" "size_fixed g mn mx a a'"
    using isValidAction_raise [OF _ assms(4)] ty(2) ra by metis
  have m: "money_inv g s" using binvD(3) [OF assms(2)] .
  then have m': "maxSpent s < minNoLimitRaiseTo s" "0 \<le> maxSpent s"
    using assms(3) cur unfolding money_inv_def by (blast, meson order_trans)
  note sz = isValidAction_True(4) [OF assms(2,4) ra assms(3)] raiseIsValid_sizes [OF v(1) assms(3) m'(1)]
  have lt: "stack g ! currentPlayer g s < 2 ^ 30" using fits cur by simp
  have sz': "mn \<le> act_size a'" "act_size a' \<le> mx" using v(2) sz(2) assms(3) by (simp_all add: size_fixed_def)
  then have "isValidAction g s False a' = Some (True, a')"
    using ra ty(1) v(1) assms(3) by (simp add: isValidAction_def)
  moreover have "0 \<le> act_size a'" "act_size a' \<le> 2 ^ 30" using sz(1) m'(2) lt by linarith+
  then have "text_action g a'" using ra assms(3) by (simp add: text_action_def)
  ultimately show ?thesis by blast
qed

lemma accepted_text_action:
  assumes "playable g" "binv g s" "bettingType g = noLimitBetting" "isValidAction g s fx a = Some (True, a')"
  shows "text_action g a' \<and> isValidAction g s False a' = Some (True, a')"
proof -
  have nf: "\<not> finished s" and ta: "act_type a = act_type a'" "act_type a' \<noteq> a_invalid"
    using isValidAction_type [OF assms(4)] by simp_all
  show ?thesis
  proof (cases "act_type a' = a_raise")
    case False
    then have "a' = a\<lparr>act_size := 0\<rparr>" and fold: "act_type a' = a_fold \<Longrightarrow> \<exists>sp st. rd (spent s) (currentPlayer g s) = Some sp \<and>
        rd (stack g) (currentPlayer g s) = Some st \<and> sp \<noteq> st"
      using nf ta assms(4) by (simp_all add: isValidAction_def bind_eq_Some_conv split: if_splits) blast+
    then have sz: "act_size a' = 0" "a'\<lparr>act_size := 0\<rparr> = a'" by simp_all
    have "text_action g a'" using sz(1) ta(2) False by (simp add: text_action_def)
    moreover have "isValidAction g s False a' = Some (True, a')"
      using nf ta(2) False fold sz(2) by (cases "act_type a'") (auto simp: isValidAction_def)
    ultimately show ?thesis by blast
  qed (rule accepted_raise [OF assms])
qed

lemma replay_betting:
  assumes "reachable g s" "playable g" "bettingType g = noLimitBetting" "shape_state t0" "\<forall>r<numRounds g. roundSpent t0 ! r = 0"
  shows "\<exists>t1. initState g (handId s) t0 = Some t1 \<and>
    (\<forall>rest c. ends_number rest \<longrightarrow> (\<exists>t. same_hand g s t \<and> shape_state t \<and>
       readBetting_loop g (betting_text g CHR ''/'' s @ rest) c t1 =
         readBetting_loop g rest (c + int (length (betting_text g CHR ''/'' s))) t))"
  using assms(1)
proof induction
  case (start s)
  then obtain hid s0 where s0: "shape_state s0" "\<forall>r<numRounds g. roundSpent s0 ! r = 0" "initState g hid s0 = Some s"
    by (auto simp: hand_start_def)
  have wf: "wf_game g" using assms(2) by (simp add: playable_def)
  have hid: "handId s = hid" "round_no s = 0" "numActions s ! 0 = 0"
    using s0 wf_gameD(3) [OF wf] shape_stateD(5) [OF s0(1)] by (auto simp: initState_def Let_def bind_eq_Some_conv nth_fill)
  obtain t where "initState g hid t0 = Some t" "same_hand g s t" "shape_state t"
    using same_start [OF wf s0(1) assms(4) s0(3,2) assms(5)] by blast
  moreover have "betting_text g CHR ''/'' s = []" using hid by (simp add: betting_text_def round_actions_def)
  ultimately show ?case using hid(1) by auto
next
  case (step s s')
  note inv = reachable_facts [OF step(1) assms(2)]
  note wf = inv(1) and b = binvD [OF inv(2)]
  obtain fx a a' e where st: "isValidAction g s fx a = Some (True, a')" "doAction g a' s = Some (s', e)"
    using step(2) by (rule bet_stepE)
  note ta = accepted_text_action [OF assms(2) inv(2) assms(3) st(1), THEN conjunct1]
    accepted_text_action [OF assms(2) inv(2) assms(3) st(1), THEN conjunct2]
  note cur = turn_inv_current(1) [OF wf b(6) [OF isValidAction_type(1) [OF st(1)]]]
  obtain n where n: "betting_text g CHR ''/'' s' = betting_text g CHR ''/'' s @ action_text g a' @ replicate n CHR ''/''"
    using betting_text_step [OF b(1,2) wf_gameD(4) [OF wf] _ st(2)] b(5) by blast
  have hid: "handId s' = handId s" using doAction_handId [OF st(2)] .
  obtain t1 where t1: "initState g (handId s) t0 = Some t1"
    and rd: "ends_number rest \<Longrightarrow> \<exists>t. same_hand g s t \<and> shape_state t \<and>
       readBetting_loop g (betting_text g CHR ''/'' s @ rest) c t1 =
         readBetting_loop g rest (c + int (length (betting_text g CHR ''/'' s))) t" for rest c
    using step.IH by blast
  have "\<exists>t. same_hand g s' t \<and> shape_state t \<and>
       readBetting_loop g (betting_text g CHR ''/'' s' @ rest) c t1 =
         readBetting_loop g rest (c + int (length (betting_text g CHR ''/'' s'))) t"
    if rest: "ends_number rest" for rest c
  proof -
    let ?rest = "replicate n CHR ''/'' @ rest"
    have f: "ends_number ?rest" using rest by (cases n) (auto simp: ends_number_def isdigit_def)
    obtain t where t: "same_hand g s t" "shape_state t"
      "readBetting_loop g (betting_text g CHR ''/'' s @ action_text g a' @ ?rest) c t1 =
         readBetting_loop g (action_text g a' @ ?rest) (c + int (length (betting_text g CHR ''/'' s))) t"
      using rd [OF ends_number_action [of a' g ?rest], of c] ta(1) unfolding text_action_def by metis
    obtain t' where t': "doAction g a' t = Some (t', e)" "same_hand g s' t'" "shape_state t'"
      using same_doAction [OF t(1) wf b(2) b(1) t(2) cur st(2)] by blast
    have "isValidAction g t False a' = Some (True, a')"
      using ta(2) same_isValid [OF t(1) wf b(2) b(1) t(2) cur] by simp
    then show ?thesis
      using readBetting_action [OF ta(1) f _ t'(1)] t t'(2,3) by (auto simp: n skip_slashes algebra_simps)
  qed
  then show ?case using t1 hid by auto
qed

section \<open>The cards\<close>

lemma readHoleCards_loop_text:
  assumes "distinct ps" "\<forall>p \<in> set ps. p < 10" "numHoleCards g \<le> 3" "\<forall>p \<in> set ps. \<forall>c \<in> set (hole_row g s p). c < 52"
    and "length (holeCards st) = 10" "\<forall>p<10. length (holeCards st ! p) = 3" "1 \<le> numHoleCards g"
  shows "\<exists>h. readHoleCards_loop g ps (sections_text CHR ''|'' (\<lambda>p. cards_text (hole_row g s p)) ps @ rest) c st =
      Some (c + int (length (sections_text CHR ''|'' (\<lambda>p. cards_text (hole_row g s p)) ps)), st\<lparr>holeCards := h\<rparr>) \<and>
    (\<forall>p \<in> set ps. \<forall>i<numHoleCards g. h ! p ! i = holeCards s ! p ! i) \<and>
    (\<forall>p. p \<notin> set ps \<longrightarrow> h ! p = holeCards st ! p)"
  using assms
proof (induction ps arbitrary: c st)
  case Nil
  then show ?case by (intro exI [of _ "holeCards st"]) simp
next
  case (Cons p ps)
  let ?row = "hole_row g s p" and ?h = "(holeCards st)[p := hole_row g s p @ drop (numHoleCards g) (holeCards st ! p)]"
  let ?tail = "sections_text CHR ''|'' (\<lambda>p. cards_text (hole_row g s p)) ps"
  have len: "length ?row = numHoleCards g" by (simp add: hole_row_def)
  have sep: "skip_sep CHR ''|'' p ((if p \<noteq> 0 then [CHR ''|''] else []) @ cards_text ?row @ ?tail @ rest) c =
      (cards_text ?row @ ?tail @ rest, c + (if p \<noteq> 0 then 1 else 0))"
    by (simp add: skip_sep_def)
  have rd: "readCards (numHoleCards g) (cards_text ?row @ ?tail @ rest) = (2 * numHoleCards g, ?row)"
    using readCards_text [of ?row "?tail @ rest"] Cons.prems(4) len by simp
  have p: "p < 10" "length (holeCards st ! p) = 3" using Cons.prems by auto
  have wc: "write_cards (holeCards st ! p) 0 ?row = Some (?row @ drop (numHoleCards g) (holeCards st ! p))"
    using p len Cons.prems(3) by (simp add: write_cards_def)
  have sh: "length ?h = 10" "\<forall>q<10. length (?h ! q) = 3"
    using Cons.prems(3,5,6) p len by (simp_all add: nth_list_update)
  obtain h where h: "readHoleCards_loop g ps (?tail @ rest) (c + (if p \<noteq> 0 then 1 else 0) + int (2 * numHoleCards g)) (st\<lparr>holeCards := ?h\<rparr>) =
      Some (c + (if p \<noteq> 0 then 1 else 0) + int (2 * numHoleCards g) + int (length ?tail), st\<lparr>holeCards := h\<rparr>)"
    "\<forall>p \<in> set ps. \<forall>i<numHoleCards g. h ! p ! i = holeCards s ! p ! i" "\<forall>q. q \<notin> set ps \<longrightarrow> h ! q = ?h ! q"
    using Cons.IH [of "st\<lparr>holeCards := ?h\<rparr>" "c + (if p \<noteq> 0 then 1 else 0) + int (2 * numHoleCards g)"] Cons.prems sh
    by auto
  have "h ! p ! i = holeCards s ! p ! i" if "i < numHoleCards g" for i
    using h(3) Cons.prems(1,5) p that len by (auto simp: nth_append hole_row_def)
  moreover have "readHoleCards_loop g (p # ps) (sections_text CHR ''|'' (\<lambda>p. cards_text (hole_row g s p)) (p # ps) @ rest) c st =
      readHoleCards_loop g ps (?tail @ rest) (c + (if p \<noteq> 0 then 1 else 0) + int (2 * numHoleCards g)) (st\<lparr>holeCards := ?h\<rparr>)"
    unfolding sections_text_simps append.assoc readHoleCards_loop.simps sep
    using rd wc p len Cons.prems(5,7) by (auto simp: Let_def)
  ultimately show ?case
    using h len Cons.prems(1) by (intro exI [of _ h]) (auto simp: nth_list_update split: if_splits)
qed

lemma readBoardCards_loop_text:
  assumes "\<forall>i<n. \<forall>c \<in> set (board_row g s i). c < 52" "\<forall>i<n. bcStart g (Suc i) = bcStart g i + numBoardCards g ! i"
    "bcStart g n \<le> 7" "k \<le> n" "length (boardCards st) = 7" "\<forall>i<bcStart g k. boardCards st ! i = boardCards s ! i"
  shows "\<exists>b. readBoardCards_loop g [k..<n] (sections_text CHR ''/'' (\<lambda>i. cards_text (board_row g s i)) [k..<n] @ rest) c st =
      Some (c + int (length (sections_text CHR ''/'' (\<lambda>i. cards_text (board_row g s i)) [k..<n])), st\<lparr>boardCards := b\<rparr>) \<and>
    (\<forall>i<bcStart g n. b ! i = boardCards s ! i)"
  using assms(4-6)
proof (induction "n - k" arbitrary: k c st)
  case 0
  then show ?case by (intro exI [of _ "boardCards st"]) simp
next
  case (Suc m)
  then have k: "k < n" "[k..<n] = k # [Suc k..<n]" by (auto simp: upt_conv_Cons)
  let ?row = "board_row g s k" and ?tail = "sections_text CHR ''/'' (\<lambda>i. cards_text (board_row g s i)) [Suc k..<n]"
  let ?b = "take (bcStart g k) (boardCards st) @ ?row @ drop (bcStart g k + numBoardCards g ! k) (boardCards st)"
  have len: "length ?row = numBoardCards g ! k" by (simp add: board_row_def)
  have mono: "bcStart g i \<le> bcStart g j" if "i \<le> j" "j \<le> n" for i j
    using that assms(2) by (induction rule: dec_induct) (auto simp: le_Suc_eq intro: le_trans)
  have st: "bcStart g (Suc k) = bcStart g k + numBoardCards g ! k" "bcStart g (Suc k) \<le> 7"
    using assms(2,3) k mono [of "Suc k" n] by auto
  have sep: "skip_sep CHR ''/'' k ((if k \<noteq> 0 then [CHR ''/''] else []) @ cards_text ?row @ ?tail @ rest) c =
      (cards_text ?row @ ?tail @ rest, c + (if k \<noteq> 0 then 1 else 0))"
    by (simp add: skip_sep_def)
  have rd: "readCards (numBoardCards g ! k) (cards_text ?row @ ?tail @ rest) = (2 * numBoardCards g ! k, ?row)"
    using readCards_text [of ?row "?tail @ rest"] assms(1) k(1) len by simp
  have wc: "write_cards (boardCards st) (bcStart g k) ?row = Some ?b"
    using st len Suc.prems by (simp add: write_cards_def)
  have "\<forall>i<bcStart g (Suc k). ?b ! i = boardCards s ! i"
    using Suc.prems st len by (auto simp: nth_append board_row_def min_def)
  moreover have "length ?b = 7" "Suc k \<le> n" "m = n - Suc k" using Suc.prems Suc.hyps(2) st len k(1) by (auto simp: min_def)
  ultimately obtain b where b: "readBoardCards_loop g [Suc k..<n] (?tail @ rest) (c + (if k \<noteq> 0 then 1 else 0) + int (2 * numBoardCards g ! k)) (st\<lparr>boardCards := ?b\<rparr>) =
      Some (c + (if k \<noteq> 0 then 1 else 0) + int (2 * numBoardCards g ! k) + int (length ?tail), st\<lparr>boardCards := b\<rparr>)"
    "\<forall>i<bcStart g n. b ! i = boardCards s ! i"
    using Suc.hyps(1) [of "Suc k" "st\<lparr>boardCards := ?b\<rparr>" "c + (if k \<noteq> 0 then 1 else 0) + int (2 * numBoardCards g ! k)"]
    by auto
  moreover have "readBoardCards_loop g [k..<n] (sections_text CHR ''/'' (\<lambda>i. cards_text (board_row g s i)) [k..<n] @ rest) c st =
      readBoardCards_loop g [Suc k..<n] (?tail @ rest) (c + (if k \<noteq> 0 then 1 else 0) + int (2 * numBoardCards g ! k)) (st\<lparr>boardCards := ?b\<rparr>)"
    unfolding k(2) sections_text_simps append.assoc readBoardCards_loop.simps sep
    using rd wc len by (simp add: Let_def)
  ultimately show ?case
    using len unfolding k(2) by (intro exI [of _ b]) auto
qed

section \<open>States\<close>

lemma bcStart_sum:
  assumes "board_total g \<le> 7" "r \<le> numRounds g" "numRounds g \<le> 4" "length (numBoardCards g) = 4"
  shows "bcStart g r = sum_list (take r (numBoardCards g))" "bcStart g r \<le> 7"
proof -
  have le: "sum_list (take r (numBoardCards g)) \<le> 7" if "r \<le> numRounds g" for r
  proof -
    have "take (numRounds g) (numBoardCards g) = take r (numBoardCards g) @ drop r (take (numRounds g) (numBoardCards g))"
      using append_take_drop_id [of r "take (numRounds g) (numBoardCards g)"] that by (simp add: min_def)
    then have "board_total g = sum_list (take r (numBoardCards g)) + sum_list (drop r (take (numRounds g) (numBoardCards g)))"
      using board_total_take [of g] assms(3,4) sum_list_append by metis
    then show ?thesis using assms(1) by simp
  qed
  have "bcStart g r = sum_list (take r (numBoardCards g))"
    using assms(2)
  proof (induction r)
    case (Suc r)
    then have "sum_list (take (Suc r) (numBoardCards g)) = sum_list (take r (numBoardCards g)) + numBoardCards g ! r"
      using assms(3,4) by (simp add: take_Suc_conv_app_nth)
    then show ?case using Suc le [of "Suc r"] by (simp add: bcStart_def)
  qed (simp add: bcStart_def)
  then show "bcStart g r = sum_list (take r (numBoardCards g))" "bcStart g r \<le> 7" using le [OF assms(2)] by simp_all
qed

lemma readState_text:
  assumes re: "reachable g s" and pl: "playable g" and nl: "bettingType g = noLimitBetting" and hid: "handId s < 2 ^ 32"
    and co: "cards_ok g s" and bt: "board_total g \<le> 7"
    and mem: "shape_state mem" "\<forall>r<numRounds g. roundSpent mem ! r = 0"
  shows "\<exists>t. readState g (state_text g s @ rest) mem = Some (int (length (state_text g s)), t) \<and>
    same_hand g s t \<and> statesEqual g s t"
proof -
  note inv = reachable_facts [OF re pl]
  note wf = inv(1) and b = binvD [OF inv(2)]
  have gc: "1 \<le> numHoleCards g" "numHoleCards g \<le> 3" "numPlayers g \<le> 10" "numRounds g \<le> 4" "length (numBoardCards g) = 4"
    using wf wf_gameD [OF wf] by (auto simp: wf_game_def game_checked_def)
  let ?bt = "betting_text g CHR ''/'' s" and ?h = "holes_text g s" and ?b = "board_text g s (round_no s + 1)"
  let ?n = "length (dec (handId s))"
  let ?s = "'':'' @ dec (handId s) @ '':'' @ ?bt @ '':'' @ ?h @ ?b @ rest"
  have en: "ends_number ('':'' @ ?h @ ?b @ rest)" by (simp add: ends_number_def isdigit_def)
  obtain t1 t where t1: "initState g (handId s) mem = Some t1" and t: "same_hand g s t" "shape_state t"
    "readBetting_loop g (?bt @ '':'' @ ?h @ ?b @ rest) 0 t1 = readBetting_loop g ('':'' @ ?h @ ?b @ rest) (int (length ?bt)) t"
    using replay_betting [OF re pl nl mem] en by (metis add_0)
  have u: "sscanf_lit_u '':'' 32 ?s = Some (Some (handId s, 1 + ?n))"
    using sscanf_u_dec [OF hid, of "'':'' @ ?bt @ '':'' @ ?h @ ?b @ rest"]
    by (simp add: sscanf_lit_u_def ends_number_def isdigit_def)
  have colon: "char_at ?s (1 + ?n) = CHR '':''" by (simp add: char_at_def nth_append)
  have d1: "drop (nat (int (1 + ?n) + 1)) ?s = ?bt @ '':'' @ ?h @ ?b @ rest" by (simp add: nat_add_distrib)
  have p1: "read_part (readBetting g) ?s (int (1 + ?n) + 1, t1) = Some (int (?n + length ?bt + 3), t)"
    unfolding read_part_def prod.case d1 using t(3) by (simp add: readBetting_def)
  have d2: "drop (nat (int (?n + length ?bt + 3))) ?s = ?h @ ?b @ rest"
    unfolding nat_int by (simp add: eval_nat_numeral)
  note sh = shape_stateD [OF t(2)]
  obtain h where h: "readHoleCards g (?h @ ?b @ rest) t = Some (int (length ?h), t\<lparr>holeCards := h\<rparr>)"
    "\<forall>p<numPlayers g. \<forall>i<numHoleCards g. h ! p ! i = holeCards s ! p ! i"
    using readHoleCards_loop_text [of "[0..<numPlayers g]" g s t "?b @ rest" 0] co gc sh
    by (auto simp: readHoleCards_def holes_text_def cards_ok_def)
  have p2: "read_part (readHoleCards g) ?s (int (?n + length ?bt + 3), t) =
      Some (int (?n + length ?bt + 3 + length ?h), t\<lparr>holeCards := h\<rparr>)"
    unfolding read_part_def prod.case d2 using h(1) by simp
  have d3: "drop (nat (int (?n + length ?bt + 3 + length ?h))) ?s = ?b @ rest"
    unfolding nat_int by (simp add: eval_nat_numeral)
  have r: "round_no t = round_no s" using same_handD(4) [OF t(1)] by simp
  have bs: "\<forall>i<Suc (round_no s). bcStart g (Suc i) = bcStart g i + numBoardCards g ! i" "bcStart g (Suc (round_no s)) \<le> 7"
    using bcStart_sum(1) [OF bt _ gc(4,5)] bcStart_sum(2) [OF bt _ gc(4,5), of "Suc (round_no s)"] b(2) gc
    by (simp_all add: take_Suc_conv_app_nth)
  have bco: "\<forall>i<Suc (round_no s). \<forall>c \<in> set (board_row g s i). c < 52" using co b(2) unfolding cards_ok_def
    by (meson less_Suc_eq_le le_less_trans)
  obtain bc where bc: "readBoardCards g (?b @ rest) (t\<lparr>holeCards := h\<rparr>) = Some (int (length ?b), t\<lparr>holeCards := h, boardCards := bc\<rparr>)"
    "\<forall>i<bcStart g (Suc (round_no s)). bc ! i = boardCards s ! i"
    using readBoardCards_loop_text [of "Suc (round_no s)" g s 0 "t\<lparr>holeCards := h\<rparr>" rest 0] bco bs sh(9)
    by (auto simp: readBoardCards_def board_text_def r bcStart_def simp del: upt_Suc bcStart_loop.simps(2))
  have p3: "read_part (readBoardCards g) ?s (int (?n + length ?bt + 3 + length ?h), t\<lparr>holeCards := h\<rparr>) =
      Some (int (?n + length ?bt + 3 + length ?h + length ?b), t\<lparr>holeCards := h, boardCards := bc\<rparr>)"
    unfolding read_part_def prod.case d3 using bc(1) by simp
  let ?t = "t\<lparr>holeCards := h, boardCards := bc\<rparr>"
  have "readStateCommon g ?s mem = Some (int (?n + length ?bt + 3 + length ?h + length ?b), ?t)"
    unfolding readStateCommon_def u using t1 colon p1 p2 p3 by simp
  then have "readState g (state_text g s @ rest) mem = Some (int (length (state_text g s)), ?t)"
    by (simp add: readState_def state_text_def state_common_text_def)
  moreover have "same_hand g s ?t" using same_handD [OF t(1)] by (simp add: same_hand_def)
  moreover have "statesEqual g s ?t"
    using same_handD [OF t(1)] b(2) h(2) bc(2) by (auto simp: statesEqual_def statesEqualCommon_def sumBoardCards_def bcStart_def)
  ultimately show ?thesis by blast
qed

text \<open>C24: a state of a no-limit hand, printed with \<open>printState\<close> into a buffer it fits in and read with
  \<open>readState\<close> into memory whose \<open>roundSpent\<close> is zero, comes back: exactly the text is consumed, the result agrees
  with the printed state on everything the engine looks at, and \<open>statesEqual\<close> holds.
  The game is playable.\<close>

theorem state_round_trip:
  assumes "reachable g s" "playable g" "bettingType g = noLimitBetting" "handId s < 2 ^ 32" "cards_ok g s"
    "board_total g \<le> 7" "shape_state mem" "\<forall>r<numRounds g. roundSpent mem ! r = 0"
    "int (length (state_text g s)) < maxLen"
  shows "\<exists>txt t. printState g s maxLen = Some (int (length txt), txt) \<and>
    readState g (txt @ rest) mem = Some (int (length txt), t) \<and> same_hand g s t \<and> statesEqual g s t"
proof -
  have "round_no s < numRounds g" using binvD(2) [OF reachable_facts(2) [OF assms(1,2)]] .
  then have "printState g s maxLen = Some (int (length (state_text g s)), state_text g s)"
    using printsD [OF prints_state [OF assms(5)]] assms(9) by blast
  then show ?thesis using readState_text [OF assms(1-8), of rest] by blast
qed

theorem state_round_trip_witness:
  "\<exists>txt t. printState nolimit_2p nolimit_called 30 = Some (int (length txt), txt) \<and>
    readState nolimit_2p (txt @ ''!'') zero_state = Some (int (length txt), t) \<and>
    same_hand nolimit_2p nolimit_called t \<and> statesEqual nolimit_2p nolimit_called t"
proof (rule state_round_trip)
  have "handId nolimit_called = 7" unfolding nolimit_called_def nolimit_start_def by code_simp
  then show "handId nolimit_called < 2 ^ 32" by simp
  show "cards_ok nolimit_2p nolimit_called" unfolding nolimit_called_def nolimit_start_def by code_simp
  show "int (length (state_text nolimit_2p nolimit_called)) < 30"
    unfolding nolimit_called_def nolimit_start_def by code_simp
  show "\<forall>r<numRounds nolimit_2p. roundSpent zero_state ! r = 0" by code_simp
  show "bettingType nolimit_2p = noLimitBetting" "board_total nolimit_2p \<le> 7" "shape_state zero_state" by code_simp+
qed (rule reachable_nolimit_called playable_nolimit_2p)+

text \<open>The bound of the buffer is not always checked: when a print step of \<open>printState\<close> has already returned
  more than fits, the space left is negative and the action after it is written out of bounds.\<close>

lemma printState_small_buffer: "printState nolimit_2p nolimit_called 5 = None"
  unfolding nolimit_called_def nolimit_start_def by code_simp

end
