(* ===== verification/Run_Game.thy ===== *)
theory Run_Game
  imports Betting_Tree Match_Info State_Round_Trip Showdown "HOL-Library.Word"
begin

text \<open>
  \<open>CRunGame\<close> of \<open>run_game.cpp\<close>: one robot at the table, playing hands against one player.  The requests of the
  table server start a hand, deliver cards, report actions and end the hand.  \<open>ApgCardToLocal\<close> is that of
  \<open>define.cpp\<close>, with the card codes of \<open>apg_nndef.cpp\<close>.

  The parts of other classes that the code consults are arguments: \<open>games\<close> is \<open>CGameManager::GetGame\<close>, \<open>bt\<close> the
  betting tree, \<open>now\<close> the result of \<open>time(NULL)\<close>; \<open>conf_unsave\<close> is the configuration switch \<open>m_nUnsaveHistory\<close>
  and \<open>llen\<close>, \<open>lpush\<close> are the answers of the Redis server.  \<open>None\<close> is undefined behaviour or an exception that is
  not caught.  Log messages are left out; the text that a request returns in \<open>strOut\<close> is kept.
\<close>

unbundle bit_operations_syntax

section \<open>Card codes of the table server\<close>

definition getNNType :: "16 word \<Rightarrow> 16 word" where
  "getNNType c = c AND 0x00f0"

definition getNNNum :: "16 word \<Rightarrow> 16 word" where
  "getNNNum c = c AND 0x000f"

abbreviation NN_CARD_DIAMOND :: "16 word" where "NN_CARD_DIAMOND \<equiv> 0x0000"
abbreviation NN_CARD_CLUB :: "16 word" where "NN_CARD_CLUB \<equiv> 0x0010"
abbreviation NN_CARD_HEART :: "16 word" where "NN_CARD_HEART \<equiv> 0x0020"
abbreviation NN_CARD_SPADE :: "16 word" where "NN_CARD_SPADE \<equiv> 0x0030"

definition ApgCardToLocal :: "16 word \<Rightarrow> int + nat" where
  "ApgCardToLocal c =
     (let apgsuit = getNNType c;
          apgrank = getNNNum c;
          suit = (if apgsuit = NN_CARD_DIAMOND then Some 1
                  else if apgsuit = NN_CARD_CLUB then Some 0
                  else if apgsuit = NN_CARD_HEART then Some 2
                  else if apgsuit = NN_CARD_SPADE then Some 3
                  else None)
      in case suit of
           None \<Rightarrow> Inl (-1)
         | Some nSuit \<Rightarrow>
             if sint apgrank < 2 \<or> sint apgrank > 14 then Inl (-2)
             else Inr (u8 (makeCard (u8 (nat (sint apgrank - 2))) nSuit)))"

section \<open>The state of a robot\<close>

datatype GAME_RUN_STATE = GRS_OK | GRS_WAIT_ROBOT_ACTION | GRS_ERR_CARDS | GRS_ERR_PLAYER_ACTION | GRS_ERR_ROBOT_ACTION

record DLastAction =
  da_type :: nat
  da_BetNum :: int
  da_BetSize :: int

record CRunGame =
  m_nRobotID :: int
  m_nGameType :: nat
  m_szRoomID :: string
  m_nPlayerID :: int
  m_nPlayerScore :: int
  m_nActionSeq :: nat
  m_nRunState :: GAME_RUN_STATE
  m_nSock :: int
  m_nUniqueID :: nat
  m_nLastTime :: int
  m_nRequestActionTime :: int
  m_nLocalRoleID :: int
  m_nLocalRoomID :: int
  m_nCfrServerID :: nat
  m_szCfrModel :: string
  m_oMatchState :: MatchState
  m_nRobotResult :: int
  m_nRobotScore :: int
  m_nGameTime :: int
  m_nHistoryCnt :: int
  m_nTRobotRoundSeq :: nat
  m_nAlreadySaveHistory :: bool
  m_nGameBeginTimes :: int
  m_oDLastAction :: DLastAction

abbreviation rg_state :: "CRunGame \<Rightarrow> State" where
  "rg_state rg \<equiv> ms_state (m_oMatchState rg)"

abbreviation upd_state :: "(State \<Rightarrow> State) \<Rightarrow> CRunGame \<Rightarrow> CRunGame" where
  "upd_state f rg \<equiv> rg\<lparr>m_oMatchState := (m_oMatchState rg)\<lparr>ms_state := f (rg_state rg)\<rparr>\<rparr>"

text \<open>The memory after \<open>memset(&m_oMatchState, 0, ...)\<close>.\<close>

definition zero_match :: MatchState where
  "zero_match = \<lparr>ms_state = zero_state, viewingPlayer = 0\<rparr>"

definition Reset :: "CRunGame \<Rightarrow> CRunGame" where
  "Reset rg = rg\<lparr>m_nRobotID := 0, m_nGameType := 0, m_nPlayerID := 0, m_nPlayerScore := 0, m_nCfrServerID := 0,
     m_nSock := -1, m_nUniqueID := 0, m_nLastTime := 0, m_oMatchState := zero_match, m_szRoomID := [], m_szCfrModel := []\<rparr>"

text \<open>\<open>SetPlayerID\<close>; \<open>id\<close> is the counter \<open>g_nLocalID\<close>, incremented for a new player.\<close>

definition SetPlayerID :: "int \<Rightarrow> int \<Rightarrow> 32 word \<Rightarrow> CRunGame \<Rightarrow> CRunGame \<times> 32 word" where
  "SetPlayerID now v local_id rg =
     (if v \<noteq> m_nPlayerID rg
      then (let nLocalID = local_id + 1 in
            (rg\<lparr>m_nPlayerID := v, m_nRobotScore := 0, m_nLocalRoleID := uint nLocalID,
                m_nLocalRoomID := (now * 2 ^ 32 + uint nLocalID) mod 2 ^ 64\<rparr>, nLocalID))
      else (rg, local_id))"

definition GetBankerID :: "CRunGame \<Rightarrow> int" where
  "GetBankerID rg = (if viewingPlayer (m_oMatchState rg) = 1 then m_nRobotID rg else m_nPlayerID rg)"

definition GetRound :: "CRunGame \<Rightarrow> nat" where
  "GetRound rg = round_no (rg_state rg)"

definition GetCurrentPlayerID :: "(nat \<Rightarrow> Game option) \<Rightarrow> CRunGame \<Rightarrow> int" where
  "GetCurrentPlayerID games rg =
     (if finished (rg_state rg) then 0
      else case games (m_nGameType rg) of
        None \<Rightarrow> 0
      | Some g \<Rightarrow>
          (let player = currentPlayer g (rg_state rg) in
           if player \<ge> numPlayers g then 0
           else if player = viewingPlayer (m_oMatchState rg) then m_nRobotID rg
           else m_nPlayerID rg))"

section \<open>Which raises are allowed\<close>

text \<open>\<open>std::stoi\<close>: an exception when there is no number or it does not fit.\<close>

definition stoi :: "string \<Rightarrow> int option" where
  "stoi s = (case sscanf_d32 s of Some (Some (v, n)) \<Rightarrow> Some v | _ \<Rightarrow> None)"

text \<open>
  The loop also writes a log line into \<open>char szTemp[256]\<close>, 32 bytes at a time: \<open>sl\<close> is \<open>strlen(szTemp)\<close> and \<open>len\<close> where the
  next piece goes.  \<open>snprintf\<close> returns the length that the piece would have had, so after a piece of more than 31 characters \<open>len\<close> lies
  behind the end of the text and \<open>strlen\<close> does not grow any more.
\<close>

definition log_raise :: "string \<Rightarrow> int \<Rightarrow> nat \<Rightarrow> nat \<Rightarrow> (nat \<times> nat) option" where
  "log_raise t n sl len =
     (if sl < 200
      then let k = length (takeWhile (\<lambda>c. c \<noteq> NUL) t @ ''['' @ dec_int n @ ''] '') in
           if len + min k 31 \<ge> 256 then None
           else Some (if sl = len then len + min k 31 else sl, len + k)
      else Some (sl, len))"

fun allow_loop :: "string list \<Rightarrow> nat \<Rightarrow> nat \<Rightarrow> int list option" where
  "allow_loop [] sl len = Some []"
| "allow_loop (t # ts) sl len =
     (if length t > 1 \<and> t ! 0 = CHR ''r''
      then do {
        n \<leftarrow> stoi (drop 1 t);
        (sl', len') \<leftarrow> log_raise t n sl len;
        map_option (Cons n) (allow_loop ts sl' len')
      }
      else allow_loop ts sl len)"

definition GetAllowRaises :: "CBettingTree \<Rightarrow> CRunGame \<Rightarrow> (int + int list) option" where
  "GetAllowRaises bt rg =
     do {
       info \<leftarrow> GetActionInfo (m_oMatchState rg) ActionInfo_new;
       (case GetNode (action_seq info) bt of
          Inl e \<Rightarrow> Some (Inl (-102))
        | Inr node \<Rightarrow> map_option Inr (allow_loop (node_child node) 0 0))
     }"

definition CheckAction :: "CBettingTree \<Rightarrow> Game \<Rightarrow> Action \<Rightarrow> CRunGame \<Rightarrow> int option" where
  "CheckAction bt g a rg =
     (if act_type a = a_call then Some 0
      else if act_type a = a_fold then Some 0
      else if act_type a \<noteq> a_raise then Some (-2)
      else do {
        (ok, a') \<leftarrow> isValidAction g (rg_state rg) False a;
        if \<not> ok then Some (-12)
        else do {
          r \<leftarrow> GetAllowRaises bt rg;
          Some (case r of
             Inl e \<Rightarrow> -13
           | Inr vRaises \<Rightarrow> if act_size a \<in> set vRaises then 0 else -99)
        }
      })"

text \<open>A child of the betting tree with a long text makes the next raise write its log text outside the buffer.\<close>

lemma long_child_overflows:
  assumes "length t > 1" "t ! 0 = CHR ''r''" "NUL \<notin> set t" "length t \<ge> 225" "stoi (drop 1 t) = Some n"
    "length u > 1" "u ! 0 = CHR ''r''" "NUL \<notin> set u" "length u \<ge> 29"
  shows "allow_loop (t # u # ts) 0 0 = None"
proof -
  have t: "takeWhile (\<lambda>c. c \<noteq> NUL) t = t" "takeWhile (\<lambda>c. c \<noteq> NUL) u = u" using assms(3,8) by (auto simp: takeWhile_eq_all_conv)
  have "log_raise t n 0 0 = Some (31, length t + length (dec_int n) + 3)" unfolding log_raise_def t Let_def using assms(4) by simp
  moreover have "log_raise u m 31 (length t + length (dec_int n) + 3) = None" for m
    unfolding log_raise_def t Let_def using assms(4,9) by simp
  ultimately show ?thesis using assms(1,2,5-7) by (simp split: bind_splits)
qed

section \<open>Requests\<close>

abbreviation GAME_TYPE_NOLIMIT_2P :: nat where "GAME_TYPE_NOLIMIT_2P \<equiv> 2"

definition DoRunMatch :: "(nat \<Rightarrow> Game option) \<Rightarrow> int \<Rightarrow> nat \<Rightarrow> int \<Rightarrow> CRunGame \<Rightarrow> (int \<times> CRunGame) option" where
  "DoRunMatch games now nHandID nBankerID rg0 =
     (let rg = rg0\<lparr>m_nGameType := GAME_TYPE_NOLIMIT_2P\<rparr> in
      case games (m_nGameType rg) of
        None \<Rightarrow> Some (-1, rg)
      | Some g \<Rightarrow> do {
          s \<leftarrow> initState g nHandID (zero_state\<lparr>handId := nHandID\<rparr>);
          Some (0, rg\<lparr>m_oMatchState := \<lparr>ms_state = s, viewingPlayer = (if nBankerID = m_nRobotID rg then 1 else 0)\<rparr>,
            m_nActionSeq := 0, m_nRunState := GRS_OK, m_nRobotResult := 0, m_nGameTime := now,
            m_nGameBeginTimes := (m_nGameBeginTimes rg + 1) mod 2 ^ 32, m_nAlreadySaveHistory := False\<rparr>)
        })"

text \<open>
  The notifications carry the cards as \<open>int32\<close>, which the call of \<open>ApgCardToLocal\<close> converts to 16 bits.  A card
  is stored as soon as it is converted, so the cards before an invalid one stay.
\<close>

record ThirdGameSendCardsNotify =
  sc_round :: nat
  robot_cards :: "int list"
  sc_board_cards :: "int list"

fun store_cards :: "int list \<Rightarrow> nat \<Rightarrow> nat list \<Rightarrow> nat list \<times> nat option" where
  "store_cards [] j cells = (cells, None)"
| "store_cards (c # cs) j cells =
     (case ApgCardToLocal (word_of_int c) of
        Inl e \<Rightarrow> (cells, Some j)
      | Inr nCard \<Rightarrow> store_cards cs (j + 1) (cells[j := nCard]))"

definition store_hole :: "nat \<Rightarrow> int list \<Rightarrow> State \<Rightarrow> State \<times> nat option" where
  "store_hole p cs s =
     (let (cells, bad) = store_cards cs 0 (holeCards s ! p) in (s\<lparr>holeCards := (holeCards s)[p := cells]\<rparr>, bad))"

definition store_board :: "nat \<Rightarrow> int list \<Rightarrow> State \<Rightarrow> State \<times> nat option" where
  "store_board j cs s = (let (cells, bad) = store_cards cs j (boardCards s) in (s\<lparr>boardCards := cells\<rparr>, bad))"

text \<open>The end of \<open>DoSaveCards\<close> and a part of \<open>DoFinished\<close>: the hand as text.\<close>

definition print_hand :: "Game \<Rightarrow> State \<Rightarrow> string option" where
  "print_hand g s = map_option snd (printStateDetailed g s 255)"

definition save_done ::
  "(nat \<Rightarrow> Game option) \<Rightarrow> CRunGame \<Rightarrow> (int \<times> string \<times> CRunGame) option" where
  "save_done games rg =
     (case games (m_nGameType rg) of
        None \<Rightarrow> Some (-1, ''invalid game type('' @ dec (m_nGameType rg) @ '')'', rg)
      | Some g \<Rightarrow> do { txt \<leftarrow> print_hand g (rg_state rg); Some (0, txt, rg) })"

definition saved ::
  "(nat \<Rightarrow> Game option) \<Rightarrow> (State \<times> nat option) \<Rightarrow> (nat \<Rightarrow> string) \<Rightarrow> int \<Rightarrow> CRunGame \<Rightarrow> (int \<times> string \<times> CRunGame) option" where
  "saved games r msg code rg =
     (case r of
        (s, Some j) \<Rightarrow> Some (code, msg j, upd_state (\<lambda>_. s) rg)
      | (s, None) \<Rightarrow> save_done games (upd_state (\<lambda>_. s) rg))"

definition DoSaveCards ::
  "(nat \<Rightarrow> Game option) \<Rightarrow> ThirdGameSendCardsNotify \<Rightarrow> CRunGame \<Rightarrow> (int \<times> string \<times> CRunGame) option" where
  "DoSaveCards games pb rg0 =
     (if sc_round pb \<noteq> GetRound rg0
      then Some (-101, ''invalid_round='' @ dec (sc_round pb) @ '':'' @ dec (GetRound rg0), rg0)
      else
        let rg = rg0\<lparr>m_nTRobotRoundSeq := 0\<rparr>;
            s = rg_state rg;
            v = viewingPlayer (m_oMatchState rg)
        in if sc_round pb = 0 \<and> length (robot_cards pb) = 2
           then (if v < length (holeCards s)
                 then saved games (store_hole v (robot_cards pb) s)
                   (\<lambda>j. ''invalid_robot_card='' @ dec j @ '':'' @ dec_int (robot_cards pb ! j)) (-102) rg
                 else None)
           else if sc_round pb = 1 \<and> length (sc_board_cards pb) = 3
           then saved games (store_board 0 (sc_board_cards pb) s)
             (\<lambda>j. ''invalid_flop_card='' @ dec j @ '':'' @ dec_int (sc_board_cards pb ! j)) (-103) rg
           else if sc_round pb = 2 \<and> length (sc_board_cards pb) = 1
           then saved games (store_board 3 (sc_board_cards pb) s)
             (\<lambda>j. ''invalid_turn_card='' @ dec_int (sc_board_cards pb ! 0)) (-104) rg
           else if sc_round pb = 3 \<and> length (sc_board_cards pb) = 1
           then saved games (store_board 4 (sc_board_cards pb) s)
             (\<lambda>j. ''invalid_river_card='' @ dec_int (sc_board_cards pb ! 0)) (-105) rg
           else Some (-110, ''invalid_card_cnt='' @ dec (sc_round pb) @ '':'' @ dec (length (robot_cards pb)) @ '':'' @
             dec (length (sc_board_cards pb)), rg))"

text \<open>The cast of a number to \<open>ActionType\<close>: every number without a constant is as invalid as \<open>a_invalid\<close>.\<close>

definition action_type :: "int \<Rightarrow> ActionType" where
  "action_type n = (if n = 0 then a_fold else if n = 1 then a_call else if n = 2 then a_raise else a_invalid)"

text \<open>The raise that is meant: the robot names the total, the player what is added.\<close>

definition bet_amounts :: "int \<Rightarrow> int \<Rightarrow> int \<Rightarrow> CRunGame \<Rightarrow> (int \<times> int) option" where
  "bet_amounts nActionUid nActionType nBetNum rg =
     (let v = viewingPlayer (m_oMatchState rg) in
      if action_type nActionType = a_raise
      then (if nActionUid = m_nRobotID rg
            then do { sp \<leftarrow> rd (spent (rg_state rg)) v; n \<leftarrow> chk32 (nBetNum - sp); Some (n, nBetNum) }
            else do { sp \<leftarrow> rd (spent (rg_state rg)) ((v + 1) mod 2); n \<leftarrow> chk32 (nBetNum + sp); Some (nBetNum, n) })
      else Some (0, 0))"

definition DoAction ::
  "(nat \<Rightarrow> Game option) \<Rightarrow> CBettingTree \<Rightarrow> int \<Rightarrow> int \<Rightarrow> int \<Rightarrow> CRunGame \<Rightarrow> (int \<times> CRunGame) option" where
  "DoAction games bt nActionUid nActionType nBetNum rg0 =
     do {
       (num, sz) \<leftarrow> bet_amounts nActionUid nActionType nBetNum rg0;
       let rg = rg0\<lparr>m_oDLastAction := \<lparr>da_type = nat (nActionType mod 256), da_BetNum = num, da_BetSize = sz\<rparr>\<rparr>;
       let a = \<lparr>act_type = action_type nActionType, act_size = sz\<rparr>;
       (case games (m_nGameType rg) of
          None \<Rightarrow> Some (-1000, rg)
        | Some g \<Rightarrow>
            if GetCurrentPlayerID games rg \<noteq> nActionUid then Some (-1001, rg)
            else do {
              c \<leftarrow> CheckAction bt g a rg;
              if c \<noteq> 0 then Some (-1002, rg)
              else do {
                (s', e) \<leftarrow> doAction g a (rg_state rg);
                Some (0, (upd_state (\<lambda>_. s') rg)\<lparr>m_nActionSeq := u8 (m_nActionSeq rg + 1)\<rparr>)
              }
            })
     }"

section \<open>The end of a hand\<close>

text \<open>The JSON value that is stored; a value to which nothing is appended stays null.\<close>

datatype json = JNull | JInt int | JStr string | JArr "json list" | JObj "(string \<times> json) list"

definition appended :: "json list \<Rightarrow> json" where
  "appended xs = (if xs = [] then JNull else JArr xs)"

definition card_json :: "nat \<Rightarrow> json" where
  "card_json c = JObj [(''suit'', JInt (int (suitOfCard c))), (''rank'', JInt (int (rankOfCard c)))]"

definition action_code :: "ActionType \<Rightarrow> int" where
  "action_code t = (case t of a_fold \<Rightarrow> 0 | a_call \<Rightarrow> 1 | a_raise \<Rightarrow> 2 | a_invalid \<Rightarrow> 3)"

definition action_json :: "State \<Rightarrow> nat \<Rightarrow> nat \<Rightarrow> json" where
  "action_json s i j =
     JObj [(''position'', JInt (int (actingPlayer s ! i ! j))), (''action'', JInt (action_code (act_type (action s ! i ! j)))),
       (''size'', JInt (act_size (action s ! i ! j)))]"

definition round_json :: "State \<Rightarrow> nat \<Rightarrow> json" where
  "round_json s i = JObj [(''round_id'', JInt (int i)), (''actions'', appended (map (action_json s i) [0..<numActions s ! i]))]"

definition player_json :: "int \<Rightarrow> int \<Rightarrow> nat \<Rightarrow> int \<Rightarrow> int \<Rightarrow> string \<Rightarrow> json" where
  "player_json role_id score position money is_robot role_name =
     JObj [(''role_id'', JStr (dec_int role_id)), (''score'', JInt score), (''position'', JInt (int position)),
       (''money'', JInt money), (''is_robot'', JInt is_robot), (''role_name'', JStr role_name)]"

definition history_json :: "int \<Rightarrow> string \<Rightarrow> Game \<Rightarrow> int \<Rightarrow> CRunGame \<Rightarrow> json" where
  "history_json now szTransID g player_score rg =
     (let s = rg_state rg; v = viewingPlayer (m_oMatchState rg) in
      JObj [(''room_id'', JStr (dec_int (m_nLocalRoomID rg))), (''room_name'', JStr (m_szRoomID rg)),
        (''game_type'', JInt (int (m_nGameType rg))), (''player_numbers'', JInt (int (numPlayers g))),
        (''hand_id'', JInt (int (handId s))),
        (''players'', JArr
          [player_json (m_nPlayerID rg) player_score ((v + 1) mod 2) (m_nPlayerScore rg) 0 (''Player_'' @ dec_int (m_nPlayerID rg)),
           player_json (m_nRobotID rg) (m_nRobotResult rg) v (m_nRobotScore rg) 1 (''Robot_'' @ dec_int (m_nRobotID rg))]),
        (''round_actions'', appended (map (round_json s) (takeWhile (\<lambda>i. numActions s ! i \<noteq> 0) [0..<round_no s + 1]))),
        (''board_cards'', appended (map (\<lambda>i. card_json (boardCards s ! i)) [0..<sumBoardCards g (numRounds g)])),
        (''hole_cards'', appended (map (\<lambda>i. JObj [(''cards'', appended (map (\<lambda>j. card_json (holeCards s ! i ! j)) [0..<numHoleCards g]))])
          [0..<numPlayers g])),
        (''game_time'', JInt ((now - m_nGameTime rg) mod 2 ^ 32)), (''trans_id'', JStr szTransID), (''cfr_model'', JStr (m_szCfrModel rg))])"

abbreviation REDIS_HISTORY_CNT :: int where "REDIS_HISTORY_CNT \<equiv> 100000"

text \<open>\<open>sumBoardCards\<close> is called with \<open>numRounds\<close> and reads one entry past \<open>numBoardCards\<close> when all rounds are used.\<close>

definition SaveHistory ::
  "bool \<Rightarrow> int \<Rightarrow> (json \<Rightarrow> int) \<Rightarrow> int \<Rightarrow> string \<Rightarrow> Game \<Rightarrow> CRunGame \<Rightarrow> (bool \<times> CRunGame) option" where
  "SaveHistory conf_unsave llen lpush now szTransID g rg =
     (if conf_unsave then Some (True, rg)
      else if numRounds g \<ge> MAX_ROUNDS \<or> sumBoardCards g (numRounds g) > MAX_BOARD_CARDS then None
      else do {
        player_score \<leftarrow> chk32 (-1 * m_nRobotResult rg);
        let js = history_json now szTransID g player_score rg;
        let cnt = (if m_nHistoryCnt rg > REDIS_HISTORY_CNT then llen else m_nHistoryCnt rg);
        if cnt > REDIS_HISTORY_CNT then Some (False, rg\<lparr>m_nHistoryCnt := cnt\<rparr>)
        else Some (True, rg\<lparr>m_nHistoryCnt := lpush js\<rparr>)
      })"

record ThirdGameEndNotify =
  robotresult :: int
  player_cards :: "int list"
  end_board_cards :: "int list"

text \<open>The conversion of a \<open>double\<close> to \<open>int32\<close>.\<close>

definition to_int32 :: "rat \<Rightarrow> int option" where
  "to_int32 q = chk32 (if q < 0 then \<lceil>q\<rceil> else \<lfloor>q\<rfloor>)"

text \<open>The scores of a finished hand, with the cards in place.\<close>

definition book_result :: "Game \<Rightarrow> CRunGame \<Rightarrow> CRunGame option" where
  "book_result g rg =
     do {
       val \<leftarrow> valueOfState g (rg_state rg) (viewingPlayer (m_oMatchState rg));
       result \<leftarrow> to_int32 val;
       rscore \<leftarrow> chk32 (m_nRobotScore rg + result);
       pscore \<leftarrow> chk32 (m_nPlayerScore rg - result);
       Some (rg\<lparr>m_nRobotResult := result, m_nRobotScore := rscore, m_nPlayerScore := pscore\<rparr>)
     }"

text \<open>The end of \<open>DoFinished\<close>: scores, history, flag.\<close>

definition finish_done ::
  "bool \<Rightarrow> int \<Rightarrow> (json \<Rightarrow> int) \<Rightarrow> int \<Rightarrow> string \<Rightarrow> Game \<Rightarrow> int \<Rightarrow> CRunGame \<Rightarrow> (int \<times> string \<times> CRunGame) option" where
  "finish_done conf_unsave llen lpush now szTransID g notified rg =
     do {
       txt \<leftarrow> print_hand g (rg_state rg);
       rg1 \<leftarrow> book_result g rg;
       let out = (if m_nRobotResult rg1 \<noteq> notified then ''invalid_result'' else txt);
       (ok, rg2) \<leftarrow> SaveHistory conf_unsave llen lpush now szTransID g rg1;
       if \<not> ok then Some (-112, ''to_history_failed'', rg2)
       else Some (0, out, rg2\<lparr>m_nAlreadySaveHistory := True\<rparr>)
     }"

definition DoFinished ::
  "(nat \<Rightarrow> Game option) \<Rightarrow> bool \<Rightarrow> int \<Rightarrow> (json \<Rightarrow> int) \<Rightarrow> int \<Rightarrow> string \<Rightarrow> ThirdGameEndNotify \<Rightarrow> CRunGame \<Rightarrow>
   (int \<times> string \<times> CRunGame) option" where
  "DoFinished games conf_unsave llen lpush now szTransID pb rg =
     (if m_nAlreadySaveHistory rg then Some (0, ''Already save history'', rg)
      else if \<not> finished (rg_state rg) then Some (-99, ''game not finished'', rg)
      else case games (m_nGameType rg) of
        None \<Rightarrow> Some (-98, ''invalid game type('' @ dec (m_nGameType rg) @ '')'', rg)
      | Some g \<Rightarrow>
          (case store_hole ((viewingPlayer (m_oMatchState rg) + 1) mod 2) (take 2 (player_cards pb)) (rg_state rg) of
             (s, Some j) \<Rightarrow> Some (-102, ''invalid_player_card='' @ dec j @ '':'' @ dec_int (player_cards pb ! j), upd_state (\<lambda>_. s) rg)
           | (s, None) \<Rightarrow>
               (case store_board 0 (take 5 (end_board_cards pb)) s of
                  (s', Some j) \<Rightarrow> Some (-103, ''invalid_board_card='' @ dec j @ '':'' @ dec_int (end_board_cards pb ! j), upd_state (\<lambda>_. s') rg)
                | (s', None) \<Rightarrow> finish_done conf_unsave llen lpush now szTransID g (robotresult pb) (upd_state (\<lambda>_. s') rg))))"

section \<open>Questions about a hand\<close>

record ThirdGameQueryStateRsp =
  rsp_finished :: int
  rsp_round :: int
  next_turn_id :: int
  allow_raise :: "int list"

definition SerializeQueryState ::
  "(nat \<Rightarrow> Game option) \<Rightarrow> CBettingTree \<Rightarrow> CRunGame \<Rightarrow> ThirdGameQueryStateRsp \<Rightarrow> (int \<times> ThirdGameQueryStateRsp) option" where
  "SerializeQueryState games bt rg rsp =
     (if finished (rg_state rg) then Some (0, rsp\<lparr>rsp_finished := 1\<rparr>)
      else do {
        r \<leftarrow> GetAllowRaises bt rg;
        (case r of
           Inl e \<Rightarrow> Some (-901, rsp)
         | Inr vRaises \<Rightarrow>
             let nNextTurnID = GetCurrentPlayerID games rg in
             if nNextTurnID \<le> 0 then Some (-902, rsp)
             else Some (0, rsp\<lparr>rsp_finished := 0, next_turn_id := nNextTurnID, rsp_round := int (GetRound rg),
                               allow_raise := allow_raise rsp @ vRaises\<rparr>))
      })"

end
