(* ===== verification/Robot_Table.thy ===== *)
theory Robot_Table
  imports Hash_Map1 Run_Game "HOL-Library.Signed_Division"
begin

text \<open>
  The table of robots, \<open>CRunGameHashMap\<close> of \<open>run_game_hashmap.cpp\<close>: a hash map of the design of \<open>CTHaspMap\<close>, written out once more
  for \<open>CRunGame\<close>.  The record of \<open>CTHaspMap\<close> serves for it: \<open>m_oFreeHead\<close> is \<open>m_lstFree\<close>, \<open>n_val\<close> the game \<open>m_oGame\<close> of a node and
  \<open>n_key\<close> the robot's number in that game, which only \<open>Add\<close> and \<open>Del\<close> set; \<open>m_pMyHash\<close> holds the member function \<open>Hash\<close>.  \<open>PopNode1\<close> and
  \<open>PushNode1\<close> are \<open>PopNode\<close> and \<open>PushNode\<close> of both classes.  The clock is an argument, and the calls of the timer manager are part of the result.
  Locks are left out.
\<close>

type_synonym robot_map = "(int, CRunGame) CTHaspMap"

section \<open>The class\<close>

text \<open>\<open>nRobotID%m_nBuckets\<close>: a remainder of signed numbers, converted to \<open>uint32\<close>.\<close>

definition robot_hash :: "32 word \<Rightarrow> int \<Rightarrow> 32 word" where
  "robot_hash bucketCnt nRobotID = word_of_int (nRobotID smod uint bucketCnt)"

definition Robots_Hash :: "robot_map \<Rightarrow> int \<Rightarrow> nat option" where
  "Robots_Hash m nRobotID =
     (if m_nBuckets m = 0 then None else Some (unat (robot_hash (m_nBuckets m) nRobotID)))"

fun push_nodes :: "nat list \<Rightarrow> robot_map \<Rightarrow> robot_map option" where
  "push_nodes [] m = Some m"
| "push_nodes (p # ps) m = do { m1 \<leftarrow> PushNode1 (Some p) m; push_nodes ps m1 }"

text \<open>\<open>Init\<close> is declared \<open>bool\<close>: the error codes it returns are \<open>true\<close> and success is \<open>false\<close>.\<close>

definition Robots_Init :: "32 word \<Rightarrow> 32 word \<Rightarrow> (int, CRunGame) CHNode \<Rightarrow> robot_map \<Rightarrow> (bool \<times> robot_map) option" where
  "Robots_Init sz bucketCnt fresh m =
     (if sz > 50 * 10000 then Some (True, m)
      else if sz > 5 * bucketCnt then Some (True, m)
      else do {
        let m1 = m\<lparr>m_nTotalSize := sz, m_nBuckets := bucketCnt, m_pMyHash := Some (robot_hash bucketCnt), m_oFreeHead := None,
                   nodes := nodes m @ replicate (unat sz) fresh\<rparr>;
        m2 \<leftarrow> push_nodes [length (nodes m)..<length (nodes m) + unat sz] m1;
        Some (False, m2\<lparr>m_nUseSize := 0, m_pBucket := Some (replicate (unat bucketCnt) None)\<rparr>)
      })"

text \<open>\<open>Get\<close>: the address of the node whose game is returned.\<close>

definition Robots_Get :: "int \<Rightarrow> bool \<Rightarrow> int \<Rightarrow> robot_map \<Rightarrow> (nat option \<times> robot_map) option" where
  "Robots_Get nRobotID bUpdateTime now m =
     do {
       h \<leftarrow> Robots_Hash m nRobotID;
       r \<leftarrow> scan_bucket nRobotID h m;
       (case r of
          Inl i \<Rightarrow>
            if bUpdateTime
            then do { m1 \<leftarrow> upd_node i (\<lambda>n. n\<lparr>n_val := (n_val n)\<lparr>m_nLastTime := now\<rparr>\<rparr>) m; Some (Some i, m1) }
            else Some (Some i, m)
        | Inr c \<Rightarrow> Some (None, m))
     }"

datatype timer_call = Attach int | Detach int

definition robots_take :: "CRunGame \<Rightarrow> int \<Rightarrow> nat \<Rightarrow> robot_map \<Rightarrow> (int \<times> timer_call list \<times> robot_map) option" where
  "robots_take oGame now h m =
     do {
       (p, m1) \<leftarrow> take_node PopNode1 (\<lambda>n. n\<lparr>n_val := oGame\<lparr>m_nLastTime := now\<rparr>, n_key := m_nRobotID oGame, n_next := None\<rparr>) h m;
       (case p of None \<Rightarrow> Some (-9006, [], m1) | Some i \<Rightarrow> Some (0, [Attach (m_nRobotID oGame)], m1))
     }"

definition Robots_Add :: "CRunGame \<Rightarrow> int \<Rightarrow> robot_map \<Rightarrow> (int \<times> timer_call list \<times> robot_map) option" where
  "Robots_Add oGame now m =
     (if m_nRobotID oGame = 0 then Some (-9001, [], m)
      else do {
        h \<leftarrow> Robots_Hash m (m_nRobotID oGame);
        r \<leftarrow> scan_bucket (m_nRobotID oGame) h m;
        (case r of
           Inl i \<Rightarrow> Some (-9004, [], m)
         | Inr nHCnt \<Rightarrow>
             if nHCnt > 20 then robots_take oGame now h m
             else if nHCnt > 100 then Some (-9005, [], m)
             else robots_take oGame now h m)
      })"

definition Robots_Del :: "int \<Rightarrow> robot_map \<Rightarrow> (int \<times> timer_call list \<times> robot_map) option" where
  "Robots_Del nRobotID m =
     do {
       h \<leftarrow> Robots_Hash m nRobotID;
       (d, m1) \<leftarrow> unlink nRobotID h m;
       (case d of
          None \<Rightarrow> Some (-99, [Detach nRobotID], m1)
        | Some i \<Rightarrow> do {
            m2 \<leftarrow> upd_node i (\<lambda>n. n\<lparr>n_key := 0, n_val := (n_val n)\<lparr>m_nRobotID := 0\<rparr>\<rparr>) m1;
            m3 \<leftarrow> PushNode1 (Some i) m2;
            Some (0, [Detach nRobotID], m3)
          })
     }"

definition Robots_IsTimeOut :: "int \<Rightarrow> int \<Rightarrow> int \<Rightarrow> robot_map \<Rightarrow> bool option" where
  "Robots_IsTimeOut nRobotID now nDataTimeout m =
     do {
       h \<leftarrow> Robots_Hash m nRobotID;
       r \<leftarrow> scan_bucket nRobotID h m;
       (case r of
          Inl i \<Rightarrow> do { n \<leftarrow> rd (nodes m) i; Some (now - m_nLastTime (n_val n) > nDataTimeout) }
        | Inr c \<Rightarrow> Some True)
     }"

definition Robots_Clear :: "robot_map \<Rightarrow> robot_map option" where
  "Robots_Clear m = clear_buckets (\<lambda>p. PushNode1 (Some p)) [0..<unat (m_nBuckets m)] m"

section \<open>What the table promises\<close>

datatype robot_op =
    RAdd CRunGame int
  | RGet int bool int
  | RDel int
  | RTimeOut int int int
  | RClear
  | RSize

datatype robot_result = RCode int | RGame "CRunGame option" | RBool bool | RNum nat

text \<open>The timers that have been asked for by some calls of the timer manager.  The manager can refuse a timer; \<open>Add\<close> ignores its answer.\<close>

definition timers_after :: "timer_call list \<Rightarrow> int set \<Rightarrow> int set" where
  "timers_after cs T = fold (\<lambda>c T. case c of Attach x \<Rightarrow> insert x T | Detach x \<Rightarrow> T - {x}) cs T"

definition robots_step :: "robot_op \<Rightarrow> robot_map \<times> int set \<Rightarrow> (robot_result \<times> robot_map \<times> int set) option" where
  "robots_step op = (\<lambda>(m, T).
     case op of
       RAdd g now \<Rightarrow> do { (c, ts, m') \<leftarrow> Robots_Add g now m; Some (RCode c, m', timers_after ts T) }
     | RGet x upd now \<Rightarrow>
         do {
           (p, m') \<leftarrow> Robots_Get x upd now m;
           (case p of
              None \<Rightarrow> Some (RGame None, m', T)
            | Some i \<Rightarrow> do { n \<leftarrow> rd (nodes m') i; Some (RGame (Some (n_val n)), m', T) })
         }
     | RDel x \<Rightarrow> do { (c, ts, m') \<leftarrow> Robots_Del x m; Some (RCode c, m', timers_after ts T) }
     | RTimeOut x now limit \<Rightarrow> do { b \<leftarrow> Robots_IsTimeOut x now limit m; Some (RBool b, m, T) }
     | RClear \<Rightarrow> do { m' \<leftarrow> Robots_Clear m; Some (RCode 0, m', T) }
     | RSize \<Rightarrow> Some (RNum (unat (Size m)), m, T))"

definition robots_spec :: "robot_op \<Rightarrow> (int \<rightharpoonup> CRunGame) \<times> nat \<Rightarrow> robot_result \<times> (int \<rightharpoonup> CRunGame) \<times> nat" where
  "robots_spec op = (\<lambda>(e, cap).
     case op of
       RAdd g now \<Rightarrow>
         if m_nRobotID g = 0 then (RCode (-9001), e, cap)
         else if e (m_nRobotID g) \<noteq> None then (RCode (-9004), e, cap)
         else if card (dom e) \<ge> cap then (RCode (-9006), e, cap)
         else (RCode 0, e(m_nRobotID g \<mapsto> g\<lparr>m_nLastTime := now\<rparr>), cap)
     | RGet x upd now \<Rightarrow>
         (case e x of
            None \<Rightarrow> (RGame None, e, cap)
          | Some g \<Rightarrow>
              let g' = (if upd then g\<lparr>m_nLastTime := now\<rparr> else g) in (RGame (Some g'), e(x \<mapsto> g'), cap))
     | RDel x \<Rightarrow> if e x = None then (RCode (-99), e, cap) else (RCode 0, e(x := None), cap)
     | RTimeOut x now limit \<Rightarrow>
         (RBool (case e x of None \<Rightarrow> True | Some g \<Rightarrow> now - m_nLastTime g > limit), e, cap)
     | RClear \<Rightarrow> (RCode 0, Map.empty, cap)
     | RSize \<Rightarrow> (RNum (card (dom e)), e, cap))"

text \<open>The operations name robots by nonnegative numbers.\<close>

fun named_robot :: "robot_op \<Rightarrow> bool" where
  "named_robot (RAdd g now) \<longleftrightarrow> 0 \<le> m_nRobotID g"
| "named_robot (RGet x upd now) \<longleftrightarrow> 0 \<le> x"
| "named_robot (RDel x) \<longleftrightarrow> 0 \<le> x"
| "named_robot (RTimeOut x now limit) \<longleftrightarrow> 0 \<le> x"
| "named_robot RClear \<longleftrightarrow> True"
| "named_robot RSize \<longleftrightarrow> True"

text \<open>
  The table holds the robots \<open>e\<close>, each under its own number, and a timer has been asked for every robot in it.
\<close>

definition robots :: "robot_map \<times> int set \<Rightarrow> (int \<rightharpoonup> CRunGame) \<times> nat \<Rightarrow> bool" where
  "robots = (\<lambda>(m, T) (e, cap). holds ct_free m (e, cap) \<and> m_pMyHash m = Some (robot_hash (m_nBuckets m)) \<and>
     (\<forall>x g. e x = Some g \<longrightarrow> m_nRobotID g = x \<and> x \<noteq> 0) \<and> dom e \<subseteq> T)"

lemma robotsD:
  assumes "robots (m, T) (e, cap)"
  shows "holds ct_free m (e, cap)" "m_pMyHash m = Some (robot_hash (m_nBuckets m))" "e x = Some g \<Longrightarrow> m_nRobotID g = x \<and> x \<noteq> 0" "dom e \<subseteq> T"
  using assms by (auto simp: robots_def)

lemma robot_hash_small:
  assumes "b \<noteq> 0" "0 \<le> x"
  shows "robot_hash b x mod b = robot_hash b x"
proof -
  have b: "0 < uint b" using assms(1) by (metis uint_0_iff uint_ge_0 order_le_less)
  have r: "x smod uint b = x mod uint b" using assms(2) b by (cases "x = 0") (simp_all add: signed_modulo_int_def signed_divide_int_def minus_div_mult_eq_mod)
  have "0 \<le> x mod uint b" "x mod uint b < uint b" using b by simp_all
  moreover have "uint b < 2 ^ 32" using uint_lt2p [of b] by simp
  ultimately have "uint (robot_hash b x) = x mod uint b" unfolding robot_hash_def r by (simp add: uint_word_of_int)
  then have "uint (robot_hash b x) < uint b" using b by simp
  then show ?thesis by (simp add: mod_word_less word_less_def)
qed

lemma robots_hash_eq:
  assumes "m_pMyHash m = Some (robot_hash (m_nBuckets m))" "0 \<le> x"
  shows "Robots_Hash m x = Hash m x"
  using robot_hash_small [OF _ assms(2)] by (simp add: Robots_Hash_def Hash_def assms(1))

text \<open>The pieces of a table in use.\<close>

lemma robots_open:
  assumes "robots (m, T) (e, cap)" "0 \<le> x"
  obtains bs F h where "store ct_free m bs F" "entries (nodes m) bs = e" "cap = length (nodes m)" "Robots_Hash m x = Some h"
    "Hash m x = Some h"
    "scan_bucket x h m = Some (case find (\<lambda>i. n_key (nodes m ! i) = x) (concat bs) of Some i \<Rightarrow> Inl i | None \<Rightarrow> Inr (int (length (bs ! h))))"
proof -
  note r = robotsD [OF assms(1)]
  obtain bs F where s: "store ct_free m bs F" "entries (nodes m) bs = e" "cap = length (nodes m)" using r(1) by (auto simp: holds_def)
  obtain h where h: "Hash m x = Some h" by (rule Hash_defined [OF storeD(1) [OF s(1)]])
  then show thesis using that [OF s, of h] robots_hash_eq [OF r(2) assms(2)] scan_bucket_entries [OF storeD(1) [OF s(1)] h] by simp
qed

lemma robots_close:
  assumes "store ct_free m' bs F" "entries (nodes m') bs = e'" "same_setup m m'" "robots (m, T) (e, cap)"
    "\<forall>x g. e' x = Some g \<longrightarrow> m_nRobotID g = x \<and> x \<noteq> 0" "dom e' \<subseteq> T'"
  shows "robots (m', T') (e', cap)"
proof -
  have "cap = length (nodes m)" "m_pMyHash m = Some (robot_hash (m_nBuckets m))" using assms(4) by (auto simp: robots_def holds_def)
  then show ?thesis using assms(1-3,5,6) by (auto simp: robots_def holds_def same_setup_def)
qed

section \<open>The operations\<close>

lemma push_nodes_free:
  assumes "ct_free m F" "distinct ps" "set ps \<inter> F = {}" "set ps \<subseteq> {..<length (nodes m)}"
  shows "\<exists>m'. push_nodes ps m = Some m' \<and> ct_free m' (F \<union> set ps) \<and> same_setup m m'"
  using assms
proof (induction ps arbitrary: m F)
  case (Cons p ps)
  obtain m1 where m1: "PushNode1 (Some p) m = Some m1" "ct_free m1 (insert p F)" "frame (insert p F) m m1"
    using ct_push_node [of m F p] Cons.prems by auto
  have ss: "same_setup m m1" using m1(3) by (simp add: frame_def)
  then have "set ps \<subseteq> {..<length (nodes m1)}" using Cons.prems(4) by (simp add: same_setup_def)
  then obtain m' where m': "push_nodes ps m1 = Some m'" "ct_free m' (insert p F \<union> set ps)" "same_setup m1 m'"
    using Cons.IH [OF m1(2)] Cons.prems(2,3) by auto
  then have "push_nodes (p # ps) m = Some m'" "ct_free m' (F \<union> set (p # ps))" using m1(1) by simp_all
  then show ?case using same_setup_trans [OF ss m'(3)] by blast
qed (simp add: same_setup_def)

lemma robots_init:
  assumes "nodes m = []" "bucketCnt \<noteq> 0" "sz \<le> 50 * 10000" "sz \<le> 5 * bucketCnt"
  shows "\<exists>m'. Robots_Init sz bucketCnt fresh m = Some (False, m') \<and> robots (m', T) (Map.empty, unat sz)"
proof -
  let ?m1 = "m\<lparr>m_nTotalSize := sz, m_nBuckets := bucketCnt, m_pMyHash := Some (robot_hash bucketCnt), m_oFreeHead := None,
      nodes := replicate (unat sz) fresh\<rparr>"
  have "ct_free ?m1 {}" by (simp add: ct_free_def)
  then obtain m2 where m2: "push_nodes [0..<unat sz] ?m1 = Some m2" "ct_free m2 {..<unat sz}" "same_setup ?m1 m2"
    using push_nodes_free [of ?m1 "{}" "[0..<unat sz]"] by (auto simp: lessThan_atLeast0)
  let ?m = "m2\<lparr>m_nUseSize := 0, m_pBucket := Some (replicate (unat bucketCnt) None)\<rparr>"
  have run: "Robots_Init sz bucketCnt fresh m = Some (False, ?m)" using assms m2(1) by (simp add: Robots_Init_def Let_def not_less)
  have su: "length (nodes ?m) = unat sz" "m_nBuckets ?m = bucketCnt" "m_pMyHash ?m = Some (robot_hash bucketCnt)" "m_nTotalSize ?m = sz"
    using m2(3) by (simp_all add: same_setup_def)
  moreover have "buckets ?m (replicate (unat bucketCnt) [])"
    using su assms(2) by (auto simp: buckets_def unat_eq_0)
  moreover have "ct_free ?m {..<unat sz}" using m2(2) by (simp add: ct_free_def)
  moreover have "unat sz < 2 ^ LENGTH(32)" by (rule unsigned_less)
  ultimately have "store ct_free ?m (replicate (unat bucketCnt) []) {..<unat sz}" unfolding store_def by simp
  moreover have "entries (nodes ?m) (replicate (unat bucketCnt) []) = Map.empty" by (intro ext) (simp add: entries_def)
  ultimately show ?thesis using run su unfolding robots_def holds_def by (intro exI [of _ ?m]) auto
qed

lemma found_node:
  assumes "store ct_free m bs F" "entries (nodes m) bs x = Some g"
  obtains i where "find (\<lambda>i. n_key (nodes m ! i) = x) (concat bs) = Some i" "i < length (nodes m)" "n_val (nodes m ! i) = g"
    "i \<in> set (concat bs)" "n_key (nodes m ! i) = x"
proof -
  obtain i where i: "find (\<lambda>i. n_key (nodes m ! i) = x) (concat bs) = Some i" "n_val (nodes m ! i) = g"
    using assms(2) by (auto simp: entries_def)
  note d = find_SomeD [OF i(1)]
  have "i < length (nodes m)" using d bucketsD(5) [OF storeD(1) [OF assms(1)]] by blast
  then show thesis using that i d by blast
qed

lemma missing_node: "entries (nodes m) bs x = None \<Longrightarrow> find (\<lambda>i. n_key (nodes m ! i) = x) (concat bs) = None"
  by (simp add: entries_None)

text \<open>The node that holds robot \<open>x\<close>, as \<open>Get\<close> returns it.\<close>

definition robot_at :: "robot_map \<Rightarrow> nat \<Rightarrow> int \<Rightarrow> (int \<rightharpoonup> CRunGame) \<Rightarrow> bool" where
  "robot_at m i x e \<longleftrightarrow> (\<exists>bs F. store ct_free m bs F \<and> entries (nodes m) bs = e \<and> i \<in> set (concat bs) \<and> n_key (nodes m ! i) = x)"

lemma robot_at_val: "robot_at m i x e \<Longrightarrow> i < length (nodes m) \<and> e x = Some (n_val (nodes m ! i))"
  using entries_Some [OF bucketsD(4)] bucketsD(5) storeD(1) unfolding robot_at_def by blast

lemma write_game:
  assumes r: "robots (m, T) (e, cap)" and i: "robot_at m i x e" and x: "m_nRobotID g = x"
  shows "\<exists>m'. upd_node i (\<lambda>n. n\<lparr>n_val := g\<rparr>) m = Some m' \<and> robots (m', T) (e(x \<mapsto> g), cap) \<and> robot_at m' i x (e(x \<mapsto> g))"
proof -
  obtain bs F where st: "store ct_free m bs F" "entries (nodes m) bs = e" "i \<in> set (concat bs)" "n_key (nodes m ! i) = x"
    using i unfolding robot_at_def by blast
  note v = robot_at_val [OF i]
  obtain m' where m': "upd_node i (\<lambda>n. n\<lparr>n_val := g\<rparr>) m = Some m'" "store ct_free m' bs F"
    "entries (nodes m') bs = e(x \<mapsto> g)" "same_setup m m'"
    using ct.write_value [OF st(1,3), of g] st(2,4) by auto
  have "robots (m', T) (e(x \<mapsto> g), cap)"
    by (rule robots_close [OF m'(2-4) r]) (use robotsD(3,4) [OF r] v x in \<open>auto split: if_splits\<close>)
  moreover have "nodes m' = (nodes m)[i := (nodes m ! i)\<lparr>n_val := g\<rparr>]" using m'(1) v by (auto simp: upd_node_def)
  then have "n_key (nodes m' ! i) = x" using v st(4) by simp
  ultimately show ?thesis using m' st(3) unfolding robot_at_def by blast
qed

lemma add_step:
  assumes r: "robots (m, T) (e, cap)" and x: "0 \<le> m_nRobotID g"
  shows "\<exists>s. robots_step (RAdd g now) (m, T) = Some (fst (robots_spec (RAdd g now) (e, cap)), s) \<and>
    robots s (snd (robots_spec (RAdd g now) (e, cap)))"
proof -
  let ?x = "m_nRobotID g" and ?g = "g\<lparr>m_nLastTime := now\<rparr>"
  obtain bs F h where o: "store ct_free m bs F" "entries (nodes m) bs = e" "cap = length (nodes m)" "Robots_Hash m ?x = Some h" "Hash m ?x = Some h"
    "scan_bucket ?x h m = Some (case find (\<lambda>i. n_key (nodes m ! i) = ?x) (concat bs) of Some i \<Rightarrow> Inl i | None \<Rightarrow> Inr (int (length (bs ! h))))"
    by (rule robots_open [OF r x])
  note d = storeD [OF o(1)]
  show ?thesis
  proof (cases "?x = 0 \<or> e ?x \<noteq> None")
    case True
    show ?thesis
    proof (cases "?x = 0")
      case True
      then show ?thesis using r by (simp add: robots_step_def robots_spec_def Robots_Add_def timers_after_def)
    next
      case False
      then obtain y where "entries (nodes m) bs ?x = Some y" using True o(2) by auto
      then obtain i where "find (\<lambda>i. n_key (nodes m ! i) = ?x) (concat bs) = Some i" using found_node [OF o(1)] by blast
      then show ?thesis using False True r o(4,6) by (simp add: robots_step_def robots_spec_def Robots_Add_def timers_after_def)
    qed
  next
    case False
    then have new: "entries (nodes m) bs ?x = None" "?x \<noteq> 0" "e ?x = None" using o(2) by auto
    have add: "Robots_Add g now m = robots_take g now h m"
      using new(2) o(4,6) missing_node [OF new(1)] by (simp add: Robots_Add_def)
    have room: "F = {} \<longleftrightarrow> card (dom e) \<ge> cap" unfolding card_0_eq [OF d(8), symmetric] using store_card [OF o(1)] o(2,3) by auto
    show ?thesis
    proof (cases "F = {}")
      case True
      then have "robots_take g now h m = Some (-9006, [], m)" using ct.take_node_full [of m bs] o(1) by (simp add: robots_take_def)
      then show ?thesis using True room add new r by (simp add: robots_step_def robots_spec_def timers_after_def)
    next
      case False
      let ?u = "\<lambda>n. n\<lparr>n_val := ?g, n_key := ?x, n_next := None\<rparr>"
      have u: "n_key (?u n) = ?x" for n :: "(int, CRunGame) CHNode" by simp
      obtain i m1 and n :: "(int, CRunGame) CHNode" where m1: "take_node PopNode1 ?u h m = Some (Some i, m1)"
        "store ct_free m1 (bs[h := i # bs ! h]) (F - {i})"
        "entries (nodes m1) (bs[h := i # bs ! h]) = (entries (nodes m) bs)(?x \<mapsto> n_val (?u n))" "same_setup m m1"
        using ct.take_node_new [where u = ?u, OF o(1) False o(5) new(1) u] by blast
      have e1: "entries (nodes m1) (bs[h := i # bs ! h]) = e(?x \<mapsto> ?g)" using m1(3) o(2) by simp
      have "robots (m1, insert ?x T) (e(?x \<mapsto> ?g), cap)"
        by (rule robots_close [OF m1(2) e1 m1(4) r]) (use robotsD(3,4) [OF r] new(2) in \<open>auto split: if_splits\<close>)
      moreover have "robots_take g now h m = Some (0, [Attach ?x], m1)" using m1(1) by (simp add: robots_take_def)
      ultimately show ?thesis using False room add new by (simp add: robots_step_def robots_spec_def timers_after_def)
    qed
  qed
qed

lemma get_none:
  assumes "robots (m, T) (e, cap)" "0 \<le> x" "e x = None"
  shows "Robots_Get x upd now m = Some (None, m)" "Robots_IsTimeOut x now limit m = Some True"
proof -
  obtain bs F h where o: "store ct_free m bs F" "entries (nodes m) bs = e" "cap = length (nodes m)" "Robots_Hash m x = Some h" "Hash m x = Some h"
    "scan_bucket x h m = Some (case find (\<lambda>i. n_key (nodes m ! i) = x) (concat bs) of Some i \<Rightarrow> Inl i | None \<Rightarrow> Inr (int (length (bs ! h))))"
    by (rule robots_open [OF assms(1,2)])
  then show "Robots_Get x upd now m = Some (None, m)" "Robots_IsTimeOut x now limit m = Some True"
    using missing_node [of m bs x] assms(3) by (simp_all add: Robots_Get_def Robots_IsTimeOut_def)
qed

lemma get_some:
  fixes upd :: bool and now :: int
  assumes r: "robots (m, T) (e, cap)" and x: "0 \<le> x" and e: "e x = Some g"
  defines "g' \<equiv> if upd then g\<lparr>m_nLastTime := now\<rparr> else g"
  shows "\<exists>i m'. Robots_Get x upd now m = Some (Some i, m') \<and> robots (m', T) (e(x \<mapsto> g'), cap) \<and> robot_at m' i x (e(x \<mapsto> g'))"
    "Robots_IsTimeOut x now limit m = Some (now - m_nLastTime g > limit)"
proof -
  obtain bs F h where o: "store ct_free m bs F" "entries (nodes m) bs = e" "cap = length (nodes m)" "Robots_Hash m x = Some h" "Hash m x = Some h"
    "scan_bucket x h m = Some (case find (\<lambda>i. n_key (nodes m ! i) = x) (concat bs) of Some i \<Rightarrow> Inl i | None \<Rightarrow> Inr (int (length (bs ! h))))"
    by (rule robots_open [OF r x])
  obtain i where i: "find (\<lambda>i. n_key (nodes m ! i) = x) (concat bs) = Some i" "i < length (nodes m)" "n_val (nodes m ! i) = g"
    "i \<in> set (concat bs)" "n_key (nodes m ! i) = x"
    using found_node [OF o(1), of x g] o(2) e by blast
  have at: "robot_at m i x e" using o(1,2) i(4,5) unfolding robot_at_def by blast
  have run: "Robots_Get x upd now m = (if upd then do { m1 \<leftarrow> upd_node i (\<lambda>n. n\<lparr>n_val := (n_val n)\<lparr>m_nLastTime := now\<rparr>\<rparr>) m; Some (Some i, m1) } else Some (Some i, m))"
    using o(4,6) i(1) by (simp add: Robots_Get_def)
  have upd: "upd_node i (\<lambda>n. n\<lparr>n_val := (n_val n)\<lparr>m_nLastTime := now\<rparr>\<rparr>) m = upd_node i (\<lambda>n. n\<lparr>n_val := g\<lparr>m_nLastTime := now\<rparr>\<rparr>) m"
    using i(2,3) by (simp add: upd_node_in)
  have "m_nRobotID (g\<lparr>m_nLastTime := now\<rparr>) = x" using robotsD(3) [OF r e] by simp
  then obtain m' where m': "upd_node i (\<lambda>n. n\<lparr>n_val := g\<lparr>m_nLastTime := now\<rparr>\<rparr>) m = Some m'" "robots (m', T) (e(x \<mapsto> g\<lparr>m_nLastTime := now\<rparr>), cap)"
    "robot_at m' i x (e(x \<mapsto> g\<lparr>m_nLastTime := now\<rparr>))"
    using write_game [OF r at] by blast
  have same: "e(x \<mapsto> g) = e" using e by (simp add: map_upd_triv)
  show "\<exists>i m'. Robots_Get x upd now m = Some (Some i, m') \<and> robots (m', T) (e(x \<mapsto> g'), cap) \<and> robot_at m' i x (e(x \<mapsto> g'))"
    using run upd m' r at same by (cases upd) (auto simp: g'_def)
  show "Robots_IsTimeOut x now limit m = Some (now - m_nLastTime g > limit)"
    using o(4,6) i(1-3) by (simp add: Robots_IsTimeOut_def)
qed


text \<open>The number in a free node does not matter.\<close>

lemma free_content:
  assumes "store ct_free m bs F" "d \<in> F" "n_next (f (nodes m ! d)) = n_next (nodes m ! d)"
  shows "\<exists>m'. upd_node d f m = Some m' \<and> store ct_free m' bs F \<and> entries (nodes m') bs = entries (nodes m) bs \<and> same_setup m m'"
proof -
  note s = storeD [OF assms(1)]
  have d: "d < length (nodes m)" "d \<notin> set (concat bs)" using assms(2) s(3,4) by blast+
  let ?ns = "(nodes m)[d := f (nodes m ! d)]" let ?m = "m\<lparr>nodes := ?ns\<rparr>"
  have same: "?ns ! j = nodes m ! j" if "j \<in> set (concat bs)" for j using that d(2) by (cases "j = d") simp_all
  have b: "buckets ?m bs" by (rule buckets_outside [OF s(1)]) (simp_all add: same_setup_def same)
  obtain fl where fl: "distinct fl" "set fl = F" "chain (nodes m) (m_oFreeHead m) fl" using s(2) by (auto simp: ct_free_def)
  have "chain ?ns (m_oFreeHead m) fl = chain (nodes m) (m_oFreeHead m) fl"
    by (rule chain_cong) (use assms(3) d(1) in \<open>auto simp: nth_list_update'\<close>)
  then have "ct_free ?m F" using fl by (auto simp: ct_free_def)
  then have st: "store ct_free ?m bs F" using b s unfolding store_def by (simp del: set_concat length_concat)
  have "entries ?ns bs = entries (nodes m) bs"
  proof (rule entries_unique)
    show "inj_on (\<lambda>j. n_key (?ns ! j)) (set (concat bs))" using bucketsD(4) [OF b] by (simp del: set_concat)
    show "entries (nodes m) bs (n_key (?ns ! j)) = Some (n_val (?ns ! j))" if "j \<in> set (concat bs)" for j
      using same [OF that] entries_Some [OF bucketsD(4) [OF s(1)] that] by simp
    show "entries (nodes m) bs q = None" if "\<forall>j \<in> set (concat bs). n_key (?ns ! j) \<noteq> q" for q
      using that same by (auto simp: entries_None find_None_iff simp del: set_concat)
  qed
  then show ?thesis using st d(1) by (intro exI [of _ ?m]) (simp add: upd_node_in same_setup_def)
qed

lemma push_content:
  fixes m :: robot_map
  assumes "PushNode1 (Some d) m = Some m1"
  shows "upd_node d (\<lambda>n. n\<lparr>n_key := 0, n_val := (n_val n)\<lparr>m_nRobotID := 0\<rparr>\<rparr>) m \<bind> PushNode1 (Some d) =
    upd_node d (\<lambda>n. n\<lparr>n_key := 0, n_val := (n_val n)\<lparr>m_nRobotID := 0\<rparr>\<rparr>) m1"
proof -
  have d: "d < length (nodes m)" using assms by (auto simp: PushNode1_def upd_node_def rd_def split: if_splits)
  have "m1 = m\<lparr>nodes := (nodes m)[d := (nodes m ! d)\<lparr>n_next := m_oFreeHead m\<rparr>], m_oFreeHead := Some d, m_nUseSize := m_nUseSize m - 1\<rparr>"
    using assms d by (simp add: PushNode1_def upd_node_in)
  then show ?thesis using d
    by (cases m) (simp add: PushNode1_def upd_node_in, intro arg_cong [where f = "list_update _ d"] CHNode.equality, simp_all)
qed

lemma del_step:
  assumes r: "robots (m, T) (e, cap)" and x: "0 \<le> x"
  shows "\<exists>m'. Robots_Del x m = Some (if e x = None then -99 else 0, [Detach x], m') \<and> robots (m', T - {x}) (e(x := None), cap)"
proof -
  obtain bs F h where o: "store ct_free m bs F" "entries (nodes m) bs = e" "cap = length (nodes m)" "Robots_Hash m x = Some h" "Hash m x = Some h"
    by (rule robots_open [OF r x])
  show ?thesis
  proof (cases "e x")
    case None
    then have "Robots_Del x m = Some (-99, [Detach x], m)" using ct.remove_missing [OF o(1,5)] o(2,4) by (simp add: Robots_Del_def)
    moreover have "e(x := None) = e" using None by (simp add: fun_upd_idem)
    moreover have "dom e \<subseteq> T - {x}" using robotsD(4) [OF r] None by auto
    then have "robots (m, T - {x}) (e, cap)" using r by (simp add: robots_def)
    ultimately show ?thesis using None by simp
  next
    case (Some g)
    let ?f = "\<lambda>n :: (int, CRunGame) CHNode. n\<lparr>n_key := 0, n_val := (n_val n)\<lparr>m_nRobotID := 0\<rparr>\<rparr>"
    obtain d m1 m2 bs' where u: "unlink x h m = Some (Some d, m1)" "PushNode1 (Some d) m1 = Some m2" "store ct_free m2 bs' (insert d F)"
      "entries (nodes m2) bs' = e(x := None)" "same_setup m m2"
      using ct.remove_found [OF o(1,5), of g] o(2) Some by auto
    obtain m3 where m3: "upd_node d ?f m2 = Some m3" "store ct_free m3 bs' (insert d F)" "entries (nodes m3) bs' = entries (nodes m2) bs'" "same_setup m2 m3"
      using free_content [OF u(3), of d ?f] by auto
    have "upd_node d ?f m1 \<bind> PushNode1 (Some d) = Some m3" using push_content [OF u(2)] m3(1) by simp
    then have "Robots_Del x m = Some (0, [Detach x], m3)" using u(1) o(4) by (auto simp: Robots_Del_def bind_eq_Some_conv)
    moreover have "robots (m3, T - {x}) (e(x := None), cap)"
      by (rule robots_close [OF m3(2) _ same_setup_trans [OF u(5) m3(4)] r])
        (use robotsD(3,4) [OF r] m3(3) u(4) in \<open>auto split: if_splits\<close>)
    ultimately show ?thesis using Some by simp
  qed
qed

lemma clear_step:
  assumes r: "robots (m, T) (e, cap)"
  shows "\<exists>m'. Robots_Clear m = Some m' \<and> robots (m', T) (Map.empty, cap)"
proof -
  obtain bs F where o: "store ct_free m bs F" "entries (nodes m) bs = e" "cap = length (nodes m)" using robotsD(1) [OF r] by (auto simp: holds_def)
  have n: "length bs = unat (m_nBuckets m)" by (rule bucketsD(1) [OF storeD(1) [OF o(1)]])
  then have "set [0..<unat (m_nBuckets m)] \<subseteq> {..<length bs}" by auto
  then obtain m' bs' F' where m': "Robots_Clear m = Some m'" "store ct_free m' bs' F'" "length bs' = length bs" "same_setup m m'"
    "\<forall>h<length bs. h \<in> set [0..<unat (m_nBuckets m)] \<or> bs ! h = [] \<longrightarrow> bs' ! h = []"
    using ct.clear_buckets_store [OF o(1)] unfolding Robots_Clear_def by blast
  have "concat bs' = []" using m'(3,5) n by (auto simp: in_set_conv_nth)
  then have "entries (nodes m') bs' = Map.empty" by (intro ext) (simp add: entries_def del: concat_eq_Nil_conv)
  then have "robots (m', T) (Map.empty, cap)" by (rule robots_close [OF m'(2) _ m'(4) r]) auto
  then show ?thesis using m'(1) by blast
qed

text \<open>The steps against the specification.\<close>

lemma step_get:
  assumes r: "robots (m, T) (e, cap)" and x: "0 \<le> x"
  shows "\<exists>s. robots_step (RGet x upd now) (m, T) = Some (fst (robots_spec (RGet x upd now) (e, cap)), s) \<and>
    robots s (snd (robots_spec (RGet x upd now) (e, cap)))"
proof (cases "e x")
  case None
  then show ?thesis using get_none(1) [OF r x None] r by (simp add: robots_step_def robots_spec_def)
next
  case (Some g)
  obtain i m' where g: "Robots_Get x upd now m = Some (Some i, m')"
    "robots (m', T) (e(x \<mapsto> if upd then g\<lparr>m_nLastTime := now\<rparr> else g), cap)"
    "robot_at m' i x (e(x \<mapsto> if upd then g\<lparr>m_nLastTime := now\<rparr> else g))"
    using get_some(1) [OF r x Some, of upd now] by blast
  then show ?thesis using robot_at_val [OF g(3)] Some by (simp add: robots_step_def robots_spec_def Let_def)
qed

lemma step_del:
  assumes r: "robots (m, T) (e, cap)" and x: "0 \<le> x"
  shows "\<exists>s. robots_step (RDel x) (m, T) = Some (fst (robots_spec (RDel x) (e, cap)), s) \<and> robots s (snd (robots_spec (RDel x) (e, cap)))"
proof -
  obtain m' where m': "Robots_Del x m = Some (if e x = None then -99 else 0, [Detach x], m')" "robots (m', T - {x}) (e(x := None), cap)"
    using del_step [OF r x] by (elim exE conjE)
  have step: "robots_step (RDel x) (m, T) = Some (RCode (if e x = None then -99 else 0), m', T - {x})"
    using m'(1) by (simp add: robots_step_def timers_after_def)
  show ?thesis
  proof (cases "e x")
    case None
    then have "e(x := None) = e" by (simp add: fun_upd_idem)
    then show ?thesis using step m'(2) None by (simp add: robots_spec_def)
  next
    case (Some g)
    then show ?thesis using step m'(2) by (simp add: robots_spec_def)
  qed
qed

lemma step_timeout:
  assumes r: "robots (m, T) (e, cap)" and x: "0 \<le> x"
  shows "\<exists>s. robots_step (RTimeOut x now limit) (m, T) = Some (fst (robots_spec (RTimeOut x now limit) (e, cap)), s) \<and>
    robots s (snd (robots_spec (RTimeOut x now limit) (e, cap)))"
proof (cases "e x")
  case None
  then show ?thesis using get_none(2) [OF r x None, of now limit] r by (simp add: robots_step_def robots_spec_def)
next
  case (Some g)
  then show ?thesis using get_some(2) [OF r x Some, of now limit] r by (simp add: robots_step_def robots_spec_def)
qed

interpretation robot_table: guarded_refinement robots_step robots_spec robots named_robot
proof
  fix op s a assume ok: "named_robot op" and r: "robots s a"
  obtain m T e cap where s: "s = (m, T)" "a = (e, cap)" by (cases s; cases a) auto
  note r = r [unfolded s]
  show "\<exists>s'. robots_step op s = Some (fst (robots_spec op a), s') \<and> robots s' (snd (robots_spec op a))"
  proof (cases op)
    case (RAdd g now) then show ?thesis using add_step [OF r, of g now] ok s by simp
  next
    case (RGet x upd now) then show ?thesis using step_get [OF r, of x upd now] ok s by simp
  next
    case (RDel x) then show ?thesis using step_del [OF r, of x] ok s by simp
  next
    case (RTimeOut x now limit) then show ?thesis using step_timeout [OF r, of x now limit] ok s by simp
  next
    case RClear then show ?thesis using clear_step [OF r] s by (auto simp: robots_step_def robots_spec_def)
  next
    case RSize then show ?thesis using holds_Size [OF robotsD(1) [OF r]] r s by (simp add: robots_step_def robots_spec_def)
  qed
qed


section \<open>Properties\<close>

text \<open>C32: after a successful \<open>Init\<close> with at least one bucket, any sequence of \<open>Add\<close>, \<open>Get\<close>, \<open>Del\<close>, \<open>IsTimeOut\<close>, \<open>Clear\<close> and \<open>Size\<close> on the table of robots is defined,
  as long as robots have nonnegative numbers, and returns what a finite map of the given capacity returns; a timer has been asked for
  (\<open>Attach\<close> has been called, and \<open>Detach\<close> not since) for every robot in the table.\<close>

theorem robot_table_refines:
  assumes "nodes mem = []" "bucketCnt \<noteq> 0" "sz \<le> 50 * 10000" "sz \<le> 5 * bucketCnt" "\<forall>op \<in> set ops. named_robot op"
  shows "\<exists>m m' T. Robots_Init sz bucketCnt fresh mem = Some (False, m) \<and>
    impl_run robots_step ops (m, {}) = Some (fst (spec_run robots_spec ops (Map.empty, unat sz)), m', T) \<and>
    dom (fst (snd (spec_run robots_spec ops (Map.empty, unat sz)))) \<subseteq> T"
proof -
  obtain m where m: "Robots_Init sz bucketCnt fresh mem = Some (False, m)" "robots (m, {}) (Map.empty, unat sz)"
    using robots_init [OF assms(1-4)] by blast
  obtain s where s: "impl_run robots_step ops (m, {}) = Some (fst (spec_run robots_spec ops (Map.empty, unat sz)), s)"
    "robots s (snd (spec_run robots_spec ops (Map.empty, unat sz)))"
    using robot_table.guarded_run [OF assms(5) m(2)] by blast
  obtain m' T e cap where e: "s = (m', T)" "snd (spec_run robots_spec ops (Map.empty, unat sz)) = (e, cap)" by (cases s; cases "snd (spec_run robots_spec ops (Map.empty, unat sz))") auto
  show ?thesis using m(1) s e robotsD(4) [of m' T e cap] by auto
qed

definition blank_game :: CRunGame where
  "blank_game = Reset \<lparr>m_nRobotID = 1, m_nGameType = 1, m_szRoomID = [], m_nPlayerID = 1, m_nPlayerScore = 1, m_nActionSeq = 1,
     m_nRunState = GRS_OK, m_nSock = 1, m_nUniqueID = 1, m_nLastTime = 1, m_nRequestActionTime = 1, m_nLocalRoleID = 1,
     m_nLocalRoomID = 1, m_nCfrServerID = 1, m_szCfrModel = [], m_oMatchState = zero_match, m_nRobotResult = 1, m_nRobotScore = 0,
     m_nGameTime = 1, m_nHistoryCnt = 1, m_nTRobotRoundSeq = 1, m_nAlreadySaveHistory = True, m_nGameBeginTimes = 1,
     m_oDLastAction = \<lparr>da_type = 0, da_BetNum = 0, da_BetSize = 0\<rparr>\<rparr>"

definition blank_robot_node :: "(int, CRunGame) CHNode" where
  "blank_robot_node = \<lparr>n_key = 0, n_val = blank_game, n_next = None, n_prev = None\<rparr>"

definition no_robots :: robot_map where
  "no_robots = \<lparr>nodes = [], m_pBucket = None, m_nUseSize = 0, m_nTotalSize = 0, m_nBuckets = 0, m_pMyHash = None,
     m_nCurBucket = 0, m_pNextNode = None, m_oFreeHead = None\<rparr>"

theorem robot_table_refines_witness:
  "\<exists>m m' T. Robots_Init 1 2 blank_robot_node no_robots = Some (False, m) \<and>
    impl_run robots_step [RAdd (blank_game\<lparr>m_nRobotID := 7\<rparr>) 50, RAdd blank_game 50, RAdd (blank_game\<lparr>m_nRobotID := 9\<rparr>) 60,
      RTimeOut 7 90 30, RDel 9, RDel 7, RSize] (m, {}) =
      Some ([RCode 0, RCode (-9001), RCode (-9006), RBool True, RCode (-99), RCode 0, RNum 0], m', T)"
proof -
  let ?ops = "[RAdd (blank_game\<lparr>m_nRobotID := 7\<rparr>) 50, RAdd blank_game 50, RAdd (blank_game\<lparr>m_nRobotID := 9\<rparr>) 60, RTimeOut 7 90 30, RDel 9, RDel 7, RSize]"
  have z: "m_nRobotID blank_game = 0" by (simp add: blank_game_def Reset_def)
  have "nodes no_robots = []" "(2 :: 32 word) \<noteq> 0" "(1 :: 32 word) \<le> 50 * 10000" "(1 :: 32 word) \<le> 5 * 2" "\<forall>op \<in> set ?ops. named_robot op"
    using z by (simp_all add: no_robots_def)
  note r = robot_table_refines [OF this, of blank_robot_node]
  have "fst (spec_run robots_spec ?ops (Map.empty, unat (1 :: 32 word))) =
      [RCode 0, RCode (-9001), RCode (-9006), RBool True, RCode (-99), RCode 0, RNum 0]"
    by (simp add: robots_spec_def Let_def z)
  then show ?thesis using r by metis
qed

text \<open>C40: the number of a robot comes from the network.  A negative one that is no multiple of the number of buckets makes \<open>Get\<close>,
  \<open>Add\<close>, \<open>Del\<close> and \<open>IsTimeOut\<close> use an index outside the buckets and the locks.
  (The table has been initialised and has at most \<open>2^31\<close> buckets.)\<close>

theorem negative_robot_undefined:
  assumes "robots (m, T) (e, cap)" "uint (m_nBuckets m) \<le> 2 ^ 31" "x < 0" "\<not> uint (m_nBuckets m) dvd x" "m_nRobotID g = x"
  shows "Robots_Get x upd now m = None \<and> Robots_Add g now m = None \<and> Robots_Del x m = None \<and> Robots_IsTimeOut x now limit m = None"
proof -
  let ?b = "m_nBuckets m"
  obtain bs F where s: "store ct_free m bs F" using robotsD(1) [OF assms(1)] by (auto simp: holds_def)
  obtain B where B: "m_pBucket m = Some B" "length B = length bs" by (rule buckets_obtain [OF storeD(1) [OF s]])
  have n: "length B = unat ?b" "?b \<noteq> 0" using B(2) bucketsD(1,2) [OF storeD(1) [OF s]] by auto
  have b: "0 < uint ?b" using n(2) by (metis uint_0_iff uint_ge_0 order_le_less)
  define r where "r = x smod uint ?b"
  have r: "r = - (- x mod uint ?b)"
    using assms(3) b by (simp add: r_def signed_modulo_int_def signed_divide_int_def minus_div_mult_eq_mod algebra_simps)
  have "- x mod uint ?b \<noteq> 0" using assms(4) by (simp add: mod_eq_0_iff_dvd)
  then have "- uint ?b < r" "r < 0" using b pos_mod_bound [OF b, of "- x"] pos_mod_sign [OF b, of "- x"] unfolding r by linarith+
  then have "(r + 2 ^ 32) mod 2 ^ 32 = r + 2 ^ 32" using assms(2) by (intro mod_pos_pos_trivial) simp_all
  then have "uint (word_of_int r :: 32 word) = r + 2 ^ 32" by (simp add: uint_word_of_int)
  then have "int (unat (robot_hash ?b x)) = r + 2 ^ 32" by (simp add: robot_hash_def r_def [symmetric])
  moreover have "int (unat ?b) = uint ?b" by simp
  ultimately have "unat ?b \<le> unat (robot_hash ?b x)" 
    using \<open>- uint ?b < r\<close> assms(2) unfolding of_nat_le_iff [where ?'a = int, symmetric] by simp
  then have "bucket_of m (unat (robot_hash ?b x)) = None" using B(1) n(1) by (simp add: bucket_of_def rd_def)
  then have "scan_bucket x (unat (robot_hash ?b x)) m = None" "unlink x (unat (robot_hash ?b x)) m = None"
    by (simp_all add: scan_bucket_def unlink_def)
  then show ?thesis using n(2) assms(3,5) by (simp add: Robots_Get_def Robots_Add_def Robots_Del_def Robots_IsTimeOut_def Robots_Hash_def)
qed


theorem negative_robot_undefined_witness:
  "\<exists>m. Robots_Init 1 2 blank_robot_node no_robots = Some (False, m) \<and> Robots_Get (-1) True 50 m = None"
proof -
  obtain m where m: "Robots_Init 1 2 blank_robot_node no_robots = Some (False, m)" "robots (m, {}) (Map.empty, unat (1 :: 32 word))"
    using robots_init [of no_robots 2 1 blank_robot_node "{}"] by (auto simp: no_robots_def)
  have "map_option (\<lambda>(b, m). m_nBuckets m) (Robots_Init 1 2 blank_robot_node no_robots) = Some 2" by code_simp
  then have "m_nBuckets m = 2" using m(1) by simp
  then show ?thesis using negative_robot_undefined [OF m(2), of "-1" "blank_game\<lparr>m_nRobotID := -1\<rparr>" True 50] m(1) by simp
qed

end
