(* ===== verification/Action_Text.thy ===== *)
theory Action_Text
  imports Match_Info "HOL-Library.Sublist"
begin

text \<open>
  \<open>ActionInfo\<close> as text: \<open>ToString\<close> and \<open>FromString\<close> of \<open>Def.h\<close>.  The server sends the text to the strategy server and
  takes the action sequence, the key of the betting tree, from the text that comes back.
\<close>

section \<open>The code\<close>

text \<open>\<open>%.02d\<close>: at least two digits.\<close>

definition pad2 :: "string \<Rightarrow> string" where
  "pad2 t = (if length t < 2 then CHR ''0'' # t else t)"

definition fmt2 :: "int \<Rightarrow> string" where
  "fmt2 i = (if i < 0 then CHR ''-'' # pad2 (dec (nat (- i))) else pad2 (dec (nat i)))"

definition info_head :: "ActionInfo \<Rightarrow> string" where
  "info_head info =
     ''bc:'' @ fmt2 (board_cards info ! 0) @ '','' @ fmt2 (board_cards info ! 1) @ '','' @ fmt2 (board_cards info ! 2) @ '','' @
     fmt2 (board_cards info ! 3) @ '','' @ fmt2 (board_cards info ! 4) @ ''  hc:'' @ fmt2 (hcp_cards info ! 0) @ '','' @
     fmt2 (hcp_cards info ! 1) @ '', st:'' @ dec_int (st info) @ '', bet_to:'' @ dec_int (bet_to info) @
     '', num_bet:'' @ dec_int (num_street_bet info) @ '', seq:''"

text \<open>The buffer has 128 bytes and \<open>snprintf\<close> is told 127, one of them for the terminator.\<close>

definition ToString :: "ActionInfo \<Rightarrow> string" where
  "ToString info = take 126 (info_head info @ action_seq info)"

text \<open>\<open>strstr\<close>: the rest of the string from the first occurrence on.\<close>

fun strstr :: "string \<Rightarrow> string \<Rightarrow> string option" where
  "strstr [] c = (if c = [] then Some [] else None)"
| "strstr (x # xs) c = (if prefix c (x # xs) then Some (x # xs) else strstr xs c)"

definition atoi :: "string \<Rightarrow> int option" where
  "atoi s = (case scan_number s of None \<Rightarrow> Some 0 | Some (neg, v, n) \<Rightarrow> chk32 (if neg then - int v else int v))"

text \<open>\<open>for (i = 0; i < n; i++) { cells[i] = atoi(p); p += 3; }\<close>\<close>

fun read_cards :: "nat \<Rightarrow> nat \<Rightarrow> string \<Rightarrow> int list \<Rightarrow> (int list \<times> string) option" where
  "read_cards 0 i p cells = Some (cells, p)"
| "read_cards (Suc n) i p cells = do { v \<leftarrow> atoi p; cells' \<leftarrow> wr cells i v; read_cards n (i + 1) (drop 3 p) cells' }"

text \<open>The fields that follow a label.\<close>

definition FromString_tail :: "string \<Rightarrow> ActionInfo \<Rightarrow> (int \<times> ActionInfo) option" where
  "FromString_tail p info =
     (case strstr p ''st:'' of None \<Rightarrow> Some (-3, info) | Some p3 \<Rightarrow> do {
        v3 \<leftarrow> atoi (drop 3 p3);
        let i3 = info\<lparr>st := v3\<rparr>;
        (case strstr (drop 3 p3) ''bet_to:'' of None \<Rightarrow> Some (-4, i3) | Some p4 \<Rightarrow> do {
           v4 \<leftarrow> atoi (drop 7 p4);
           let i4 = i3\<lparr>bet_to := v4\<rparr>;
           (case strstr (drop 7 p4) ''num_bet:'' of None \<Rightarrow> Some (-5, i4) | Some p5 \<Rightarrow> do {
              v5 \<leftarrow> atoi (drop 8 p5);
              let i5 = i4\<lparr>num_street_bet := v5\<rparr>;
              (case strstr (drop 8 p5) ''seq:'' of None \<Rightarrow> Some (-6, i5) | Some p6 \<Rightarrow>
                 Some (0, i5\<lparr>action_seq := drop 4 p6\<rparr>))
           })
        })
     })"

definition FromString :: "string \<Rightarrow> ActionInfo \<Rightarrow> (int \<times> ActionInfo) option" where
  "FromString szStr info =
     (case strstr szStr ''bc:'' of
        None \<Rightarrow> Some (-1, info)
      | Some p1 \<Rightarrow>
          if length p1 < 20 then Some (-1, info)
          else do {
            (bc, q1) \<leftarrow> read_cards MAX_BOADRD_NUM 0 (drop 3 p1) (board_cards info);
            let i1 = info\<lparr>board_cards := bc\<rparr>;
            (case strstr q1 ''hc:'' of
               None \<Rightarrow> Some (-2, i1)
             | Some p2 \<Rightarrow>
                 if length p2 < 10 then Some (-2, i1)
                 else do {
                   (hc, q2) \<leftarrow> read_cards NUM_HCP 0 (drop 3 p2) (hcp_cards i1);
                   FromString_tail q2 (i1\<lparr>hcp_cards := hc\<rparr>)
                 })
          })"

section \<open>Reading what was written\<close>

lemma strstr_here: "prefix c s \<Longrightarrow> strstr s c = Some s"
  by (cases s) auto

lemma strstr_skip:
  assumes "x \<notin> set a" "prefix (x # c) b"
  shows "strstr (a @ b) (x # c) = Some b"
  using assms(1) by (induction a) (use strstr_here [OF assms(2)] in auto)

lemma atoi_dec_int:
  assumes "INT32_MIN \<le> i" "i \<le> INT32_MAX" "ends_number rest"
  shows "atoi (dec_int i @ rest) = Some i"
  using assms by (simp add: dec_int_def atoi_def scan_dec scan_minus_dec)

lemma fmt2_digits: "0 \<le> i \<Longrightarrow> i < 100 \<Longrightarrow> fmt2 i = [digit (nat i div 10), digit (nat i mod 10)]"
proof -
  assume i: "0 \<le> i" "i < 100"
  have "dec (nat i) = (if nat i < 10 then [digit (nat i)] else [digit (nat i div 10), digit (nat i mod 10)])"
    using i by (subst dec.simps, subst dec.simps) (auto simp: nat_less_iff)
  moreover have "digit 0 = CHR ''0''" by code_simp
  ultimately show ?thesis using i by (simp add: fmt2_def pad2_def)
qed

lemma atoi_fmt2:
  assumes "0 \<le> i" "i < 100" "ends_number rest"
  shows "atoi (fmt2 i @ rest) = Some i"
proof -
  let ?ds = "[digit (nat i div 10), digit (nat i mod 10)]"
  have d: "isdigit (digit (nat i div 10))" "isdigit (digit (nat i mod 10))"
    "digit_val (digit (nat i div 10)) = nat i div 10" "digit_val (digit (nat i mod 10)) = nat i mod 10"
    using assms(1,2) by (simp_all add: digit_facts nat_less_iff less_mult_imp_div_less)
  have "takeWhile isdigit (?ds @ rest) = ?ds" by (rule takeWhile_digits) (use d assms(3) in auto)
  moreover have "digits_val ?ds = nat i" by (simp add: digits_val_def d)
  ultimately have "scan_number (?ds @ rest) = Some (False, nat i, 2)"
    using digit_not_space_sign [OF d(1)] by (simp add: scan_number_def)
  then show ?thesis using assms by (simp add: fmt2_digits atoi_def)
qed

lemma length_fmt2: "0 \<le> i \<Longrightarrow> i < 100 \<Longrightarrow> length (fmt2 i) = 2"
  by (simp add: fmt2_digits)

lemma dec_int_letters: "x \<in> set (dec_int i) \<Longrightarrow> isdigit x \<or> x = CHR ''-''"
  using dec_digits by (auto simp: dec_int_def split: if_splits)

lemma letters_not_dec_int: "CHR ''b'' \<notin> set (dec_int i)" "CHR ''n'' \<notin> set (dec_int i)" "CHR ''s'' \<notin> set (dec_int i)"
  using dec_int_letters [of "CHR ''b''" i] dec_int_letters [of "CHR ''n''" i] dec_int_letters [of "CHR ''s''" i]
  by (auto simp: isdigit_def)

lemma ends_comma: "ends_number (CHR '','' # t)" "ends_number (CHR '' '' # t)"
  by (simp_all add: ends_number_def isdigit_def)

lemma read_cards_step:
  assumes "0 \<le> i" "i < 100" "ends_number (x # rest)" "j < length cells"
  shows "read_cards (Suc n) j (fmt2 i @ x # rest) cells = read_cards n (j + 1) rest (cells[j := i])"
  using atoi_fmt2 [OF assms(1-3)] assms(4) by (simp add: length_fmt2 [OF assms(1,2)])

text \<open>The values that the server puts in.\<close>

definition info_ok :: "ActionInfo \<Rightarrow> bool" where
  "info_ok info \<longleftrightarrow> length (board_cards info) = MAX_BOADRD_NUM \<and> length (hcp_cards info) = NUM_HCP \<and>
     (\<forall>c \<in> set (board_cards info @ hcp_cards info). 0 \<le> c \<and> c < 100) \<and>
     (\<forall>v \<in> {st info, bet_to info, num_street_bet info}. INT32_MIN \<le> v \<and> v \<le> INT32_MAX)"

lemma FromString_tail_text:
  assumes "info_ok info"
  shows "FromString_tail ('' st:'' @ dec_int (st info) @ '', bet_to:'' @ dec_int (bet_to info) @
     '', num_bet:'' @ dec_int (num_street_bet info) @ '', seq:'' @ sq) i0 =
     Some (0, i0\<lparr>st := st info, bet_to := bet_to info, num_street_bet := num_street_bet info, action_seq := sq\<rparr>)"
proof -
  let ?t6 = "''seq:'' @ sq"
  let ?t5 = "''num_bet:'' @ dec_int (num_street_bet info) @ '', '' @ ?t6"
  let ?t4 = "''bet_to:'' @ dec_int (bet_to info) @ '', '' @ ?t5"
  let ?t3 = "''st:'' @ dec_int (st info) @ '', '' @ ?t4"
  have v: "INT32_MIN \<le> st info" "st info \<le> INT32_MAX" "INT32_MIN \<le> bet_to info" "bet_to info \<le> INT32_MAX"
    "INT32_MIN \<le> num_street_bet info" "num_street_bet info \<le> INT32_MAX" using assms by (auto simp: info_ok_def)
  have "strstr ('' '' @ ?t3) ''st:'' = Some ?t3" by (rule strstr_skip) simp_all
  moreover have "strstr ((dec_int (st info) @ '', '') @ ?t4) ''bet_to:'' = Some ?t4"
    by (rule strstr_skip) (use letters_not_dec_int in simp_all)
  moreover have "strstr ((dec_int (bet_to info) @ '', '') @ ?t5) ''num_bet:'' = Some ?t5"
    by (rule strstr_skip) (use letters_not_dec_int in simp_all)
  moreover have "strstr ((dec_int (num_street_bet info) @ '', '') @ ?t6) ''seq:'' = Some ?t6"
    by (rule strstr_skip) (use letters_not_dec_int in simp_all)
  ultimately show ?thesis
    using atoi_dec_int [OF v(1,2) ends_comma(1)] atoi_dec_int [OF v(3,4) ends_comma(1)] atoi_dec_int [OF v(5,6) ends_comma(1)]
    by (simp add: FromString_tail_def)
qed

section \<open>Properties\<close>

text \<open>C37: the text that \<open>ToString\<close> writes is read back by \<open>FromString\<close> with all its fields, but the buffer cuts the action sequence: of a long
  sequence only the beginning, the key of another node of the betting tree, comes back.\<close>

theorem action_info_round_trip:
  assumes "info_ok info" "length (board_cards i0) = MAX_BOADRD_NUM" "length (hcp_cards i0) = NUM_HCP"
  shows "length (info_head info) \<le> 90 \<and>
    FromString (ToString info) i0 = Some (0, info\<lparr>action_seq := take (126 - length (info_head info)) (action_seq info)\<rparr>)"
proof -
  obtain b0 b1 b2 b3 b4 where b: "board_cards info = [b0, b1, b2, b3, b4]"
    using assms(1) by (auto simp: info_ok_def length_Suc_conv eval_nat_numeral)
  obtain h0 h1 where h: "hcp_cards info = [h0, h1]" using assms(1) by (auto simp: info_ok_def length_Suc_conv eval_nat_numeral)
  obtain x0 x1 x2 x3 x4 where x: "board_cards i0 = [x0, x1, x2, x3, x4]"
    using assms(2) by (auto simp: length_Suc_conv eval_nat_numeral)
  obtain y0 y1 where y: "hcp_cards i0 = [y0, y1]" using assms(3) by (auto simp: length_Suc_conv eval_nat_numeral)
  have r: "0 \<le> b0" "b0 < 100" "0 \<le> b1" "b1 < 100" "0 \<le> b2" "b2 < 100" "0 \<le> b3" "b3 < 100" "0 \<le> b4" "b4 < 100"
    "0 \<le> h0" "h0 < 100" "0 \<le> h1" "h1 < 100" using assms(1) b h by (auto simp: info_ok_def)
  let ?sq = "take (126 - length (info_head info)) (action_seq info)"
  let ?tail = "'' st:'' @ dec_int (st info) @ '', bet_to:'' @ dec_int (bet_to info) @ '', num_bet:'' @ dec_int (num_street_bet info) @ '', seq:'' @ ?sq"
  let ?hc = "''hc:'' @ fmt2 h0 @ '','' @ fmt2 h1 @ '','' @ ?tail"
  let ?bc = "''bc:'' @ fmt2 b0 @ '','' @ fmt2 b1 @ '','' @ fmt2 b2 @ '','' @ fmt2 b3 @ '','' @ fmt2 b4 @ '' '' @ '' '' @ ?hc"
  note l2 = length_fmt2 [OF r(1,2)] length_fmt2 [OF r(3,4)] length_fmt2 [OF r(5,6)] length_fmt2 [OF r(7,8)] length_fmt2 [OF r(9,10)]
    length_fmt2 [OF r(11,12)] length_fmt2 [OF r(13,14)]
  have len: "length (info_head info) \<le> 90"
    using length_dec_int [of "st info"] length_dec_int [of "bet_to info"] length_dec_int [of "num_street_bet info"] assms(1)
    by (auto simp: info_head_def b h l2 info_ok_def)
  have tx: "ToString info = ?bc" using len by (simp add: ToString_def take_append) (simp add: info_head_def b h)
  have s1: "strstr ?bc ''bc:'' = Some ?bc" by (rule strstr_here) simp
  have r1: "read_cards MAX_BOADRD_NUM 0 (drop 3 ?bc) (board_cards i0) = Some (board_cards info, '' '' @ ?hc)"
    unfolding b x using r by (simp add: numeral_eq_Suc read_cards_step ends_comma del: read_cards.simps(2))
  have s2: "strstr ('' '' @ ?hc) ''hc:'' = Some ?hc" by (rule strstr_skip) simp_all
  have r2: "read_cards NUM_HCP 0 (drop 3 ?hc) (hcp_cards i0) = Some (hcp_cards info, ?tail)"
    unfolding h y using r by (simp add: numeral_eq_Suc read_cards_step ends_comma del: read_cards.simps(2))
  have l: "\<not> length ?bc < 20" "\<not> length ?hc < 10" by (simp_all add: l2)
  have "FromString (ToString info) i0 = FromString_tail ?tail (i0\<lparr>board_cards := board_cards info, hcp_cards := hcp_cards info\<rparr>)"
    unfolding tx FromString_def s1 option.case if_not_P [OF l(1)] r1 using s2 r2 l(2) by simp
  then show ?thesis using FromString_tail_text [OF assms(1), of ?sq] len by simp
qed

definition long_info :: ActionInfo where
  "long_info = ActionInfo_new\<lparr>st := 0, bet_to := 2, action_seq := replicate 80 (CHR ''c'')\<rparr>"

theorem action_info_round_trip_witness:
  "FromString (ToString long_info) ActionInfo_new = Some (0, long_info\<lparr>action_seq := replicate 65 (CHR ''c'')\<rparr>)"
proof -
  have ok: "info_ok long_info" "length (board_cards ActionInfo_new) = MAX_BOADRD_NUM" "length (hcp_cards ActionInfo_new) = NUM_HCP"
    by (simp_all add: info_ok_def long_info_def ActionInfo_new_def)
  have "length (info_head long_info) = 61" by code_simp
  then show ?thesis using action_info_round_trip [OF ok] by (simp add: long_info_def)
qed

end
