(* ===== verification/Strategy_Server.thy ===== *)
theory Strategy_Server
  imports Run_Game Action_Text
begin

text \<open>
  How a robot gets its actions: the choice of a strategy server when a hand begins (\<open>SetCfrModel\<close> of \<open>run_game.cpp\<close>, \<open>SelectCfrModel\<close> and
  \<open>SelectValidModel\<close> of \<open>apgi_conf.cpp\<close>), the request for an action (\<open>RequestActionFromCfr\<close>, \<open>DoQueryRobotAction\<close>, with
  \<open>ConvertKeyToRequestStr\<close> of \<open>cfr_svr_client.cpp\<close>) and what is done with the answer until an action is known (\<open>QueryActionResp\<close> of
  \<open>cfr_task.cpp\<close>).  Not modelled are the parameters \<open>m_oActionParam\<close> of the choice and the choice itself: \<open>set_param\<close> is the
  code of \<open>ParamHandle::SetActionParam\<close>, \<open>get_key\<close> the key of \<open>DTRobot::GetKey\<close>, \<open>None\<close> for an error, and \<open>get_action\<close> the text that
  \<open>ConvertResponseStrToVals\<close> and \<open>DTRobot::DoAction\<close> give, \<open>None\<close> when one of them fails.
\<close>

section \<open>Strategy servers\<close>

record CFRServer =
  nServerID :: nat
  strVersion :: string
  cfr_param :: string

text \<open>The models in the order of the configuration, and the server of each.\<close>

record CAPGIConf =
  m_vCfrServer :: "string list"
  m_mapCfrServer :: "string \<Rightarrow> CFRServer option"

definition GetCfrServer :: "CAPGIConf \<Rightarrow> string \<Rightarrow> CFRServer option" where
  "GetCfrServer conf cfrModel = m_mapCfrServer conf cfrModel"

definition SelectCfrModel :: "CAPGIConf \<Rightarrow> int \<Rightarrow> int \<Rightarrow> string" where
  "SelectCfrModel conf nAPGAiMode nGameBeginTimes =
     (case m_vCfrServer conf of
        [] \<Rightarrow> []
      | [a] \<Rightarrow> a
      | a # b # _ \<Rightarrow>
          if nAPGAiMode = 1 then a
          else if nAPGAiMode = 2 then b
          else if nGameBeginTimes mod 10 < 3 then a else b)"

definition SelectValidModel :: "CAPGIConf \<Rightarrow> string \<Rightarrow> string" where
  "SelectValidModel conf strInvalidModel =
     (case find (\<lambda>v. strInvalidModel \<noteq> v) (m_vCfrServer conf) of None \<Rightarrow> [] | Some v \<Rightarrow> v)"

text \<open>One pass of \<open>SetCfrModel\<close> from the label \<open>INVALID_AGIAN\<close> on; \<open>None\<close>: the server is not connected.\<close>

definition try_model ::
  "CAPGIConf \<Rightarrow> (nat \<Rightarrow> bool) \<Rightarrow> (string \<Rightarrow> int) \<Rightarrow> string \<Rightarrow> CRunGame \<Rightarrow> (int \<times> CRunGame) option" where
  "try_model conf conn set_param strModel rg =
     (if strModel = m_szCfrModel rg \<and> m_nCfrServerID rg > 0 then Some (0, rg)
      else if length strModel > 60 then Some (-100, rg)
      else case GetCfrServer conf strModel of
        None \<Rightarrow> Some (-101, rg)
      | Some pCfr \<Rightarrow>
          if \<not> conn (nServerID pCfr) then None
          else if set_param (cfr_param pCfr) \<noteq> 0 then Some (-102, rg)
          else Some (0, rg\<lparr>m_szCfrModel := strModel, m_nCfrServerID := nServerID pCfr\<rparr>))"

definition SetCfrModel ::
  "CAPGIConf \<Rightarrow> (nat \<Rightarrow> bool) \<Rightarrow> (string \<Rightarrow> int) \<Rightarrow> int \<Rightarrow> CRunGame \<Rightarrow> int \<times> CRunGame" where
  "SetCfrModel conf conn set_param nAiMode rg =
     (let strModel = SelectCfrModel conf nAiMode (m_nGameBeginTimes rg) in
      case try_model conf conn set_param strModel rg of
        Some r \<Rightarrow> r
      | None \<Rightarrow>
          (case try_model conf conn set_param (SelectValidModel conf strModel) rg of
             Some r \<Rightarrow> r
           | None \<Rightarrow> (-105, rg)))"

section \<open>The request for an action\<close>

record CFRKey =
  key_st :: int
  key_node_id :: int
  key_pa :: int
  key_offset :: int
  key_num_succ :: int

definition ConvertKeyToRequestStr :: "CFRKey \<Rightarrow> string \<Rightarrow> string" where
  "ConvertKeyToRequestStr key cfrModel =
     take 1023 (''{'' @ [CHR 0x22] @ ''mode'' @ [CHR 0x22] @ '':1, '' @ [CHR 0x22] @ ''nt'' @ [CHR 0x22] @ '':'' @ dec_int (key_node_id key) @
       '', '' @ [CHR 0x22] @ ''st'' @ [CHR 0x22] @ '':'' @ dec_int (key_st key) @
       '', '' @ [CHR 0x22] @ ''pa'' @ [CHR 0x22] @ '':'' @ dec_int (key_pa key) @
       '', '' @ [CHR 0x22] @ ''offset'' @ [CHR 0x22] @ '':'' @ dec_int (key_offset key) @
       '', '' @ [CHR 0x22] @ ''num_succ'' @ [CHR 0x22] @ '':'' @ dec_int (key_num_succ key) @
       '','' @ [CHR 0x22] @ ''version'' @ [CHR 0x22] @ '':'' @ cfrModel @ ''}'')"

text \<open>The text of the request; the buffer has 1024 bytes and \<open>snprintf\<close> is told 1023.\<close>

definition query_text :: "string \<Rightarrow> string \<Rightarrow> CRunGame \<Rightarrow> string" where
  "query_text szTransID strCfrRequest rg =
     take 1022 (''QUERY_ACTION#TransID='' @ szTransID @ ''#KEY='' @ strCfrRequest @ ''#RoleID='' @ dec_int (m_nLocalRoleID rg) @
       ''#RoomID='' @ dec_int (m_nLocalRoomID rg) @ ''#RobotID='' @ dec_int (m_nRobotID rg) @ ''#HandID='' @ dec (handId (rg_state rg)) @
       ''#Round='' @ dec (GetRound rg) @ ''#ActionSeq='' @ dec (m_nActionSeq rg) @ ''#'' @ [CHR 0x0D, CHR 0x0A])"

text \<open>\<open>free_node\<close>: the queue of free packets has one.  \<open>Inl\<close> is an error code, \<open>Inr\<close> the request that is sent.\<close>

definition RequestActionFromCfr ::
  "(nat \<Rightarrow> Game option) \<Rightarrow> CBettingTree \<Rightarrow> CAPGIConf \<Rightarrow> (nat \<Rightarrow> bool) \<Rightarrow> (ActionInfo \<Rightarrow> CFRServer \<Rightarrow> NodeInfo \<Rightarrow> CFRKey option) \<Rightarrow>
   bool \<Rightarrow> string \<Rightarrow> CRunGame \<Rightarrow> (int + string) option" where
  "RequestActionFromCfr games bt conf conn get_key free_node szTransID rg =
     (if m_nRunState rg \<noteq> GRS_OK then Some (Inl (-1000))
      else if GetCurrentPlayerID games rg \<noteq> m_nRobotID rg then Some (Inl (-1001))
      else if \<not> conn (m_nCfrServerID rg) then Some (Inl (-1002))
      else case games (m_nGameType rg) of
        None \<Rightarrow> Some (Inl (-1002))
      | Some g \<Rightarrow>
          do {
            (len, szAcpcStr) \<leftarrow> printMatchState g (m_oMatchState rg) 500;
            if len < 0 then Some (Inl (-3))
            else do {
              info \<leftarrow> GetActionInfo (m_oMatchState rg) ActionInfo_new;
              (case GetNode (action_seq info) bt of
                 Inl e \<Rightarrow> Some (Inl (-102))
               | Inr node \<Rightarrow>
                   (case GetCfrServer conf (m_szCfrModel rg) of
                      None \<Rightarrow> Some (Inl (-112))
                    | Some pCfrServer \<Rightarrow>
                        (case get_key info pCfrServer node of
                           None \<Rightarrow> Some (Inl (-103))
                         | Some cfr_key \<Rightarrow>
                             let strCfrRequest = ConvertKeyToRequestStr cfr_key (strVersion pCfrServer) @ ''#ActionInfo='' @ ToString info in
                             if \<not> free_node then Some (Inl (-105))
                             else Some (Inr (query_text szTransID strCfrRequest rg)))))
            }
          })"

text \<open>The raises that are listed when it is not the robot's turn; a piece has at most 13 characters, so the buffer of 256 bytes is large enough.\<close>

fun raise_list :: "int list \<Rightarrow> string \<Rightarrow> string" where
  "raise_list [] szTemp = szTemp"
| "raise_list (v # vs) szTemp = raise_list vs (if length szTemp < 200 then szTemp @ ''r'' @ dec_int v @ '' '' else szTemp)"

definition DoQueryRobotAction ::
  "(nat \<Rightarrow> Game option) \<Rightarrow> CBettingTree \<Rightarrow> CAPGIConf \<Rightarrow> (nat \<Rightarrow> bool) \<Rightarrow> (ActionInfo \<Rightarrow> CFRServer \<Rightarrow> NodeInfo \<Rightarrow> CFRKey option) \<Rightarrow>
   bool \<Rightarrow> int \<Rightarrow> string \<Rightarrow> CRunGame \<Rightarrow> (int \<times> string \<times> CRunGame) option" where
  "DoQueryRobotAction games bt conf conn get_key free_node now szTransID rg =
     (if GetCurrentPlayerID games rg \<noteq> m_nRobotID rg
      then do {
        r \<leftarrow> GetAllowRaises bt rg;
        Some (case r of
           Inl e \<Rightarrow> (-1900, [], rg)
         | Inr vRaises \<Rightarrow> (-1901, ''Player_allow_raise='' @ raise_list vRaises [], rg))
      }
      else do {
        r \<leftarrow> RequestActionFromCfr games bt conf conn get_key free_node szTransID rg;
        Some (case r of
           Inl nRet \<Rightarrow> (-20000 + nRet, [], rg)
         | Inr sent \<Rightarrow> (0, [], rg\<lparr>m_nRequestActionTime := now, m_nRunState := GRS_WAIT_ROBOT_ACTION\<rparr>))
      })"

section \<open>The answer\<close>

text \<open>The fields of the answer after \<open>GetValueBykey\<close>; \<open>ans_ok\<close>: the error code of the packet is \<open>Pb::OK\<close>.\<close>

record cfr_answer =
  ans_hand :: nat
  ans_round :: nat
  ans_seq :: nat
  ans_ok :: bool
  ans_resp :: string
  ans_info :: string

text \<open>The checks of \<open>QueryActionResp\<close> up to \<open>readAction\<close>: \<open>Some None\<close> when one of them fails.\<close>

definition answer_action ::
  "(nat \<Rightarrow> Game option) \<Rightarrow> CBettingTree \<Rightarrow> CAPGIConf \<Rightarrow> (ActionInfo \<Rightarrow> NodeInfo \<Rightarrow> string \<Rightarrow> string option) \<Rightarrow> cfr_answer \<Rightarrow> CRunGame \<Rightarrow>
   Action option option" where
  "answer_action games bt conf get_action ans rg =
     (if \<not> ans_ok ans then Some None
      else if ans_resp ans = [] \<or> ans_info ans = [] then Some None
      else if GetCfrServer conf (m_szCfrModel rg) = None then Some None
      else do {
        (nErrCode, info) \<leftarrow> FromString (ans_info ans) ActionInfo_new;
        if nErrCode \<noteq> 0 then Some None
        else case games (m_nGameType rg) of
          None \<Rightarrow> Some None
        | Some g \<Rightarrow>
            (case GetNode (action_seq info) bt of
               Inl e \<Rightarrow> Some None
             | Inr node \<Rightarrow>
                 (case get_action info node (ans_resp ans) of
                    None \<Rightarrow> Some None
                  | Some strAction \<Rightarrow>
                      if strAction = [] then Some None
                      else do {
                        (len, a) \<leftarrow> readAction g strAction;
                        Some (if len < 0 then None else Some a)
                      }))
      })"

section \<open>What the requests keep\<close>

text \<open>\<open>SetCfrModel\<close> changes the robot only when it succeeds, and then only the model and the server.\<close>

lemma try_model_frame:
  assumes "try_model conf conn set_param strModel rg = Some (c, rg')"
  shows "rg' = rg \<or> c = 0 \<and> (\<exists>v w. rg' = rg\<lparr>m_szCfrModel := v, m_nCfrServerID := w\<rparr>)"
  using assms by (auto simp: try_model_def split: if_splits option.splits)

lemma SetCfrModel_frame:
  assumes "SetCfrModel conf conn set_param mode rg = (c, rg')"
  shows "rg' = rg \<or> c = 0 \<and> (\<exists>v w. rg' = rg\<lparr>m_szCfrModel := v, m_nCfrServerID := w\<rparr>)"
  using assms by (auto simp: SetCfrModel_def Let_def dest: try_model_frame split: option.splits)

text \<open>A robot is set to wait only when it is its turn and the request has been sent.\<close>

lemma DoQueryRobotAction_cases:
  assumes "DoQueryRobotAction games bt conf conn get_key free_node now t rg = Some (c, out, rg')"
  shows "if c = 0
    then GetCurrentPlayerID games rg = m_nRobotID rg \<and> m_nRunState rg = GRS_OK \<and> GetCfrServer conf (m_szCfrModel rg) \<noteq> None \<and>
      rg' = rg\<lparr>m_nRequestActionTime := now, m_nRunState := GRS_WAIT_ROBOT_ACTION\<rparr>
    else rg' = rg"
  using assms unfolding DoQueryRobotAction_def RequestActionFromCfr_def Let_def
  by (auto split: if_splits bind_splits option.splits sum.splits prod.splits)

end
