(* ===== verification/Table_Requests.thy ===== *)
theory Table_Requests
  imports Strategy_Server
begin

text \<open>
  The requests of the table server on one robot, as \<open>CAPGTask\<close> of \<open>apg_task.cpp\<close> handles them once the robot is
  found in the table of robots: the calls of \<open>CRunGame\<close> and what the handler does with their results.  Parsing of
  the messages, the lock per robot, the answers over the network and the log are left out.
\<close>

section \<open>Handlers\<close>

text \<open>What the handlers consult: the games, the betting tree, the clock, the configuration, Redis and the connections to the strategy
  servers; \<open>env_set_param\<close>, \<open>env_get_key\<close> and \<open>env_get_action\<close> are the parts of the strategy that are not modelled.\<close>

record server_env =
  env_games :: "nat \<Rightarrow> Game option"
  env_tree :: CBettingTree
  env_now :: int
  env_unsave :: bool
  env_llen :: int
  env_lpush :: "json \<Rightarrow> int"
  env_conf :: CAPGIConf
  env_conn :: "nat \<Rightarrow> bool"
  env_set_param :: "string \<Rightarrow> int"
  env_get_key :: "ActionInfo \<Rightarrow> CFRServer \<Rightarrow> NodeInfo \<Rightarrow> CFRKey option"
  env_free_node :: bool
  env_get_action :: "ActionInfo \<Rightarrow> NodeInfo \<Rightarrow> string \<Rightarrow> string option"
  env_local_id :: "32 word"
  env_robot_timeout :: int

record ThirdGameBeginNotify =
  bg_roomid :: string
  bg_hand :: nat
  bg_player_id :: int
  bg_player_score :: int
  bg_bankerid :: int
  bg_ai_mode :: int

text \<open>\<open>SetRoomID\<close> keeps 30 characters: the buffer has 32 bytes and \<open>snprintf\<close> is told 31.\<close>

definition SetRoomID :: "string \<Rightarrow> CRunGame \<Rightarrow> CRunGame" where
  "SetRoomID v rg = rg\<lparr>m_szRoomID := take 30 v\<rparr>"

definition GameBeginNotify :: "server_env \<Rightarrow> ThirdGameBeginNotify \<Rightarrow> CRunGame \<Rightarrow> CRunGame option" where
  "GameBeginNotify env pb rg =
     (let (nErrCode, rg0) = SetCfrModel (env_conf env) (env_conn env) (env_set_param env) (bg_ai_mode pb) rg in
      if nErrCode \<noteq> 0 then Some rg0
      else do {
        (c, rg1) \<leftarrow> DoRunMatch (env_games env) (env_now env) (bg_hand pb) (bg_bankerid pb) rg0;
        if c \<noteq> 0 then Some rg1
        else Some ((fst (SetPlayerID (env_now env) (bg_player_id pb) (env_local_id env)
          (SetRoomID (bg_roomid pb) (rg1\<lparr>m_nLastTime := env_now env\<rparr>))))\<lparr>m_nPlayerScore := bg_player_score pb\<rparr>)
      })"

definition GameSendCardsNotify :: "server_env \<Rightarrow> ThirdGameSendCardsNotify \<Rightarrow> CRunGame \<Rightarrow> CRunGame option" where
  "GameSendCardsNotify env pb rg =
     do {
       (c, out, rg1) \<leftarrow> DoSaveCards (env_games env) pb rg;
       Some (if c \<noteq> 0 then rg1\<lparr>m_nRunState := GRS_ERR_CARDS\<rparr> else rg1)
     }"

definition GameActionNotify :: "server_env \<Rightarrow> int \<Rightarrow> int \<Rightarrow> int \<Rightarrow> CRunGame \<Rightarrow> CRunGame option" where
  "GameActionNotify env player_id actiontype betnum rg =
     (if m_nRobotID rg = player_id then Some rg
      else do {
        (c, rg1) \<leftarrow> DoAction (env_games env) (env_tree env) player_id actiontype betnum rg;
        Some (if c \<noteq> 0 then rg1\<lparr>m_nRunState := GRS_ERR_PLAYER_ACTION\<rparr> else rg1)
      })"

definition GameResultNotify :: "server_env \<Rightarrow> string \<Rightarrow> ThirdGameEndNotify \<Rightarrow> CRunGame \<Rightarrow> CRunGame option" where
  "GameResultNotify env szTransID pb rg =
     do {
       (c, out, rg1) \<leftarrow> DoFinished (env_games env) (env_unsave env) (env_llen env) (env_lpush env) (env_now env) szTransID pb rg;
       Some rg1
     }"

text \<open>
  The request for an action of the robot: when it has been passed on to the strategy server, the connection is kept for the answer.
  Every error is answered with a fold, which is not carried out here.
\<close>

definition GameRobotActionReq :: "server_env \<Rightarrow> string \<Rightarrow> int \<Rightarrow> nat \<Rightarrow> CRunGame \<Rightarrow> CRunGame option" where
  "GameRobotActionReq env szTransID connfd nUniqueID rg =
     do {
       (c, out, rg1) \<leftarrow> DoQueryRobotAction (env_games env) (env_tree env) (env_conf env) (env_conn env) (env_get_key env)
         (env_free_node env) (env_now env) szTransID rg;
       Some (if c \<noteq> 0 then rg1 else rg1\<lparr>m_nSock := connfd, m_nUniqueID := nUniqueID\<rparr>)
     }"

definition GameQueryStateReq :: "server_env \<Rightarrow> CRunGame \<Rightarrow> CRunGame option" where
  "GameQueryStateReq env rg =
     do {
       (c, rsp) \<leftarrow> SerializeQueryState (env_games env) (env_tree env) rg
         \<lparr>rsp_finished = 0, rsp_round = 0, next_turn_id = 0, allow_raise = []\<rparr>;
       Some rg
     }"

text \<open>The timer: a robot whose strategy server does not answer is given up (the table is told that it folds).\<close>

definition CheckRunGameTimeout :: "server_env \<Rightarrow> CRunGame \<Rightarrow> CRunGame" where
  "CheckRunGameTimeout env rg =
     (if m_nRunState rg = GRS_WAIT_ROBOT_ACTION \<and> env_now env - m_nRequestActionTime rg > env_robot_timeout env
      then rg\<lparr>m_nRunState := GRS_ERR_ROBOT_ACTION\<rparr> else rg)"

text \<open>
  The answer of the strategy server, \<open>CCfrTask::QueryActionResp\<close> of \<open>cfr_task.cpp\<close>.  An answer for another hand, round or action is
  dropped; after every other answer the robot does not wait any longer.
\<close>

definition QueryActionResp :: "server_env \<Rightarrow> cfr_answer \<Rightarrow> CRunGame \<Rightarrow> CRunGame option" where
  "QueryActionResp env ans rg =
     (if ans_hand ans \<noteq> handId (rg_state rg) then Some rg
      else if ans_round ans \<noteq> GetRound rg then Some rg
      else if m_nRunState rg \<noteq> GRS_WAIT_ROBOT_ACTION then Some rg
      else do {
        chosen \<leftarrow> answer_action (env_games env) (env_tree env) (env_conf env) (env_get_action env) ans rg;
        (case chosen of
           None \<Rightarrow> Some (rg\<lparr>m_nRunState := GRS_OK\<rparr>)
         | Some a \<Rightarrow>
             if ans_seq ans \<noteq> m_nActionSeq rg then Some rg
             else do {
               (c, rg1) \<leftarrow> DoAction (env_games env) (env_tree env) (m_nRobotID rg) (action_code (act_type a)) (act_size a) rg;
               Some (rg1\<lparr>m_nRunState := GRS_OK\<rparr>)
             })
      })"

datatype request =
    BeginReq ThirdGameBeginNotify
  | CardsReq ThirdGameSendCardsNotify
  | ActionReq int int int
  | ResultReq string ThirdGameEndNotify
  | RobotActionReq string int nat
  | QueryStateReq
  | TimeoutReq
  | AnswerReq cfr_answer

definition serve :: "server_env \<Rightarrow> request \<Rightarrow> CRunGame \<Rightarrow> CRunGame option" where
  "serve env rq rg =
     (case rq of
        BeginReq pb \<Rightarrow> GameBeginNotify env pb rg
      | CardsReq pb \<Rightarrow> GameSendCardsNotify env pb rg
      | ActionReq uid ty bet \<Rightarrow> GameActionNotify env uid ty bet rg
      | ResultReq szTransID pb \<Rightarrow> GameResultNotify env szTransID pb rg
      | RobotActionReq szTransID connfd nUniqueID \<Rightarrow> GameRobotActionReq env szTransID connfd nUniqueID rg
      | QueryStateReq \<Rightarrow> GameQueryStateReq env rg
      | TimeoutReq \<Rightarrow> Some (CheckRunGameTimeout env rg)
      | AnswerReq ans \<Rightarrow> QueryActionResp env ans rg)"

text \<open>A sequence of requests; what the server consults may be different each time.\<close>

fun serve_all :: "(server_env \<times> request) list \<Rightarrow> CRunGame \<Rightarrow> CRunGame option" where
  "serve_all [] rg = Some rg"
| "serve_all ((env, rq) # rs) rg = do { rg1 \<leftarrow> serve env rq rg; serve_all rs rg1 }"

section \<open>Cards do not matter for the betting\<close>

definition with_cards :: "nat list \<Rightarrow> nat list list \<Rightarrow> State \<Rightarrow> State" where
  "with_cards b h s = s\<lparr>boardCards := b, holeCards := h\<rparr>"

lemma with_cards_simps [simp]:
  "handId (with_cards b h s) = handId s" "maxSpent (with_cards b h s) = maxSpent s"
  "minNoLimitRaiseTo (with_cards b h s) = minNoLimitRaiseTo s" "spent (with_cards b h s) = spent s"
  "action (with_cards b h s) = action s" "actingPlayer (with_cards b h s) = actingPlayer s"
  "numActions (with_cards b h s) = numActions s" "round_no (with_cards b h s) = round_no s"
  "finished (with_cards b h s) = finished s" "playerFolded (with_cards b h s) = playerFolded s"
  "roundSpent (with_cards b h s) = roundSpent s" "boardCards (with_cards b h s) = b" "holeCards (with_cards b h s) = h"
  by (simp_all add: with_cards_def)

lemma cards_nextPlayer [simp]: "nextPlayer g (with_cards b h s) p = nextPlayer g s p"
proof -
  have "nextPlayer_loop g (with_cards b h s) n c = nextPlayer_loop g s n c" for n c
    by (induction g s n c rule: nextPlayer_loop.induct) (subst (1 2) nextPlayer_loop.simps, simp add: Let_def)
  then show ?thesis by (simp add: nextPlayer_def)
qed

lemma cards_counters [simp]:
  "currentPlayer g (with_cards b h s) = currentPlayer g s" "numRaises (with_cards b h s) = numRaises s"
  "numFolded g (with_cards b h s) = numFolded g s" "numActingPlayers g (with_cards b h s) = numActingPlayers g s"
  "numCalled g (with_cards b h s) = numCalled g s"
proof -
  have "numCalled_loop g (with_cards b h s) n ret = numCalled_loop g s n ret" for n ret
    by (induction n arbitrary: ret) (simp_all add: Let_def)
  then show "numCalled g (with_cards b h s) = numCalled g s" by (simp add: numCalled_def)
qed (simp_all add: currentPlayer_def Let_def numRaises_def numFolded_def numActingPlayers_def)

lemma cards_isValidAction [simp]: "isValidAction g (with_cards b h s) fx a = isValidAction g s fx a"
  by (cases "rd (stack g) (currentPlayer g s)") (simp_all add: isValidAction_def raiseIsValid_def)

lemma cards_doAction: "doAction g a (with_cards b h s) = map_option (\<lambda>(t, e). (with_cards b h t, e)) (doAction g a s)"
proof -
  have rec: "doAction_record a p (with_cards b h s) = map_option (with_cards b h) (doAction_record a p s)" for p s
    by (simp add: doAction_record_def Let_def with_cards_def)
  have app: "doAction_apply g a p (with_cards b h s) = map_option (with_cards b h) (doAction_apply g a p s)" for p s
    by (cases "rd (stack g) p"; cases "wr (spent s) p (maxSpent s)"; cases "wr (playerFolded s) p True")
      (simp_all add: doAction_apply_def doAction_fold_def doAction_call_def doAction_raise_def Let_def with_cards_def
        wr_def bind_eq_None_conv split: ActionType.split option.split bind_splits)
  have loop: "roundSpent_loop (with_cards b h s) i = roundSpent_loop s i" for s i by (induction i) simp_all
  have rsp: "doAction_roundSpent a (with_cards b h s) = map_option (with_cards b h) (doAction_roundSpent a s)" for s
    by (cases "roundSpent_loop s (round_no s)") (simp_all add: doAction_roundSpent_def with_cards_def loop [unfolded with_cards_def])
  have en: "doAction_end g (with_cards b h s) = map_option (\<lambda>(t, e). (with_cards b h t, e)) (doAction_end g s)" for s
    by (cases "chk32 (max_loop (\<lambda>p. blind g ! p) (numPlayers g) 1 + maxSpent s)")
      (simp_all add: doAction_end_def with_cards_def cards_counters [unfolded with_cards_def])
  show ?thesis unfolding doAction_def Let_def cards_counters
    by (auto simp: rec app rsp en map_option_bind comp_def split: bind_splits)
qed

lemma cards_initState: "initState g hid (with_cards b h s) = map_option (with_cards b h) (initState g hid s)"
  by (cases "chk32 (max_loop (\<lambda>p. blind g ! p) (numPlayers g) 0 * 2)") (simp_all add: initState_def Let_def with_cards_def)

definition card_cells :: "nat list \<Rightarrow> nat list list \<Rightarrow> bool" where
  "card_cells b h \<longleftrightarrow> length b = MAX_BOARD_CARDS \<and> length h = MAX_PLAYERS \<and> (\<forall>p<MAX_PLAYERS. length (h ! p) = MAX_HOLE_CARDS)"

lemma reachable_cards:
  assumes "reachable g s" "card_cells b h"
  shows "reachable g (with_cards b h s)"
  using assms(1)
proof (induction rule: reachable.induct)
  case (start s)
  then obtain hid s0 where "shape_state s0" "\<forall>r<numRounds g. roundSpent s0 ! r = 0" "initState g hid s0 = Some s"
    by (auto simp: hand_start_def)
  then have "shape_state (with_cards b h s0)" "\<forall>r<numRounds g. roundSpent (with_cards b h s0) ! r = 0"
    "initState g hid (with_cards b h s0) = Some (with_cards b h s)"
    using assms(2) by (simp_all add: shape_state_def card_cells_def cards_initState)
  then have "hand_start g (with_cards b h s)" unfolding hand_start_def by blast
  then show ?case by (rule reachable.start)
next
  case (step s s')
  obtain fx a a' e where "isValidAction g s fx a = Some (True, a')" "doAction g a' s = Some (s', e)"
    using step.hyps(2) by (rule bet_stepE)
  then have "bet_step g (with_cards b h s) (with_cards b h s')"
    by (intro bet_step.act [where a = a and a' = a' and roundEnd = e]) (simp_all add: cards_doAction)
  then show ?case using step.IH by (rule reachable.step [rotated])
qed

lemma reachable_shape: "playable g \<Longrightarrow> reachable g s \<Longrightarrow> shape_state s"
  using reachable_facts(2) [of g s] binvD(1) by blast

section \<open>Actions\<close>

lemma fold_valid:
  assumes "playable g" "reachable g s" "\<not> finished s"
  shows "isValidAction g s False \<lparr>act_type = a_fold, act_size = 0\<rparr> = Some (True, \<lparr>act_type = a_fold, act_size = 0\<rparr>)"
proof -
  note f = reachable_facts [OF assms(2,1)]
  note cur = turn_inv_current [OF f(1) binvD(6) [OF f(2) assms(3)]]
  have "currentPlayer g s < 10" using cur(1) wf_gameD(2) [OF f(1)] by simp
  then have "rd (spent s) (currentPlayer g s) = Some (spent s ! currentPlayer g s)"
    "rd (stack g) (currentPlayer g s) = Some (stack g ! currentPlayer g s)"
    using shape_stateD(1) [OF binvD(1) [OF f(2)]] wf_gameD(5) [OF f(1)] by (simp_all add: rd_def)
  then show ?thesis using cur(2) assms(3) by (simp add: isValidAction_def can_act_def)
qed

lemma unfixed_raise:
  assumes "isValidAction g s False a = Some (True, a')" "act_type a = a_raise"
  shows "a' = a"
  using assms by (auto simp: isValidAction_def split: bind_splits option.splits if_splits)

text \<open>The action that \<open>DoAction\<close> builds.\<close>

definition request_action :: "int \<Rightarrow> int \<Rightarrow> Action" where
  "request_action ty sz = \<lparr>act_type = action_type ty, act_size = sz\<rparr>"

lemma CheckAction_valid:
  assumes "playable g" "reachable g (rg_state rg)" "\<not> finished (rg_state rg)" "CheckAction bt g (request_action ty sz) rg = Some 0"
    "action_type ty \<noteq> a_raise \<Longrightarrow> sz = 0"
  shows "isValidAction g (rg_state rg) False (request_action ty sz) = Some (True, request_action ty sz)"
proof (cases "action_type ty")
  case a_raise
  then obtain ok a' where v: "isValidAction g (rg_state rg) False (request_action ty sz) = Some (ok, a')" "ok"
    using assms(4) by (auto simp: CheckAction_def request_action_def split: bind_splits if_splits)
  then show ?thesis using unfixed_raise a_raise by (auto simp: request_action_def)
next
  case a_invalid
  then show ?thesis using assms(4) by (simp add: CheckAction_def request_action_def)
qed (use fold_valid [OF assms(1-3)] call_always_valid [OF assms(3)] assms(5) in \<open>simp_all add: request_action_def\<close>)

lemma DoAction_cases:
  assumes "playable g" "reachable g (rg_state rg)" "games (m_nGameType rg) = Some g" "uid \<noteq> 0"
    "DoAction games bt uid ty bet rg = Some (c, rg')"
  shows "if c = 0
    then GetCurrentPlayerID games rg = uid \<and>
      (\<exists>sz. bet_amounts uid ty bet rg = Some (da_BetNum (m_oDLastAction rg'), sz) \<and>
        isValidAction g (rg_state rg) False (request_action ty sz) = Some (True, request_action ty sz) \<and>
        (\<exists>e. doAction g (request_action ty sz) (rg_state rg) = Some (rg_state rg', e))) \<and>
      viewingPlayer (m_oMatchState rg') = viewingPlayer (m_oMatchState rg)
    else m_oMatchState rg' = m_oMatchState rg"
proof -
  obtain num sz where b: "bet_amounts uid ty bet rg = Some (num, sz)"
    using assms(5) by (cases "bet_amounts uid ty bet rg") (auto simp: DoAction_def)
  let ?rg = "rg\<lparr>m_oDLastAction := \<lparr>da_type = nat (ty mod 256), da_BetNum = num, da_BetSize = sz\<rparr>\<rparr>"
  have r: "(if GetCurrentPlayerID games ?rg \<noteq> uid then Some (-1001, ?rg)
      else do { c \<leftarrow> CheckAction bt g (request_action ty sz) ?rg;
        if c \<noteq> 0 then Some (-1002, ?rg)
        else do { (s', e) \<leftarrow> doAction g (request_action ty sz) (rg_state ?rg);
          Some (0, (upd_state (\<lambda>_. s') ?rg)\<lparr>m_nActionSeq := u8 (m_nActionSeq ?rg + 1)\<rparr>) } }) = Some (c, rg')"
    using assms(3,5) b unfolding DoAction_def request_action_def by (simp add: Let_def)
  have cur: "GetCurrentPlayerID games ?rg = GetCurrentPlayerID games rg"
    using assms(3) by (simp add: GetCurrentPlayerID_def Let_def)
  show ?thesis
  proof (cases "c = 0")
    case False
    then show ?thesis using r by (auto split: if_splits bind_splits)
  next
    case True
    then obtain s' e where d: "GetCurrentPlayerID games rg = uid" "CheckAction bt g (request_action ty sz) ?rg = Some 0"
      "doAction g (request_action ty sz) (rg_state rg) = Some (s', e)"
      "rg' = (upd_state (\<lambda>_. s') ?rg)\<lparr>m_nActionSeq := u8 (m_nActionSeq ?rg + 1)\<rparr>"
      using r cur by (auto split: if_splits bind_splits)
    have "\<not> finished (rg_state rg)" using d(1) assms(4) by (auto simp: GetCurrentPlayerID_def)
    moreover have "action_type ty \<noteq> a_raise \<Longrightarrow> sz = 0" using b by (auto simp: bet_amounts_def Let_def)
    ultimately have "isValidAction g (rg_state rg) False (request_action ty sz) = Some (True, request_action ty sz)"
      using CheckAction_valid [of g ?rg bt ty sz] assms(1,2) d(2) by simp
    then show ?thesis using True d b by auto
  qed
qed

section \<open>The robot always plays a hand of the engine\<close>

text \<open>The robot is in a hand of the no-limit game that the engine can reach.\<close>

definition robot_ok :: "Game \<Rightarrow> CRunGame \<Rightarrow> bool" where
  "robot_ok g rg \<longleftrightarrow> m_nGameType rg = GAME_TYPE_NOLIMIT_2P \<and> m_nRobotID rg \<noteq> 0 \<and> viewingPlayer (m_oMatchState rg) < 2 \<and>
     reachable g (rg_state rg)"

lemma store_cards_length: "length (fst (store_cards cs j cells)) = length cells"
  by (induction cs arbitrary: j cells) (auto split: sum.split)

lemma store_hole_cards:
  assumes "shape_state s"
  shows "\<exists>h. fst (store_hole p cs s) = with_cards (boardCards s) h s \<and> card_cells (boardCards s) h"
proof -
  let ?cells = "fst (store_cards cs 0 (holeCards s ! p))"
  have "fst (store_hole p cs s) = with_cards (boardCards s) ((holeCards s)[p := ?cells]) s"
    by (simp add: store_hole_def with_cards_def split_beta)
  moreover have "length ((holeCards s)[p := ?cells] ! q) = MAX_HOLE_CARDS" if "q < MAX_PLAYERS" for q
    using that assms store_cards_length by (cases "q = p") (simp_all add: shape_state_def)
  then have "card_cells (boardCards s) ((holeCards s)[p := ?cells])" using assms by (simp add: card_cells_def shape_state_def)
  ultimately show ?thesis by blast
qed

lemma store_board_cards:
  assumes "shape_state s"
  shows "\<exists>b. fst (store_board j cs s) = with_cards b (holeCards s) s \<and> card_cells b (holeCards s)"
proof -
  have "fst (store_board j cs s) = with_cards (fst (store_cards cs j (boardCards s))) (holeCards s) s"
    by (simp add: store_board_def with_cards_def split_beta)
  moreover have "card_cells (fst (store_cards cs j (boardCards s))) (holeCards s)"
    using assms store_cards_length by (simp add: card_cells_def shape_state_def)
  ultimately show ?thesis by blast
qed

text \<open>Requests that deliver cards or end the hand leave everything but the cards and the scores as it is.\<close>

definition same_hand :: "CRunGame \<Rightarrow> CRunGame \<Rightarrow> bool" where
  "same_hand rg rg' \<longleftrightarrow> m_nRobotID rg' = m_nRobotID rg \<and> m_nPlayerID rg' = m_nPlayerID rg \<and> m_nGameType rg' = m_nGameType rg \<and>
     m_nRunState rg' = m_nRunState rg \<and> m_szCfrModel rg' = m_szCfrModel rg \<and> m_nCfrServerID rg' = m_nCfrServerID rg \<and>
     viewingPlayer (m_oMatchState rg') = viewingPlayer (m_oMatchState rg) \<and>
     (\<exists>b h. card_cells b h \<and> rg_state rg' = with_cards b h (rg_state rg))"

lemma with_cards_same [simp]: "with_cards (boardCards s) (holeCards s) s = s" "with_cards b h (with_cards b' h' s) = with_cards b h s"
  by (simp_all add: with_cards_def)

lemma shape_with_cards: "shape_state s \<Longrightarrow> card_cells b h \<Longrightarrow> shape_state (with_cards b h s)"
  by (simp add: shape_state_def card_cells_def)

lemma same_hand_state:
  assumes "m_nRobotID rg' = m_nRobotID rg" "m_nPlayerID rg' = m_nPlayerID rg" "m_nGameType rg' = m_nGameType rg"
    "m_nRunState rg' = m_nRunState rg" "m_szCfrModel rg' = m_szCfrModel rg" "m_nCfrServerID rg' = m_nCfrServerID rg"
    "m_oMatchState rg' = (m_oMatchState rg)\<lparr>ms_state := s\<rparr>" "shape_state (rg_state rg)"
    "s = rg_state rg \<or> s = fst (store_hole p cs (rg_state rg)) \<or> s = fst (store_board j ds (rg_state rg))"
  shows "same_hand rg rg'"
proof -
  have "card_cells (boardCards (rg_state rg)) (holeCards (rg_state rg))" using assms(8) by (simp add: card_cells_def shape_state_def)
  then have "\<exists>b h. card_cells b h \<and> rg_state rg = with_cards b h (rg_state rg)" by (metis with_cards_same(1))
  then have "\<exists>b h. card_cells b h \<and> s = with_cards b h (rg_state rg)"
    using store_hole_cards [OF assms(8), of p cs] store_board_cards [OF assms(8), of j ds] assms(9) by auto
  then show ?thesis using assms(1-7) by (simp add: same_hand_def)
qed

lemma same_hand_trans: "same_hand a b \<Longrightarrow> same_hand b c \<Longrightarrow> same_hand a c"
  unfolding same_hand_def with_cards_same by (elim conjE exE) (intro conjI exI; simp)

lemma same_hand_shape: "same_hand rg rg' \<Longrightarrow> shape_state (rg_state rg) \<Longrightarrow> shape_state (rg_state rg')"
  by (auto simp: same_hand_def shape_with_cards)

lemma current_simps [simp]:
  "GetCurrentPlayerID games (rg\<lparr>m_oDLastAction := d\<rparr>) = GetCurrentPlayerID games rg"
  "GetCurrentPlayerID games (rg\<lparr>m_nLastTime := t\<rparr>) = GetCurrentPlayerID games rg"
  "GetCurrentPlayerID games (rg\<lparr>m_nRunState := r\<rparr>) = GetCurrentPlayerID games rg"
  "GetCurrentPlayerID games (rg\<lparr>m_nRequestActionTime := t\<rparr>) = GetCurrentPlayerID games rg"
  "GetCurrentPlayerID games (rg\<lparr>m_nSock := fd\<rparr>) = GetCurrentPlayerID games rg"
  "GetCurrentPlayerID games (rg\<lparr>m_nUniqueID := u\<rparr>) = GetCurrentPlayerID games rg"
  by (simp_all add: GetCurrentPlayerID_def Let_def split: option.split)

lemma same_hand_current: "same_hand rg rg' \<Longrightarrow> GetCurrentPlayerID games rg' = GetCurrentPlayerID games rg"
  by (auto simp: same_hand_def GetCurrentPlayerID_def Let_def split: option.split)

lemma saved_same:
  assumes "saved games r msg code rg = Some (c, out, rg')" "same_hand rg0 (upd_state (\<lambda>_. fst r) rg)"
  shows "same_hand rg0 rg'"
proof -
  have "rg' = upd_state (\<lambda>_. fst r) rg" using assms(1) by (auto simp: saved_def save_done_def split: prod.splits option.splits bind_splits)
  then show ?thesis using assms(2) by simp
qed

lemma DoSaveCards_same:
  assumes "shape_state (rg_state rg)" "DoSaveCards games pb rg = Some (c, out, rg')"
  shows "same_hand rg rg'"
proof -
  let ?rg = "rg\<lparr>m_nTRobotRoundSeq := 0\<rparr>"
  have a: "same_hand rg rg" "same_hand rg ?rg" by (rule same_hand_state [where s = "rg_state rg", OF _ _ _ _ _ _ _ assms(1)]; simp)+
  have b: "same_hand rg (upd_state (\<lambda>_. fst (store_hole p cs (rg_state ?rg))) ?rg)" for p cs
    by (rule same_hand_state [where s = "fst (store_hole p cs (rg_state rg))" and p = p and cs = cs, OF _ _ _ _ _ _ _ assms(1)]) simp_all
  have d: "same_hand rg (upd_state (\<lambda>_. fst (store_board j cs (rg_state ?rg))) ?rg)" for j cs
    by (rule same_hand_state [where s = "fst (store_board j cs (rg_state rg))" and j = j and ds = cs, OF _ _ _ _ _ _ _ assms(1)]) simp_all
  show ?thesis using assms(2) a saved_same [OF _ b] saved_same [OF _ d] unfolding DoSaveCards_def Let_def by (auto split: if_splits)
qed

lemma SaveHistory_frame:
  assumes "SaveHistory u llen lpush now t g rg = Some (ok, rg')"
  shows "\<exists>n. rg' = rg\<lparr>m_nHistoryCnt := n\<rparr>"
  using assms by (auto simp: SaveHistory_def Let_def split: if_splits bind_splits intro: exI [of _ "m_nHistoryCnt rg"])

lemma finish_done_same:
  assumes "finish_done u llen lpush now t g notified rg = Some (c, out, rg')" "shape_state (rg_state rg)"
  shows "same_hand rg rg'"
proof -
  obtain rg1 ok rg2 where r: "book_result g rg = Some rg1" "SaveHistory u llen lpush now t g rg1 = Some (ok, rg2)"
    "rg' = rg2 \<or> rg' = rg2\<lparr>m_nAlreadySaveHistory := True\<rparr>"
    using assms(1) by (auto simp: finish_done_def Let_def split: bind_splits if_splits)
  obtain n where n: "rg2 = rg1\<lparr>m_nHistoryCnt := n\<rparr>" using SaveHistory_frame [OF r(2)] by blast
  obtain x y z where "rg1 = rg\<lparr>m_nRobotResult := x, m_nRobotScore := y, m_nPlayerScore := z\<rparr>"
    using r(1) by (auto simp: book_result_def split: bind_splits)
  then show ?thesis using r(3) n by (intro same_hand_state [where s = "rg_state rg", OF _ _ _ _ _ _ _ assms(2)]) auto
qed

lemma DoFinished_same:
  assumes "shape_state (rg_state rg)" "DoFinished games u llen lpush now t pb rg = Some (c, out, rg')"
  shows "same_hand rg rg'"
proof -
  let ?p = "(viewingPlayer (m_oMatchState rg) + 1) mod 2"
  obtain s1 b1 where 1: "store_hole ?p (take 2 (player_cards pb)) (rg_state rg) = (s1, b1)" by fastforce
  obtain s2 b2 where 2: "store_board 0 (take 5 (end_board_cards pb)) s1 = (s2, b2)" by fastforce
  let ?rg1 = "upd_state (\<lambda>_. s1) rg" let ?rg2 = "upd_state (\<lambda>_. s2) rg"
  have a: "same_hand rg rg" by (rule same_hand_state [where s = "rg_state rg", OF _ _ _ _ _ _ _ assms(1)]) auto
  have b: "same_hand rg ?rg1" by (rule same_hand_state [where s = s1 and p = ?p and cs = "take 2 (player_cards pb)", OF _ _ _ _ _ _ _ assms(1)]) (use 1 in simp_all)
  have "same_hand ?rg1 ?rg2" by (rule same_hand_state [where s = s2 and j = 0 and ds = "take 5 (end_board_cards pb)", OF _ _ _ _ _ _ _ same_hand_shape [OF b assms(1)]]) (use 2 in simp_all)
  with b have d: "same_hand rg ?rg2" by (rule same_hand_trans)
  have "same_hand rg rg'" if "finish_done u llen lpush now t g n ?rg2 = Some (c, out, rg')" for g n
    by (rule same_hand_trans [OF d finish_done_same [OF that same_hand_shape [OF d assms(1)]]])
  then show ?thesis using assms(2) a b d unfolding DoFinished_def 1
    by (auto simp: 2 split: if_splits option.splits)
qed

text \<open>Requests that name the player who acts.\<close>

definition named_player :: "request \<Rightarrow> bool" where
  "named_player rq \<longleftrightarrow> (case rq of ActionReq uid ty bet \<Rightarrow> uid \<noteq> 0 | _ \<Rightarrow> True)"

lemma DoAction_frame:
  assumes "DoAction games bt uid ty bet rg = Some (c, rg')"
  shows "m_nGameType rg' = m_nGameType rg" "m_nRobotID rg' = m_nRobotID rg" "m_nRunState rg' = m_nRunState rg"
  using assms by (auto simp: DoAction_def Let_def split: bind_splits option.splits if_splits)

lemma DoAction_not_turn:
  assumes "DoAction games bt uid ty bet rg = Some (c, rg')" "GetCurrentPlayerID games rg \<noteq> uid"
  shows "c \<noteq> 0 \<and> (\<exists>d. rg' = rg\<lparr>m_oDLastAction := d\<rparr>)"
  using assms by (auto simp: DoAction_def Let_def split: bind_splits option.splits if_splits)

lemma DoAction_ok:
  assumes "playable g" "robot_ok g rg" "games GAME_TYPE_NOLIMIT_2P = Some g" "uid \<noteq> 0" "DoAction games bt uid ty bet rg = Some (c, rg')"
  shows "robot_ok g rg'"
proof -
  have re: "reachable g (rg_state rg)" "games (m_nGameType rg) = Some g" using assms(2,3) by (simp_all add: robot_ok_def)
  note d = DoAction_cases [where games = games, OF assms(1) re assms(4,5)]
  show ?thesis
  proof (cases "c = 0")
    case True
    then have "bet_step g (rg_state rg) (rg_state rg')" using d by (auto intro: bet_step.act)
    then show ?thesis using True d assms(2) DoAction_frame [OF assms(5)] reachable.step [OF re(1)] by (simp add: robot_ok_def)
  next
    case False
    then show ?thesis using d assms(2) DoAction_frame [OF assms(5)] by (simp add: robot_ok_def)
  qed
qed

lemma DoRunMatch_ok:
  assumes "DoRunMatch games now hand banker rg = Some (c, rg')" "games GAME_TYPE_NOLIMIT_2P = Some g" "playable g" "m_nRobotID rg \<noteq> 0"
  shows "c = 0 \<and> robot_ok g rg'"
proof -
  obtain s where s: "initState g hand (zero_state\<lparr>handId := hand\<rparr>) = Some s" and c: "c = 0"
    and rg': "ms_state (m_oMatchState rg') = s" "viewingPlayer (m_oMatchState rg') < 2" "m_nGameType rg' = GAME_TYPE_NOLIMIT_2P" "m_nRobotID rg' = m_nRobotID rg"
    using assms(1,2) by (auto simp: DoRunMatch_def Let_def split: bind_splits)
  have "numRounds g \<le> 4" using assms(3) wf_gameD(4) by (simp add: playable_def)
  then have "\<forall>r<numRounds g. roundSpent (zero_state\<lparr>handId := hand\<rparr>) ! r = 0" by (simp add: zero_state_def)
  moreover have "shape_state (zero_state\<lparr>handId := hand\<rparr>)" by (simp add: shape_state_def zero_state_def)
  ultimately have "hand_start g s" unfolding hand_start_def using s by blast
  then show ?thesis using c rg' assms(4) reachable.start by (auto simp: robot_ok_def)
qed

text \<open>
  A robot in a hand that waits for its strategy server is the one to move.  A robot that could not begin its first hand, because no strategy
  server could be set, is left as \<open>Reset\<close> made it: no model, no player, and a zeroed state in which cards may have been stored.
\<close>

definition robot_live :: "Game \<Rightarrow> CRunGame \<Rightarrow> bool" where
  "robot_live g rg \<longleftrightarrow> robot_ok g rg \<and>
     (m_nRunState rg = GRS_WAIT_ROBOT_ACTION \<longrightarrow> GetCurrentPlayerID (\<lambda>_. Some g) rg = m_nRobotID rg)"

definition robot_idle :: "CRunGame \<Rightarrow> bool" where
  "robot_idle rg \<longleftrightarrow> m_nRobotID rg \<noteq> 0 \<and> m_nPlayerID rg = 0 \<and> m_nGameType rg = 0 \<and> m_szCfrModel rg = [] \<and>
     viewingPlayer (m_oMatchState rg) = 0 \<and> (\<exists>b h. card_cells b h \<and> rg_state rg = with_cards b h zero_state)"

lemma robot_live_game: "robot_live g rg \<Longrightarrow> games GAME_TYPE_NOLIMIT_2P = Some g \<Longrightarrow> GetCurrentPlayerID games rg = GetCurrentPlayerID (\<lambda>_. Some g) rg"
  by (simp add: robot_live_def robot_ok_def GetCurrentPlayerID_def)

lemma robot_shape: "playable g \<Longrightarrow> robot_live g rg \<Longrightarrow> shape_state (rg_state rg)" "robot_idle rg \<Longrightarrow> shape_state (rg_state rg)"
proof -
  have "shape_state zero_state" by (simp add: shape_state_def zero_state_def)
  then show "robot_idle rg \<Longrightarrow> shape_state (rg_state rg)" by (auto simp: robot_idle_def shape_with_cards)
qed (auto simp: robot_live_def robot_ok_def intro: reachable_shape)

lemma same_hand_keeps:
  assumes "same_hand rg rg'"
  shows "robot_live g rg \<Longrightarrow> robot_live g rg'" "robot_idle rg \<Longrightarrow> robot_idle rg'"
proof -
  obtain b h where b: "card_cells b h" "rg_state rg' = with_cards b h (rg_state rg)" using assms by (auto simp: same_hand_def)
  show "robot_live g rg \<Longrightarrow> robot_live g rg'"
    using assms same_hand_current [OF assms] reachable_cards [of g "rg_state rg" b h] b by (auto simp: same_hand_def robot_live_def robot_ok_def)
  have "rg_state rg' = with_cards b h zero_state" if "robot_idle rg" using that b(2) by (auto simp: robot_idle_def)
  then show "robot_idle rg \<Longrightarrow> robot_idle rg'" using assms b(1) by (auto simp: same_hand_def robot_idle_def)
qed

lemma robot_state_simps [simp]:
  "robot_live g (rg\<lparr>m_nLastTime := t\<rparr>) = robot_live g rg" "robot_idle (rg\<lparr>m_nLastTime := t\<rparr>) = robot_idle rg"
  "robot_live g (rg\<lparr>m_nRunState := GRS_OK\<rparr>) = robot_ok g rg" "robot_live g (rg\<lparr>m_nRunState := GRS_ERR_CARDS\<rparr>) = robot_ok g rg"
  "robot_live g (rg\<lparr>m_nRunState := GRS_ERR_PLAYER_ACTION\<rparr>) = robot_ok g rg" "robot_live g (rg\<lparr>m_nRunState := GRS_ERR_ROBOT_ACTION\<rparr>) = robot_ok g rg"
  "robot_idle (rg\<lparr>m_nRunState := r\<rparr>) = robot_idle rg" "robot_idle (rg\<lparr>m_oDLastAction := d\<rparr>) = robot_idle rg"
  by (simp_all add: robot_live_def robot_ok_def robot_idle_def)

lemma GameBegin_live:
  assumes "GameBeginNotify env pb rg = Some rg'" "env_games env GAME_TYPE_NOLIMIT_2P = Some g" "playable g" "m_nRobotID rg \<noteq> 0"
  shows "rg' = rg \<and> fst (SetCfrModel (env_conf env) (env_conn env) (env_set_param env) (bg_ai_mode pb) rg) \<noteq> 0 \<or> robot_live g rg'"
proof -
  obtain c0 rg0 where e: "SetCfrModel (env_conf env) (env_conn env) (env_set_param env) (bg_ai_mode pb) rg = (c0, rg0)" by fastforce
  note fr = SetCfrModel_frame [OF e]
  show ?thesis
  proof (cases "c0 = 0")
    case False
    then show ?thesis using assms(1) e fr by (simp add: GameBeginNotify_def)
  next
    case True
    obtain c rg1 where r: "DoRunMatch (env_games env) (env_now env) (bg_hand pb) (bg_bankerid pb) rg0 = Some (c, rg1)"
      using assms(1) e True by (auto simp: GameBeginNotify_def split: bind_splits)
    have "m_nRobotID rg0 \<noteq> 0" using fr assms(4) by auto
    then have ok: "c = 0" "robot_ok g rg1" using DoRunMatch_ok [OF r assms(2,3)] by simp_all
    have "m_nRunState rg1 = GRS_OK" using r ok(1) assms(2) by (auto simp: DoRunMatch_def Let_def split: bind_splits)
    then show ?thesis using assms(1) e True r ok
      by (auto simp: GameBeginNotify_def SetPlayerID_def SetRoomID_def Let_def robot_live_def robot_ok_def split: if_splits)
  qed
qed

lemma serve_live_action:
  assumes "playable g" "robot_live g rg" "env_games env GAME_TYPE_NOLIMIT_2P = Some g" "uid \<noteq> 0" "GameActionNotify env uid ty bet rg = Some rg'"
  shows "robot_live g rg'"
proof (cases "m_nRobotID rg = uid")
  case True
  then show ?thesis using assms(2,5) by (simp add: GameActionNotify_def)
next
  case False
  then obtain c rg1 where d: "DoAction (env_games env) (env_tree env) uid ty bet rg = Some (c, rg1)"
    "rg' = (if c \<noteq> 0 then rg1\<lparr>m_nRunState := GRS_ERR_PLAYER_ACTION\<rparr> else rg1)"
    using assms(5) by (auto simp: GameActionNotify_def split: bind_splits)
  have ok: "robot_ok g rg1" by (rule DoAction_ok [where games = "env_games env", OF assms(1) _ assms(3,4) d(1)]) (use assms(2) in \<open>simp add: robot_live_def\<close>)
  show ?thesis
  proof (cases "c = 0")
    case True
    then have "GetCurrentPlayerID (env_games env) rg = uid" using DoAction_not_turn [OF d(1)] by blast
    then have "m_nRunState rg \<noteq> GRS_WAIT_ROBOT_ACTION"
      using False assms(2) robot_live_game [where games = "env_games env", OF assms(2,3)] by (auto simp: robot_live_def)
    then show ?thesis using True d(2) ok DoAction_frame(3) [OF d(1)] by (simp add: robot_live_def)
  qed (use d(2) ok in simp)
qed

lemma serve_live_answer:
  assumes "playable g" "robot_live g rg" "env_games env GAME_TYPE_NOLIMIT_2P = Some g" "QueryActionResp env ans rg = Some rg'"
  shows "robot_live g rg'"
proof -
  have ok: "robot_ok g rg" "m_nRobotID rg \<noteq> 0" using assms(2) by (simp_all add: robot_live_def robot_ok_def)
  consider "rg' = rg" | "rg' = rg\<lparr>m_nRunState := GRS_OK\<rparr>"
    | ty sz c rg1 where "DoAction (env_games env) (env_tree env) (m_nRobotID rg) ty sz rg = Some (c, rg1)" "rg' = rg1\<lparr>m_nRunState := GRS_OK\<rparr>"
    using assms(4) by (auto simp: QueryActionResp_def split: if_splits option.splits bind_splits)
  then show ?thesis
  proof cases
    case 3
    then show ?thesis using DoAction_ok [where games = "env_games env", OF assms(1) ok(1) assms(3) ok(2)] by simp
  qed (use assms(2) ok in simp_all)
qed

lemma serve_live:
  assumes "playable g" "robot_live g rg" "env_games env GAME_TYPE_NOLIMIT_2P = Some g" "named_player rq" "serve env rq rg = Some rg'"
  shows "robot_live g rg'"
proof (cases rq)
  case (BeginReq pb)
  have "m_nRobotID rg \<noteq> 0" using assms(2) by (simp add: robot_live_def robot_ok_def)
  then show ?thesis using GameBegin_live [OF _ assms(3,1)] assms(2,5) BeginReq by (auto simp: serve_def)
next
  case (CardsReq pb)
  then obtain c out rg1 where d: "DoSaveCards (env_games env) pb rg = Some (c, out, rg1)"
    "rg' = (if c \<noteq> 0 then rg1\<lparr>m_nRunState := GRS_ERR_CARDS\<rparr> else rg1)"
    using assms(5) by (auto simp: serve_def GameSendCardsNotify_def split: bind_splits)
  have "robot_live g rg1" by (rule same_hand_keeps(1) [OF DoSaveCards_same [OF robot_shape(1) [OF assms(1,2)] d(1)] assms(2)])
  then show ?thesis using d(2) by (cases "c = 0") (simp_all add: robot_live_def robot_ok_def)
next
  case (ActionReq uid ty bet)
  then show ?thesis using serve_live_action [OF assms(1-3)] assms(4,5) by (simp add: serve_def named_player_def)
next
  case (ResultReq t pb)
  then obtain c out where "DoFinished (env_games env) (env_unsave env) (env_llen env) (env_lpush env) (env_now env) t pb rg = Some (c, out, rg')"
    using assms(5) by (auto simp: serve_def GameResultNotify_def split: bind_splits)
  then show ?thesis by (rule same_hand_keeps(1) [OF DoFinished_same [OF robot_shape(1) [OF assms(1,2)]] assms(2)])
next
  case (RobotActionReq t fd u)
  then obtain c out rg1 where d: "DoQueryRobotAction (env_games env) (env_tree env) (env_conf env) (env_conn env) (env_get_key env)
      (env_free_node env) (env_now env) t rg = Some (c, out, rg1)" "rg' = (if c \<noteq> 0 then rg1 else rg1\<lparr>m_nSock := fd, m_nUniqueID := u\<rparr>)"
    using assms(5) by (auto simp: serve_def GameRobotActionReq_def split: bind_splits)
  show ?thesis using DoQueryRobotAction_cases [OF d(1)] d(2) assms(2) robot_live_game [where games = "env_games env", OF assms(2,3)]
    by (auto simp: robot_live_def robot_ok_def split: if_splits)
next
  case QueryStateReq
  then show ?thesis using assms(2,5) by (auto simp: serve_def GameQueryStateReq_def split: bind_splits)
next
  case TimeoutReq
  then show ?thesis using assms(2,5) by (auto simp: serve_def CheckRunGameTimeout_def robot_live_def robot_ok_def split: if_splits)
next
  case (AnswerReq ans)
  then show ?thesis using serve_live_answer [OF assms(1-3)] assms(5) by (simp add: serve_def)
qed

text \<open>Nothing but the beginning of a hand changes an idle robot, provided that no strategy server has the empty name.\<close>

lemma serve_idle:
  assumes "playable g" "robot_idle rg" "env_games env GAME_TYPE_NOLIMIT_2P = Some g" "named_player rq" "GetCfrServer (env_conf env) [] = None"
    "serve env rq rg = Some rg'"
  shows "robot_idle rg' \<or> robot_live g rg'"
proof (cases rq)
  case (BeginReq pb)
  have "m_nRobotID rg \<noteq> 0" using assms(2) by (simp add: robot_idle_def)
  then show ?thesis using GameBegin_live [OF _ assms(3,1)] assms(2,6) BeginReq by (auto simp: serve_def)
next
  case (CardsReq pb)
  then obtain c out rg1 where d: "DoSaveCards (env_games env) pb rg = Some (c, out, rg1)"
    "rg' = (if c \<noteq> 0 then rg1\<lparr>m_nRunState := GRS_ERR_CARDS\<rparr> else rg1)"
    using assms(6) by (auto simp: serve_def GameSendCardsNotify_def split: bind_splits)
  then show ?thesis using same_hand_keeps(2) [OF DoSaveCards_same [OF robot_shape(2) [OF assms(2)] d(1)] assms(2)] by simp
next
  case (ActionReq uid ty bet)
  have "GetCurrentPlayerID (env_games env) rg \<in> {0, m_nRobotID rg}"
    using assms(2) by (auto simp: robot_idle_def GetCurrentPlayerID_def Let_def split: option.split)
  then show ?thesis using DoAction_not_turn [of "env_games env" "env_tree env" uid ty bet rg] assms(2,4,6) ActionReq
    by (fastforce simp: serve_def GameActionNotify_def named_player_def split: if_splits bind_splits)
next
  case (ResultReq t pb)
  then obtain c out where "DoFinished (env_games env) (env_unsave env) (env_llen env) (env_lpush env) (env_now env) t pb rg = Some (c, out, rg')"
    using assms(6) by (auto simp: serve_def GameResultNotify_def split: bind_splits)
  then show ?thesis using same_hand_keeps(2) [OF DoFinished_same [OF robot_shape(2) [OF assms(2)]] assms(2)] by blast
next
  case (RobotActionReq t fd u)
  then obtain c out rg1 where d: "DoQueryRobotAction (env_games env) (env_tree env) (env_conf env) (env_conn env) (env_get_key env)
      (env_free_node env) (env_now env) t rg = Some (c, out, rg1)" "rg' = (if c \<noteq> 0 then rg1 else rg1\<lparr>m_nSock := fd, m_nUniqueID := u\<rparr>)"
    using assms(6) by (auto simp: serve_def GameRobotActionReq_def split: bind_splits)
  have "m_szCfrModel rg = []" using assms(2) by (simp add: robot_idle_def)
  then show ?thesis using DoQueryRobotAction_cases [OF d(1)] d(2) assms(2,5) by (auto split: if_splits)
next
  case QueryStateReq
  then show ?thesis using assms(2,6) by (auto simp: serve_def GameQueryStateReq_def split: bind_splits)
next
  case TimeoutReq
  then show ?thesis using assms(2,6) by (auto simp: serve_def CheckRunGameTimeout_def split: if_splits)
next
  case (AnswerReq ans)
  have "m_szCfrModel rg = []" using assms(2) by (simp add: robot_idle_def)
  then have "answer_action (env_games env) (env_tree env) (env_conf env) (env_get_action env) ans rg = Some None"
    using assms(5) by (simp add: answer_action_def)
  then show ?thesis using assms(2,6) AnswerReq by (auto simp: serve_def QueryActionResp_def split: if_splits)
qed

section \<open>Robots as a machine\<close>

definition robot_start :: "Game \<times> CRunGame \<Rightarrow> bool" where
  "robot_start = (\<lambda>(g, rg). playable g \<and> robot_live g rg)"

definition robot_step :: "Game \<times> CRunGame \<Rightarrow> Game \<times> CRunGame \<Rightarrow> bool" where
  "robot_step = (\<lambda>(g, rg) (g', rg'). g' = g \<and>
     (\<exists>env rq. env_games env GAME_TYPE_NOLIMIT_2P = Some g \<and> named_player rq \<and> serve env rq rg = Some rg'))"

interpretation robot: inv_machine robot_start robot_step robot_start
proof
  fix a b assume "robot_start a" "robot_step a b"
  then show "robot_start b" using serve_live by (auto simp: robot_start_def robot_step_def)
qed simp

lemma serve_all_steps:
  assumes "serve_all rs rg = Some rg'" "\<forall>(env, rq) \<in> set rs. env_games env GAME_TYPE_NOLIMIT_2P = Some g \<and> named_player rq"
  shows "(robot_step ^^ length rs) (g, rg) (g, rg')"
  using assms
proof (induction rs arbitrary: rg)
  case (Cons r rs)
  obtain env rq where r: "r = (env, rq)" by (cases r)
  obtain rg1 where 1: "serve env rq rg = Some rg1" "serve_all rs rg1 = Some rg'" using Cons.prems(1) r by (auto split: bind_splits)
  then have "robot_step (g, rg) (g, rg1)" using Cons.prems(2) r by (auto simp: robot_step_def)
  moreover have "(robot_step ^^ length rs) (g, rg1) (g, rg')" using Cons.IH [OF 1(2)] Cons.prems(2) by simp
  ultimately have "(robot_step ^^ Suc (length rs)) (g, rg) (g, rg')" by (rule relpowp_Suc_I2)
  then show ?case by simp
qed simp

section \<open>Properties\<close>

text \<open>Once a hand has begun, no sequence of requests of the table server, well-formed or not, takes the robot out of the
  states that the betting engine can reach, as long as the requests name the player who acts.\<close>

lemma requests_keep_hand:
  assumes "playable g" "env_games env0 GAME_TYPE_NOLIMIT_2P = Some g"
    "fst (SetCfrModel (env_conf env0) (env_conn env0) (env_set_param env0) (bg_ai_mode pb) rg0) = 0" "m_nRobotID rg0 \<noteq> 0"
    "GameBeginNotify env0 pb rg0 = Some rg1"
    "\<forall>(env, rq) \<in> set rs. env_games env GAME_TYPE_NOLIMIT_2P = Some g \<and> named_player rq"
    "serve_all rs rg1 = Some rg2"
  shows "reachable g (rg_state rg2) \<and> viewingPlayer (m_oMatchState rg2) < 2 \<and> m_nRobotID rg2 \<noteq> 0"
proof -
  have "robot_live g rg1" using GameBegin_live [OF assms(5,2,1,4)] assms(3) by blast
  then have "robot_start (g, rg1)" using assms(1) by (simp add: robot_start_def)
  then have "robot_start (g, rg2)" by (rule robot.run_inv) (rule serve_all_steps [OF assms(7,6)])
  then show ?thesis by (simp add: robot_start_def robot_live_def robot_ok_def)
qed

definition sample_game :: Game where
  "sample_game = \<lparr>stack = [20000, 20000, 0, 0, 0, 0, 0, 0, 0, 0], blind = [100, 50, 0, 0, 0, 0, 0, 0, 0, 0],
     raiseSize = [0, 0, 0, 0], bettingType = noLimitBetting, numPlayers = 2, numRounds = 4,
     firstPlayer = [1, 0, 0, 0], maxRaises = [255, 255, 255, 255], numSuits = 4, numRanks = 13,
     numHoleCards = 2, numBoardCards = [0, 3, 1, 1]\<rparr>"

lemma playable_sample_game: "playable sample_game"
  by code_simp

definition small_tree :: CBettingTree where
  "small_tree = \<lparr>m_nBTRecords = 1, m_nInitState = 1, m_strBTFile = ''tree'',
     m_BTHashTable = [(''BTK_root'', \<lparr>node_street = 0, node_acting_player = 1, node_id = 0, node_child = [''f'', ''c'', ''r300'']\<rparr>),
       (''BTK_r300'', \<lparr>node_street = 0, node_acting_player = 0, node_id = 1, node_child = [''f'', ''c'', ''r900'']\<rparr>)]\<rparr>"

definition sample_conf :: CAPGIConf where
  "sample_conf = \<lparr>m_vCfrServer = [''model''],
     m_mapCfrServer = (\<lambda>m. if m = ''model'' then Some \<lparr>nServerID = 3, strVersion = ''v'', cfr_param = ''p''\<rparr> else None)\<rparr>"

definition sample_env :: server_env where
  "sample_env = \<lparr>env_games = (\<lambda>n. Some sample_game), env_tree = small_tree, env_now = 0, env_unsave = True, env_llen = 0,
     env_lpush = (\<lambda>j. 1), env_conf = sample_conf, env_conn = (\<lambda>n. True), env_set_param = (\<lambda>p. 0),
     env_get_key = (\<lambda>info server node. Some \<lparr>key_st = 0, key_node_id = node_id node, key_pa = 0, key_offset = 0, key_num_succ = 3\<rparr>),
     env_free_node = True, env_get_action = (\<lambda>info node resp. Some ''c''), env_local_id = 8, env_robot_timeout = 10\<rparr>"

definition fresh_robot :: CRunGame where
  "fresh_robot = Reset \<lparr>m_nRobotID = 1, m_nGameType = 1, m_szRoomID = [], m_nPlayerID = 1, m_nPlayerScore = 1, m_nActionSeq = 1,
     m_nRunState = GRS_ERR_CARDS, m_nSock = 1, m_nUniqueID = 1, m_nLastTime = 1, m_nRequestActionTime = 1, m_nLocalRoleID = 1,
     m_nLocalRoomID = 1, m_nCfrServerID = 1, m_szCfrModel = [], m_oMatchState = zero_match, m_nRobotResult = 1, m_nRobotScore = 0,
     m_nGameTime = 1, m_nHistoryCnt = 1, m_nTRobotRoundSeq = 1, m_nAlreadySaveHistory = True, m_nGameBeginTimes = 1,
     m_oDLastAction = \<lparr>da_type = 0, da_BetNum = 0, da_BetSize = 0\<rparr>\<rparr>\<lparr>m_nRobotID := 77\<rparr>"

definition sample_begin :: ThirdGameBeginNotify where
  "sample_begin = \<lparr>bg_roomid = ''room'', bg_hand = 7, bg_player_id = 5, bg_player_score = 1000, bg_bankerid = 5, bg_ai_mode = 1\<rparr>"

definition sample_robot :: CRunGame where
  "sample_robot = the (GameBeginNotify sample_env sample_begin fresh_robot)"

lemma sample_robot_begins: "GameBeginNotify sample_env sample_begin fresh_robot = Some sample_robot"
  unfolding sample_robot_def by code_simp

lemma fresh_robot_id: "m_nRobotID fresh_robot \<noteq> 0"
  by (simp add: fresh_robot_def Reset_def)

lemma sample_env_facts: "env_games sample_env GAME_TYPE_NOLIMIT_2P = Some sample_game"
  by (simp add: sample_env_def)

lemma sample_robot_live: "robot_live sample_game sample_robot"
proof -
  have "fst (SetCfrModel (env_conf sample_env) (env_conn sample_env) (env_set_param sample_env) (bg_ai_mode sample_begin) fresh_robot) = 0"
    by code_simp
  then show ?thesis using GameBegin_live [OF sample_robot_begins sample_env_facts playable_sample_game fresh_robot_id] by blast
qed

lemma CheckAction_code:
  assumes "playable g" "reachable g (rg_state rg)" "GetAllowRaises bt rg = Some r"
  shows "\<exists>c. CheckAction bt g a rg = Some c \<and> (c = 0 \<longleftrightarrow> act_type a \<noteq> a_invalid \<and>
    (act_type a = a_raise \<longrightarrow> isValidAction g (rg_state rg) False a = Some (True, a) \<and> (\<exists>vs. r = Inr vs \<and> act_size a \<in> set vs)))"
proof (cases "act_type a = a_raise")
  case True
  note f = reachable_facts [OF assms(2,1)]
  obtain ok a' where v: "isValidAction g (rg_state rg) False a = Some (ok, a')" using isValidAction_defined [OF f(1,2)] by blast
  then have "ok \<Longrightarrow> a' = a" using unfixed_raise True by auto
  then show ?thesis using True v assms(3) by (cases ok; cases r) (auto simp: CheckAction_def)
next
  case False
  then show ?thesis by (cases "act_type a") (auto simp: CheckAction_def)
qed

text \<open>C7: \<open>DoAction\<close> carries an action out if and only if it is the turn of the player who is named and the action is a fold, a call, or a raise
  that the engine accepts and the betting tree lists; otherwise the hand stays as it is.  The hypotheses name the only ways in which
  it can fail to return: a bet that overflows, and a node of the betting tree whose numbers cannot be read or whose texts do not fit the log
  buffer.  The game is playable.\<close>

theorem action_accepted:
  assumes "playable g" "robot_ok g rg" "games GAME_TYPE_NOLIMIT_2P = Some g" "uid \<noteq> 0"
    "bet_amounts uid ty bet rg = Some (n, sz)" "GetAllowRaises bt rg = Some r"
  shows "\<exists>c rg'. DoAction games bt uid ty bet rg = Some (c, rg') \<and>
    (c = 0 \<longleftrightarrow> GetCurrentPlayerID games rg = uid \<and> action_type ty \<noteq> a_invalid \<and>
      (action_type ty = a_raise \<longrightarrow>
        isValidAction g (rg_state rg) False (request_action ty sz) = Some (True, request_action ty sz) \<and> (\<exists>vs. r = Inr vs \<and> sz \<in> set vs))) \<and>
    (if c = 0 then \<exists>e. doAction g (request_action ty sz) (rg_state rg) = Some (rg_state rg', e) else m_oMatchState rg' = m_oMatchState rg)"
proof -
  let ?a = "request_action ty sz"
  let ?rg = "rg\<lparr>m_oDLastAction := \<lparr>da_type = nat (ty mod 256), da_BetNum = n, da_BetSize = sz\<rparr>\<rparr>"
  have re: "reachable g (rg_state rg)" "games (m_nGameType rg) = Some g" using assms(2,3) by (simp_all add: robot_ok_def)
  note f = reachable_facts [OF re(1) assms(1)]
  have cur: "GetCurrentPlayerID games ?rg = GetCurrentPlayerID games rg"
    using re(2) by (simp add: GetCurrentPlayerID_def Let_def)
  have "GetAllowRaises bt ?rg = Some r" using assms(6) by (simp add: GetAllowRaises_def)
  then obtain c where c: "CheckAction bt g ?a ?rg = Some c" "c = 0 \<longleftrightarrow> act_type ?a \<noteq> a_invalid \<and>
      (act_type ?a = a_raise \<longrightarrow> isValidAction g (rg_state rg) False ?a = Some (True, ?a) \<and> (\<exists>vs. r = Inr vs \<and> act_size ?a \<in> set vs))"
    using CheckAction_code [of g ?rg bt r ?a] assms(1) re(1) by auto
  have run: "DoAction games bt uid ty bet rg =
      (if GetCurrentPlayerID games rg \<noteq> uid then Some (-1001, ?rg)
       else if c \<noteq> 0 then Some (-1002, ?rg)
       else do { (s', e) \<leftarrow> doAction g ?a (rg_state rg);
         Some (0, (upd_state (\<lambda>_. s') ?rg)\<lparr>m_nActionSeq := u8 (m_nActionSeq ?rg + 1)\<rparr>) })"
    using assms(5) re(2) cur c(1) by (simp add: DoAction_def Let_def request_action_def)
  show ?thesis
  proof (cases "GetCurrentPlayerID games rg = uid \<and> c = 0")
    case True
    have "\<not> finished (rg_state rg)" using True assms(4) by (auto simp: GetCurrentPlayerID_def)
    moreover have "action_type ty \<noteq> a_raise \<Longrightarrow> sz = 0" using assms(5) by (auto simp: bet_amounts_def Let_def)
    ultimately have v: "isValidAction g (rg_state rg) False ?a = Some (True, ?a)"
      using CheckAction_valid [of g ?rg bt ty sz] assms(1) re(1) c(1) True by simp
    obtain s' e where "doAction g ?a (rg_state rg) = Some (s', e)" using doAction_defined [OF f(1,2,4,3) v] by blast
    then show ?thesis using True run c(2) by (simp add: request_action_def)
  next
    case False
    then show ?thesis using run c(2) by (auto simp: request_action_def)
  qed
qed

theorem action_accepted_witness:
  "\<exists>rg'. DoAction (\<lambda>n. Some sample_game) small_tree 5 2 250 sample_robot = Some (0, rg') \<and> maxSpent (rg_state rg') = 300"
proof -
  have ok: "robot_ok sample_game sample_robot" using sample_robot_live by (simp add: robot_live_def)
  have b: "bet_amounts 5 2 250 sample_robot = Some (250, 300)" "GetAllowRaises small_tree sample_robot = Some (Inr [300])"
    "GetCurrentPlayerID (\<lambda>n. Some sample_game) sample_robot = 5"
    unfolding sample_robot_def by code_simp+
  have "isValidAction sample_game (rg_state sample_robot) False (request_action 2 300) = Some (True, request_action 2 300)"
    "map_option (\<lambda>(s, e). maxSpent s) (doAction sample_game (request_action 2 300) (rg_state sample_robot)) = Some 300"
    unfolding sample_robot_def by code_simp+
  then show ?thesis
    using action_accepted [OF playable_sample_game ok _ _ b(1,2), of "\<lambda>n. Some sample_game"] b(3)
    by (auto simp: action_type_def split: if_splits)
qed

lemma finish_done_scores:
  assumes "finish_done u llen lpush now t g notified rg = Some (c, out, rg')"
  shows "m_nRobotScore rg' = m_nRobotScore rg + m_nRobotResult rg' \<and> m_nPlayerScore rg' = m_nPlayerScore rg - m_nRobotResult rg' \<and>
    m_oMatchState rg' = m_oMatchState rg \<and>
    (\<exists>v. valueOfState g (rg_state rg) (viewingPlayer (m_oMatchState rg)) = Some v \<and> to_int32 v = Some (m_nRobotResult rg')) \<and>
    (m_nAlreadySaveHistory rg' \<longleftrightarrow> c = 0 \<or> m_nAlreadySaveHistory rg) \<and> (c = 0 \<or> c = -112)"
proof -
  obtain rg1 ok rg2 where r: "book_result g rg = Some rg1" "SaveHistory u llen lpush now t g rg1 = Some (ok, rg2)"
    "if ok then c = 0 \<and> rg' = rg2\<lparr>m_nAlreadySaveHistory := True\<rparr> else c = -112 \<and> rg' = rg2"
    using assms by (auto simp: finish_done_def Let_def split: bind_splits if_splits)
  obtain n where "rg2 = rg1\<lparr>m_nHistoryCnt := n\<rparr>" using SaveHistory_frame [OF r(2)] by blast
  then show ?thesis using r(1,3)
    by (cases ok) (auto simp: book_result_def chk32_Some_iff split: bind_splits)
qed

lemma DoFinished_scores:
  assumes "DoFinished games u llen lpush now t pb rg = Some (c, out, rg')" "\<not> m_nAlreadySaveHistory rg" "c = 0 \<or> c = -112"
  shows "finished (rg_state rg) \<and> m_nRobotScore rg' = m_nRobotScore rg + m_nRobotResult rg' \<and>
    m_nPlayerScore rg' = m_nPlayerScore rg - m_nRobotResult rg' \<and>
    (\<exists>g v. games (m_nGameType rg) = Some g \<and> valueOfState g (rg_state rg') (viewingPlayer (m_oMatchState rg)) = Some v \<and>
      to_int32 v = Some (m_nRobotResult rg')) \<and>
    (m_nAlreadySaveHistory rg' \<longleftrightarrow> c = 0)"
proof -
  let ?p = "(viewingPlayer (m_oMatchState rg) + 1) mod 2"
  obtain s1 b1 where 1: "store_hole ?p (take 2 (player_cards pb)) (rg_state rg) = (s1, b1)" by fastforce
  obtain s2 b2 where 2: "store_board 0 (take 5 (end_board_cards pb)) s1 = (s2, b2)" by fastforce
  obtain g where g: "finished (rg_state rg)" "games (m_nGameType rg) = Some g"
    "finish_done u llen lpush now t g (robotresult pb) (upd_state (\<lambda>_. s2) rg) = Some (c, out, rg')"
    using assms unfolding DoFinished_def 1 by (auto simp: 2 split: if_splits option.splits)
  note f = finish_done_scores [OF g(3)]
  then have "m_oMatchState rg' = (m_oMatchState rg)\<lparr>ms_state := s2\<rparr>" by simp
  then show ?thesis using f g(1,2) assms(2) by auto
qed

text \<open>C8: when \<open>DoFinished\<close> succeeds for the first time, the hand was finished, the robot's score has grown by its result and the player's
  has shrunk by as much, the result is the value of the hand to the robot, and every further request to finish this hand
  changes nothing.  (In a game with four rounds this concerns hands whose history is not stored: \<open>SaveHistory\<close> is undefined there.)\<close>

theorem scores_booked_once:
  assumes "\<not> m_nAlreadySaveHistory rg" "DoFinished games u llen lpush now t pb rg = Some (0, out, rg')"
  shows "finished (rg_state rg) \<and> m_nRobotScore rg' = m_nRobotScore rg + m_nRobotResult rg' \<and>
    m_nPlayerScore rg' = m_nPlayerScore rg - m_nRobotResult rg' \<and>
    (\<exists>g v. games (m_nGameType rg) = Some g \<and> valueOfState g (rg_state rg') (viewingPlayer (m_oMatchState rg)) = Some v \<and>
      to_int32 v = Some (m_nRobotResult rg')) \<and>
    (\<forall>games' u' llen' lpush' now' t' pb'. DoFinished games' u' llen' lpush' now' t' pb' rg' = Some (0, ''Already save history'', rg'))"
  using DoFinished_scores [OF assms(2,1)] by (auto simp: DoFinished_def)

definition folded_robot :: CRunGame where
  "folded_robot = the (serve_all [(sample_env, ActionReq 5 0 0)] sample_robot)"

definition sample_end :: ThirdGameEndNotify where
  "sample_end = \<lparr>robotresult = 50, player_cards = [], end_board_cards = []\<rparr>"

theorem scores_booked_once_witness:
  "\<exists>out rg'. DoFinished (\<lambda>n. Some sample_game) True 0 (\<lambda>j. 1) 9 ''t'' sample_end folded_robot = Some (0, out, rg') \<and>
    m_nRobotScore rg' = 50 \<and> m_nPlayerScore rg' = 950 \<and>
    DoFinished (\<lambda>n. Some sample_game) True 0 (\<lambda>j. 1) 9 ''t'' sample_end rg' = Some (0, ''Already save history'', rg')"
proof -
  have a: "\<not> m_nAlreadySaveHistory folded_robot"
    "m_nRobotScore folded_robot = 0" "m_nPlayerScore folded_robot = 1000"
    unfolding folded_robot_def sample_robot_def by code_simp+
  have "map_option (\<lambda>(c, out, rg). (c, m_nRobotResult rg)) (DoFinished (\<lambda>n. Some sample_game) True 0 (\<lambda>j. 1) 9 ''t'' sample_end folded_robot) = Some (0, 50)"
    unfolding folded_robot_def sample_robot_def by code_simp
  then obtain out rg' where d: "DoFinished (\<lambda>n. Some sample_game) True 0 (\<lambda>j. 1) 9 ''t'' sample_end folded_robot = Some (0, out, rg')"
    "m_nRobotResult rg' = 50" by auto
  then show ?thesis using scores_booked_once [OF a(1) d(1)] a by simp
qed





text \<open>The hand of \<open>sample_robot\<close>, called and checked down to the showdown.\<close>

fun all_calls :: "int list \<Rightarrow> CRunGame \<Rightarrow> CRunGame option" where
  "all_calls [] rg = Some rg"
| "all_calls (uid # us) rg =
     (case DoAction (\<lambda>n. Some sample_game) small_tree uid 1 0 rg of Some (c, rg') \<Rightarrow> all_calls us rg' | None \<Rightarrow> None)"

lemma all_calls_ok: "all_calls us rg = Some rg' \<Longrightarrow> 0 \<notin> set us \<Longrightarrow> robot_ok sample_game rg \<Longrightarrow> robot_ok sample_game rg'"
proof (induction us arbitrary: rg)
  case (Cons uid us)
  then obtain c rg1 where d: "DoAction (\<lambda>n. Some sample_game) small_tree uid 1 0 rg = Some (c, rg1)" "all_calls us rg1 = Some rg'"
    by (auto split: option.splits)
  have "robot_ok sample_game rg1" by (rule DoAction_ok [OF playable_sample_game Cons.prems(3) refl _ d(1)]) (use Cons.prems(2) in auto)
  then show ?case using Cons.IH [OF d(2)] Cons.prems(2) by simp
qed simp

definition showdown_robot :: CRunGame where
  "showdown_robot = the (all_calls [5, 77, 77, 5, 77, 5, 77, 5] sample_robot)"

text \<open>A fold that reaches the engine after the end of a hand.\<close>

lemma fold_after_end:
  assumes "playable g" "reachable g s" "numPlayers g = 2" "finished s" "numFolded g s = 0" "x < 2" "spent s ! x < stack g ! x"
    "numActions s ! round_no s < MAX_NUM_ACTIONS"
  shows "currentPlayer g s < 2 \<and> (\<exists>s' e. doAction g \<lparr>act_type = a_fold, act_size = 0\<rparr> s = Some (s', e) \<and> finished s' \<and>
    spent s' = spent s \<and> playerFolded s' = (playerFolded s)[currentPlayer g s := True])"
proof -
  note f = reachable_facts [OF assms(2,1)]
  note sh = binvD(1) [OF f(2)]
  let ?p = "currentPlayer g s" let ?a = "\<lparr>act_type = a_fold, act_size = 0\<rparr>"
  have "card {q. q < numPlayers g \<and> playerFolded s ! q} = 0" using assms(5) numFolded_card [OF f(1), of s] by simp
  then have act: "can_act g s x" using assms(3,6,7) by (auto simp: can_act_def)
  have "nextPlayer g s c < 2" for c
  proof -
    obtain k where "nextPlayer g s c = (c + 1 + k) mod numPlayers g" by (rule nextPlayer_first [of x g s c]) (use act assms(3,6) in auto)
    then show ?thesis using assms(3) by simp
  qed
  then have p: "?p < 2" by (simp add: currentPlayer_def Let_def)
  obtain s1 where rec: "doAction_record ?a ?p s = Some s1" using assms(8) by (simp add: doAction_record_def Let_def)
  have r: "round_no s < 4" using binvD(2) [OF f(2)] wf_gameD(4) [OF f(1)] by simp
  note s1 = record_stage [OF sh r _ rec]
  let ?s2 = "s1\<lparr>playerFolded := (playerFolded s1)[?p := True]\<rparr>"
  have fold: "doAction_fold ?p s1 = Some ?s2" using p shape_stateD(2) [OF s1(1)] by (simp add: doAction_fold_def wr_def)
  obtain s3 where s3: "doAction_roundSpent ?a ?s2 = Some s3" by (cases "round_no s1 = 0") (simp_all add: doAction_roundSpent_def)
  have "\<exists>v. s3 = ?s2\<lparr>roundSpent := v\<rparr>" using roundSpent_stage [OF s3] by blast
  then have k: "spent s3 = spent s" "playerFolded s3 = (playerFolded s)[?p := True]" using s1(4,5) p by auto
  have "?p \<in> {q. q < numPlayers g \<and> playerFolded s3 ! q}" using k(2) p assms(3) shape_stateD(2) [OF sh] by simp
  then have "0 < card {q. q < numPlayers g \<and> playerFolded s3 ! q}" by (subst card_gt_0_iff) auto
  then have "1 \<le> numFolded g s3" using numFolded_card [OF f(1), of s3] by simp
  then have "doAction_end g s3 = Some (s3\<lparr>finished := True\<rparr>, True)" using assms(3) by (simp add: doAction_end_def)
  then have "doAction g ?a s = Some (s3\<lparr>finished := True\<rparr>, True)" using rec fold s3 by (simp add: doAction_def doAction_apply_def Let_def)
  then show ?thesis using p k by (intro conjI exI [of _ "s3\<lparr>finished := True\<rparr>"] exI [of _ True]) simp_all
qed

text \<open>C39: an action request that leaves the player's number 0 is taken for the player to move once a hand is over, because \<open>GetCurrentPlayerID\<close> then
  returns 0.  In every finished hand of a two-player no-limit game in which nobody has folded and somebody has chips left, a fold without a
  number is carried out and reported as a success: one player is marked as folded and loses what is in the pot, whatever the cards.
  (The hypothesis on \<open>numActions\<close> says that the record of the round has room for one more action.)\<close>

theorem unnamed_player_folds:
  assumes "playable g" "robot_ok g rg" "env_games env GAME_TYPE_NOLIMIT_2P = Some g" "numPlayers g = 2" "bettingType g = noLimitBetting"
    "finished (rg_state rg)" "numFolded g (rg_state rg) = 0" "x < 2" "spent (rg_state rg) ! x < stack g ! x"
    "numActions (rg_state rg) ! round_no (rg_state rg) < MAX_NUM_ACTIONS"
  shows "\<exists>rg' p. GameActionNotify env 0 0 bet rg = Some rg' \<and> m_nRunState rg' = m_nRunState rg \<and> finished (rg_state rg') \<and> p < 2 \<and>
    playerFolded (rg_state rg') ! p \<and> valueOfState g (rg_state rg') p = Some (- of_int (spent (rg_state rg) ! p)) \<and>
    valueOfState g (rg_state rg') (1 - p) = Some (of_int (spent (rg_state rg) ! p))"
proof -
  let ?s = "rg_state rg" let ?p = "currentPlayer g ?s"
  have ok: "reachable g ?s" "m_nRobotID rg \<noteq> 0" "env_games env (m_nGameType rg) = Some g" using assms(2,3) by (simp_all add: robot_ok_def)
  note f = reachable_facts [OF ok(1) assms(1)]
  obtain s' e where d: "?p < 2" "doAction g \<lparr>act_type = a_fold, act_size = 0\<rparr> ?s = Some (s', e)" "finished s'"
    "spent s' = spent ?s" "playerFolded s' = (playerFolded ?s)[?p := True]"
    using fold_after_end [OF assms(1) ok(1) assms(4,6-10)] by blast
  let ?rg = "upd_state (\<lambda>_. s') (rg\<lparr>m_oDLastAction := \<lparr>da_type = 0, da_BetNum = 0, da_BetSize = 0\<rparr>\<rparr>)\<lparr>m_nActionSeq := u8 (m_nActionSeq rg + 1)\<rparr>"
  have "GetCurrentPlayerID (env_games env) rg = 0" using assms(6) by (simp add: GetCurrentPlayerID_def)
  then have run: "GameActionNotify env 0 0 bet rg = Some ?rg"
    using ok d(2) by (simp add: GameActionNotify_def DoAction_def bet_amounts_def action_type_def CheckAction_def Let_def)
  have no: "{q. q < 2 \<and> playerFolded ?s ! q} = {}" using numFolded_card [OF f(1), of ?s] assms(4,7) by simp
  have len: "length (playerFolded ?s) = 10" using shape_stateD(2) [OF binvD(1) [OF f(2)]] .
  have p: "?p = 0 \<or> ?p = 1" using d(1) by linarith
  then have fo: "playerFolded s' ! ?p" "\<not> playerFolded s' ! (1 - ?p)" using len d(5) no by (auto simp: nth_list_update)
  have "{q. q < 2 \<and> playerFolded s' ! q} = {?p}" using d(1,5) no len by (auto simp: nth_list_update split: if_splits)
  then have n: "numFolded g s' = 1" using numFolded_card [OF f(1), of s'] assms(4) by simp
  have "0 \<le> spent ?s ! ?p" "spent ?s ! ?p < 2 ^ 30"
    using binvD(3) [OF f(2)] f(4) d(1) assms(4,5) by (fastforce simp: money_inv_def fits_game_def)+
  then have "chk32 (- (spent ?s ! ?p)) = Some (- (spent ?s ! ?p))" by (simp add: chk32_def)
  then have v: "valueOfState g s' ?p = Some (- of_int (spent ?s ! ?p))" using fo(1) d(1,4,5) len by (simp add: valueOfState_def rd_def)
  have w: "valueOfState g s' (1 - ?p) = Some (of_int (spent ?s ! ?p))"
    using p fo(2) d(4,5) len n assms(4) by (elim disjE) (simp_all add: valueOfState_def rd_def eval_nat_numeral)
  show ?thesis using run d(1,3) fo(1) v w by (intro exI [of _ ?rg] exI [of _ ?p]) simp
qed

theorem unnamed_player_folds_witness:
  "\<exists>rg' p. GameActionNotify sample_env 0 0 0 showdown_robot = Some rg' \<and> numFolded sample_game (rg_state showdown_robot) = 0 \<and>
    playerFolded (rg_state rg') ! p \<and> valueOfState sample_game (rg_state rg') p = Some (-100)"
proof -
  have "\<not> Option.is_none (all_calls [5, 77, 77, 5, 77, 5, 77, 5] sample_robot)" unfolding sample_robot_def by code_simp
  then have "all_calls [5, 77, 77, 5, 77, 5, 77, 5] sample_robot = Some showdown_robot" by (auto simp: showdown_robot_def Option.is_none_def)
  then have ok: "robot_ok sample_game showdown_robot" by (rule all_calls_ok) (use sample_robot_live in \<open>simp_all add: robot_live_def\<close>)
  have a: "finished (rg_state showdown_robot)" "numFolded sample_game (rg_state showdown_robot) = 0"
    "spent (rg_state showdown_robot) ! 0 < stack sample_game ! 0"
    "numActions (rg_state showdown_robot) ! round_no (rg_state showdown_robot) < MAX_NUM_ACTIONS"
    "list_all (\<lambda>p. spent (rg_state showdown_robot) ! p = 100) [0..<2]"
    unfolding showdown_robot_def sample_robot_def by code_simp+
  have g: "numPlayers sample_game = 2" "bettingType sample_game = noLimitBetting" by (simp_all add: sample_game_def)
  have "(0 :: nat) < 2" by simp
  then obtain rg' p where d: "GameActionNotify sample_env 0 0 0 showdown_robot = Some rg'" "p < 2" "playerFolded (rg_state rg') ! p"
    "valueOfState sample_game (rg_state rg') p = Some (- of_int (spent (rg_state showdown_robot) ! p))"
    using unnamed_player_folds [OF playable_sample_game ok sample_env_facts g a(1,2) _ a(3,4), of 0] by blast
  moreover have "spent (rg_state showdown_robot) ! p = 100" using a(5) d(2) by (simp add: list_all_iff)
  ultimately show ?thesis using a(2) by auto
qed

text \<open>The amount of a player's raise is added to the chips in the pot before anything is checked: a huge amount overflows.\<close>

theorem raise_overflows:
  assumes "uid \<noteq> m_nRobotID rg" "viewingPlayer (m_oMatchState rg) < 2" "length (spent (rg_state rg)) = MAX_PLAYERS"
    "0 < spent (rg_state rg) ! ((viewingPlayer (m_oMatchState rg) + 1) mod 2)"
  shows "DoAction games bt uid 2 INT32_MAX rg = None"
proof -
  have "(viewingPlayer (m_oMatchState rg) + 1) mod 2 < length (spent (rg_state rg))" using assms(3) by simp
  then show ?thesis using assms(1,4) by (simp add: DoAction_def bet_amounts_def Let_def action_type_def chk32_def)
qed

theorem raise_overflows_witness: "DoAction (\<lambda>n. Some sample_game) small_tree 5 2 INT32_MAX sample_robot = None"
proof -
  have "5 \<noteq> m_nRobotID sample_robot" "viewingPlayer (m_oMatchState sample_robot) < 2" "length (spent (rg_state sample_robot)) = MAX_PLAYERS"
    "0 < spent (rg_state sample_robot) ! ((viewingPlayer (m_oMatchState sample_robot) + 1) mod 2)"
    unfolding sample_robot_def by code_simp+
  then show ?thesis by (rule raise_overflows)
qed

end
