(* ===== verification/Robot_Server.thy ===== *)
theory Robot_Server
  imports Robot_Table Table_Requests
begin

text \<open>
  The handlers of \<open>apg_task.cpp\<close> and \<open>cfr_task.cpp\<close> on the table of robots: a request is looked up by the number of the robot, a new robot is added
  when a hand begins, and a robot that has been idle for too long is removed.  So the guarantees of the table, of the handlers and
  of the betting engine come together here: every robot in the table plays a hand that the engine can reach, or has never begun one because
  no strategy server could be set.
\<close>

section \<open>Handlers on the table\<close>

type_synonym robot_server = "robot_map \<times> int set"

text \<open>A handler works on the game that the pointer leads to.\<close>

definition at_node :: "nat \<Rightarrow> (CRunGame \<Rightarrow> CRunGame option) \<Rightarrow> robot_map \<Rightarrow> robot_map option" where
  "at_node i f m = do { n \<leftarrow> rd (nodes m) i; g \<leftarrow> f (n_val n); upd_node i (\<lambda>n. n\<lparr>n_val := g\<rparr>) m }"

definition on_robot :: "int \<Rightarrow> bool \<Rightarrow> int \<Rightarrow> (CRunGame \<Rightarrow> CRunGame option) \<Rightarrow> robot_map \<Rightarrow> robot_map option" where
  "on_robot nRobotID bUpdateTime now f m =
     do {
       (p, m1) \<leftarrow> Robots_Get nRobotID bUpdateTime now m;
       (case p of None \<Rightarrow> Some m1 | Some i \<Rightarrow> at_node i f m1)
     }"

text \<open>\<open>GameBeginNotify\<close>: a robot that is not there is added first; \<open>raw\<close> is the memory of \<open>CRunGame oRunGame\<close>.\<close>

definition task_begin :: "server_env \<Rightarrow> CRunGame \<Rightarrow> int \<Rightarrow> ThirdGameBeginNotify \<Rightarrow> robot_server \<Rightarrow> robot_server option" where
  "task_begin env raw nRobotID pb = (\<lambda>(m, T).
     if nRobotID = 0 then Some (m, T)
     else do {
       (p, m1) \<leftarrow> Robots_Get nRobotID True (env_now env) m;
       (case p of
          Some i \<Rightarrow> do { m2 \<leftarrow> at_node i (GameBeginNotify env pb) m1; Some (m2, T) }
        | None \<Rightarrow>
            do {
              (c, ts, m2) \<leftarrow> Robots_Add ((Reset raw)\<lparr>m_nRobotID := nRobotID\<rparr>) (env_now env) m1;
              if c \<noteq> 0 then Some (m2, timers_after ts T)
              else do { m3 \<leftarrow> on_robot nRobotID True (env_now env) (GameBeginNotify env pb) m2; Some (m3, timers_after ts T) }
            })
     })"

definition task_timer :: "server_env \<Rightarrow> int \<Rightarrow> int \<Rightarrow> robot_server \<Rightarrow> robot_server option" where
  "task_timer env nDataTimeout nRobotID = (\<lambda>(m, T).
     do {
       late \<leftarrow> Robots_IsTimeOut nRobotID (env_now env) nDataTimeout m;
       if late then do { (c, ts, m') \<leftarrow> Robots_Del nRobotID m; Some (m', timers_after ts T) }
       else do { m' \<leftarrow> on_robot nRobotID False (env_now env) (\<lambda>g. Some (CheckRunGameTimeout env g)) m; Some (m', T) }
     })"

text \<open>
  The requests that concern a robot, as the task threads of \<open>apgi_svr.cpp\<close> dispatch them; the others (registration, keep-alive, statistics, the
  timer of clients) do not touch the table of robots.  The answer of the strategy server and the timer are the only ones without a check
  for the number 0.
\<close>

definition task :: "server_env \<Rightarrow> int \<Rightarrow> CRunGame \<Rightarrow> int \<Rightarrow> request \<Rightarrow> robot_server \<Rightarrow> robot_server option" where
  "task env nDataTimeout raw nRobotID rq s =
     (case rq of
        BeginReq pb \<Rightarrow> task_begin env raw nRobotID pb s
      | TimeoutReq \<Rightarrow> task_timer env nDataTimeout nRobotID s
      | AnswerReq ans \<Rightarrow> do { m' \<leftarrow> on_robot nRobotID True (env_now env) (serve env rq) (fst s); Some (m', snd s) }
      | _ \<Rightarrow>
          if nRobotID = 0 then Some s
          else do { m' \<leftarrow> on_robot nRobotID True (env_now env) (serve env rq) (fst s); Some (m', snd s) })"

fun task_all :: "(server_env \<times> int \<times> CRunGame \<times> int \<times> request) list \<Rightarrow> robot_server \<Rightarrow> robot_server option" where
  "task_all [] s = Some s"
| "task_all ((env, limit, raw, x, rq) # rs) s = do { s1 \<leftarrow> task env limit raw x rq s; task_all rs s1 }"

section \<open>Handlers keep the number of the robot\<close>

lemma serve_id:
  assumes "serve env rq rg = Some rg'"
  shows "m_nRobotID rg' = m_nRobotID rg"
proof (cases rq)
  case (BeginReq pb)
  obtain c0 rg0 where e: "SetCfrModel (env_conf env) (env_conn env) (env_set_param env) (bg_ai_mode pb) rg = (c0, rg0)" by fastforce
  have "m_nRobotID rg0 = m_nRobotID rg" using SetCfrModel_frame [OF e] by auto
  then show ?thesis using assms BeginReq e
    by (auto simp: serve_def GameBeginNotify_def DoRunMatch_def SetPlayerID_def SetRoomID_def Let_def split: if_splits bind_splits option.splits prod.splits)
next
  case (CardsReq pb)
  then show ?thesis using assms
    by (auto simp: serve_def GameSendCardsNotify_def DoSaveCards_def saved_def save_done_def Let_def split: if_splits bind_splits option.splits prod.splits)
next
  case (ActionReq uid ty bet)
  then show ?thesis using assms DoAction_frame(2) by (auto simp: serve_def GameActionNotify_def split: if_splits bind_splits)
next
  case (ResultReq t pb)
  have "m_nRobotID r' = m_nRobotID r" if "finish_done u llen lpush now t g n r = Some (c, out, r')" for u llen lpush now t g n c out and r r' :: CRunGame
    using that SaveHistory_frame by (fastforce simp: finish_done_def book_result_def Let_def split: bind_splits if_splits)
  then show ?thesis using assms ResultReq
    by (fastforce simp: serve_def GameResultNotify_def DoFinished_def split: if_splits bind_splits option.splits prod.splits)
next
  case (RobotActionReq t fd u)
  then show ?thesis using assms by (auto simp: serve_def GameRobotActionReq_def dest!: DoQueryRobotAction_cases split: bind_splits if_splits)
next
  case QueryStateReq
  then show ?thesis using assms by (auto simp: serve_def GameQueryStateReq_def split: bind_splits)
next
  case TimeoutReq
  then show ?thesis using assms by (auto simp: serve_def CheckRunGameTimeout_def split: if_splits)
next
  case (AnswerReq ans)
  then show ?thesis using assms DoAction_frame(2)
    by (auto simp: serve_def QueryActionResp_def split: if_splits bind_splits option.splits prod.splits)
qed


section \<open>Every robot plays a hand of the engine\<close>

definition robot_fine :: "Game \<Rightarrow> CRunGame \<Rightarrow> bool" where
  "robot_fine g rg \<longleftrightarrow> robot_live g rg \<or> robot_idle rg"

definition server_ok :: "Game \<Rightarrow> robot_server \<Rightarrow> bool" where
  "server_ok g s \<longleftrightarrow> (\<exists>e cap. robots s (e, cap) \<and> (\<forall>x rg. e x = Some rg \<longrightarrow> robot_fine g rg))"

lemma robot_fine_time [simp]: "robot_fine g (rg\<lparr>m_nLastTime := t\<rparr>) = robot_fine g rg"
  by (simp add: robot_fine_def)

text \<open>The robot that \<open>GameBeginNotify\<close> adds.\<close>

lemma new_robot_idle: "x \<noteq> 0 \<Longrightarrow> robot_idle ((Reset raw)\<lparr>m_nRobotID := x\<rparr>)"
proof -
  have "card_cells (boardCards zero_state) (holeCards zero_state)" by (simp add: card_cells_def zero_state_def)
  then have "\<exists>b h. card_cells b h \<and> zero_state = with_cards b h zero_state" by (metis with_cards_same(1))
  then show "x \<noteq> 0 \<Longrightarrow> ?thesis" by (simp add: robot_idle_def Reset_def zero_match_def)
qed

lemma at_node_ok:
  assumes r: "robots (m, T) (e, cap)" and i: "robot_at m i x e" and others: "\<forall>y rg. y \<noteq> x \<longrightarrow> e y = Some rg \<longrightarrow> robot_fine g rg"
    and f: "\<And>rg rg'. e x = Some rg \<Longrightarrow> f rg = Some rg' \<Longrightarrow> m_nRobotID rg' = m_nRobotID rg \<and> robot_fine g rg'"
    and run: "at_node i f m = Some m'"
  shows "server_ok g (m', T)"
proof -
  note v = robot_at_val [OF i]
  obtain rg' where rg': "f (n_val (nodes m ! i)) = Some rg'" "upd_node i (\<lambda>n. n\<lparr>n_val := rg'\<rparr>) m = Some m'"
    using run v by (auto simp: at_node_def split: bind_splits)
  have ok: "m_nRobotID rg' = x" "robot_fine g rg'" using f [OF _ rg'(1)] v robotsD(3) [OF r] by auto
  obtain m1 where "upd_node i (\<lambda>n. n\<lparr>n_val := rg'\<rparr>) m = Some m1" "robots (m1, T) (e(x \<mapsto> rg'), cap)"
    using write_game [OF r i ok(1)] by blast
  then have "robots (m', T) (e(x \<mapsto> rg'), cap)" using rg'(2) by simp
  moreover have "\<forall>y rg. (e(x \<mapsto> rg')) y = Some rg \<longrightarrow> robot_fine g rg" using others ok(2) by simp
  ultimately show ?thesis unfolding server_ok_def by blast
qed

lemma on_robot_ok:
  assumes r: "robots (m, T) (e, cap)" and x: "0 \<le> x" and others: "\<forall>y rg. y \<noteq> x \<longrightarrow> e y = Some rg \<longrightarrow> robot_fine g rg"
    and f: "\<And>rg t rg'. e x = Some rg \<Longrightarrow> f (if upd then rg\<lparr>m_nLastTime := now\<rparr> else rg) = Some rg' \<Longrightarrow> m_nRobotID rg' = m_nRobotID rg \<and> robot_fine g rg'"
    and run: "on_robot x upd now f m = Some m'"
  shows "server_ok g (m', T)"
proof (cases "e x")
  case None
  then have "m' = m" using get_none(1) [OF r x None, of upd now] run by (simp add: on_robot_def)
  moreover have "\<forall>y rg. e y = Some rg \<longrightarrow> robot_fine g rg" using others None by (metis option.distinct(1))
  ultimately show ?thesis using r unfolding server_ok_def by blast
next
  case (Some rg)
  let ?rg = "if upd then rg\<lparr>m_nLastTime := now\<rparr> else rg"
  obtain i m1 where g: "Robots_Get x upd now m = Some (Some i, m1)" "robots (m1, T) (e(x \<mapsto> ?rg), cap)" "robot_at m1 i x (e(x \<mapsto> ?rg))"
    using get_some(1) [OF r x Some, of upd now] by blast
  show ?thesis
  proof (rule at_node_ok [OF g(2,3)])
    show "\<forall>y rg'. y \<noteq> x \<longrightarrow> (e(x \<mapsto> ?rg)) y = Some rg' \<longrightarrow> robot_fine g rg'" using others by simp
    show "at_node i f m1 = Some m'" using run g(1) by (simp add: on_robot_def)
    show "m_nRobotID r' = m_nRobotID q \<and> robot_fine g r'" if "(e(x \<mapsto> ?rg)) x = Some q" "f q = Some r'" for q r'
    proof -
      have q: "q = ?rg" using that(1) by simp
      then show ?thesis using f [OF Some, of r'] that(2) by simp
    qed
  qed
qed

lemma task_begin_ok:
  assumes g: "playable g" "env_games env GAME_TYPE_NOLIMIT_2P = Some g"
    and s: "server_ok g s" and x: "0 \<le> x" and run: "task_begin env raw x pb s = Some s'"
  shows "server_ok g s'"
proof (cases "x = 0")
  case True
  then show ?thesis using s run by (cases s) (simp add: task_begin_def)
next
  case x0: False
  obtain m T where mT: "s = (m, T)" by (cases s)
  obtain e cap where r: "robots (m, T) (e, cap)" and ok: "\<forall>y rg. e y = Some rg \<longrightarrow> robot_fine g rg" using s mT by (auto simp: server_ok_def)
  have starts: "m_nRobotID rg' = m_nRobotID rg \<and> robot_fine g rg'" if "GameBeginNotify env pb rg = Some rg'" "m_nRobotID rg \<noteq> 0" "robot_fine g rg" for rg rg'
    using GameBegin_live [OF that(1) g(2,1) that(2)] serve_id [of env "BeginReq pb" rg rg'] that(1,3) by (auto simp: serve_def robot_fine_def)
  show ?thesis
  proof (cases "e x")
    case (Some rg)
    have id: "m_nRobotID rg \<noteq> 0" "robot_fine g rg" using robotsD(3) [OF r Some] x0 ok Some by auto
    obtain i m1 where gt: "Robots_Get x True (env_now env) m = Some (Some i, m1)" "robots (m1, T) (e(x \<mapsto> rg\<lparr>m_nLastTime := env_now env\<rparr>), cap)"
      "robot_at m1 i x (e(x \<mapsto> rg\<lparr>m_nLastTime := env_now env\<rparr>))"
      using get_some(1) [OF r x Some, of True "env_now env"] by auto
    obtain m2 where m2: "at_node i (GameBeginNotify env pb) m1 = Some m2" "s' = (m2, T)"
      using run mT x0 gt(1) by (auto simp: task_begin_def split: bind_splits)
    have "server_ok g (m2, T)"
      by (rule at_node_ok [OF gt(2,3) _ _ m2(1)]) (use ok starts id in \<open>auto\<close>)
    then show ?thesis using m2(2) by simp
  next
    case None
    let ?g = "(Reset raw)\<lparr>m_nRobotID := x\<rparr>" let ?now = "env_now env"
    obtain s2 where st: "robots_step (RAdd ?g ?now) (m, T) = Some (fst (robots_spec (RAdd ?g ?now) (e, cap)), s2)"
      "robots s2 (snd (robots_spec (RAdd ?g ?now) (e, cap)))"
      using add_step [OF r, of ?g ?now] x by auto
    obtain c ts m2 where add: "Robots_Add ?g ?now m = Some (c, ts, m2)" "s2 = (m2, timers_after ts T)"
      "fst (robots_spec (RAdd ?g ?now) (e, cap)) = RCode c"
      using st(1) by (auto simp: robots_step_def split: bind_splits)
    have get: "Robots_Get x True ?now m = Some (None, m)" by (rule get_none(1) [OF r x None])
    show ?thesis
    proof (cases "c = 0")
      case False
      then have "s' = s2" using run mT x0 get add(1,2) by (simp add: task_begin_def)
      moreover have "snd (robots_spec (RAdd ?g ?now) (e, cap)) = (e, cap)" using add(3) False by (auto simp: robots_spec_def split: if_splits)
      ultimately show ?thesis using st(2) ok unfolding server_ok_def by metis
    next
      case True
      then have e2: "snd (robots_spec (RAdd ?g ?now) (e, cap)) = (e(x \<mapsto> ?g\<lparr>m_nLastTime := ?now\<rparr>), cap)"
        using add(3) by (auto simp: robots_spec_def split: if_splits)
      have new: "robot_fine g (?g\<lparr>m_nLastTime := ?now\<rparr>)" using new_robot_idle [OF x0, of raw] by (simp add: robot_fine_def)
      obtain m3 where m3: "on_robot x True ?now (GameBeginNotify env pb) m2 = Some m3" "s' = (m3, timers_after ts T)"
        using run mT x0 get add(1) True by (auto simp: task_begin_def split: bind_splits)
      have "server_ok g (m3, timers_after ts T)"
        by (rule on_robot_ok [OF st(2) [unfolded e2 add(2)] x _ _ m3(1)]) (use ok starts x0 new in \<open>auto\<close>)
      then show ?thesis using m3(2) by simp
    qed
  qed
qed


lemma serve_robot_ok:
  assumes g: "playable g" "env_games env GAME_TYPE_NOLIMIT_2P = Some g" "named_player rq" "GetCfrServer (env_conf env) [] = None"
    and s: "server_ok g (m, T)" and x: "0 \<le> x" and run: "on_robot x True now (serve env rq) m = Some m'"
  shows "server_ok g (m', T)"
proof -
  obtain e cap where r: "robots (m, T) (e, cap)" and ok: "\<forall>y rg. e y = Some rg \<longrightarrow> robot_fine g rg" using s by (auto simp: server_ok_def)
  show ?thesis
  proof (rule on_robot_ok [OF r x _ _ run])
    show "\<forall>y rg. y \<noteq> x \<longrightarrow> e y = Some rg \<longrightarrow> robot_fine g rg" using ok by blast
    show "m_nRobotID rg' = m_nRobotID rg \<and> robot_fine g rg'"
      if rg: "e x = Some rg" and run: "serve env rq (if True then rg\<lparr>m_nLastTime := now\<rparr> else rg) = Some rg'" for rg rg'
    proof -
      have run: "serve env rq (rg\<lparr>m_nLastTime := now\<rparr>) = Some rg'" using run by simp
      have "robot_fine g (rg\<lparr>m_nLastTime := now\<rparr>)" using ok rg by simp
      then show ?thesis using serve_live [OF g(1) _ g(2,3) run] serve_idle [OF g(1) _ g(2-4) run] serve_id [OF run] by (auto simp: robot_fine_def)
    qed
  qed
qed

lemma timeout_fine:
  "robot_fine g rg \<Longrightarrow> robot_fine g (CheckRunGameTimeout env rg)" "m_nRobotID (CheckRunGameTimeout env rg) = m_nRobotID rg"
  by (auto simp: CheckRunGameTimeout_def robot_fine_def robot_live_def [of g rg])

lemma task_timer_ok:
  assumes s: "server_ok g s" and x: "0 \<le> x" and run: "task_timer env limit x s = Some s'"
  shows "server_ok g s'"
proof -
  obtain m T where mT: "s = (m, T)" by (cases s)
  obtain e cap where r: "robots (m, T) (e, cap)" and ok: "\<forall>y rg. e y = Some rg \<longrightarrow> robot_fine g rg" using s mT by (auto simp: server_ok_def)
  obtain late where late: "Robots_IsTimeOut x (env_now env) limit m = Some late" using run mT by (auto simp: task_timer_def split: bind_splits)
  show ?thesis
  proof (cases late)
    case True
    obtain m' where m': "Robots_Del x m = Some (if e x = None then -99 else 0, [Detach x], m')" "robots (m', T - {x}) (e(x := None), cap)"
      using del_step [OF r x] by (elim exE conjE)
    have "s' = (m', T - {x})" using run mT late True m'(1) by (simp add: task_timer_def timers_after_def)
    moreover have "\<forall>y rg. (e(x := None)) y = Some rg \<longrightarrow> robot_fine g rg" using ok by (simp split: if_splits)
    ultimately show ?thesis using m'(2) unfolding server_ok_def by blast
  next
    case False
    then obtain m' where m': "on_robot x False (env_now env) (\<lambda>g. Some (CheckRunGameTimeout env g)) m = Some m'" "s' = (m', T)"
      using run mT late by (auto simp: task_timer_def split: bind_splits)
    have "server_ok g (m', T)"
      by (rule on_robot_ok [OF r x _ _ m'(1)]) (use ok timeout_fine in \<open>auto\<close>)
    then show ?thesis using m'(2) by simp
  qed
qed

lemma task_ok:
  assumes g: "playable g" "env_games env GAME_TYPE_NOLIMIT_2P = Some g" "named_player rq" "GetCfrServer (env_conf env) [] = None"
    and s: "server_ok g s" and x: "0 \<le> x" and run: "task env limit raw x rq s = Some s'"
  shows "server_ok g s'"
proof -
  obtain m T where mT: "s = (m, T)" by (cases s)
  have serve: "server_ok g s'" if "on_robot x True (env_now env) (serve env rq) m \<bind> (\<lambda>m'. Some (m', T)) = Some s'"
    using that serve_robot_ok [OF g s [unfolded mT] x] by (auto split: bind_splits)
  show ?thesis
  proof (cases rq)
    case (BeginReq pb)
    then show ?thesis using task_begin_ok [OF g(1,2) s x, of raw pb s'] run by (simp add: task_def)
  next
    case TimeoutReq
    then show ?thesis using task_timer_ok [OF s x, of env limit s'] run by (simp add: task_def)
  qed (use serve run s mT in \<open>auto simp: task_def split: if_splits\<close>)
qed

definition server_start :: "Game \<times> robot_server \<Rightarrow> bool" where
  "server_start = (\<lambda>(g, s). playable g \<and> server_ok g s)"

definition server_step :: "Game \<times> robot_server \<Rightarrow> Game \<times> robot_server \<Rightarrow> bool" where
  "server_step = (\<lambda>(g, s) (g', s'). g' = g \<and>
     (\<exists>env limit raw x rq. env_games env GAME_TYPE_NOLIMIT_2P = Some g \<and> GetCfrServer (env_conf env) [] = None \<and> named_player rq \<and> 0 \<le> x \<and>
        task env limit raw x rq s = Some s'))"

interpretation server: inv_machine server_start server_step server_start
proof
  fix a b assume "server_start a" "server_step a b"
  then show "server_start b" using task_ok by (auto simp: server_start_def server_step_def)
qed simp

text \<open>Requests as the theorem admits them: they name the player who acts and the robot by a nonnegative number, the no-limit game is loaded, and no
  strategy server is configured under the empty name.\<close>

definition good_request :: "Game \<Rightarrow> server_env \<times> int \<times> CRunGame \<times> int \<times> request \<Rightarrow> bool" where
  "good_request g = (\<lambda>(env, limit, raw, x, rq). env_games env GAME_TYPE_NOLIMIT_2P = Some g \<and> GetCfrServer (env_conf env) [] = None \<and> named_player rq \<and> 0 \<le> x)"

lemma task_all_steps:
  assumes "task_all rs s = Some s'" "\<forall>r \<in> set rs. good_request g r"
  shows "(server_step ^^ length rs) (g, s) (g, s')"
  using assms
proof (induction rs arbitrary: s)
  case (Cons r rs)
  obtain env limit raw x rq where r: "r = (env, limit, raw, x, rq)" by (cases r) auto
  obtain s1 where 1: "task env limit raw x rq s = Some s1" "task_all rs s1 = Some s'" using Cons.prems(1) r by (auto split: bind_splits)
  moreover have "good_request g (env, limit, raw, x, rq)" using Cons.prems(2) r by simp
  ultimately have "server_step (g, s) (g, s1)" unfolding server_step_def good_request_def prod.case by blast
  moreover have "(server_step ^^ length rs) (g, s1) (g, s')" using Cons.IH [OF 1(2)] Cons.prems(2) by simp
  ultimately have "(server_step ^^ Suc (length rs)) (g, s) (g, s')" by (rule relpowp_Suc_I2)
  then show ?case by simp
qed simp

section \<open>The property\<close>

text \<open>C6: from the start of the server on, whatever requests of the table server, timers and answers of the strategy servers come in, for whichever robots, in
  whatever order and with whatever outcome short of undefined behaviour, every robot in the table is found under its own number, a timer has been asked for it, and either
  it is in a hand at a state that the betting engine can reach, and if it waits for an answer of the strategy server it is the one to move, or
  it has never begun a hand, because no strategy server could be set, and has a zeroed state in which at most cards have been stored.
  The hypotheses: the no-limit game is loaded and playable, robots are named by nonnegative numbers, action requests name a player,
  no strategy server has the empty name, and the table has been initialised with a capacity its buckets admit.\<close>

theorem server_keeps_hands:
  assumes "playable g" "nodes mem = []" "bucketCnt \<noteq> 0" "sz \<le> 50 * 10000" "sz \<le> 5 * bucketCnt"
    "Robots_Init sz bucketCnt fresh mem = Some (False, m0)" "\<forall>r \<in> set rs. good_request g r" "task_all rs (m0, {}) = Some (m, T)" "0 \<le> x"
  shows "Robots_Get x False now m = Some (None, m) \<or>
    (\<exists>i rg. Robots_Get x False now m = Some (Some i, m) \<and> i < length (nodes m) \<and> n_val (nodes m ! i) = rg \<and> x \<in> T \<and> m_nRobotID rg = x \<and>
       (reachable g (rg_state rg) \<and> viewingPlayer (m_oMatchState rg) < 2 \<and>
          (m_nRunState rg = GRS_WAIT_ROBOT_ACTION \<longrightarrow> GetCurrentPlayerID (\<lambda>_. Some g) rg = x)
        \<or> m_szCfrModel rg = [] \<and> m_nPlayerID rg = 0 \<and> (\<exists>b h. rg_state rg = zero_state\<lparr>boardCards := b, holeCards := h\<rparr>)))"
proof -
  have "robots (m0, {}) (Map.empty, unat sz)" using robots_init [OF assms(2-5), of fresh "{}"] assms(6) by auto
  then have "server_start (g, m0, {})" using assms(1) unfolding server_start_def server_ok_def by auto
  then have "server_start (g, m, T)" by (rule server.run_inv) (rule task_all_steps [OF assms(8,7)])
  then obtain e cap where r: "robots (m, T) (e, cap)" "\<forall>x rg. e x = Some rg \<longrightarrow> robot_fine g rg" by (auto simp: server_start_def server_ok_def)
  show ?thesis
  proof (cases "e x")
    case None
    then show ?thesis using get_none(1) [OF r(1) assms(9) None] by blast
  next
    case (Some rg)
    then have same: "e(x \<mapsto> rg) = e" by (simp add: map_upd_triv)
    obtain i m' where i: "Robots_Get x False now m = Some (Some i, m')" "robot_at m' i x e"
      using get_some(1) [OF r(1) assms(9) Some, of False now] same by auto
    have m: "m' = m" using i(1) by (auto simp: Robots_Get_def split: bind_splits sum.splits)
    note v = robot_at_val [OF i(2)]
    have "x \<in> T" using robotsD(4) [OF r(1)] Some by blast
    moreover have "m_nRobotID rg = x" using robotsD(3) [OF r(1) Some] by simp
    moreover have "robot_fine g rg" using r(2) Some by blast
    ultimately show ?thesis using i(1) m v Some
      by (intro disjI2 exI [of _ i] exI [of _ rg]) (auto simp: robot_fine_def robot_live_def robot_ok_def robot_idle_def with_cards_def)
  qed
qed


text \<open>Two robots begin a hand; the player raises against the first, which is asked for its action, gets the answer of the strategy server and calls.
  A third robot cannot begin its hand because no strategy server is connected.\<close>

definition sample_answer :: cfr_answer where
  "sample_answer = \<lparr>ans_hand = 7, ans_round = 0, ans_seq = 1, ans_ok = True, ans_resp = ''resp'',
     ans_info = ''bc:99,99,99,99,99  hc:00,00, st:0, bet_to:300, num_bet:-1, seq:r300''\<rparr>"

definition sample_requests :: "(server_env \<times> int \<times> CRunGame \<times> int \<times> request) list" where
  "sample_requests = [(sample_env, 100, fresh_robot, 77, BeginReq sample_begin), (sample_env, 100, fresh_robot, 78, BeginReq sample_begin),
     (sample_env, 100, fresh_robot, 77, ActionReq 5 2 250), (sample_env, 100, fresh_robot, 77, RobotActionReq ''t'' 4 9),
     (sample_env, 100, fresh_robot, 78, QueryStateReq), (sample_env, 100, fresh_robot, 77, AnswerReq sample_answer),
     (sample_env, 100, fresh_robot, 78, TimeoutReq),
     (sample_env\<lparr>env_conn := (\<lambda>n. False)\<rparr>, 100, fresh_robot, 79, BeginReq sample_begin)]"

definition sample_server :: robot_server where
  "sample_server = the (task_all sample_requests (snd (the (Robots_Init 3 2 blank_robot_node no_robots)), {}))"

definition sample_facts :: "robot_server \<Rightarrow> nat option option \<times> nat \<times> string \<times> string" where
  "sample_facts s = (map_option fst (Robots_Get 77 False 0 (fst s)), numActions (rg_state (n_val (nodes (fst s) ! 2))) ! 0,
     m_szCfrModel (n_val (nodes (fst s) ! 2)), m_szCfrModel (n_val (nodes (fst s) ! 0)))"

lemma sample_server_runs:
  "map_option sample_facts (task_all sample_requests (snd (the (Robots_Init 3 2 blank_robot_node no_robots)), {})) = Some (Some (Some 2), 2, ''model'', [])"
  "map_option fst (Robots_Init 3 2 blank_robot_node no_robots) = Some False"
  by code_simp+

theorem server_keeps_hands_witness:
  "reachable sample_game (rg_state (n_val (nodes (fst sample_server) ! 2))) \<and>
    numActions (rg_state (n_val (nodes (fst sample_server) ! 2))) ! 0 = 2"
proof -
  obtain m0 where m0: "Robots_Init 3 2 blank_robot_node no_robots = Some (False, m0)" using sample_server_runs(2) by auto
  obtain m T where s: "task_all sample_requests (m0, {}) = Some (m, T)" "sample_facts (m, T) = (Some (Some 2), 2, ''model'', [])"
    using sample_server_runs(1) m0 by auto
  have ss: "sample_server = (m, T)" using s(1) m0 by (simp add: sample_server_def)
  have g: "map_option fst (Robots_Get 77 False 0 m) = Some (Some 2)" "numActions (rg_state (n_val (nodes m ! 2))) ! 0 = 2"
    "m_szCfrModel (n_val (nodes m ! 2)) = ''model''" using s(2) by (simp_all add: sample_facts_def)
  have "nodes no_robots = []" "(2 :: 32 word) \<noteq> 0" "(3 :: 32 word) \<le> 50 * 10000" "(3 :: 32 word) \<le> 5 * 2" by (simp_all add: no_robots_def)
  note init = playable_sample_game this m0
  have "\<forall>r \<in> set sample_requests. good_request sample_game r"
    by (simp add: sample_requests_def good_request_def sample_env_def named_player_def sample_conf_def GetCfrServer_def)
  then show ?thesis using server_keeps_hands [OF init _ s(1), of 77 0] g unfolding ss by auto
qed


end
