(* ===== verification/Spec2Isabelle.thy ===== *)
theory Spec2Isabelle
  imports Game_Manager Gamedef_Props Hand_Order Hash_Map Robot_Server
begin

text \<open>
  A verification of the game logic of MasterAI, a heads-up poker robot.

  \<^bold>\<open>The program.\<close>  The repository holds a poker engine in C (\<open>src/Common/acpc\<close>, derived from the server of the annual computer
  poker competition), a game server in C++ that plays robots against the players of a table server
  (\<open>src/APGIServer\<close>), a server of precomputed strategies (\<open>src/CfrServer\<close>), the interface to these strategies
  (\<open>src/Common/SBotInterface\<close>), excerpts of a training program and of a room server, and libraries.  A request of the
  table server finds its robot in a hash map and is carried out on the robot's \<open>CRunGame\<close>, which keeps the state of
  the hand (\<open>MatchState\<close>) and changes it with the engine: \<open>isValidAction\<close> and \<open>doAction\<close> for the betting, \<open>valueOfState\<close> for the
  result.  Which raises are allowed comes from the betting tree, a file that is loaded at start-up and looked up by
  the text of the action sequence.

  \<^bold>\<open>Conventions.\<close>  A C struct is a record with the field names of the source (with a prefix or another name where HOL has
  the name), an enum a datatype, an array of fixed size a list of that length.  \<open>int32_t\<close> is \<open>int\<close> with every operation that can
  overflow checked by \<open>chk32\<close>, \<open>uint8_t\<close> is \<open>nat\<close> with the truncation written out, and the generator, the hash maps and the
  card codes use words.  A function that C leaves undefined on some input (an index out of range, a signed overflow, a \<open>NULL\<close>
  pointer, a failed \<open>assert\<close>, an exception that nobody catches) returns an \<open>option\<close>, and \<open>None\<close> is that case; error codes are
  part of the result.  So a theorem that says \<open>\<exists>s. f x = Some s\<close> excludes undefined behaviour.

  \<^bold>\<open>Engine.\<close>
  \<^item> \<open>Prelude\<close>: checked array access and arithmetic, counting and maximum loops, distances between seats.
  \<^item> \<open>Game_Types\<close>: the types of \<open>game.h\<close>; \<open>wf_game\<close> is what the sanity checks of \<open>readGame\<close> and the betting need.
  \<^item> \<open>Betting\<close>: the betting functions of \<open>game.c\<close> from \<open>bcStart\<close> to \<open>doAction\<close>, the latter in the five stages of its body.
  \<^item> \<open>Turn_Order\<close>, \<open>Betting_Inv\<close>, \<open>Betting_Safety\<close>: the invariants: who is next, how much is in the pot, that the history
    explains the counters, that no operation overflows.
  \<^item> \<open>Betting_Machine\<close>: a hand as a state machine; \<open>reachable\<close> is the set of states of a hand.  The locales \<open>inv_machine\<close>,
    \<open>bounded_machine\<close> and \<open>live_machine\<close> give invariants, termination and progress; \<open>hand\<close> interprets them.  The games are
    \<open>playable\<close>: beyond the checks of \<open>readGame\<close>, blinds are not negative, somebody can act after the blinds, no-limit stacks are below \<open>2^30\<close>,
    limit games have equal stacks and sizes that cannot overflow.
  \<^item> \<open>Betting_Props\<close>: valid actions are defined and keep the money invariant, the turn passes to the next player who can act,
    a hand takes at most 256 actions and can always be finished, the effect of an action, what holds when a round is over.  And what
    happens in games that are not playable: nobody can act, a limit raise lowers the bet, a raise to \<open>2^30\<close> is accepted and overflows.
  \<^item> \<open>Rng\<close>: \<open>rng.c\<close>; the numbers are those of the Mersenne twister recurrence.  \<open>Deal\<close>: \<open>dealCards\<close> deals distinct cards of the deck.
  \<^item> \<open>Hand_Tables\<close>, \<open>Hand_Eval\<close>: \<open>evalHandTables\<close>, the tables as blocks or as runs of equal entries, and \<open>rankCardset\<close>.
  \<^item> \<open>Rank_Lists\<close>, \<open>Rank_Scan\<close>, \<open>Table_Walk\<close>, \<open>Hand_Table_Facts\<close>: what every entry of the tables is.  The locale \<open>table_scan\<close> walks over a table and
    the sets of ranks in parallel, so that 8192 entries are checked by one pass of evaluation.
  \<^item> \<open>Hand_Class\<close>, \<open>Hand_Keys\<close>, \<open>Hand_Value\<close>: the categories of hands and the key of a hand, its category with the ranks that decide; the
    locale \<open>key_value\<close> states what a numbering of keys must satisfy to order hands, and \<open>rankCardset\<close> is such a numbering.
  \<^item> \<open>Holdem_Evaluator\<close>, \<open>Holdem_Counts\<close>, \<open>Holdem_Order\<close>: the evaluator of \<open>SBotInterface/src/hand_evaluator.cpp\<close>, which counts ranks and suits, is
    another such numbering.  \<open>Hand_Order\<close>: \<open>rankHand\<close> compares hands as poker does, and the two evaluators agree.
  \<^item> \<open>Showdown\<close>, \<open>Showdown_Props\<close>: \<open>valueOfState\<close> with its loop over side pots, equal to the payoff counted chip by chip; heads-up
    results add up to zero.  Doubles are exact rationals there.
  \<^item> \<open>Text_IO\<close>, \<open>Card_IO\<close>, \<open>Betting_IO\<close>, \<open>State_IO\<close>: reading and printing of cards, actions and states.  \<open>Replay\<close>: the engine
    only looks at the part of a state that belongs to the hand.  \<open>State_Round_Trip\<close>: what \<open>printState\<close> writes, \<open>readState\<close> reads.
  \<^item> \<open>Gamedef_IO\<close>, \<open>Gamedef_Lines\<close>, \<open>Gamedef_Props\<close>: game definition files; what a file must hold for its game to be accepted; the locale \<open>scanner\<close> states once what a list of printed numbers
    reads back as, for signed and for byte fields.

  \<^bold>\<open>Hash maps of shstd\<close> (\<open>shhashmap.h\<close>, \<open>shhashmap1.h\<close>).
  \<^item> \<open>Hash_Nodes\<close>: nodes in memory, chains, and the loops that the two classes share.  The loops carry the number of nodes as fuel;
    a chain without repetition is shorter.
  \<^item> \<open>Hash_Store\<close>, \<open>Hash_Pool\<close>: what the chains mean; the locale \<open>node_pool\<close> is the contract of a free list (\<open>PopNode\<close>, \<open>PushNode\<close>), and the
    effect of the operations is proved over it.
  \<^item> \<open>Hash_Spec\<close>: the finite map that a hash map promises and the locale \<open>refinement\<close> for sequences of operations.
  \<^item> \<open>Hash_Map\<close>, \<open>Hash_Map1\<close>: \<open>SHHaspMap\<close> and \<open>CTHaspMap\<close>, interpretations of both locales; destructors.

  \<^bold>\<open>Game server\<close> (\<open>src/APGIServer\<close>).
  \<^item> \<open>Game_Manager\<close>: \<open>game_manager.cpp\<close>; every game in use has passed the checks of \<open>readGame\<close>.
  \<^item> \<open>Betting_Tree\<close>: \<open>BettingTree.cpp\<close>; a well-formed file is loaded and looked up completely.
  \<^item> \<open>Match_Info\<close>, \<open>Action_Text\<close>: \<open>matchstate_convertor.cpp\<close> and the text form of \<open>ActionInfo\<close> in \<open>Def.h\<close>.
  \<^item> \<open>Run_Game\<close>: \<open>CRunGame\<close> of \<open>run_game.cpp\<close> with the card codes of \<open>define.cpp\<close>.
  \<^item> \<open>Strategy_Server\<close>: how a robot gets its actions: the choice of a strategy server when a hand begins (\<open>SetCfrModel\<close>, \<open>apgi_conf.cpp\<close>), the
    request for an action (\<open>DoQueryRobotAction\<close>, \<open>RequestActionFromCfr\<close>) and the checks of the answer.  The parameters of the strategy, the key
    of a decision and the action that follows from an answer are arguments.
  \<^item> \<open>Table_Requests\<close>: the handlers of \<open>apg_task.cpp\<close> and the answer of the strategy server (\<open>cfr_task.cpp\<close>) on one robot: a robot that is in a hand
    stays at a \<open>reachable\<close> state (locale \<open>inv_machine\<close> again), one that has never begun a hand stays zeroed apart from its cards; when an
    action is accepted, that a result is booked once.  \<open>SaveHistory\<close> reads past an array in every game with four rounds and is undefined there.
  \<^item> \<open>Robot_Table\<close>: \<open>run_game_hashmap.cpp\<close>, the table of robots with the calls of the timer manager (whose outcome the code ignores), over the
    same \<open>node_pool\<close>; it refines a finite map for nonnegative robot numbers (locale \<open>guarded_refinement\<close>).
  \<^item> \<open>Robot_Server\<close>: the handlers on the table, as the task threads of \<open>apgi_svr.cpp\<close> call them.  For requests that name a player and a robot by a
    nonnegative number, every robot in the table either is at a state of a hand that the engine can reach, so that all theorems about the engine
    hold for it, and waits for its strategy server only when it is the one to move, or has never begun a hand because no strategy server
    could be set.

  \<^bold>\<open>Errors found\<close> are theorems too: a limit raise that lowers the bet, chips that vanish in a side pot, writes past \<open>raiseSize\<close> and
  \<open>boardCards\<close>, an unreadable printed game, \<open>printState\<close> with a small buffer, a hash map that deletes a node twice, a fold after the
  showdown, a result that is booked twice, an action sequence that is cut, robot numbers that lead outside the table, a no-limit raise that
  overflows, a successor in the betting tree that is too long for the log buffer.

  \<^bold>\<open>Not modelled.\<close>  Network, threads and locks, protobuf, Redis and configuration (their results are arguments of the model); the
  robot's decision (the rest of \<open>SBotInterface\<close>, \<open>param_handle.cpp\<close>, \<open>CfrServer\<close>), which works on strategy files that are not in the repository and on
  floating-point probabilities; the table of clients, a copy of the table of robots that the server never initialises;
  \<open>highlight_card.cpp\<close>; the excerpts of the training program and the room server, whose base classes are not in the
  repository; generated and third-party code.
\<close>

end
